(* ===== verification/Prelude.thy ===== *)
theory Prelude
  imports Main "HOL-Library.Word" "HOL-Library.Sublist"
begin

text \<open>
  Shared vocabulary of the development: the types that stand for the C types of the sources,
  results that carry an error, C strings and their comparison functions, and decimal printing and
  reading. The component theories import this theory and nothing below is specific to one of them.

  \<^item> a C \<^verbatim>\<open>char\<close> is a HOL \<^typ>\<open>char\<close> (eight bits), a byte buffer is a list of them;
  \<^item> \<^verbatim>\<open>uint32_t\<close>, \<^verbatim>\<open>size_t\<close> and \<^verbatim>\<open>unsigned int\<close> of the wasm32 target are \<^typ>\<open>32 word\<close>;
  \<^item> a call that may fail is a sum: \<^term>\<open>Inl e\<close> is the error, \<^term>\<open>Inr v\<close> the result.
\<close>

unbundle bit_operations_syntax

named_theorems cstr_simps \<open>rewriting of the C string functions\<close>
named_theorems bind_simps \<open>rewriting of sequenced fallible calls\<close>

section \<open>Machine types\<close>

type_synonym bytes = "char list"
type_synonym u32 = "32 word"

abbreviation nul :: char where
  "nul \<equiv> CHR 0x00"

definition byte_of :: "u32 \<Rightarrow> char" where
  "byte_of w = char_of (unat (w AND 255))"

definition word_of_byte :: "char \<Rightarrow> u32" where
  "word_of_byte c = of_nat (of_char c)"

lemma and_255_take_bit: "(w :: u32) AND 255 = take_bit 8 w"
  by (simp add: take_bit_eq_mask mask_eq_exp_minus_1)

lemma unat_and_255: "unat ((w :: u32) AND 255) = unat w mod 256"
  by (simp add: and_255_take_bit take_bit_eq_mod unat_mod)

lemma unat_u32_less: "unat (w :: u32) < 4294967296"
  using unsigned_less [of w, where 'a = nat] by simp

lemma unat_of_nat_u32: "n < 4294967296 \<Longrightarrow> unat (word_of_nat n :: u32) = n"
  by (simp add: unat_of_nat)

lemma of_char_less_256: "(of_char c :: nat) < 256"
  by simp

lemma unat_word_of_byte [simp]: "unat (word_of_byte c) = of_char c"
proof -
  have "(of_char c :: nat) < 2 ^ 32"
    by (rule order_less_trans [OF of_char_less_256]) simp
  then show ?thesis
    by (simp add: word_of_byte_def unat_of_nat)
qed

lemma word_of_byte_byte_of [simp]: "word_of_byte (byte_of w) = w AND 255"
  by (simp add: word_of_byte_def byte_of_def unat_and_255 flip: unat_and_255)

lemma byte_of_word_of_byte [simp]: "byte_of (word_of_byte c) = c"
  by (simp add: byte_of_def unat_and_255)

section \<open>Sequencing fallible calls\<close>

definition rbind :: "'e + 'a \<Rightarrow> ('a \<Rightarrow> 'e + 'b) \<Rightarrow> 'e + 'b" where
  "rbind r f = (case r of Inl e \<Rightarrow> Inl e | Inr x \<Rightarrow> f x)"

lemma rbind_Inl [simp, bind_simps]: "rbind (Inl e) f = Inl e"
  by (simp add: rbind_def)

lemma rbind_Inr [simp, bind_simps]: "rbind (Inr x) f = f x"
  by (simp add: rbind_def)

lemma rbind_eq_Inr_iff [bind_simps]: "rbind r f = Inr y \<longleftrightarrow> (\<exists>x. r = Inr x \<and> f x = Inr y)"
  by (cases r) auto

lemma rbind_assoc: "rbind (rbind r f) g = rbind r (\<lambda>x. rbind (f x) g)"
  by (cases r) auto

text \<open>Recursive calls under a case distinction on a result, for \<^theory_text>\<open>partial_function (option)\<close>.\<close>

lemma mono_case_sum [partial_function_mono]:
  assumes "\<And>x. mono_option (\<lambda>f. F x f)" "\<And>y. mono_option (\<lambda>f. G y f)"
  shows "mono_option (\<lambda>f. case s of Inl x \<Rightarrow> F x f | Inr y \<Rightarrow> G y f)"
  using assms by (cases s) simp_all

lemma mono_case_option [partial_function_mono]:
  assumes "mono_option (\<lambda>f. F f)" "\<And>y. mono_option (\<lambda>f. G y f)"
  shows "mono_option (\<lambda>f. case s of None \<Rightarrow> F f | Some y \<Rightarrow> G y f)"
  using assms by (cases s) simp_all

section \<open>C strings\<close>

text \<open>A C string read from a byte buffer ends before the first NUL byte.\<close>

definition cstr :: "bytes \<Rightarrow> string" where
  "cstr bs = takeWhile (\<lambda>c. c \<noteq> nul) bs"

definition c_string :: "string \<Rightarrow> bool" where
  "c_string s \<longleftrightarrow> nul \<notin> set s"

lemma cstr_id [simp, cstr_simps]: "c_string s \<Longrightarrow> cstr s = s"
  by (auto simp: cstr_def c_string_def takeWhile_eq_all_conv)

lemma cstr_append_nul [simp, cstr_simps]: "c_string s \<Longrightarrow> cstr (s @ nul # r) = s"
  by (auto simp: cstr_def c_string_def takeWhile_tail)

text \<open>\<^verbatim>\<open>strncmp(a, b, n) == 0\<close> for strings without NUL bytes.\<close>

fun strncmp_eq :: "string \<Rightarrow> string \<Rightarrow> nat \<Rightarrow> bool" where
  "strncmp_eq a b 0 = True"
| "strncmp_eq [] [] (Suc n) = True"
| "strncmp_eq (x # xs) (y # ys) (Suc n) = (x = y \<and> strncmp_eq xs ys n)"
| "strncmp_eq a b (Suc n) = False"

lemma strncmp_eq_take [cstr_simps]: "strncmp_eq a b n \<longleftrightarrow> take n a = take n b"
  by (induction a b n rule: strncmp_eq.induct) auto

lemma strncmp_eq_prefix [cstr_simps]: "strncmp_eq a b (length a) \<longleftrightarrow> prefix a b"
  by (auto simp: strncmp_eq_take prefix_def) (metis append_take_drop_id)

lemma strncmp_eq_prefix_right [cstr_simps]: "strncmp_eq a b (length b) \<longleftrightarrow> prefix b a"
  by (auto simp: strncmp_eq_take prefix_def) (metis append_take_drop_id)

text \<open>\<^verbatim>\<open>isspace\<close> in the C locale.\<close>

definition isspace :: "char \<Rightarrow> bool" where
  "isspace c \<longleftrightarrow> c \<in> {CHR '' '', CHR 0x09, CHR 0x0A, CHR 0x0B, CHR 0x0C, CHR 0x0D}"

section \<open>Decimal numbers\<close>

definition digit_char :: "nat \<Rightarrow> char" where
  "digit_char d = char_of (48 + d)"

definition digit_val :: "char \<Rightarrow> nat option" where
  "digit_val c = (let n = of_char c in if 48 \<le> n \<and> n \<le> 57 then Some (n - 48) else None)"

fun dec_nat :: "nat \<Rightarrow> string" where
  "dec_nat n = (if n < 10 then [digit_char n] else dec_nat (n div 10) @ [digit_char (n mod 10)])"

declare dec_nat.simps [simp del]

definition dec_int :: "int \<Rightarrow> string" where
  "dec_int i = (if i < 0 then CHR ''-'' # dec_nat (nat (- i)) else dec_nat (nat i))"

text \<open>Reads the longest prefix of digits, as \<^verbatim>\<open>atoi\<close> does after the sign.\<close>

fun read_dec :: "nat \<Rightarrow> string \<Rightarrow> nat" where
  "read_dec acc [] = acc"
| "read_dec acc (c # cs) =
     (case digit_val c of None \<Rightarrow> acc | Some d \<Rightarrow> read_dec (10 * acc + d) cs)"

lemma digit_val_digit_char [simp]: "d < 10 \<Longrightarrow> digit_val (digit_char d) = Some d"
  by (simp add: digit_val_def digit_char_def Let_def)

lemma read_dec_append:
  "(\<And>c. c \<in> set xs \<Longrightarrow> digit_val c \<noteq> None) \<Longrightarrow> read_dec acc (xs @ ys) = read_dec (read_dec acc xs) ys"
  by (induction xs arbitrary: acc) (simp, force split: option.splits)

lemma dec_nat_digits: "c \<in> set (dec_nat n) \<Longrightarrow> digit_val c \<noteq> None"
proof (induction n rule: dec_nat.induct)
  case (1 n)
  then show ?case
    by (subst (asm) (2) dec_nat.simps) (auto split: if_splits)
qed

lemma read_dec_dec_nat_Nil: "read_dec 0 (dec_nat n) = n"
proof (induction n rule: dec_nat.induct)
  case (1 n)
  show ?case
  proof (cases "n < 10")
    case True
    then show ?thesis by (simp add: dec_nat.simps [of n])
  next
    case False
    with "1.IH" have "read_dec 0 (dec_nat (n div 10)) = n div 10" by simp
    with False show ?thesis
      by (simp add: dec_nat.simps [of n] read_dec_append dec_nat_digits)
  qed
qed

lemma read_dec_dec_nat:
  assumes "case r of [] \<Rightarrow> True | c # _ \<Rightarrow> digit_val c = None"
  shows "read_dec 0 (dec_nat n @ r) = n"
proof -
  have "read_dec 0 (dec_nat n @ r) = read_dec n r"
    by (simp add: read_dec_append dec_nat_digits read_dec_dec_nat_Nil)
  also have "\<dots> = n" using assms by (cases r) auto
  finally show ?thesis .
qed

lemma dec_nat_nonempty [simp]: "dec_nat n \<noteq> []"
  by (subst dec_nat.simps) simp

lemma dec_nat_c_string: "c_string (dec_nat n)"
  using dec_nat_digits [of nul n] by (auto simp: c_string_def digit_val_def)

section \<open>Letter case\<close>

text \<open>\<^verbatim>\<open>strcasecmp(a, b) == 0\<close> in the C locale.\<close>

definition tolower :: "char \<Rightarrow> char" where
  "tolower c = (let n = of_char c :: nat in if 65 \<le> n \<and> n \<le> 90 then char_of (n + 32) else c)"

definition strcaseeq :: "string \<Rightarrow> string \<Rightarrow> bool" where
  "strcaseeq a b \<longleftrightarrow> map tolower a = map tolower b"

end
