(* ===== verification/CHeap.thy ===== *)
theory CHeap
  imports Prelude
begin

text \<open>
  The part of the C heap that the SAPI module uses: \<^verbatim>\<open>malloc\<close>, \<^verbatim>\<open>strdup\<close> and \<^verbatim>\<open>free\<close> on two
  kinds of blocks, strings and the nodes of the \<^verbatim>\<open>wasm_array_entry\<close> and \<^verbatim>\<open>wasm_cli_arg\<close> lists. A
  pointer is an address or \<^const>\<open>None\<close> for NULL. Reading or freeing a block that is not allocated is
  an error value, so that a theorem that a sequence of calls returns \<^const>\<open>Inr\<close> says that it has
  no use after free and no double free. Allocation never fails (the sources never test it).

  The locale \<open>allocator\<close> is the contract the clients rely on; it is interpreted on the heap model
  at the end of the theory.
\<close>

type_synonym addr = nat
type_synonym ptr = "addr option"

datatype block =
    Str string
  | Entry addr addr ptr \<comment> \<open>\<^verbatim>\<open>wasm_array_entry_t\<close>: key, value, next\<close>
  | Arg addr ptr \<comment> \<open>\<^verbatim>\<open>wasm_cli_arg_t\<close>: value, next\<close>

datatype fault = NullDeref | UseAfterFree addr | DoubleFree addr | WrongBlock addr | OutOfBounds addr

record cheap =
  blocks :: "(addr \<times> block) list"
  next_addr :: addr

definition empty_heap :: cheap where
  "empty_heap = \<lparr>blocks = [], next_addr = 0\<rparr>"

definition block_at :: "cheap \<Rightarrow> addr \<Rightarrow> block option" where
  "block_at h a = map_of (blocks h) a"

definition malloc :: "block \<Rightarrow> cheap \<Rightarrow> addr \<times> cheap" where
  "malloc b h = (next_addr h, h\<lparr>blocks := (next_addr h, b) # blocks h, next_addr := Suc (next_addr h)\<rparr>)"

definition strdup :: "string \<Rightarrow> cheap \<Rightarrow> addr \<times> cheap" where
  "strdup s h = malloc (Str s) h"

definition free :: "addr \<Rightarrow> cheap \<Rightarrow> fault + cheap" where
  "free a h = (case block_at h a of
       None \<Rightarrow> Inl (DoubleFree a)
     | Some _ \<Rightarrow> Inr (h\<lparr>blocks := filter (\<lambda>(b, _). b \<noteq> a) (blocks h)\<rparr>))"

definition load :: "addr \<Rightarrow> cheap \<Rightarrow> fault + block" where
  "load a h = (case block_at h a of None \<Rightarrow> Inl (UseAfterFree a) | Some b \<Rightarrow> Inr b)"

definition load_str :: "addr \<Rightarrow> cheap \<Rightarrow> fault + string" where
  "load_str a h = rbind (load a h) (\<lambda>b. case b of Str s \<Rightarrow> Inr s | _ \<Rightarrow> Inl (WrongBlock a))"

definition load_entry :: "addr \<Rightarrow> cheap \<Rightarrow> fault + (addr \<times> addr \<times> ptr)" where
  "load_entry a h = rbind (load a h) (\<lambda>b. case b of Entry k v n \<Rightarrow> Inr (k, v, n) | _ \<Rightarrow> Inl (WrongBlock a))"

definition load_arg :: "addr \<Rightarrow> cheap \<Rightarrow> fault + (addr \<times> ptr)" where
  "load_arg a h = rbind (load a h) (\<lambda>b. case b of Arg v n \<Rightarrow> Inr (v, n) | _ \<Rightarrow> Inl (WrongBlock a))"

text \<open>The fields are tested before they are freed: \<^verbatim>\<open>if (p != NULL) free(p)\<close>.\<close>

definition free_if :: "ptr \<Rightarrow> cheap \<Rightarrow> fault + cheap" where
  "free_if p h = (case p of None \<Rightarrow> Inr h | Some a \<Rightarrow> free a h)"

text \<open>Freeing a list of blocks in order, stopping at the first fault.\<close>

fun free_all :: "(addr \<Rightarrow> 'h \<Rightarrow> fault + 'h) \<Rightarrow> addr list \<Rightarrow> 'h \<Rightarrow> fault + 'h" where
  "free_all fr [] h = Inr h"
| "free_all fr (a # as) h = rbind (fr a h) (free_all fr as)"

lemma free_all_append: "free_all fr (xs @ ys) h = rbind (free_all fr xs h) (free_all fr ys)"
  by (induction xs arbitrary: h) (auto simp: rbind_def split: sum.splits)

section \<open>The contract of the allocator\<close>

locale allocator =
  fixes look :: "'h \<Rightarrow> addr \<Rightarrow> block option"
    and new :: "block \<Rightarrow> 'h \<Rightarrow> addr \<times> 'h"
    and dispose :: "addr \<Rightarrow> 'h \<Rightarrow> fault + 'h"
    and wf :: "'h \<Rightarrow> bool"
  assumes new_fresh: "wf h \<Longrightarrow> look h (fst (new b h)) = None"
    and new_look: "wf h \<Longrightarrow> look (snd (new b h)) a = (if a = fst (new b h) then Some b else look h a)"
    and new_wf: "wf h \<Longrightarrow> wf (snd (new b h))"
    and dispose_live: "wf h \<Longrightarrow> look h a \<noteq> None \<Longrightarrow>
      \<exists>h'. dispose a h = Inr h' \<and> wf h' \<and> (\<forall>x. look h' x = (if x = a then None else look h x))"
    and dispose_dead: "look h a = None \<Longrightarrow> dispose a h = Inl (DoubleFree a)"
begin

lemma dispose_all:
  assumes "wf h" "distinct as" "\<And>a. a \<in> set as \<Longrightarrow> look h a \<noteq> None"
  shows "\<exists>h'. free_all dispose as h = Inr h' \<and> wf h' \<and>
    (\<forall>x. look h' x = (if x \<in> set as then None else look h x))"
  using assms
proof (induction as arbitrary: h)
  case Nil
  then show ?case by simp
next
  case (Cons a as)
  from Cons.prems obtain h1 where h1: "dispose a h = Inr h1" "wf h1"
      "\<forall>x. look h1 x = (if x = a then None else look h x)"
    using dispose_live [of h a] by auto
  have "\<exists>h'. free_all dispose as h1 = Inr h' \<and> wf h' \<and>
      (\<forall>x. look h' x = (if x \<in> set as then None else look h1 x))"
    using Cons.prems h1 by (intro Cons.IH) auto
  then show ?case using h1 Cons.prems(2) by auto
qed

lemma dispose_twice:
  assumes "wf h" "dispose a h = Inr h'"
  shows "dispose a h' = Inl (DoubleFree a)"
proof -
  from assms have "look h a \<noteq> None" using dispose_dead by force
  with assms dispose_live [of h a] have "look h' a = None" by auto
  then show ?thesis by (rule dispose_dead)
qed

lemma new_live: "wf h \<Longrightarrow> look h x \<noteq> None \<Longrightarrow> look (snd (new b h)) x = look h x"
  using new_fresh [of h b] by (auto simp: new_look)

end

section \<open>The heap model fulfils the contract\<close>

definition heap_ok :: "cheap \<Rightarrow> bool" where
  "heap_ok h \<longleftrightarrow> (\<forall>a \<in> fst ` set (blocks h). a < next_addr h)"

lemma map_of_filter_fst: "map_of (filter (\<lambda>(b, _). b \<noteq> a) xs) x = (if x = a then None else map_of xs x)"
  by (induction xs) auto

interpretation heap: allocator block_at malloc free heap_ok
proof unfold_locales
  fix h b a
  assume ok: "heap_ok h"
  then have fresh: "map_of (blocks h) (next_addr h) = None"
    by (auto simp: heap_ok_def map_of_eq_None_iff)
  show "block_at h (fst (malloc b h)) = None"
    using fresh by (simp add: block_at_def malloc_def)
  show "block_at (snd (malloc b h)) a = (if a = fst (malloc b h) then Some b else block_at h a)"
    by (simp add: block_at_def malloc_def)
  show "heap_ok (snd (malloc b h))"
    using ok by (auto simp: heap_ok_def malloc_def)
  assume live: "block_at h a \<noteq> None"
  have "heap_ok (h\<lparr>blocks := filter (\<lambda>(b, _). b \<noteq> a) (blocks h)\<rparr>)"
    using ok by (fastforce simp: heap_ok_def)
  then show "\<exists>h'. free a h = Inr h' \<and> heap_ok h' \<and> (\<forall>x. block_at h' x = (if x = a then None else block_at h x))"
    using live by (auto simp: free_def block_at_def map_of_filter_fst)
next
  fix h a
  assume "block_at h a = None"
  then show "free a h = Inl (DoubleFree a)" by (simp add: free_def)
qed

lemma heap_ok_empty [simp]: "heap_ok empty_heap"
  by (simp add: heap_ok_def empty_heap_def)

lemma strdup_malloc: "strdup s = malloc (Str s)"
  by (rule ext) (simp add: strdup_def)

lemma free_shrinks: "free a h = Inr h' \<Longrightarrow> length (blocks h') < length (blocks h)"
  by (auto simp: free_def block_at_def dest!: map_of_SomeD intro!: length_filter_less split: option.splits)

lemma load_live [simp]: "block_at h a = Some b \<Longrightarrow> load a h = Inr b"
  by (simp add: load_def)

lemma load_dead [simp]: "block_at h a = None \<Longrightarrow> load a h = Inl (UseAfterFree a)"
  by (simp add: load_def)

lemma load_str_live [simp]: "block_at h a = Some (Str s) \<Longrightarrow> load_str a h = Inr s"
  by (simp add: load_str_def)

lemma load_entry_live [simp]: "block_at h a = Some (Entry k v n) \<Longrightarrow> load_entry a h = Inr (k, v, n)"
  by (simp add: load_entry_def)

lemma load_entry_dead [simp]: "block_at h a = None \<Longrightarrow> load_entry a h = Inl (UseAfterFree a)"
  by (simp add: load_entry_def)

lemma load_arg_live [simp]: "block_at h a = Some (Arg v n) \<Longrightarrow> load_arg a h = Inr (v, n)"
  by (simp add: load_arg_def)

lemma free_next_addr: "free a h = Inr h' \<Longrightarrow> next_addr h' = next_addr h"
  by (auto simp: free_def split: option.splits)

lemma free_all_next_addr: "free_all free as h = Inr h' \<Longrightarrow> next_addr h' = next_addr h"
  by (induction as arbitrary: h) (auto simp: bind_simps dest: free_next_addr)

lemma live_below_next: "heap_ok h \<Longrightarrow> block_at h a \<noteq> None \<Longrightarrow> a < next_addr h"
  by (force simp: heap_ok_def block_at_def dest!: map_of_SomeD)

end
