(* ===== verification/ServerContext.thy ===== *)
theory ServerContext
  imports CHeap
begin

text \<open>
  \<^verbatim>\<open>wasm_server_context\<close> of \<^verbatim>\<open>compile/php/php_wasm.c\<close>: the structure that JavaScript fills in before
  a request through the exported setters, that the SAPI callbacks read during the request, and that
  \<^verbatim>\<open>wasm_destroy_server_context\<close> and \<^verbatim>\<open>wasm_init_server_context\<close> reset after it. The structure keeps
  heap pointers, so the model keeps them too: every string is a block of the heap of theory CHeap
  and the two linked lists are chains of \<^const>\<open>Entry\<close> blocks.

  The strings JavaScript passes are given by their contents; \<^verbatim>\<open>request_body\<close> is a pointer JavaScript
  owns. \<open>ctx_rel\<close> relates a structure and heap to the abstract request \<open>request_spec\<close>, and the
  lemmas show that every setter refines the abstract update and that tearing down frees every
  owned block exactly once.
\<close>

named_theorems ctx_defs \<open>definitions of the operations on the server context\<close>

record wasm_server_context_t =
  document_root :: ptr
  query_string :: ptr
  path_translated :: ptr
  request_uri :: ptr
  request_method :: ptr
  request_host :: ptr
  content_type :: ptr
  request_body :: ptr
  cookies :: ptr
  server_array_entries :: ptr
  env_array_entries :: ptr
  content_length :: int
  request_port :: int
  skip_shebang :: int

type_synonym ctx_state = "wasm_server_context_t \<times> cheap"

section \<open>The operations\<close>

definition wasm_init_server_context :: "wasm_server_context_t \<Rightarrow> wasm_server_context_t" where
  "wasm_init_server_context c = c
     \<lparr>document_root := None, query_string := None, path_translated := None, request_uri := None,
      request_method := None, request_host := None, content_type := None, content_length := -1,
      request_port := -1, request_body := None, cookies := None, skip_shebang := 0,
      server_array_entries := None, env_array_entries := None\<rparr>"

text \<open>The loop that frees a list: the next pointer is read before the node is freed.\<close>

function free_entries :: "ptr \<Rightarrow> cheap \<Rightarrow> fault + cheap" where
  "free_entries None h = Inr h"
| "free_entries (Some a) h =
     (case load_entry a h of
        Inl f \<Rightarrow> Inl f
      | Inr (k, v, n) \<Rightarrow>
          (case free k h of
             Inl f \<Rightarrow> Inl f
           | Inr h1 \<Rightarrow>
               (case free v h1 of
                  Inl f \<Rightarrow> Inl f
                | Inr h2 \<Rightarrow>
                    (case free a h2 of
                       Inl f \<Rightarrow> Inl f
                     | Inr h3 \<Rightarrow> free_entries n h3))))"
  by pat_completeness auto
termination
  by (relation "measure (\<lambda>(p, h). length (blocks h))") (auto dest!: free_shrinks)

definition wasm_destroy_server_context :: "wasm_server_context_t \<Rightarrow> cheap \<Rightarrow> fault + cheap" where
  "wasm_destroy_server_context c h =
     rbind (free_if (document_root c) h) (\<lambda>h.
     rbind (free_if (query_string c) h) (\<lambda>h.
     rbind (free_if (path_translated c) h) (\<lambda>h.
     rbind (free_if (request_uri c) h) (\<lambda>h.
     rbind (free_if (request_method c) h) (\<lambda>h.
     rbind (free_if (request_host c) h) (\<lambda>h.
     rbind (free_if (content_type c) h) (\<lambda>h.
     rbind (free_if (cookies c) h) (\<lambda>h.
     rbind (free_entries (server_array_entries c) h)
           (free_entries (env_array_entries c))))))))))"

text \<open>
  A new list node is linked in front. The node is allocated after its two strings, so that it is
  written once, with its fields set.
\<close>

definition push_entry :: "string \<Rightarrow> string \<Rightarrow> ptr \<Rightarrow> cheap \<Rightarrow> addr \<times> cheap" where
  "push_entry key val nxt h =
     (let (k, h1) = strdup key h; (v, h2) = strdup val h1 in malloc (Entry k v nxt) h2)"

definition set_str :: "((ptr \<Rightarrow> ptr) \<Rightarrow> wasm_server_context_t \<Rightarrow> wasm_server_context_t) \<Rightarrow>
    string \<Rightarrow> ctx_state \<Rightarrow> ctx_state" where
  "set_str upd s = (\<lambda>(c, h). let (a, h') = strdup s h in (upd (\<lambda>_. Some a) c, h'))"

definition wasm_add_SERVER_entry :: "string \<Rightarrow> string \<Rightarrow> ctx_state \<Rightarrow> ctx_state" where
  "wasm_add_SERVER_entry key val = (\<lambda>(c, h).
     let (e, h') = push_entry key val (server_array_entries c) h;
         c' = c\<lparr>server_array_entries := Some e\<rparr>
     in if key = ''DOCUMENT_ROOT'' then set_str document_root_update val (c', h') else (c', h'))"

definition wasm_add_ENV_entry :: "string \<Rightarrow> string \<Rightarrow> ctx_state \<Rightarrow> ctx_state" where
  "wasm_add_ENV_entry key val = (\<lambda>(c, h).
     let (e, h') = push_entry key val (env_array_entries c) h
     in (c\<lparr>env_array_entries := Some e\<rparr>, h'))"

definition wasm_set_query_string :: "string \<Rightarrow> ctx_state \<Rightarrow> ctx_state" where
  "wasm_set_query_string s = set_str query_string_update s"

definition wasm_set_path_translated :: "string \<Rightarrow> ctx_state \<Rightarrow> ctx_state" where
  "wasm_set_path_translated s = set_str path_translated_update s"

definition wasm_set_skip_shebang :: "int \<Rightarrow> ctx_state \<Rightarrow> ctx_state" where
  "wasm_set_skip_shebang b = (\<lambda>(c, h). (c\<lparr>skip_shebang := b\<rparr>, h))"

definition wasm_set_request_uri :: "string \<Rightarrow> ctx_state \<Rightarrow> ctx_state" where
  "wasm_set_request_uri s = set_str request_uri_update s"

definition wasm_set_request_method :: "string \<Rightarrow> ctx_state \<Rightarrow> ctx_state" where
  "wasm_set_request_method s = set_str request_method_update s"

definition wasm_set_request_host :: "string \<Rightarrow> ctx_state \<Rightarrow> ctx_state" where
  "wasm_set_request_host s = set_str request_host_update s"

definition wasm_set_content_type :: "string \<Rightarrow> ctx_state \<Rightarrow> ctx_state" where
  "wasm_set_content_type s = set_str content_type_update s"

definition wasm_set_request_body :: "ptr \<Rightarrow> ctx_state \<Rightarrow> ctx_state" where
  "wasm_set_request_body p = (\<lambda>(c, h). (c\<lparr>request_body := p\<rparr>, h))"

definition wasm_set_content_length :: "int \<Rightarrow> ctx_state \<Rightarrow> ctx_state" where
  "wasm_set_content_length n = (\<lambda>(c, h). (c\<lparr>content_length := n\<rparr>, h))"

definition wasm_set_cookies :: "string \<Rightarrow> ctx_state \<Rightarrow> ctx_state" where
  "wasm_set_cookies s = set_str cookies_update s"

definition wasm_set_request_port :: "int \<Rightarrow> ctx_state \<Rightarrow> ctx_state" where
  "wasm_set_request_port n = (\<lambda>(c, h). (c\<lparr>request_port := n\<rparr>, h))"

text \<open>
  \<^verbatim>\<open>wasm_sapi_getenv\<close>: the first entry whose key agrees with the name on \<^verbatim>\<open>name_len\<close> bytes. The
  result is a pointer to the value, NULL when there is none; the outer option is \<^const>\<open>None\<close> when
  the loop does not end (a cyclic list).
\<close>

partial_function (option) getenv_from :: "cheap \<Rightarrow> string \<Rightarrow> nat \<Rightarrow> ptr \<Rightarrow> (fault + ptr) option" where
  "getenv_from h name name_len p =
     (case p of
        None \<Rightarrow> Some (Inr None)
      | Some a \<Rightarrow>
          (case load_entry a h of
             Inl f \<Rightarrow> Some (Inl f)
           | Inr (k, v, n) \<Rightarrow>
               (case load_str k h of
                  Inl f \<Rightarrow> Some (Inl f)
                | Inr key \<Rightarrow>
                    if strncmp_eq key name name_len then Some (Inr (Some v))
                    else getenv_from h name name_len n)))"

definition wasm_sapi_getenv :: "string \<Rightarrow> nat \<Rightarrow> ctx_state \<Rightarrow> (fault + ptr) option" where
  "wasm_sapi_getenv name name_len = (\<lambda>(c, h). getenv_from h name name_len (env_array_entries c))"

definition wasm_sapi_read_cookies :: "ctx_state \<Rightarrow> ptr" where
  "wasm_sapi_read_cookies = (\<lambda>(c, h). cookies c)"

lemmas ctx_setter_defs =
  wasm_set_query_string_def wasm_set_path_translated_def wasm_set_skip_shebang_def
  wasm_set_request_uri_def wasm_set_request_method_def wasm_set_request_host_def
  wasm_set_content_type_def wasm_set_request_body_def wasm_set_content_length_def
  wasm_set_cookies_def wasm_set_request_port_def

declare ctx_setter_defs [ctx_defs] wasm_add_SERVER_entry_def [ctx_defs]
  wasm_add_ENV_entry_def [ctx_defs]

section \<open>Ownership\<close>

text \<open>
  The layout of a list: \<open>chain h p ns\<close> says that \<open>p\<close> starts a list with the nodes \<open>ns\<close>, each given
  by the addresses of the node, its key and its value.
\<close>

fun chain :: "cheap \<Rightarrow> ptr \<Rightarrow> (addr \<times> addr \<times> addr) list \<Rightarrow> bool" where
  "chain h p [] \<longleftrightarrow> p = None"
| "chain h p ((a, k, v) # ns) \<longleftrightarrow>
     p = Some a \<and> (\<exists>n x y. block_at h a = Some (Entry k v n) \<and> block_at h k = Some (Str x) \<and>
       block_at h v = Some (Str y) \<and> chain h n ns)"

fun node_addrs :: "(addr \<times> addr \<times> addr) list \<Rightarrow> addr list" where
  "node_addrs [] = []"
| "node_addrs ((a, k, v) # ns) = k # v # a # node_addrs ns"

definition somes :: "ptr list \<Rightarrow> addr list" where
  "somes ps = concat (map (\<lambda>p. case p of None \<Rightarrow> [] | Some a \<Rightarrow> [a]) ps)"

definition str_fields :: "wasm_server_context_t \<Rightarrow> ptr list" where
  "str_fields c = [document_root c, query_string c, path_translated c, request_uri c,
     request_method c, request_host c, content_type c, cookies c]"

definition owned :: "wasm_server_context_t \<Rightarrow> (addr \<times> addr \<times> addr) list \<Rightarrow>
    (addr \<times> addr \<times> addr) list \<Rightarrow> addr list" where
  "owned c ns es = somes (str_fields c) @ node_addrs ns @ node_addrs es"

definition ctx_layout :: "ctx_state \<Rightarrow> (addr \<times> addr \<times> addr) list \<Rightarrow>
    (addr \<times> addr \<times> addr) list \<Rightarrow> bool" where
  "ctx_layout st ns es \<longleftrightarrow> (case st of (c, h) \<Rightarrow>
     heap_ok h \<and> chain h (server_array_entries c) ns \<and> chain h (env_array_entries c) es \<and>
     distinct (owned c ns es) \<and> (\<forall>a \<in> set (somes (str_fields c)). \<exists>s. block_at h a = Some (Str s)))"

lemma somes_append [simp]: "somes (xs @ ys) = somes xs @ somes ys"
  by (simp add: somes_def)

lemma somes_simps [simp]:
  "somes [] = []" "somes (None # ps) = somes ps" "somes (Some a # ps) = a # somes ps"
  by (simp_all add: somes_def)

lemma somes_update:
  assumes "i < length ps"
  shows "set (somes (ps[i := Some a])) \<subseteq> insert a (set (somes ps))"
    and "distinct (somes ps @ xs) \<Longrightarrow> a \<notin> set (somes ps @ xs) \<Longrightarrow> distinct (somes (ps[i := Some a]) @ xs)"
proof -
  obtain l r where "ps = l @ (ps ! i) # r" and "ps[i := Some a] = l @ Some a # r"
    using assms by (metis id_take_nth_drop upd_conv_take_nth_drop)
  moreover have "somes (l @ (ps ! i) # r) = somes l @ somes [ps ! i] @ somes r"
    by (cases "ps ! i") auto
  ultimately have *: "somes (ps[i := Some a]) = somes l @ a # somes r"
      "somes ps = somes l @ somes [ps ! i] @ somes r"
    by (simp_all add: \<open>ps[i := Some a] = l @ Some a # r\<close>)
  show "set (somes (ps[i := Some a])) \<subseteq> insert a (set (somes ps))"
    and "distinct (somes ps @ xs) \<Longrightarrow> a \<notin> set (somes ps @ xs) \<Longrightarrow> distinct (somes (ps[i := Some a]) @ xs)"
    unfolding * by auto
qed

lemma chain_live: "chain h p ns \<Longrightarrow> a \<in> set (node_addrs ns) \<Longrightarrow> block_at h a \<noteq> None"
  by (induction ns arbitrary: p) auto

lemma chain_cong:
  "chain h p ns \<Longrightarrow> (\<And>a. a \<in> set (node_addrs ns) \<Longrightarrow> block_at h' a = block_at h a) \<Longrightarrow> chain h' p ns"
  by (induction ns arbitrary: p) auto

lemma layout_live:
  "ctx_layout (c, h) ns es \<Longrightarrow> a \<in> set (owned c ns es) \<Longrightarrow> block_at h a \<noteq> None"
  by (auto simp: ctx_layout_def owned_def dest: chain_live)

text \<open>Freeing a list is freeing its blocks in order.\<close>

lemma free_entries_eq:
  "heap_ok h \<Longrightarrow> chain h p ns \<Longrightarrow> distinct (node_addrs ns) \<Longrightarrow>
   free_entries p h = free_all free (node_addrs ns) h"
proof (induction ns arbitrary: p h)
  case Nil
  then show ?case by simp
next
  case (Cons x ns)
  obtain a k v where x: "x = (a, k, v)" by (cases x)
  from Cons.prems x obtain n where p: "p = Some a" and e: "block_at h a = Some (Entry k v n)"
      and n: "chain h n ns"
    by auto
  have d: "distinct [k, v, a]" and live: "\<And>y. y \<in> set [k, v, a] \<Longrightarrow> block_at h y \<noteq> None"
    using Cons.prems x by auto
  from heap.dispose_all [OF Cons.prems(1) d live]
  obtain h3 where h3: "free_all free [k, v, a] h = Inr h3" "heap_ok h3"
      "\<forall>y. block_at h3 y = (if y \<in> set [k, v, a] then None else block_at h y)"
    by auto
  from h3(1) have run: "\<exists>h1 h2. free k h = Inr h1 \<and> free v h1 = Inr h2 \<and> free a h2 = Inr h3"
    by (auto simp: bind_simps)
  have "chain h3 n ns"
    using n Cons.prems(3) x h3(3) by (auto intro!: chain_cong [OF n])
  then have "free_entries n h3 = free_all free (node_addrs ns) h3"
    using Cons.prems(3) x h3(2) by (intro Cons.IH) auto
  then show ?case using x p e run by auto
qed

lemma free_if_eq: "free_if p h = free_all free (somes [p]) h"
  by (cases p) (auto simp: free_if_def rbind_def split: sum.splits)

lemma chain_after_free:
  assumes "free_all free xs h = Inr h'" "heap_ok h" "distinct xs" "set xs \<inter> set (node_addrs ns) = {}"
    "\<And>a. a \<in> set xs \<Longrightarrow> block_at h a \<noteq> None" "chain h p ns"
  shows "heap_ok h' \<and> chain h' p ns"
proof -
  from heap.dispose_all [of h xs] assms obtain h2
    where "free_all free xs h = Inr h2" "heap_ok h2"
      "\<forall>y. block_at h2 y = (if y \<in> set xs then None else block_at h y)"
    by auto
  with assms show ?thesis by (auto intro!: chain_cong [OF assms(6)])
qed

text \<open>Tearing the structure down is freeing what it owns, in order.\<close>

lemma destroy_eq_free_all:
  assumes "ctx_layout (c, h) ns es"
  shows "wasm_destroy_server_context c h = free_all free (owned c ns es) h"
proof -
  let ?fs = "somes (str_fields c)"
  have ok: "heap_ok h" and cn: "chain h (server_array_entries c) ns"
    and ce: "chain h (env_array_entries c) es" and d: "distinct (?fs @ node_addrs ns @ node_addrs es)"
    and live: "\<And>a. a \<in> set (owned c ns es) \<Longrightarrow> block_at h a \<noteq> None"
    using assms layout_live [OF assms] by (auto simp: ctx_layout_def owned_def)
  have fs: "?fs = somes [document_root c] @ somes [query_string c] @ somes [path_translated c] @
      somes [request_uri c] @ somes [request_method c] @ somes [request_host c] @
      somes [content_type c] @ somes [cookies c]"
    by (simp add: str_fields_def somes_def)
  have run: "wasm_destroy_server_context c h = rbind (free_all free ?fs h) (\<lambda>h1.
      rbind (free_entries (server_array_entries c) h1) (free_entries (env_array_entries c)))"
    unfolding wasm_destroy_server_context_def free_if_eq fs by (simp only: free_all_append rbind_assoc)
  obtain h1 where h1: "free_all free ?fs h = Inr h1"
    using heap.dispose_all [OF ok, of ?fs] d live by (auto simp: owned_def)
  then have ok1: "heap_ok h1" and cn1: "chain h1 (server_array_entries c) ns"
    and ce1: "chain h1 (env_array_entries c) es"
    using ok d live cn ce chain_after_free [of ?fs h h1 ns] chain_after_free [of ?fs h h1 es]
    by (auto simp: owned_def Int_Un_distrib)
  have e1: "free_entries (server_array_entries c) h1 = free_all free (node_addrs ns) h1"
    using d by (intro free_entries_eq [OF ok1 cn1]) auto
  have live1: "\<And>a. a \<in> set (node_addrs ns) \<Longrightarrow> block_at h1 a \<noteq> None"
    using chain_live [OF cn1] by blast
  then obtain h2 where h2: "free_all free (node_addrs ns) h1 = Inr h2"
    using heap.dispose_all [OF ok1, of "node_addrs ns"] d by auto
  then have ok2: "heap_ok h2" and ce2: "chain h2 (env_array_entries c) es"
    using chain_after_free [OF h2 ok1, of es] d live1 ce1 by auto
  have "free_entries (env_array_entries c) h2 = free_all free (node_addrs es) h2"
    using d by (intro free_entries_eq [OF ok2 ce2]) auto
  then show ?thesis
    by (simp add: run owned_def free_all_append h1 e1 h2)
qed

text \<open>Every owned block is freed, once, and nothing else is touched.\<close>

lemma destroy_frees_owned:
  assumes "ctx_layout (c, h) ns es"
  shows "\<exists>h'. wasm_destroy_server_context c h = Inr h' \<and> heap_ok h' \<and> next_addr h' = next_addr h \<and>
    (\<forall>a. block_at h' a = (if a \<in> set (owned c ns es) then None else block_at h a))"
proof -
  have "heap_ok h" and "distinct (owned c ns es)"
    using assms by (auto simp: ctx_layout_def)
  then show ?thesis
    unfolding destroy_eq_free_all [OF assms]
    using heap.dispose_all [of h "owned c ns es"] layout_live [OF assms] free_all_next_addr by blast
qed

section \<open>The abstract request and the refinement\<close>

record request_spec =
  rs_document_root :: "string option"
  rs_query_string :: "string option"
  rs_path_translated :: "string option"
  rs_request_uri :: "string option"
  rs_request_method :: "string option"
  rs_request_host :: "string option"
  rs_content_type :: "string option"
  rs_cookies :: "string option"
  rs_request_body :: ptr
  rs_server :: "(string \<times> string) list"
  rs_env :: "(string \<times> string) list"
  rs_content_length :: int
  rs_request_port :: int
  rs_skip_shebang :: int

definition empty_request :: request_spec where
  "empty_request = \<lparr>rs_document_root = None, rs_query_string = None, rs_path_translated = None,
     rs_request_uri = None, rs_request_method = None, rs_request_host = None,
     rs_content_type = None, rs_cookies = None, rs_request_body = None, rs_server = [],
     rs_env = [], rs_content_length = -1, rs_request_port = -1, rs_skip_shebang = 0\<rparr>"

definition str_val :: "cheap \<Rightarrow> ptr \<Rightarrow> string option" where
  "str_val h p = (case p of None \<Rightarrow> None | Some a \<Rightarrow>
     (case block_at h a of Some (Str s) \<Rightarrow> Some s | _ \<Rightarrow> None))"

definition node_kvs :: "cheap \<Rightarrow> (addr \<times> addr \<times> addr) list \<Rightarrow> (string \<times> string) list" where
  "node_kvs h ns = map (\<lambda>(a, k, v). (the (str_val h (Some k)), the (str_val h (Some v)))) ns"

definition view :: "ctx_state \<Rightarrow> (addr \<times> addr \<times> addr) list \<Rightarrow> (addr \<times> addr \<times> addr) list \<Rightarrow> request_spec" where
  "view st ns es = (case st of (c, h) \<Rightarrow>
     \<lparr>rs_document_root = str_val h (document_root c), rs_query_string = str_val h (query_string c),
      rs_path_translated = str_val h (path_translated c), rs_request_uri = str_val h (request_uri c),
      rs_request_method = str_val h (request_method c), rs_request_host = str_val h (request_host c),
      rs_content_type = str_val h (content_type c), rs_cookies = str_val h (cookies c),
      rs_request_body = request_body c, rs_server = node_kvs h ns, rs_env = node_kvs h es,
      rs_content_length = content_length c, rs_request_port = request_port c,
      rs_skip_shebang = skip_shebang c\<rparr>)"

definition ctx_rel :: "ctx_state \<Rightarrow> request_spec \<Rightarrow> bool" where
  "ctx_rel st A \<longleftrightarrow> (\<exists>ns es. ctx_layout st ns es \<and> A = view st ns es)"

text \<open>The exported calls that JavaScript makes, and what each means for the request.\<close>

datatype ctx_call =
    AddServer string string | AddEnv string string | SetQueryString string
  | SetPathTranslated string | SetSkipShebang int | SetRequestUri string | SetRequestMethod string
  | SetRequestHost string | SetContentType string | SetRequestBody ptr | SetContentLength int
  | SetCookies string | SetRequestPort int

fun ctx_step :: "ctx_call \<Rightarrow> ctx_state \<Rightarrow> ctx_state" where
  "ctx_step (AddServer k v) = wasm_add_SERVER_entry k v"
| "ctx_step (AddEnv k v) = wasm_add_ENV_entry k v"
| "ctx_step (SetQueryString s) = wasm_set_query_string s"
| "ctx_step (SetPathTranslated s) = wasm_set_path_translated s"
| "ctx_step (SetSkipShebang b) = wasm_set_skip_shebang b"
| "ctx_step (SetRequestUri s) = wasm_set_request_uri s"
| "ctx_step (SetRequestMethod s) = wasm_set_request_method s"
| "ctx_step (SetRequestHost s) = wasm_set_request_host s"
| "ctx_step (SetContentType s) = wasm_set_content_type s"
| "ctx_step (SetRequestBody p) = wasm_set_request_body p"
| "ctx_step (SetContentLength n) = wasm_set_content_length n"
| "ctx_step (SetCookies s) = wasm_set_cookies s"
| "ctx_step (SetRequestPort n) = wasm_set_request_port n"

fun spec_step :: "ctx_call \<Rightarrow> request_spec \<Rightarrow> request_spec" where
  "spec_step (AddServer k v) A =
     (let B = A\<lparr>rs_server := (k, v) # rs_server A\<rparr>
      in if k = ''DOCUMENT_ROOT'' then B\<lparr>rs_document_root := Some v\<rparr> else B)"
| "spec_step (AddEnv k v) A = A\<lparr>rs_env := (k, v) # rs_env A\<rparr>"
| "spec_step (SetQueryString s) A = A\<lparr>rs_query_string := Some s\<rparr>"
| "spec_step (SetPathTranslated s) A = A\<lparr>rs_path_translated := Some s\<rparr>"
| "spec_step (SetSkipShebang b) A = A\<lparr>rs_skip_shebang := b\<rparr>"
| "spec_step (SetRequestUri s) A = A\<lparr>rs_request_uri := Some s\<rparr>"
| "spec_step (SetRequestMethod s) A = A\<lparr>rs_request_method := Some s\<rparr>"
| "spec_step (SetRequestHost s) A = A\<lparr>rs_request_host := Some s\<rparr>"
| "spec_step (SetContentType s) A = A\<lparr>rs_content_type := Some s\<rparr>"
| "spec_step (SetRequestBody p) A = A\<lparr>rs_request_body := p\<rparr>"
| "spec_step (SetContentLength n) A = A\<lparr>rs_content_length := n\<rparr>"
| "spec_step (SetCookies s) A = A\<lparr>rs_cookies := Some s\<rparr>"
| "spec_step (SetRequestPort n) A = A\<lparr>rs_request_port := n\<rparr>"

lemma ctx_relI: "ctx_layout st ns es \<Longrightarrow> view st ns es = A \<Longrightarrow> ctx_rel st A"
  by (auto simp: ctx_rel_def)

lemma str_val_simps [simp]:
  "str_val h None = None" "block_at h a = Some (Str s) \<Longrightarrow> str_val h (Some a) = Some s"
  by (simp_all add: str_val_def)

text \<open>An allocation leaves the layout and the abstract view as they are.\<close>

lemma str_val_malloc:
  "heap_ok h \<Longrightarrow> (\<And>x. p = Some x \<Longrightarrow> block_at h x \<noteq> None) \<Longrightarrow>
   str_val (snd (malloc b h)) p = str_val h p"
  by (cases p) (auto simp: str_val_def heap.new_live)

lemma str_val_malloc_Some [simp]:
  "heap_ok h \<Longrightarrow> block_at h x = Some (Str s) \<Longrightarrow> str_val (snd (malloc b h)) (Some x) = Some s"
  by (subst str_val_malloc) auto

lemma field_live:
  "ctx_layout (c, h) ns es \<Longrightarrow> p \<in> set (str_fields c) \<Longrightarrow> p = Some x \<Longrightarrow> block_at h x \<noteq> None"
  by (force simp: ctx_layout_def somes_def)

lemma node_kvs_simps [simp]:
  "node_kvs h [] = []"
  "node_kvs h ((a, k, v) # ns) = (the (str_val h (Some k)), the (str_val h (Some v))) # node_kvs h ns"
  by (simp_all add: node_kvs_def)

lemma node_kvs_malloc:
  "heap_ok h \<Longrightarrow> chain h p ns \<Longrightarrow> node_kvs (snd (malloc b h)) ns = node_kvs h ns"
proof (induction ns arbitrary: p)
  case (Cons x ns)
  then show ?case
    by (cases x) auto
qed simp

lemma layout_malloc:
  assumes "ctx_layout (c, h) ns es"
  shows "ctx_layout (c, snd (malloc b h)) ns es"
proof -
  have ok: "heap_ok h" using assms by (simp add: ctx_layout_def)
  have "block_at (snd (malloc b h)) a = block_at h a" if "a \<in> set (owned c ns es)" for a
    using layout_live [OF assms that] heap.new_live [OF ok] by blast
  then show ?thesis
    using assms heap.new_wf [OF ok]
    by (auto simp: ctx_layout_def owned_def intro: chain_cong)
qed

lemma view_malloc:
  assumes "ctx_layout (c, h) ns es"
  shows "view (c, snd (malloc b h)) ns es = view (c, h) ns es"
proof -
  have ok: "heap_ok h" and cn: "chain h (server_array_entries c) ns"
    and ce: "chain h (env_array_entries c) es"
    using assms by (auto simp: ctx_layout_def)
  have "str_val (snd (malloc b h)) p = str_val h p" if "p \<in> set (str_fields c)" for p
    using field_live [OF assms that] by (intro str_val_malloc [OF ok])
  then show ?thesis
    by (simp add: view_def str_fields_def node_kvs_malloc [OF ok cn] node_kvs_malloc [OF ok ce])
qed

lemma fresh_not_owned:
  "ctx_layout (c, h) ns es \<Longrightarrow> fst (malloc b h) \<notin> set (owned c ns es)"
  using layout_live [of c h ns es "fst (malloc b h)"] heap.new_fresh [of h b]
  by (auto simp: ctx_layout_def)

text \<open>Storing a fresh string in the \<open>i\<close>-th string field.\<close>

lemma layout_set_field:
  assumes lay: "ctx_layout (c, h) ns es" and i: "i < 8"
    and c': "str_fields c' = (str_fields c)[i := Some (fst (malloc (Str s) h))]"
      "server_array_entries c' = server_array_entries c" "env_array_entries c' = env_array_entries c"
  shows "ctx_layout (c', snd (malloc (Str s) h)) ns es"
proof -
  let ?a = "fst (malloc (Str s) h)" and ?h = "snd (malloc (Str s) h)"
  have ok: "heap_ok h" using lay by (simp add: ctx_layout_def)
  have i': "i < length (str_fields c)" using i by (simp add: str_fields_def)
  have "ctx_layout (c, ?h) ns es" by (rule layout_malloc [OF lay])
  moreover have "distinct (owned c' ns es)"
    using lay fresh_not_owned [OF lay] somes_update(2) [OF i', of "node_addrs ns @ node_addrs es" ?a]
    by (simp add: owned_def c' ctx_layout_def)
  moreover have "block_at ?h ?a = Some (Str s)" by (simp add: heap.new_look [OF ok])
  ultimately show ?thesis
    using somes_update(1) [OF i', of ?a] by (auto simp: ctx_layout_def c')
qed

lemma strdup_val [simp]: "heap_ok h \<Longrightarrow> str_val (snd (malloc (Str s) h)) (Some (fst (malloc (Str s) h))) = Some s"
  by (rule str_val_simps) (simp add: heap.new_look)

lemma rel_set_field:
  assumes lay: "ctx_layout (c, h) ns es" and i: "i < 8"
    and c': "str_fields (upd (\<lambda>_. Some (fst (malloc (Str s) h))) c) = (str_fields c)[i := Some (fst (malloc (Str s) h))]"
      "server_array_entries (upd (\<lambda>_. Some (fst (malloc (Str s) h))) c) = server_array_entries c"
      "env_array_entries (upd (\<lambda>_. Some (fst (malloc (Str s) h))) c) = env_array_entries c"
    and v: "view (upd (\<lambda>_. Some (fst (malloc (Str s) h))) c, snd (malloc (Str s) h)) ns es =
      rupd (view (c, snd (malloc (Str s) h)) ns es)"
  shows "ctx_rel (set_str upd s (c, h)) (rupd (view (c, h) ns es))"
proof -
  have "ctx_layout (upd (\<lambda>_. Some (fst (malloc (Str s) h))) c, snd (malloc (Str s) h)) ns es"
    by (rule layout_set_field [OF lay i]) (simp_all add: c')
  then show ?thesis
    using v unfolding set_str_def view_malloc [OF lay]
    by (simp add: strdup_malloc split_beta Let_def ctx_relI)
qed

lemma rel_set_str:
  assumes "ctx_rel (c, h) A"
  shows "ctx_rel (set_str document_root_update s (c, h)) (A\<lparr>rs_document_root := Some s\<rparr>)"
    and "ctx_rel (set_str query_string_update s (c, h)) (A\<lparr>rs_query_string := Some s\<rparr>)"
    and "ctx_rel (set_str path_translated_update s (c, h)) (A\<lparr>rs_path_translated := Some s\<rparr>)"
    and "ctx_rel (set_str request_uri_update s (c, h)) (A\<lparr>rs_request_uri := Some s\<rparr>)"
    and "ctx_rel (set_str request_method_update s (c, h)) (A\<lparr>rs_request_method := Some s\<rparr>)"
    and "ctx_rel (set_str request_host_update s (c, h)) (A\<lparr>rs_request_host := Some s\<rparr>)"
    and "ctx_rel (set_str content_type_update s (c, h)) (A\<lparr>rs_content_type := Some s\<rparr>)"
    and "ctx_rel (set_str cookies_update s (c, h)) (A\<lparr>rs_cookies := Some s\<rparr>)"
proof -
  obtain ns es where lay: "ctx_layout (c, h) ns es" and A: "A = view (c, h) ns es"
    using assms by (auto simp: ctx_rel_def)
  have ok [simp]: "heap_ok h" using lay by (simp add: ctx_layout_def)
  note field = rel_set_field [OF lay, where s = s]
  show "ctx_rel (set_str document_root_update s (c, h)) (A\<lparr>rs_document_root := Some s\<rparr>)"
    unfolding A by (rule field [of 0]) (simp_all add: str_fields_def view_def)
  show "ctx_rel (set_str query_string_update s (c, h)) (A\<lparr>rs_query_string := Some s\<rparr>)"
    unfolding A by (rule field [of 1]) (simp_all add: str_fields_def view_def)
  show "ctx_rel (set_str path_translated_update s (c, h)) (A\<lparr>rs_path_translated := Some s\<rparr>)"
    unfolding A by (rule field [of 2]) (simp_all add: str_fields_def view_def)
  show "ctx_rel (set_str request_uri_update s (c, h)) (A\<lparr>rs_request_uri := Some s\<rparr>)"
    unfolding A by (rule field [of 3]) (simp_all add: str_fields_def view_def)
  show "ctx_rel (set_str request_method_update s (c, h)) (A\<lparr>rs_request_method := Some s\<rparr>)"
    unfolding A by (rule field [of 4]) (simp_all add: str_fields_def view_def)
  show "ctx_rel (set_str request_host_update s (c, h)) (A\<lparr>rs_request_host := Some s\<rparr>)"
    unfolding A by (rule field [of 5]) (simp_all add: str_fields_def view_def)
  show "ctx_rel (set_str content_type_update s (c, h)) (A\<lparr>rs_content_type := Some s\<rparr>)"
    unfolding A by (rule field [of 6]) (simp_all add: str_fields_def view_def)
  show "ctx_rel (set_str cookies_update s (c, h)) (A\<lparr>rs_cookies := Some s\<rparr>)"
    unfolding A by (rule field [of 7]) (simp_all add: str_fields_def view_def)
qed

text \<open>Linking a new node in front of a list.\<close>

lemma push_entry_facts:
  assumes lay: "ctx_layout (c, h) ns es" and push: "push_entry key val nxt h = (e, h')"
  obtains k v where "ctx_layout (c, h') ns es" "view (c, h') ns es = view (c, h) ns es"
    "block_at h' e = Some (Entry k v nxt)" "block_at h' k = Some (Str key)"
    "block_at h' v = Some (Str val)" "distinct [k, v, e]" "set [k, v, e] \<inter> set (owned c ns es) = {}"
proof -
  obtain k h1 where 1: "malloc (Str key) h = (k, h1)" by fastforce
  obtain v h2 where 2: "malloc (Str val) h1 = (v, h2)" by fastforce
  have 3: "malloc (Entry k v nxt) h2 = (e, h')"
    using push by (simp add: push_entry_def strdup_malloc 1 2 Let_def)
  have lay1: "ctx_layout (c, h1) ns es" and view1: "view (c, h1) ns es = view (c, h) ns es"
    using layout_malloc [OF lay, of "Str key"] view_malloc [OF lay, of "Str key"] by (simp_all add: 1)
  have lay2: "ctx_layout (c, h2) ns es" and view2: "view (c, h2) ns es = view (c, h1) ns es"
    using layout_malloc [OF lay1, of "Str val"] view_malloc [OF lay1, of "Str val"] by (simp_all add: 2)
  have lay3: "ctx_layout (c, h') ns es" and view3: "view (c, h') ns es = view (c, h2) ns es"
    using layout_malloc [OF lay2, of "Entry k v nxt"] view_malloc [OF lay2, of "Entry k v nxt"]
    by (simp_all add: 3)
  have ok: "heap_ok h" "heap_ok h1" "heap_ok h2"
    using lay lay1 lay2 by (simp_all add: ctx_layout_def)
  have l1: "\<And>a. block_at h1 a = (if a = k then Some (Str key) else block_at h a)"
    using heap.new_look [OF ok(1), of "Str key"] by (simp add: 1)
  have l2: "\<And>a. block_at h2 a = (if a = v then Some (Str val) else block_at h1 a)"
    using heap.new_look [OF ok(2), of "Str val"] by (simp add: 2)
  have l3: "\<And>a. block_at h' a = (if a = e then Some (Entry k v nxt) else block_at h2 a)"
    using heap.new_look [OF ok(3), of "Entry k v nxt"] by (simp add: 3)
  have "block_at h1 v = None" "block_at h2 e = None"
    using heap.new_fresh [OF ok(2), of "Str val"] heap.new_fresh [OF ok(3), of "Entry k v nxt"]
    by (simp_all add: 2 3)
  then have d: "distinct [k, v, e]" using l1 l2 by (auto split: if_splits)
  have "k \<notin> set (owned c ns es)" "v \<notin> set (owned c ns es)" "e \<notin> set (owned c ns es)"
    using fresh_not_owned [OF lay, of "Str key"] fresh_not_owned [OF lay1, of "Str val"]
      fresh_not_owned [OF lay2, of "Entry k v nxt"] by (simp_all add: 1 2 3)
  then show thesis
    using that [of k v] lay3 view1 view2 view3 d l1 l2 l3 by auto
qed

lemma rel_add_ENV:
  assumes "ctx_rel (c, h) A"
  shows "ctx_rel (wasm_add_ENV_entry key val (c, h)) (spec_step (AddEnv key val) A)"
proof -
  obtain ns es where lay: "ctx_layout (c, h) ns es" and A: "A = view (c, h) ns es"
    using assms by (auto simp: ctx_rel_def)
  obtain e h' where push: "push_entry key val (env_array_entries c) h = (e, h')" by fastforce
  from push_entry_facts [OF lay push] obtain k v where f: "ctx_layout (c, h') ns es"
    "view (c, h') ns es = view (c, h) ns es" "block_at h' e = Some (Entry k v (env_array_entries c))"
    "block_at h' k = Some (Str key)" "block_at h' v = Some (Str val)" "distinct [k, v, e]"
    "set [k, v, e] \<inter> set (owned c ns es) = {}" by blast
  have "ctx_layout (c\<lparr>env_array_entries := Some e\<rparr>, h') ns ((e, k, v) # es)"
    using f by (auto simp: ctx_layout_def owned_def str_fields_def)
  moreover have "view (c\<lparr>env_array_entries := Some e\<rparr>, h') ns ((e, k, v) # es) =
      (view (c, h') ns es)\<lparr>rs_env := (key, val) # rs_env (view (c, h') ns es)\<rparr>"
    using f by (simp add: view_def)
  ultimately show ?thesis
    unfolding A wasm_add_ENV_entry_def by (simp add: push f(2) ctx_relI)
qed

lemma rel_push_SERVER:
  assumes "ctx_rel (c, h) A" "push_entry key val (server_array_entries c) h = (e, h')"
  shows "ctx_rel (c\<lparr>server_array_entries := Some e\<rparr>, h') (A\<lparr>rs_server := (key, val) # rs_server A\<rparr>)"
proof -
  obtain ns es where lay: "ctx_layout (c, h) ns es" and A: "A = view (c, h) ns es"
    using assms by (auto simp: ctx_rel_def)
  from push_entry_facts [OF lay assms(2)] obtain k v where f: "ctx_layout (c, h') ns es"
    "view (c, h') ns es = view (c, h) ns es" "block_at h' e = Some (Entry k v (server_array_entries c))"
    "block_at h' k = Some (Str key)" "block_at h' v = Some (Str val)" "distinct [k, v, e]"
    "set [k, v, e] \<inter> set (owned c ns es) = {}" by blast
  have "ctx_layout (c\<lparr>server_array_entries := Some e\<rparr>, h') ((e, k, v) # ns) es"
    using f by (auto simp: ctx_layout_def owned_def str_fields_def)
  moreover have "view (c\<lparr>server_array_entries := Some e\<rparr>, h') ((e, k, v) # ns) es =
      (view (c, h') ns es)\<lparr>rs_server := (key, val) # rs_server (view (c, h') ns es)\<rparr>"
    using f by (simp add: view_def)
  ultimately show ?thesis unfolding A by (simp add: f(2) ctx_relI)
qed

lemma rel_add_SERVER:
  assumes "ctx_rel (c, h) A"
  shows "ctx_rel (wasm_add_SERVER_entry key val (c, h)) (spec_step (AddServer key val) A)"
proof -
  obtain e h' where push: "push_entry key val (server_array_entries c) h = (e, h')" by fastforce
  from rel_push_SERVER [OF assms push]
  show ?thesis
    using rel_set_str(1) [where s = val]
    by (auto simp: wasm_add_SERVER_entry_def push Let_def)
qed

lemma rel_numeric:
  assumes "ctx_rel (c, h) A"
  shows "ctx_rel (c\<lparr>skip_shebang := b\<rparr>, h) (A\<lparr>rs_skip_shebang := b\<rparr>)"
    and "ctx_rel (c\<lparr>request_body := p\<rparr>, h) (A\<lparr>rs_request_body := p\<rparr>)"
    and "ctx_rel (c\<lparr>content_length := n\<rparr>, h) (A\<lparr>rs_content_length := n\<rparr>)"
    and "ctx_rel (c\<lparr>request_port := n\<rparr>, h) (A\<lparr>rs_request_port := n\<rparr>)"
proof -
  obtain ns es where lay: "ctx_layout (c, h) ns es" and A: "A = view (c, h) ns es"
    using assms by (auto simp: ctx_rel_def)
  note unfold_ctx = ctx_layout_def owned_def str_fields_def view_def
  show "ctx_rel (c\<lparr>skip_shebang := b\<rparr>, h) (A\<lparr>rs_skip_shebang := b\<rparr>)"
    by (rule ctx_relI [of _ ns es]) (use lay in \<open>simp_all add: A unfold_ctx\<close>)
  show "ctx_rel (c\<lparr>request_body := p\<rparr>, h) (A\<lparr>rs_request_body := p\<rparr>)"
    by (rule ctx_relI [of _ ns es]) (use lay in \<open>simp_all add: A unfold_ctx\<close>)
  show "ctx_rel (c\<lparr>content_length := n\<rparr>, h) (A\<lparr>rs_content_length := n\<rparr>)"
    by (rule ctx_relI [of _ ns es]) (use lay in \<open>simp_all add: A unfold_ctx\<close>)
  show "ctx_rel (c\<lparr>request_port := n\<rparr>, h) (A\<lparr>rs_request_port := n\<rparr>)"
    by (rule ctx_relI [of _ ns es]) (use lay in \<open>simp_all add: A unfold_ctx\<close>)
qed

lemma ctx_step_refines:
  assumes "ctx_rel st A"
  shows "ctx_rel (ctx_step call st) (spec_step call A)"
proof -
  obtain c h where st: "st = (c, h)" by (cases st)
  show ?thesis
    using assms unfolding st
    by (cases call) (auto simp: ctx_setter_defs rel_set_str rel_numeric rel_add_ENV rel_add_SERVER
      simp del: spec_step.simps(1,2))
qed

text \<open>A freshly initialised structure stands for the empty request.\<close>

lemma init_rel: "heap_ok h \<Longrightarrow> ctx_rel (wasm_init_server_context c, h) empty_request"
  by (rule ctx_relI [of _ "[]" "[]"])
    (simp_all add: ctx_layout_def owned_def str_fields_def view_def empty_request_def
      wasm_init_server_context_def)

fun run_calls :: "ctx_call list \<Rightarrow> ctx_state \<Rightarrow> ctx_state" where
  "run_calls [] st = st"
| "run_calls (x # xs) st = run_calls xs (ctx_step x st)"

fun spec_calls :: "ctx_call list \<Rightarrow> request_spec \<Rightarrow> request_spec" where
  "spec_calls [] A = A"
| "spec_calls (x # xs) A = spec_calls xs (spec_step x A)"

lemma run_calls_refine: "ctx_rel st A \<Longrightarrow> ctx_rel (run_calls xs st) (spec_calls xs A)"
  by (induction xs arbitrary: st A) (simp_all add: ctx_step_refines)

section \<open>Looking up an environment variable\<close>

declare getenv_from.simps [simp del]

lemma getenv_from_chain:
  assumes "chain h p ns"
  shows "\<exists>q. getenv_from h name len p = Some (Inr q) \<and>
    str_val h q = map_option snd (find (\<lambda>(k, v). strncmp_eq k name len) (node_kvs h ns))"
  using assms
proof (induction ns arbitrary: p)
  case Nil
  then show ?case by (simp add: getenv_from.simps)
next
  case (Cons x ns)
  obtain a k v where x: "x = (a, k, v)" by (cases x)
  from Cons.prems x obtain n s t where p: "p = Some a" "block_at h a = Some (Entry k v n)"
      "block_at h k = Some (Str s)" "block_at h v = Some (Str t)" and n: "chain h n ns"
    by auto
  show ?case
    using p x Cons.IH [OF n] by (simp add: getenv_from.simps [of h name len "Some a"])
qed

lemma getenv_finds_first:
  assumes "ctx_rel st A"
  shows "\<exists>q. wasm_sapi_getenv name len st = Some (Inr q) \<and>
    str_val (snd st) q = map_option snd (find (\<lambda>(k, v). strncmp_eq k name len) (rs_env A))"
proof -
  obtain c h ns es where st: "st = (c, h)" and lay: "ctx_layout (c, h) ns es"
    and A: "A = view (c, h) ns es"
    using assms by (cases st) (auto simp: ctx_rel_def)
  have "chain h (env_array_entries c) es" using lay by (simp add: ctx_layout_def)
  from getenv_from_chain [OF this, of name len] show ?thesis
    by (simp add: wasm_sapi_getenv_def st A view_def)
qed

lemma find_key_map_of:
  assumes "\<And>k. k \<in> fst ` set kvs \<Longrightarrow> P k \<longleftrightarrow> k = name"
  shows "map_option snd (find (\<lambda>(k, v). P k) kvs) = map_of kvs name"
  using assms by (induction kvs) auto

lemma getenv_dangling:
  assumes "env_array_entries c = Some a" "block_at h a = None"
  shows "wasm_sapi_getenv name len (c, h) = Some (Inl (UseAfterFree a))"
  using assms by (simp add: wasm_sapi_getenv_def getenv_from.simps)

section \<open>Properties\<close>

text \<open>
  C1: after any sequence of the exported setters on a freshly initialised context, the structure
  stands for the abstract request that the same sequence builds, and tearing it down raises no
  double free and no use after free, frees every block the structure owns and nothing else.
\<close>

theorem request_context_cycle:
  assumes "heap_ok h" and "run_calls xs (wasm_init_server_context c, h) = (c', h')"
  shows "\<exists>ns es h''. view (c', h') ns es = spec_calls xs empty_request \<and>
    wasm_destroy_server_context c' h' = Inr h'' \<and> heap_ok h'' \<and>
    (\<forall>a. block_at h'' a = (if a \<in> set (owned c' ns es) then None else block_at h' a)) \<and>
    ctx_layout (c', h') ns es"
proof -
  have "ctx_rel (c', h') (spec_calls xs empty_request)"
    using run_calls_refine [OF init_rel [OF assms(1), of c], of xs] assms(2) by simp
  then obtain ns es where "ctx_layout (c', h') ns es" "view (c', h') ns es = spec_calls xs empty_request"
    by (auto simp: ctx_rel_def)
  then show ?thesis using destroy_frees_owned [of c' h' ns es] by blast
qed

definition null_context :: wasm_server_context_t where
  "null_context = \<lparr>document_root = None, query_string = None, path_translated = None,
     request_uri = None, request_method = None, request_host = None, content_type = None,
     request_body = None, cookies = None, server_array_entries = None, env_array_entries = None,
     content_length = 0, request_port = 0, skip_shebang = 0\<rparr>"

theorem request_context_cycle_witness:
  "\<exists>c' h' ns es h''.
    run_calls [AddServer ''DOCUMENT_ROOT'' ''/www'', AddEnv ''A'' ''1'', SetQueryString ''x=1'']
      (wasm_init_server_context null_context, empty_heap) = (c', h') \<and>
    rs_document_root (view (c', h') ns es) = Some ''/www'' \<and>
    wasm_destroy_server_context c' h' = Inr h'' \<and> set (owned c' ns es) \<subseteq> {a. block_at h'' a = None}"
proof -
  obtain c' h' where run: "run_calls [AddServer ''DOCUMENT_ROOT'' ''/www'', AddEnv ''A'' ''1'',
      SetQueryString ''x=1''] (wasm_init_server_context null_context, empty_heap) = (c', h')"
    by fastforce
  from request_context_cycle [OF heap_ok_empty this] obtain ns es h''
    where w: "view (c', h') ns es = spec_calls [AddServer ''DOCUMENT_ROOT'' ''/www'',
        AddEnv ''A'' ''1'', SetQueryString ''x=1''] empty_request"
      "wasm_destroy_server_context c' h' = Inr h''"
      "\<forall>a. block_at h'' a = (if a \<in> set (owned c' ns es) then None else block_at h' a)"
    by blast
  have "rs_document_root (view (c', h') ns es) = Some ''/www''"
    unfolding w(1) by simp
  with run w(2,3) show ?thesis by force
qed

text \<open>
  C19: \<^verbatim>\<open>getenv\<close> never faults or loops on a context built by the setters; when no key of the
  environment list properly extends the name asked for, it returns the value added last under
  exactly that name, and NULL when there is none.
\<close>

theorem getenv_exact_lookup:
  assumes "heap_ok h" and "run_calls xs (wasm_init_server_context c, h) = st"
    and "\<forall>k \<in> fst ` set (rs_env (spec_calls xs empty_request)). \<not> strict_prefix name k"
  shows "\<exists>q. wasm_sapi_getenv name (length name) st = Some (Inr q) \<and>
    str_val (snd st) q = map_of (rs_env (spec_calls xs empty_request)) name"
proof -
  have rel: "ctx_rel st (spec_calls xs empty_request)"
    using run_calls_refine [OF init_rel [OF assms(1), of c], of xs] assms(2) by simp
  have "strncmp_eq k name (length name) \<longleftrightarrow> k = name"
    if "k \<in> fst ` set (rs_env (spec_calls xs empty_request))" for k
    using assms(3) that by (auto simp: strncmp_eq_prefix_right strict_prefix_def)
  then have "map_option snd (find (\<lambda>(k, v). strncmp_eq k name (length name))
      (rs_env (spec_calls xs empty_request))) = map_of (rs_env (spec_calls xs empty_request)) name"
    by (rule find_key_map_of)
  with getenv_finds_first [OF rel, of name "length name"] show ?thesis by simp
qed

theorem getenv_exact_lookup_witness:
  "\<exists>q. wasm_sapi_getenv ''HOME'' (length ''HOME'') (run_calls [AddEnv ''HOME'' ''/root'', AddEnv ''LANG'' ''C'']
      (wasm_init_server_context null_context, empty_heap)) = Some (Inr q) \<and>
    str_val (snd (run_calls [AddEnv ''HOME'' ''/root'', AddEnv ''LANG'' ''C'']
      (wasm_init_server_context null_context, empty_heap))) q = Some ''/root''"
proof -
  have ext: "\<forall>k \<in> fst ` set (rs_env (spec_calls [AddEnv ''HOME'' ''/root'', AddEnv ''LANG'' ''C'']
      empty_request)). \<not> strict_prefix ''HOME'' k"
    by (auto simp: empty_request_def)
  have "map_of (rs_env (spec_calls [AddEnv ''HOME'' ''/root'', AddEnv ''LANG'' ''C''] empty_request))
      ''HOME'' = Some ''/root''"
    by (simp add: empty_request_def)
  with getenv_exact_lookup [OF heap_ok_empty refl ext, where c = null_context] show ?thesis
    by (simp only:)
qed

text \<open>
  The length given to \<^verbatim>\<open>strncmp\<close> is that of the name alone, so a variable whose key
  merely starts with the name answers for it: adding \<^verbatim>\<open>FOOBAR\<close> makes a lookup of \<^verbatim>\<open>FOO\<close>
  return the value of \<^verbatim>\<open>FOOBAR\<close>.
\<close>

theorem getenv_matches_longer_key:
  assumes "ctx_rel (c, h) A"
  shows "\<exists>q. wasm_sapi_getenv name (length name) (wasm_add_ENV_entry (name @ ext) val (c, h)) =
      Some (Inr q) \<and> str_val (snd (wasm_add_ENV_entry (name @ ext) val (c, h))) q = Some val"
  using getenv_finds_first [OF rel_add_ENV [OF assms], of name "length name" "name @ ext" val]
  by (simp add: strncmp_eq_prefix_right)

theorem getenv_matches_longer_key_witness:
  "\<exists>q. wasm_sapi_getenv ''FOO'' (length ''FOO'')
      (wasm_add_ENV_entry ''FOOBAR'' ''x'' (wasm_init_server_context null_context, empty_heap)) =
      Some (Inr q) \<and>
    str_val (snd (wasm_add_ENV_entry ''FOOBAR'' ''x''
      (wasm_init_server_context null_context, empty_heap))) q = Some ''x''"
  using getenv_matches_longer_key [OF init_rel [OF heap_ok_empty, of null_context], of "''FOO''" "''BAR''" "''x''"]
  by (simp only: append.simps)

text \<open>
  \<^verbatim>\<open>wasm_destroy_server_context\<close> does not reset the pointers of the structure, so until
  \<^verbatim>\<open>wasm_init_server_context\<close> runs, any lookup in a non-empty environment reads a freed node.
\<close>

theorem getenv_after_destroy_is_use_after_free:
  assumes "ctx_layout (c, h) ns (e # es)" and "wasm_destroy_server_context c h = Inr h'"
  shows "wasm_sapi_getenv name len (c, h') = Some (Inl (UseAfterFree (fst e)))"
proof -
  have "fst e \<in> set (owned c ns (e # es))"
    by (cases e) (simp add: owned_def)
  with destroy_frees_owned [OF assms(1)] assms(2) have "block_at h' (fst e) = None" by auto
  moreover have "env_array_entries c = Some (fst e)"
    using assms(1) by (cases e) (simp add: ctx_layout_def)
  ultimately show ?thesis by (rule getenv_dangling [rotated])
qed

theorem getenv_after_destroy_is_use_after_free_witness:
  "wasm_sapi_getenv ''A'' 1 (fst (wasm_add_ENV_entry ''A'' ''1''
      (wasm_init_server_context null_context, empty_heap)), \<lparr>blocks = [], next_addr = 3\<rparr>) =
    Some (Inl (UseAfterFree 2))"
  by (rule getenv_after_destroy_is_use_after_free
      [where h = "snd (wasm_add_ENV_entry ''A'' ''1'' (wasm_init_server_context null_context, empty_heap))"
        and ns = "[]" and es = "[]" and e = "(2, 0, 1)", simplified])
    (simp_all add: wasm_add_ENV_entry_def push_entry_def strdup_def malloc_def Let_def empty_heap_def
      wasm_init_server_context_def ctx_layout_def heap_ok_def owned_def str_fields_def block_at_def
      wasm_destroy_server_context_def free_if_def load_entry_def load_def free_def)

end
