(* ===== verification/FdTable.thy ===== *)
theory FdTable
  imports Prelude
begin

text \<open>
  The process's file descriptor table, with the POSIX calls the SAPI module makes on it
  (\<^verbatim>\<open>open\<close>, \<^verbatim>\<open>dup\<close>, \<^verbatim>\<open>dup2\<close>, \<^verbatim>\<open>close\<close>, \<^verbatim>\<open>pipe\<close>), and on top of it
  \<^verbatim>\<open>redirect_stream_to_file\<close> and \<^verbatim>\<open>restore_stream_handler\<close> of \<^verbatim>\<open>compile/php/php_wasm.c\<close>, which put
  standard output and standard error aside for the length of a request. An entry of the table names
  the open file; a new descriptor is the lowest one that is free; a failing call returns -1.
\<close>

type_synonym fdtab = "string option list"

definition fd_get :: "fdtab \<Rightarrow> int \<Rightarrow> string option" where
  "fd_get t i = (if 0 \<le> i \<and> nat i < length t then t ! nat i else None)"

definition fd_put :: "fdtab \<Rightarrow> nat \<Rightarrow> string option \<Rightarrow> fdtab" where
  "fd_put t i x = (if i < length t then t[i := x] else t @ replicate (i - length t) None @ [x])"

definition lowest_free :: "fdtab \<Rightarrow> nat" where
  "lowest_free t = length (takeWhile (\<lambda>x. x \<noteq> None) t)"

definition fd_open :: "(string \<Rightarrow> bool) \<Rightarrow> string \<Rightarrow> fdtab \<Rightarrow> int \<times> fdtab" where
  "fd_open avail path t =
     (if avail path then (int (lowest_free t), fd_put t (lowest_free t) (Some path)) else (-1, t))"

definition fd_dup :: "int \<Rightarrow> fdtab \<Rightarrow> int \<times> fdtab" where
  "fd_dup fd t = (case fd_get t fd of
       None \<Rightarrow> (-1, t)
     | Some f \<Rightarrow> (int (lowest_free t), fd_put t (lowest_free t) (Some f)))"

definition fd_dup2 :: "int \<Rightarrow> int \<Rightarrow> fdtab \<Rightarrow> int \<times> fdtab" where
  "fd_dup2 old new t = (case fd_get t old of
       None \<Rightarrow> (-1, t)
     | Some f \<Rightarrow> if new < 0 then (-1, t) else (new, fd_put t (nat new) (Some f)))"

definition fd_close :: "int \<Rightarrow> fdtab \<Rightarrow> int \<times> fdtab" where
  "fd_close fd t = (if fd_get t fd = None then (-1, t) else (0, fd_put t (nat fd) None))"

definition fd_pipe :: "(fdtab \<Rightarrow> bool) \<Rightarrow> fdtab \<Rightarrow> (int \<times> int) option \<times> fdtab" where
  "fd_pipe avail t =
     (if avail t
      then let a = lowest_free t; t1 = fd_put t a (Some ''pipe''); b = lowest_free t1
           in (Some (int a, int b), fd_put t1 b (Some ''pipe''))
      else (None, t))"

text \<open>Laws of the table.\<close>

lemma fd_get_neg [simp]: "fd_get t (-1) = None"
  by (simp add: fd_get_def)

lemma fd_get_put: "fd_get (fd_put t i x) j = (if j = int i then x else fd_get t j)"
  by (auto simp: fd_get_def fd_put_def nth_append nth_list_update nth_Cons' nat_eq_iff)

lemma lowest_free_is_free: "fd_get t (int (lowest_free t)) = None"
  unfolding fd_get_def lowest_free_def using nth_length_takeWhile by force

lemma lowest_free_low: "i < lowest_free t \<Longrightarrow> fd_get t (int i) \<noteq> None"
  unfolding fd_get_def lowest_free_def
  by (metis (mono_tags, lifting) length_takeWhile_le nat_int nth_mem of_nat_0_le_iff order_less_le_trans
      set_takeWhileD takeWhile_nth)

lemma fd_pipe_ok:
  assumes "fd_pipe avail t = (Some (a, b), t')"
  shows "0 \<le> a" "0 \<le> b" "a \<noteq> b" "fd_get t a = None" "fd_get t b = None"
    "fd_get t' i = (if i = a \<or> i = b then Some ''pipe'' else fd_get t i)"
proof -
  let ?a = "lowest_free t" and ?t1 = "fd_put t (lowest_free t) (Some ''pipe'')"
  have ab: "a = int ?a" "b = int (lowest_free ?t1)" "t' = fd_put ?t1 (lowest_free ?t1) (Some ''pipe'')"
    using assms by (auto simp: fd_pipe_def Let_def split: if_splits)
  have "fd_get ?t1 b = None" using ab(2) lowest_free_is_free by simp
  then have b: "b \<noteq> a" "fd_get t b = None" using ab(1) by (auto simp: fd_get_put split: if_splits)
  then show "0 \<le> a" "0 \<le> b" "a \<noteq> b" "fd_get t a = None" "fd_get t b = None"
    "fd_get t' i = (if i = a \<or> i = b then Some ''pipe'' else fd_get t i)"
    using ab lowest_free_is_free [of t] by (auto simp: fd_get_put)
qed

lemma fd_pipe_fail: "fd_pipe avail t = (None, t') \<Longrightarrow> t' = t"
  by (auto simp: fd_pipe_def Let_def split: if_splits)

section \<open>Redirecting a stream\<close>

text \<open>
  \<^verbatim>\<open>redirect_stream_to_file\<close> opens the file, keeps a duplicate of the stream's descriptor and makes
  the stream's descriptor refer to the file. It returns the duplicate, -1 on failure.
\<close>

definition redirect_stream_to_file :: "(string \<Rightarrow> bool) \<Rightarrow> int \<Rightarrow> string \<Rightarrow> fdtab \<Rightarrow> int \<times> fdtab" where
  "redirect_stream_to_file avail fileno file_path t =
     (let (out, t1) = fd_open avail file_path t
      in if out = -1 then (-1, t1)
         else let (replacement_stream, t2) = fd_dup fileno t1;
                  (r, t3) = fd_dup2 out fileno t2
              in if r = -1 then (-1, t3) else (replacement_stream, t3))"

definition restore_stream_handler :: "int \<Rightarrow> int \<Rightarrow> fdtab \<Rightarrow> fdtab" where
  "restore_stream_handler fileno replacement_stream t =
     snd (fd_close replacement_stream (snd (fd_dup2 replacement_stream fileno t)))"

lemma redirect_ok:
  assumes "avail path" "fd_get t fd = Some f" "0 \<le> fd"
  obtains out repl t' where "redirect_stream_to_file avail fd path t = (repl, t')"
    "0 \<le> repl" "0 \<le> out" "out \<noteq> repl" "fd \<noteq> out" "fd \<noteq> repl"
    "fd_get t out = None" "fd_get t repl = None"
    "\<And>i. fd_get t' i = (if i = fd \<or> i = out then Some path else if i = repl then Some f else fd_get t i)"
proof -
  define out where "out = lowest_free t"
  define t1 where "t1 = fd_put t out (Some path)"
  define repl where "repl = lowest_free t1"
  define t2 where "t2 = fd_put t1 repl (Some f)"
  have free: "fd_get t (int out) = None" "fd_get t1 (int repl) = None"
    by (simp_all add: out_def repl_def lowest_free_is_free)
  then have out: "fd \<noteq> int out" using assms(2) by auto
  then have get1: "fd_get t1 fd = Some f" using assms(2) by (simp add: t1_def fd_get_put)
  have repl: "repl \<noteq> out" "fd \<noteq> int repl" "fd_get t (int repl) = None"
    using free(2) get1 by (auto simp: t1_def fd_get_put split: if_splits)
  have get2: "fd_get t2 (int out) = Some path" using repl by (simp add: t2_def t1_def fd_get_put)
  have "redirect_stream_to_file avail fd path t = (int repl, fd_put t2 (nat fd) (Some path))"
    using assms(1,3) get1 get2
    by (simp add: redirect_stream_to_file_def fd_open_def fd_dup_def fd_dup2_def Let_def
        flip: out_def t1_def repl_def t2_def)
  then show thesis
    using out repl assms(3) free(1)
    by (intro that [of "int repl" "fd_put t2 (nat fd) (Some path)" "int out"])
      (auto simp: t2_def t1_def fd_get_put)
qed

lemma redirect_fails: "\<not> avail path \<Longrightarrow> redirect_stream_to_file avail fd path t = (-1, t)"
  by (simp add: redirect_stream_to_file_def fd_open_def)

lemma restore_failed [simp]: "restore_stream_handler fd (-1) t = t"
  by (simp add: restore_stream_handler_def fd_dup2_def fd_close_def)

lemma restore_get:
  assumes "fd_get t repl = Some f" "0 \<le> fd" "0 \<le> repl" "fd \<noteq> repl"
  shows "fd_get (restore_stream_handler fd repl t) i =
    (if i = fd then Some f else if i = repl then None else fd_get t i)"
  using assms by (auto simp: restore_stream_handler_def fd_dup2_def fd_close_def fd_get_put)

section \<open>Properties\<close>

text \<open>
  A redirect followed by a restore brings the stream back to the file it had; every descriptor
  is as before except one, which was free and is left open on the redirection target: the
  descriptor \<^verbatim>\<open>open\<close> returned is never closed, so each redirect leaks one.
\<close>

theorem redirect_restore_leaks_one:
  assumes "avail path" and "fd_get t fd = Some f" and "0 \<le> fd"
    and "redirect_stream_to_file avail fd path t = (repl, t')"
  shows "\<exists>out. fd_get t out = None \<and> fd_get t' fd = Some path \<and>
    (\<forall>i. fd_get (restore_stream_handler fd repl t') i = (if i = out then Some path else fd_get t i))"
proof -
  obtain out where "0 \<le> repl" "out \<noteq> repl" "fd \<noteq> out" "fd \<noteq> repl" "fd_get t out = None"
    "fd_get t repl = None"
    and get: "\<And>i. fd_get t' i = (if i = fd \<or> i = out then Some path else if i = repl then Some f else fd_get t i)"
    using redirect_ok [of avail path t fd f, OF assms(1-3)] assms(4) by (metis prod.inject)
  moreover from this have "fd_get t' repl = Some f" by simp
  ultimately show ?thesis
    using assms(2,3) by (intro exI [of _ out]) (auto simp: restore_get)
qed

theorem redirect_restore_leaks_one_witness:
  "\<exists>out. fd_get [Some ''in'', Some ''tty'', Some ''tty''] out = None \<and>
    (\<forall>i. fd_get (restore_stream_handler 1 4
        [Some ''in'', Some ''/request/stdout'', Some ''tty'', Some ''/request/stdout'', Some ''tty'']) i =
      (if i = out then Some ''/request/stdout''
       else fd_get [Some ''in'', Some ''tty'', Some ''tty''] i))"
proof -
  have "redirect_stream_to_file (\<lambda>_. True) 1 ''/request/stdout'' [Some ''in'', Some ''tty'', Some ''tty''] =
      (4, [Some ''in'', Some ''/request/stdout'', Some ''tty'', Some ''/request/stdout'', Some ''tty''])"
    by code_simp
  from redirect_restore_leaks_one [OF _ _ _ this, of "''tty''"] show ?thesis
    by (auto simp: fd_get_def)
qed

end
