(* ===== verification/SapiOutput.thy ===== *)
theory SapiOutput
  imports Prelude
begin

text \<open>
  The output side of the SAPI module in \<^verbatim>\<open>compile/php/php_wasm.c\<close>: unbuffered writes of the script's
  output, flushing, and the headers file \<^verbatim>\<open>/request/headers\<close>, a JSON text that JavaScript reads
  back. What libc and the PHP core do with the outside world is the parameter \<open>host_io\<close>: a function
  of the state \<open>'w\<close> of that world for each call.
\<close>

record 'w host_io =
  php_write_stdout :: bool \<comment> \<open>whether \<^verbatim>\<open>PHP_WRITE_STDOUT\<close> is defined\<close>
  io_write :: "bytes \<Rightarrow> 'w \<Rightarrow> int \<times> 'w" \<comment> \<open>\<^verbatim>\<open>write(STDOUT_FILENO, ...)\<close>\<close>
  io_fwrite :: "bytes \<Rightarrow> 'w \<Rightarrow> nat \<times> 'w" \<comment> \<open>\<^verbatim>\<open>fwrite(..., stdout)\<close>\<close>
  io_fflush :: "'w \<Rightarrow> bool \<times> 'w" \<comment> \<open>\<^verbatim>\<open>fflush(stdout) == EOF\<close>\<close>
  handle_aborted_connection :: "'w \<Rightarrow> 'w"
  send_headers_call :: "'w \<Rightarrow> 'w" \<comment> \<open>the PHP core's \<^verbatim>\<open>sapi_send_headers\<close>\<close>

section \<open>Writing the output\<close>

definition wasm_sapi_single_write :: "'w host_io \<Rightarrow> bytes \<Rightarrow> 'w \<Rightarrow> nat \<times> 'w" where
  "wasm_sapi_single_write io str w =
     (if php_write_stdout io
      then let (ret, w') = io_write io str w in (if ret \<le> 0 then 0 else nat ret, w')
      else io_fwrite io (take (min (length str) 16384) str) w)"

text \<open>
  The loop of \<^verbatim>\<open>wasm_sapi_ub_write\<close>: \<open>rest\<close> is what \<^verbatim>\<open>ptr\<close> and \<^verbatim>\<open>remaining\<close> still describe. It
  ends only when everything is written: \<^const>\<open>None\<close> is a loop that never ends.
\<close>

partial_function (option) ub_write_loop :: "'w host_io \<Rightarrow> bytes \<Rightarrow> 'w \<Rightarrow> 'w option" where
  "ub_write_loop io rest w =
     (if rest = [] then Some w
      else let ret = fst (wasm_sapi_single_write io rest w);
               w1 = snd (wasm_sapi_single_write io rest w)
           in ub_write_loop io (drop ret rest) (if ret = 0 then handle_aborted_connection io w1 else w1))"

definition wasm_sapi_ub_write :: "'w host_io \<Rightarrow> bytes \<Rightarrow> 'w \<Rightarrow> (nat \<times> 'w) option" where
  "wasm_sapi_ub_write io str w = map_option (\<lambda>w'. (length str, w')) (ub_write_loop io str w)"

definition wasm_sapi_flush :: "'w host_io \<Rightarrow> 'w \<Rightarrow> 'w" where
  "wasm_sapi_flush io w =
     (let (eof, w1) = io_fflush io w
      in send_headers_call io (if eof then handle_aborted_connection io w1 else w1))"

definition wasm_sapi_deactivate :: "'w host_io \<Rightarrow> 'w \<Rightarrow> int \<times> 'w" where
  "wasm_sapi_deactivate io w = (0, snd (io_fflush io w))"

text \<open>What \<^verbatim>\<open>fprintf(stderr, ...)\<close> is given.\<close>

definition wasm_sapi_log_message :: "string \<Rightarrow> string" where
  "wasm_sapi_log_message message = message @ [CHR 0x0A]"

section \<open>The headers file\<close>

definition int_to_string :: "int \<Rightarrow> string" where
  "int_to_string i = dec_int i"

definition fwrite_str :: "string \<Rightarrow> string \<Rightarrow> string" where
  "fwrite_str file str = file @ cstr str"

abbreviation quote :: char where
  "quote \<equiv> CHR 0x22"

abbreviation backslash :: char where
  "backslash \<equiv> CHR 0x5C"

text \<open>The loop over the bytes of a header: a quote or a backslash gets a backslash in front.\<close>

fun write_escaped :: "bytes \<Rightarrow> string \<Rightarrow> string" where
  "write_escaped [] file = file"
| "write_escaped (c # cs) file =
     write_escaped cs ((if c = quote \<or> c = backslash then file @ [backslash] else file) @ [c])"

definition terminator :: string where
  "terminator = [quote] @ ''__terminator__'' @ [quote]"

definition wasm_sapi_send_header :: "bytes option \<Rightarrow> string \<Rightarrow> string" where
  "wasm_sapi_send_header hdr file =
     (case hdr of
        None \<Rightarrow> file @ terminator
      | Some h \<Rightarrow> fwrite_str (write_escaped h (fwrite_str file [quote])) ([quote] @ '','' @ [CHR 0x0A]))"

definition status_open :: string where
  "status_open = ''{ '' @ [quote] @ ''status'' @ [quote] @ '': ''"

definition headers_open :: string where
  "headers_open = '', '' @ [quote] @ ''headers'' @ [quote] @ '': [''"

text \<open>
  The text written to the file: \<^const>\<open>None\<close> and \<^verbatim>\<open>FAILURE\<close> when the file cannot be opened. The
  default content type header, if any, comes after the listed ones.
\<close>

definition wasm_sapi_send_headers :: "bool \<Rightarrow> int \<Rightarrow> bytes list \<Rightarrow> bytes option \<Rightarrow> int \<times> string option" where
  "wasm_sapi_send_headers opened http_response_code headers default_content_type =
     (if \<not> opened then (-1, None)
      else let f1 = fwrite_str [] status_open;
               f2 = fwrite_str f1 (int_to_string http_response_code);
               f3 = fwrite_str f2 headers_open;
               f4 = fold (\<lambda>h f. wasm_sapi_send_header (Some h) f) headers f3;
               f5 = (case default_content_type of
                       None \<Rightarrow> f4 | Some h \<Rightarrow> wasm_sapi_send_header (Some h) f4);
               f6 = wasm_sapi_send_header None f5
           in (1, Some (fwrite_str f6 '']}'')))"

section \<open>Everything is written, in order\<close>

declare ub_write_loop.simps [simp del]

lemma ub_write_loop_all:
  assumes "\<And>s w. s \<noteq> [] \<Longrightarrow> 0 < fst (wasm_sapi_single_write io s w) \<and>
      fst (wasm_sapi_single_write io s w) \<le> length s \<and>
      sink (snd (wasm_sapi_single_write io s w)) = sink w @ take (fst (wasm_sapi_single_write io s w)) s"
  shows "\<exists>w'. ub_write_loop io s w = Some w' \<and> sink w' = sink w @ s"
proof (induction s arbitrary: w rule: length_induct)
  case (1 s)
  show ?case
  proof (cases "s = []")
    case True
    then show ?thesis by (simp add: ub_write_loop.simps)
  next
    case False
    let ?n = "fst (wasm_sapi_single_write io s w)" and ?w = "snd (wasm_sapi_single_write io s w)"
    note step = assms [OF False, of w]
    then have "length (drop ?n s) < length s" using False by simp
    then obtain w' where w': "ub_write_loop io (drop ?n s) ?w = Some w'" "sink w' = sink ?w @ drop ?n s"
      using "1" by blast
    then show ?thesis
      using step False by (subst ub_write_loop.simps) (simp add: Let_def)
  qed
qed

lemma ub_write_loop_progress:
  assumes ret: "ub_write_loop io s w = Some w'"
  shows "s = [] \<or> (\<exists>s w. fst (wasm_sapi_single_write io s w) \<noteq> 0)"
proof (rule ub_write_loop.raw_induct
    [where P = "\<lambda>io s w w'. s = [] \<or> (\<exists>s w. fst (wasm_sapi_single_write io s w) \<noteq> 0)", OF _ ret])
  fix f io s w w'
  assume IH: "\<And>io s w w'. f io s w = Some w' \<Longrightarrow>
      s = [] \<or> (\<exists>s w. fst (wasm_sapi_single_write io s w) \<noteq> 0)"
    and eq: "(if s = [] then Some w
       else let ret = fst (wasm_sapi_single_write io s w); w1 = snd (wasm_sapi_single_write io s w)
            in f io (drop ret s) (if ret = 0 then handle_aborted_connection io w1 else w1)) = Some w'"
  show "s = [] \<or> (\<exists>s w. fst (wasm_sapi_single_write io s w) \<noteq> 0)"
  proof (cases "s = [] \<or> fst (wasm_sapi_single_write io s w) \<noteq> 0")
    case False
    with eq have "f io s (handle_aborted_connection io (snd (wasm_sapi_single_write io s w))) = Some w'"
      by (simp add: Let_def)
    then show ?thesis by (rule IH)
  qed auto
qed

text \<open>
  When every low-level write makes progress (it takes at least one of the bytes offered and
  appends those it takes to the output), \<^verbatim>\<open>wasm_sapi_ub_write\<close> returns, reports the full length, and
  the output has grown by exactly the given bytes, in order, however they were split into writes.
\<close>

theorem ub_write_complete:
  assumes "\<And>s w. s \<noteq> [] \<Longrightarrow> 0 < fst (wasm_sapi_single_write io s w) \<and>
      fst (wasm_sapi_single_write io s w) \<le> length s \<and>
      sink (snd (wasm_sapi_single_write io s w)) = sink w @ take (fst (wasm_sapi_single_write io s w)) s"
  shows "\<exists>w'. wasm_sapi_ub_write io str w = Some (length str, w') \<and> sink w' = sink w @ str"
  using ub_write_loop_all [of io sink str w, OF assms] by (auto simp: wasm_sapi_ub_write_def)

text \<open>A world whose \<^verbatim>\<open>write\<close> takes at most \<open>k + 1\<close> bytes at a time and appends them to a list.\<close>

definition pipe_io :: "nat \<Rightarrow> bytes host_io" where
  "pipe_io k = \<lparr>php_write_stdout = True,
     io_write = (\<lambda>s w. (int (min (length s) (Suc k)), w @ take (min (length s) (Suc k)) s)),
     io_fwrite = (\<lambda>s w. (length s, w @ s)), io_fflush = (\<lambda>w. (False, w)),
     handle_aborted_connection = id, send_headers_call = id\<rparr>"

theorem ub_write_complete_witness:
  "\<exists>w'. wasm_sapi_ub_write (pipe_io 1) ''hello'' ''> '' = Some (5, w') \<and> w' = ''> hello''"
  using ub_write_complete [of "pipe_io 1" id "''hello''" "''> ''"]
  by (fastforce simp: wasm_sapi_single_write_def pipe_io_def)

text \<open>
  The loop has no way out but progress: if the writes take nothing and
  \<^verbatim>\<open>php_handle_aborted_connection\<close> returns (as it does under \<^verbatim>\<open>ignore_user_abort\<close>), a non-empty
  write never returns.
\<close>

theorem ub_write_never_returns_on_closed_output:
  assumes "\<And>s w. fst (wasm_sapi_single_write io s w) = 0" and "str \<noteq> []"
  shows "wasm_sapi_ub_write io str w = None"
proof (rule ccontr)
  assume "wasm_sapi_ub_write io str w \<noteq> None"
  then obtain w' where "ub_write_loop io str w = Some w'"
    by (auto simp: wasm_sapi_ub_write_def)
  then have "str = [] \<or> (\<exists>s w. fst (wasm_sapi_single_write io s w) \<noteq> 0)"
    by (rule ub_write_loop_progress)
  then show False using assms by auto
qed

theorem ub_write_never_returns_on_closed_output_witness:
  "wasm_sapi_ub_write ((pipe_io 0)\<lparr>io_write := (\<lambda>s w. (-1, w))\<rparr>) ''x'' [] = None"
  by (rule ub_write_never_returns_on_closed_output)
    (simp_all add: wasm_sapi_single_write_def pipe_io_def)

section \<open>Reading the headers file back\<close>

text \<open>A reader for the JSON text: a quoted string with backslash escapes, then the list.\<close>

fun read_str :: "string \<Rightarrow> (bytes \<times> string) option" where
  "read_str [] = None"
| "read_str (c # cs) =
     (if c = quote then Some ([], cs)
      else if c = backslash then
        (case cs of [] \<Rightarrow> None | d # ds \<Rightarrow> map_option (\<lambda>(x, r). (d # x, r)) (read_str ds))
      else map_option (\<lambda>(x, r). (c # x, r)) (read_str cs))"

lemma read_str_shorter: "read_str s = Some (x, r) \<Longrightarrow> length r < length s"
  by (induction s arbitrary: x r rule: read_str.induct) (fastforce split: if_splits list.splits)+

function read_items :: "string \<Rightarrow> bytes list option" where
  "read_items [] = None"
| "read_items (c # cs) =
     (if c \<noteq> quote then None
      else case read_str cs of
        None \<Rightarrow> None
      | Some (x, r) \<Rightarrow>
          if r = '']}'' then Some [x]
          else if take 2 r = '','' @ [CHR 0x0A] then map_option ((#) x) (read_items (drop 2 r))
          else None)"
  by pat_completeness auto
termination
  by (relation "measure length") (auto dest: read_str_shorter)

definition is_digit :: "char \<Rightarrow> bool" where
  "is_digit c \<longleftrightarrow> digit_val c \<noteq> None"

definition read_headers_file :: "string \<Rightarrow> (nat \<times> bytes list) option" where
  "read_headers_file f =
     (if take (length status_open) f \<noteq> status_open then None
      else let g = drop (length status_open) f;
               ds = takeWhile is_digit g;
               h = drop (length ds) g
           in if take (length headers_open) h \<noteq> headers_open then None
              else map_option (\<lambda>xs. (read_dec 0 ds, xs)) (read_items (drop (length headers_open) h)))"

lemma write_escaped_append: "write_escaped h f = f @ write_escaped h []"
proof (induction h arbitrary: f)
  case (Cons c cs)
  show ?case
    by (subst (1 2) write_escaped.simps, subst (1 2) Cons.IH) simp
qed simp

definition header_item :: "bytes \<Rightarrow> string" where
  "header_item h = [quote] @ write_escaped h [] @ [quote] @ '','' @ [CHR 0x0A]"

lemma send_header_item: "wasm_sapi_send_header (Some h) file = file @ header_item h"
  by (simp add: wasm_sapi_send_header_def fwrite_str_def header_item_def cstr_def
      write_escaped_append [of h "file @ _"])

lemma read_str_escaped: "read_str (write_escaped h [] @ quote # r) = Some (h, r)"
proof (induction h)
  case (Cons c cs)
  then show ?case
    by (simp add: write_escaped_append [of cs "[_]"] write_escaped_append [of cs "[_, _]"])
qed simp

lemma read_items_headers:
  "read_items (concat (map header_item hs) @ terminator @ '']}'') = Some (hs @ [''__terminator__''])"
proof (induction hs)
  case Nil
  show ?case by (simp add: terminator_def)
next
  case (Cons h hs)
  have "concat (map header_item hs) @ terminator @ '']}'' \<noteq> '']}''"
    by (simp add: terminator_def)
  then show ?case
    using Cons by (simp add: header_item_def read_str_escaped)
qed

lemma fold_send_headers:
  "fold (\<lambda>h f. wasm_sapi_send_header (Some h) f) hs f = f @ concat (map header_item hs)"
  by (induction hs arbitrary: f) (simp_all add: send_header_item)

lemma takeWhile_dec: "takeWhile is_digit (dec_nat n @ headers_open @ r) = dec_nat n"
proof -
  have "takeWhile is_digit (headers_open @ r) = []"
    by (simp add: headers_open_def is_digit_def digit_val_def)
  moreover have "takeWhile is_digit (dec_nat n @ headers_open @ r) =
      dec_nat n @ takeWhile is_digit (headers_open @ r)"
    by (rule takeWhile_append2) (simp add: is_digit_def dec_nat_digits)
  ultimately show ?thesis by simp
qed

lemma send_headers_text:
  "wasm_sapi_send_headers True (int code) hs d = (1, Some (status_open @ dec_nat code @ headers_open @
     concat (map header_item (hs @ (case d of None \<Rightarrow> [] | Some h \<Rightarrow> [h]))) @ terminator @ '']}''))"
proof -
  have "c_string status_open" "c_string headers_open" "c_string '']}''"
    by (simp_all add: c_string_def status_open_def headers_open_def)
  then show ?thesis
    by (simp add: wasm_sapi_send_headers_def Let_def fwrite_str_def int_to_string_def dec_int_def
        dec_nat_c_string fold_send_headers send_header_item wasm_sapi_send_header_def [of None]
        split: option.split)
qed

text \<open>
  C15: the headers file can always be opened or the call reports failure; when it is written, a JSON
  reader recovers the status code and every header byte for byte, in order, the default content
  type after them and the terminator last, whatever quotes and backslashes the headers contain.
\<close>

theorem send_headers_roundtrip:
  "wasm_sapi_send_headers False code hs d = (-1, None) \<and>
   (\<exists>f. wasm_sapi_send_headers True (int status) hs d = (1, Some f) \<and>
     read_headers_file f = Some (status, hs @ (case d of None \<Rightarrow> [] | Some h \<Rightarrow> [h]) @ [''__terminator__'']))"
proof -
  have "read_dec 0 (dec_nat status) = status" by (rule read_dec_dec_nat_Nil)
  then have "read_headers_file (status_open @ dec_nat status @ headers_open @
      concat (map header_item xs) @ terminator @ '']}'') = Some (status, xs @ [''__terminator__''])" for xs
    by (simp add: read_headers_file_def Let_def takeWhile_dec read_items_headers)
  then show ?thesis
    by (simp add: send_headers_text wasm_sapi_send_headers_def [of False] del: map_append)
qed

end
