(* ===== verification/SapiRequest.thy ===== *)
theory SapiRequest
  imports ServerContext FdTable SapiOutput
begin

text \<open>
  The life of one request in \<^verbatim>\<open>compile/php/php_wasm.c\<close>: \<^verbatim>\<open>wasm_sapi_request_init\<close> redirects the
  standard streams and hands the server context to the PHP core, \<^verbatim>\<open>wasm_sapi_handle_request\<close> runs the
  script, \<^verbatim>\<open>wasm_sapi_request_shutdown\<close> frees the context, restores the streams and prepares the next
  request; and the callbacks the core makes meanwhile, \<^verbatim>\<open>wasm_sapi_read_post_body\<close> and
  \<^verbatim>\<open>wasm_sapi_register_server_variables\<close>. The branches are those of PHP 8.2 and later.

  The PHP core itself is not part of the repository: its entry points are the fields of the
  parameter \<open>php_core\<close>, functions of the whole state, and \<open>core_ok\<close> says what the module relies
  on: they leave the module's own structure, its live heap blocks and its open descriptors alone.
\<close>

record 'e sapi =
  ctx :: wasm_server_context_t
  mem :: cheap
  fds :: fdtab
  stdout_replacement :: int
  stderr_replacement :: int
  use_zend_alloc :: bool
  sg_no_chdir :: bool
  sg_server_context :: bool \<comment> \<open>\<^verbatim>\<open>SG(server_context) != NULL\<close>\<close>
  ri_query_string :: ptr
  ri_path_translated :: ptr
  ri_request_uri :: ptr
  ri_request_method :: ptr
  ri_content_type :: ptr
  ri_content_length :: int
  ri_proto_num :: int
  ri_headers_only :: bool
  read_post_bytes :: int
  http_response_code :: int
  cg_skip_shebang :: bool
  exit_status :: int
  ini_entries :: ptr
  engine :: 'e

record 'e php_core =
  php_request_startup :: "'e sapi \<Rightarrow> bool \<times> 'e sapi" \<comment> \<open>whether it succeeds\<close>
  php_request_shutdown :: "'e sapi \<Rightarrow> 'e sapi"
  php_module_shutdown :: "'e sapi \<Rightarrow> 'e sapi"
  sapi_shutdown :: "'e sapi \<Rightarrow> 'e sapi"
  php_fopen_primary_script :: "string \<Rightarrow> 'e sapi \<Rightarrow> int option \<times> 'e sapi" \<comment> \<open>errno on failure\<close>
  php_execute_script :: "'e sapi \<Rightarrow> 'e sapi"
  php_puts :: "string \<Rightarrow> 'e sapi \<Rightarrow> 'e sapi"
  php_import_environment_variables :: "'e sapi \<Rightarrow> 'e sapi"
  php_register_variable :: "string \<Rightarrow> string \<Rightarrow> 'e sapi \<Rightarrow> 'e sapi"
  c_fflush :: "int \<Rightarrow> 'e sapi \<Rightarrow> 'e sapi"
  js_release_file_locks :: "'e sapi \<Rightarrow> 'e sapi"

abbreviation (input) SUCCESS :: int where "SUCCESS \<equiv> 0"
abbreviation (input) FAILURE :: int where "FAILURE \<equiv> -1"

definition EACCES :: int where
  "EACCES = 2"

section \<open>The request cycle\<close>

definition wasm_sapi_module_shutdown :: "'e php_core \<Rightarrow> 'e sapi \<Rightarrow> fault + 'e sapi" where
  "wasm_sapi_module_shutdown core s =
     (let s1 = sapi_shutdown core (php_module_shutdown core s)
      in case ini_entries s1 of
           None \<Rightarrow> Inr s1
         | Some a \<Rightarrow> rbind (free a (mem s1)) (\<lambda>h. Inr (s1\<lparr>mem := h, ini_entries := None\<rparr>)))"

definition wasm_sapi_shutdown_wrapper :: "'e php_core \<Rightarrow> 'e sapi \<Rightarrow> fault + (int \<times> 'e sapi)" where
  "wasm_sapi_shutdown_wrapper core s = rbind (wasm_sapi_module_shutdown core s) (\<lambda>s'. Inr (SUCCESS, s'))"

definition wasm_sapi_request_init ::
    "'e php_core \<Rightarrow> (string \<Rightarrow> bool) \<Rightarrow> 'e sapi \<Rightarrow> fault + (int \<times> 'e sapi)" where
  "wasm_sapi_request_init core avail s =
     (let (r1, t1) = redirect_stream_to_file avail 1 ''/request/stdout'' (fds s);
          (r2, t2) = redirect_stream_to_file avail 2 ''/request/stderr'' t1;
          s1 = s\<lparr>use_zend_alloc := False, fds := t2, stdout_replacement := r1, stderr_replacement := r2\<rparr>
      in if r1 = -1 \<or> r2 = -1 then Inr (-1, s1)
         else
           let c = ctx s1;
               s2 = s1\<lparr>sg_no_chdir := True, sg_server_context := True,
                 ri_query_string := query_string c, ri_path_translated := path_translated c,
                 ri_request_uri := request_uri c, ri_request_method := request_method c,
                 ri_content_type := content_type c, ri_content_length := content_length c,
                 ri_proto_num := 1000, http_response_code := 200\<rparr>;
               (ok, s3) = php_request_startup core s2
           in if \<not> ok then rbind (wasm_sapi_module_shutdown core s3) (\<lambda>s4. Inr (FAILURE, s4))
              else let s4 = s3\<lparr>cg_skip_shebang := (skip_shebang (ctx s3) = 1)\<rparr>
                   in Inr (SUCCESS, php_register_variable core ''PHP_SELF'' ''-'' s4))"

definition wasm_sapi_request_shutdown :: "'e php_core \<Rightarrow> 'e sapi \<Rightarrow> fault + 'e sapi" where
  "wasm_sapi_request_shutdown core s =
     rbind (wasm_destroy_server_context (ctx s) (mem s)) (\<lambda>h.
       let s1 = php_request_shutdown core (s\<lparr>mem := h\<rparr>);
           s2 = s1\<lparr>sg_server_context := False\<rparr>;
           s3 = c_fflush core 2 (c_fflush core 1 s2);
           s4 = s3\<lparr>fds := restore_stream_handler 2 (stderr_replacement s3)
                        (restore_stream_handler 1 (stdout_replacement s3) (fds s3))\<rparr>;
           s5 = js_release_file_locks core s4
       in Inr (s5\<lparr>ctx := wasm_init_server_context (ctx s5)\<rparr>))"

text \<open>
  The value returned: the variable \<^verbatim>\<open>result\<close> of the source is not initialised, so a path that
  assigns nothing to it returns an indeterminate value, here \<^const>\<open>None\<close>.
\<close>

definition wasm_sapi_handle_request ::
    "'e php_core \<Rightarrow> (string \<Rightarrow> bool) \<Rightarrow> 'e sapi \<Rightarrow> fault + (int option \<times> 'e sapi)" where
  "wasm_sapi_handle_request core avail s =
     rbind (wasm_sapi_request_init core avail s) (\<lambda>(rc, s1).
       if rc = FAILURE then rbind (wasm_sapi_request_shutdown core s1) (\<lambda>s2. Inr (Some (-1), s2))
       else
         let s2 = s1\<lparr>exit_status := 0\<rparr>
         in case ri_path_translated s2 of
              None \<Rightarrow> Inl NullDeref
            | Some a \<Rightarrow> rbind (load_str a (mem s2)) (\<lambda>filename.
                case php_fopen_primary_script core filename s2 of
                  (Some errno, s3) \<Rightarrow>
                    let s4 = (if errno = EACCES
                              then php_puts core (''Access denied.'' @ [CHR 0x0A]) (s3\<lparr>http_response_code := 403\<rparr>)
                              else php_puts core (''No input file specified.'' @ [CHR 0x0A]) (s3\<lparr>http_response_code := 404\<rparr>))
                    in rbind (wasm_sapi_request_shutdown core s4) (\<lambda>s5. Inr (None, s5))
                | (None, s3) \<Rightarrow>
                    let s4 = php_execute_script core s3
                    in rbind (wasm_sapi_request_shutdown core s4) (\<lambda>s5. Inr (Some (exit_status s4), s5))))"

section \<open>What the module relies on\<close>

definition heap_keeps :: "cheap \<Rightarrow> cheap \<Rightarrow> bool" where
  "heap_keeps h h' \<longleftrightarrow> (heap_ok h \<longrightarrow> heap_ok h') \<and> next_addr h \<le> next_addr h' \<and>
     (\<forall>a. block_at h a \<noteq> None \<longrightarrow> block_at h' a = block_at h a) \<and>
     (\<forall>a. block_at h a = None \<longrightarrow> a < next_addr h \<longrightarrow> block_at h' a = None)"

definition fds_keep :: "fdtab \<Rightarrow> fdtab \<Rightarrow> bool" where
  "fds_keep t t' \<longleftrightarrow> (\<forall>i. fd_get t i \<noteq> None \<longrightarrow> fd_get t' i = fd_get t i)"

definition keeps :: "'e sapi \<Rightarrow> 'e sapi \<Rightarrow> bool" where
  "keeps s s' \<longleftrightarrow> ctx s' = ctx s \<and> ini_entries s' = ini_entries s \<and>
     stdout_replacement s' = stdout_replacement s \<and> stderr_replacement s' = stderr_replacement s \<and>
     heap_keeps (mem s) (mem s') \<and> fds_keep (fds s) (fds s')"

definition core_ok :: "'e php_core \<Rightarrow> bool" where
  "core_ok core \<longleftrightarrow>
     (\<forall>s. keeps s (snd (php_request_startup core s))) \<and> (\<forall>s. keeps s (php_request_shutdown core s)) \<and>
     (\<forall>s. keeps s (php_module_shutdown core s)) \<and> (\<forall>s. keeps s (sapi_shutdown core s)) \<and>
     (\<forall>f s. keeps s (snd (php_fopen_primary_script core f s))) \<and>
     (\<forall>s. keeps s (php_execute_script core s)) \<and> (\<forall>x s. keeps s (php_puts core x s)) \<and>
     (\<forall>n v s. keeps s (php_register_variable core n v s)) \<and> (\<forall>i s. keeps s (c_fflush core i s)) \<and>
     (\<forall>s. keeps s (js_release_file_locks core s)) \<and>
     (\<forall>s. ri_path_translated (snd (php_request_startup core s)) = ri_path_translated s) \<and>
     (\<forall>n v s. ri_path_translated (php_register_variable core n v s) = ri_path_translated s)"

lemma core_ok_keeps:
  assumes "core_ok core"
  shows "keeps s (snd (php_request_startup core s))" "keeps s (php_request_shutdown core s)"
    "keeps s (php_module_shutdown core s)" "keeps s (sapi_shutdown core s)"
    "keeps s (snd (php_fopen_primary_script core f s))" "keeps s (php_execute_script core s)"
    "keeps s (php_puts core x s)" "keeps s (php_register_variable core n v s)"
    "keeps s (c_fflush core i s)" "keeps s (js_release_file_locks core s)"
    "ri_path_translated (snd (php_request_startup core s)) = ri_path_translated s"
    "ri_path_translated (php_register_variable core n v s) = ri_path_translated s"
  using assms by (auto simp: core_ok_def)

lemma heap_keeps_refl [simp]: "heap_keeps h h"
  by (simp add: heap_keeps_def)

lemma fds_keep_refl [simp]: "fds_keep t t"
  by (simp add: fds_keep_def)

lemma keeps_refl [simp]: "keeps s s"
  by (simp add: keeps_def)

lemma heap_keeps_trans: "heap_keeps h h' \<Longrightarrow> heap_keeps h' h'' \<Longrightarrow> heap_keeps h h''"
  unfolding heap_keeps_def by (metis le_trans order_less_le_trans)

lemma fds_keep_trans: "fds_keep t t' \<Longrightarrow> fds_keep t' t'' \<Longrightarrow> fds_keep t t''"
  by (simp add: fds_keep_def)

lemma keeps_trans [trans]: "keeps s s' \<Longrightarrow> keeps s' s'' \<Longrightarrow> keeps s s''"
  by (auto simp: keeps_def intro: heap_keeps_trans fds_keep_trans)

lemma keeps_updates [simp]:
  "keeps s (s'\<lparr>sg_server_context := b\<rparr>) = keeps s s'"
  "keeps s (s'\<lparr>cg_skip_shebang := b\<rparr>) = keeps s s'"
  "keeps s (s'\<lparr>exit_status := n\<rparr>) = keeps s s'"
  "keeps s (s'\<lparr>http_response_code := n\<rparr>) = keeps s s'"
  by (simp_all add: keeps_def)

lemma heap_keeps_alive: "heap_keeps h h' \<Longrightarrow> block_at h a = Some b \<Longrightarrow> block_at h' a = Some b"
  by (simp add: heap_keeps_def)

lemma layout_keeps:
  assumes "ctx_layout (c, h) ns es" "heap_keeps h h'"
  shows "ctx_layout (c, h') ns es"
proof -
  have "block_at h' a = block_at h a" if "a \<in> set (owned c ns es)" for a
    using layout_live [OF assms(1) that] assms(2) by (simp add: heap_keeps_def)
  then show ?thesis
    using assms by (auto simp: ctx_layout_def owned_def heap_keeps_def intro: chain_cong)
qed

section \<open>Shutdown resets everything\<close>

text \<open>
  The state a request leaves to its shutdown: the context is laid out, and each standard stream is
  either redirected, with the replacement descriptor open on the original file, or was never
  touched (replacement -1).
\<close>

definition stream_saved :: "int \<Rightarrow> int \<Rightarrow> string \<Rightarrow> fdtab \<Rightarrow> bool" where
  "stream_saved fd repl f t \<longleftrightarrow>
     (repl = -1 \<and> fd_get t fd = Some f) \<or> (0 \<le> repl \<and> repl \<notin> {1, 2} \<and> fd_get t repl = Some f)"

lemma stream_saved_keep: "stream_saved fd repl f t \<Longrightarrow> fds_keep t t' \<Longrightarrow> stream_saved fd repl f t'"
  by (auto simp: stream_saved_def fds_keep_def)

lemma restore_both:
  assumes "stream_saved 1 r1 f1 t" "stream_saved 2 r2 f2 t" "r1 = -1 \<or> r1 \<noteq> r2"
  shows "fd_get (restore_stream_handler 2 r2 (restore_stream_handler 1 r1 t)) 1 = Some f1"
    and "fd_get (restore_stream_handler 2 r2 (restore_stream_handler 1 r1 t)) 2 = Some f2"
    and "\<And>i. i \<notin> {1, 2, r1, r2} \<Longrightarrow>
      fd_get (restore_stream_handler 2 r2 (restore_stream_handler 1 r1 t)) i = fd_get t i"
proof -
  let ?t1 = "restore_stream_handler 1 r1 t"
  have t1: "fd_get ?t1 1 = Some f1" "\<And>i. i \<notin> {1, r1} \<Longrightarrow> fd_get ?t1 i = fd_get t i"
    using assms(1) by (auto simp: stream_saved_def restore_get)
  have s2: "stream_saved 2 r2 f2 ?t1"
  proof (cases "r2 = -1")
    case True
    then show ?thesis using assms t1(2) [of 2] by (auto simp: stream_saved_def)
  next
    case False
    then show ?thesis using assms t1(2) [of r2] by (auto simp: stream_saved_def)
  qed
  show "fd_get (restore_stream_handler 2 r2 ?t1) 1 = Some f1"
    using s2 t1(1) by (auto simp: stream_saved_def restore_get)
  show "fd_get (restore_stream_handler 2 r2 ?t1) 2 = Some f2"
    using s2 by (auto simp: stream_saved_def restore_get)
  show "fd_get (restore_stream_handler 2 r2 ?t1) i = fd_get t i" if "i \<notin> {1, 2, r1, r2}" for i
    using s2 t1(2) that by (auto simp: stream_saved_def restore_get)
qed

lemma request_shutdown_resets:
  assumes core: "core_ok core" and lay: "ctx_layout (ctx s, mem s) ns es"
    and saved: "stream_saved 1 (stdout_replacement s) f1 (fds s)"
      "stream_saved 2 (stderr_replacement s) f2 (fds s)"
      "stdout_replacement s = -1 \<or> stdout_replacement s \<noteq> stderr_replacement s"
  obtains s' where "wasm_sapi_request_shutdown core s = Inr s'"
    "ctx_rel (ctx s', mem s') empty_request"
    "\<And>a. a \<in> set (owned (ctx s) ns es) \<Longrightarrow> block_at (mem s') a = None"
    "fd_get (fds s') 1 = Some f1" "fd_get (fds s') 2 = Some f2"
    "\<And>i. fd_get (fds s) i \<noteq> None \<Longrightarrow> i \<notin> {1, 2, stdout_replacement s, stderr_replacement s} \<Longrightarrow>
      fd_get (fds s') i = fd_get (fds s) i"
proof -
  obtain h where h: "wasm_destroy_server_context (ctx s) (mem s) = Inr h" "heap_ok h"
    "next_addr h = next_addr (mem s)"
    "\<And>a. block_at h a = (if a \<in> set (owned (ctx s) ns es) then None else block_at (mem s) a)"
    using destroy_frees_owned [OF lay] by auto
  define s3 where "s3 = c_fflush core 2 (c_fflush core 1 ((php_request_shutdown core (s\<lparr>mem := h\<rparr>))\<lparr>sg_server_context := False\<rparr>))"
  define s4 where "s4 = s3\<lparr>fds := restore_stream_handler 2 (stderr_replacement s3)
      (restore_stream_handler 1 (stdout_replacement s3) (fds s3))\<rparr>"
  define s5 where "s5 = js_release_file_locks core s4"
  have run: "wasm_sapi_request_shutdown core s = Inr (s5\<lparr>ctx := wasm_init_server_context (ctx s5)\<rparr>)"
    by (simp add: wasm_sapi_request_shutdown_def h(1) Let_def flip: s3_def s4_def s5_def)
  let ?s2 = "(php_request_shutdown core (s\<lparr>mem := h\<rparr>))\<lparr>sg_server_context := False\<rparr>"
  have "keeps (s\<lparr>mem := h\<rparr>) ?s2" by (simp add: core_ok_keeps [OF core])
  also have "keeps ?s2 (c_fflush core 1 ?s2)" by (rule core_ok_keeps [OF core])
  also have "keeps (c_fflush core 1 ?s2) s3" unfolding s3_def by (rule core_ok_keeps [OF core])
  finally have k3: "keeps (s\<lparr>mem := h\<rparr>) s3" .
  have k5: "keeps s4 s5" using core by (simp add: s5_def core_ok_def)
  have heaps: "heap_keeps h (mem s5)"
    using k3 k5 by (auto simp: keeps_def s4_def intro: heap_keeps_trans)
  have "block_at (mem s5) a = None" if a: "a \<in> set (owned (ctx s) ns es)" for a
  proof -
    have "a < next_addr h"
      using live_below_next layout_live [OF lay a] lay h(3) by (simp add: ctx_layout_def)
    then show ?thesis using heaps h(4) a by (simp add: heap_keeps_def)
  qed
  moreover have "ctx_rel (wasm_init_server_context (ctx s5), mem s5) empty_request"
    using heaps h(2) by (intro init_rel) (simp add: heap_keeps_def)
  moreover have repl: "stdout_replacement s3 = stdout_replacement s" "stderr_replacement s3 = stderr_replacement s"
      "fds_keep (fds s) (fds s3)"
    using k3 by (auto simp: keeps_def)
  note restored = restore_both [OF stream_saved_keep [OF saved(1) repl(3)] stream_saved_keep [OF saved(2) repl(3)] saved(3)]
  have "fd_get (fds s4) 1 = Some f1" "fd_get (fds s4) 2 = Some f2"
      "\<And>i. fd_get (fds s) i \<noteq> None \<Longrightarrow> i \<notin> {1, 2, stdout_replacement s, stderr_replacement s} \<Longrightarrow>
        fd_get (fds s4) i = fd_get (fds s) i"
    using restored repl(3) by (auto simp: s4_def repl(1,2) fds_keep_def)
  then have "fd_get (fds s5) 1 = Some f1" "fd_get (fds s5) 2 = Some f2"
      "\<And>i. fd_get (fds s) i \<noteq> None \<Longrightarrow> i \<notin> {1, 2, stdout_replacement s, stderr_replacement s} \<Longrightarrow>
        fd_get (fds s5) i = fd_get (fds s) i"
    using k5 by (auto simp: keeps_def fds_keep_def)
  ultimately show thesis
    using that [OF run] by simp
qed

section \<open>Initialisation\<close>

text \<open>One redirection, successful or not, seen from the descriptors.\<close>

lemma redirect_cases:
  assumes "fd_get t fd = Some f" "fd \<in> {1, 2}" "redirect_stream_to_file avail fd path t = (r, t')"
    and other: "fd_get t 1 \<noteq> None" "fd_get t 2 \<noteq> None"
  shows "stream_saved fd r f t' \<and> (\<forall>i. i \<noteq> fd \<longrightarrow> fd_get t i \<noteq> None \<longrightarrow> fd_get t' i = fd_get t i) \<and>
    (r \<noteq> -1 \<longrightarrow> fd_get t r = None) \<and>
    (avail path \<longrightarrow> r \<noteq> -1 \<and> (\<exists>out. out \<noteq> r \<and> fd_get t out = None \<and> fd_get t' out = Some path))"
proof (cases "avail path")
  case False
  then show ?thesis
    using assms redirect_fails [of avail path fd t] by (auto simp: stream_saved_def)
next
  case True
  have "0 \<le> fd" using assms(2) by auto
  from redirect_ok [of avail path t fd f, OF True assms(1) this] assms(3)
  obtain out where "0 \<le> r" "out \<noteq> r" "fd \<noteq> out" "fd \<noteq> r" "fd_get t out = None" "fd_get t r = None"
    and "\<And>i. fd_get t' i = (if i = fd \<or> i = out then Some path else if i = r then Some f else fd_get t i)"
    by (metis prod.inject)
  then show ?thesis using other by (auto simp: stream_saved_def)
qed

text \<open>The two redirections in sequence.\<close>

lemma redirect_both:
  assumes std: "fd_get t 1 = Some f1" "fd_get t 2 = Some f2"
    and run: "redirect_stream_to_file avail 1 p1 t = (r1, t1)" "redirect_stream_to_file avail 2 p2 t1 = (r2, t2)"
  shows "stream_saved 1 r1 f1 t2" "stream_saved 2 r2 f2 t2" "r1 = -1 \<or> r1 \<noteq> r2"
    and "avail p1 \<Longrightarrow> avail p2 \<Longrightarrow> r1 \<noteq> -1 \<and> r2 \<noteq> -1 \<and> (\<exists>o1 o2. o1 \<noteq> o2 \<and> fd_get t o1 = None \<and>
      fd_get t o2 = None \<and> fd_get t2 o1 = Some p1 \<and> fd_get t2 o2 = Some p2 \<and>
      {o1, o2} \<inter> {1, 2, r1, r2} = {})"
proof -
  have 1: "stream_saved 1 r1 f1 t1" "\<And>i. i \<noteq> 1 \<Longrightarrow> fd_get t i \<noteq> None \<Longrightarrow> fd_get t1 i = fd_get t i"
      "avail p1 \<Longrightarrow> r1 \<noteq> -1 \<and> (\<exists>out. out \<noteq> r1 \<and> fd_get t out = None \<and> fd_get t1 out = Some p1)"
    using redirect_cases [OF std(1) _ run(1)] std by simp_all
  have std1: "fd_get t1 2 = Some f2" "fd_get t1 1 \<noteq> None"
    using 1(2) [of 2] std 1(1) redirect_fails [of avail p1 1 t] run(1)
      redirect_ok [of avail p1 t 1 f1] by (auto simp: stream_saved_def) metis
  have 2: "stream_saved 2 r2 f2 t2" "\<And>i. i \<noteq> 2 \<Longrightarrow> fd_get t1 i \<noteq> None \<Longrightarrow> fd_get t2 i = fd_get t1 i"
      "r2 \<noteq> -1 \<Longrightarrow> fd_get t1 r2 = None"
      "avail p2 \<Longrightarrow> r2 \<noteq> -1 \<and> (\<exists>out. out \<noteq> r2 \<and> fd_get t1 out = None \<and> fd_get t2 out = Some p2)"
    using redirect_cases [OF std1(1) _ run(2)] std1 by simp_all
  show "stream_saved 1 r1 f1 t2" using 1(1) 2(2) std1 by (auto simp: stream_saved_def)
  show "stream_saved 2 r2 f2 t2" by (rule 2(1))
  show "r1 = -1 \<or> r1 \<noteq> r2" using 1(1) 2(3) by (auto simp: stream_saved_def)
  assume "avail p1" "avail p2"
  with 1(3) 2(4) obtain o1 o2 where o: "r1 \<noteq> -1" "r2 \<noteq> -1" "o1 \<noteq> r1" "fd_get t o1 = None" "fd_get t1 o1 = Some p1"
      "o2 \<noteq> r2" "fd_get t1 o2 = None" "fd_get t2 o2 = Some p2"
    by auto
  have "fd_get t2 o1 = Some p1" using o std 2(2) [of o1] by (cases "o1 = 2") auto
  moreover have "fd_get t o2 = None"
    using o std std1 1(2) [of o2] by force
  moreover have "o1 \<noteq> o2" "{o1, o2} \<inter> {1, 2, r1, r2} = {}"
    using o std std1 1(1) 2(1,3) by (auto simp: stream_saved_def)
  ultimately show "r1 \<noteq> -1 \<and> r2 \<noteq> -1 \<and> (\<exists>o1 o2. o1 \<noteq> o2 \<and> fd_get t o1 = None \<and>
      fd_get t o2 = None \<and> fd_get t2 o1 = Some p1 \<and> fd_get t2 o2 = Some p2 \<and>
      {o1, o2} \<inter> {1, 2, r1, r2} = {})"
    using o by blast
qed

text \<open>
  What holds between initialisation and shutdown: the context is untouched and laid out as before,
  both streams are saved.
\<close>

definition in_request :: "'e sapi \<Rightarrow> string \<Rightarrow> string \<Rightarrow> 'e sapi \<Rightarrow> bool" where
  "in_request s f1 f2 s' \<longleftrightarrow> ctx s' = ctx s \<and> heap_keeps (mem s) (mem s') \<and>
     stream_saved 1 (stdout_replacement s') f1 (fds s') \<and> stream_saved 2 (stderr_replacement s') f2 (fds s') \<and>
     (stdout_replacement s' = -1 \<or> stdout_replacement s' \<noteq> stderr_replacement s')"

definition two_more_open :: "'e sapi \<Rightarrow> 'e sapi \<Rightarrow> bool" where
  "two_more_open s s' \<longleftrightarrow> (\<exists>o1 o2. o1 \<noteq> o2 \<and> fd_get (fds s) o1 = None \<and> fd_get (fds s) o2 = None \<and>
     fd_get (fds s') o1 = Some ''/request/stdout'' \<and> fd_get (fds s') o2 = Some ''/request/stderr'' \<and>
     {o1, o2} \<inter> {1, 2, stdout_replacement s', stderr_replacement s'} = {})"

lemma in_request_keeps: "in_request s f1 f2 s' \<Longrightarrow> keeps s' s'' \<Longrightarrow> in_request s f1 f2 s''"
  unfolding in_request_def keeps_def by (metis heap_keeps_trans stream_saved_keep)

lemma two_more_open_keeps: "two_more_open s s' \<Longrightarrow> keeps s' s'' \<Longrightarrow> two_more_open s s''"
  unfolding two_more_open_def keeps_def fds_keep_def by (metis option.discI)

lemma request_init_result:
  assumes core: "core_ok core" and std: "fd_get (fds s) 1 = Some f1" "fd_get (fds s) 2 = Some f2"
    and ini: "ini_entries s = None"
  obtains rc s' where "wasm_sapi_request_init core avail s = Inr (rc, s')" "rc = SUCCESS \<or> rc = FAILURE"
    "in_request s f1 f2 s'" "rc = SUCCESS \<Longrightarrow> ri_path_translated s' = path_translated (ctx s)"
    "avail ''/request/stdout'' \<Longrightarrow> avail ''/request/stderr'' \<Longrightarrow> two_more_open s s'"
proof -
  obtain r1 t1 where run1: "redirect_stream_to_file avail 1 ''/request/stdout'' (fds s) = (r1, t1)" by fastforce
  obtain r2 t2 where run2: "redirect_stream_to_file avail 2 ''/request/stderr'' t1 = (r2, t2)" by fastforce
  define s1 where "s1 = s\<lparr>use_zend_alloc := False, fds := t2, stdout_replacement := r1, stderr_replacement := r2\<rparr>"
  define s2 where "s2 = s1\<lparr>sg_no_chdir := True, sg_server_context := True,
      ri_query_string := query_string (ctx s1), ri_path_translated := path_translated (ctx s1),
      ri_request_uri := request_uri (ctx s1), ri_request_method := request_method (ctx s1),
      ri_content_type := content_type (ctx s1), ri_content_length := content_length (ctx s1),
      ri_proto_num := 1000, http_response_code := 200\<rparr>"
  obtain ok s3 where start: "php_request_startup core s2 = (ok, s3)" by fastforce
  note both = redirect_both [OF std run1 run2]
  have r1: "in_request s f1 f2 s1" using both by (auto simp: in_request_def s1_def)
  have more1: "two_more_open s s1" if "avail ''/request/stdout''" "avail ''/request/stderr''"
    using both(4) [OF that] by (auto simp: two_more_open_def s1_def)
  have run: "wasm_sapi_request_init core avail s =
      (if r1 = -1 \<or> r2 = -1 then Inr (-1, s1)
       else if \<not> ok then rbind (wasm_sapi_module_shutdown core s3) (\<lambda>s4. Inr (FAILURE, s4))
       else Inr (SUCCESS, php_register_variable core ''PHP_SELF'' ''-''
              (s3\<lparr>cg_skip_shebang := (skip_shebang (ctx s3) = 1)\<rparr>)))"
    using start by (simp add: wasm_sapi_request_init_def run1 run2 Let_def s1_def s2_def)
  have k3: "keeps s1 s3"
    using core_ok_keeps(1) [OF core, of s2] start by (simp add: keeps_def s2_def)
  have p3: "ri_path_translated s3 = path_translated (ctx s)"
    using core_ok_keeps(11) [OF core, of s2] start by (simp add: s2_def s1_def)
  show thesis
  proof (cases "r1 = -1 \<or> r2 = -1")
    case True
    with run r1 more1 show ?thesis by (intro that [of "-1" s1]) auto
  next
    case False
    show ?thesis
    proof (cases ok)
      case True
      let ?s4 = "php_register_variable core ''PHP_SELF'' ''-'' (s3\<lparr>cg_skip_shebang := (skip_shebang (ctx s3) = 1)\<rparr>)"
      have "keeps s1 ?s4"
        by (rule keeps_trans [OF _ core_ok_keeps(8) [OF core]]) (simp add: k3)
      note facts = in_request_keeps [OF r1 this] two_more_open_keeps [OF more1 this]
      moreover have "ri_path_translated ?s4 = path_translated (ctx s)"
        by (simp add: core_ok_keeps(12) [OF core] p3)
      moreover have "wasm_sapi_request_init core avail s = Inr (SUCCESS, ?s4)" using run False True by simp
      ultimately show ?thesis by (intro that [of SUCCESS ?s4]) simp_all
    next
      case down: False
      let ?s4 = "sapi_shutdown core (php_module_shutdown core s3)"
      have k4: "keeps s1 ?s4"
        by (rule keeps_trans [OF _ core_ok_keeps(4) [OF core]], rule keeps_trans [OF k3 core_ok_keeps(3) [OF core]])
      then have "ini_entries ?s4 = None" using ini by (simp add: keeps_def s1_def)
      then have "wasm_sapi_request_init core avail s = Inr (FAILURE, ?s4)"
        using run False down by (simp add: wasm_sapi_module_shutdown_def Let_def)
      with in_request_keeps [OF r1 k4] two_more_open_keeps [OF more1 k4] show ?thesis
        by (intro that [of FAILURE ?s4]) simp_all
    qed
  qed
qed

section \<open>Properties of the request cycle\<close>

lemma shutdown_in_request:
  assumes core: "core_ok core" and lay: "ctx_layout (ctx s, mem s) ns es" and inr: "in_request s f1 f2 s'"
  obtains s'' where "wasm_sapi_request_shutdown core s' = Inr s''"
    "ctx_rel (ctx s'', mem s'') empty_request" "\<And>a. a \<in> set (owned (ctx s) ns es) \<Longrightarrow> block_at (mem s'') a = None"
    "fd_get (fds s'') 1 = Some f1" "fd_get (fds s'') 2 = Some f2"
    "two_more_open s s' \<Longrightarrow> \<exists>o1 o2. o1 \<noteq> o2 \<and> fd_get (fds s) o1 = None \<and> fd_get (fds s) o2 = None \<and>
      fd_get (fds s'') o1 \<noteq> None \<and> fd_get (fds s'') o2 \<noteq> None"
proof -
  have lay': "ctx_layout (ctx s', mem s') ns es"
    using layout_keeps [OF lay] inr by (simp add: in_request_def)
  show thesis
  proof (rule request_shutdown_resets [OF core lay'])
    show "stream_saved 1 (stdout_replacement s') f1 (fds s')" "stream_saved 2 (stderr_replacement s') f2 (fds s')"
      "stdout_replacement s' = -1 \<or> stdout_replacement s' \<noteq> stderr_replacement s'"
      using inr by (simp_all add: in_request_def)
    fix s''
    assume run: "wasm_sapi_request_shutdown core s' = Inr s''" "ctx_rel (ctx s'', mem s'') empty_request"
      "\<And>a. a \<in> set (owned (ctx s') ns es) \<Longrightarrow> block_at (mem s'') a = None"
      "fd_get (fds s'') 1 = Some f1" "fd_get (fds s'') 2 = Some f2"
    assume rest: "\<And>i. fd_get (fds s') i \<noteq> None \<Longrightarrow> i \<notin> {1, 2, stdout_replacement s', stderr_replacement s'} \<Longrightarrow>
      fd_get (fds s'') i = fd_get (fds s') i"
    have "\<exists>o1 o2. o1 \<noteq> o2 \<and> fd_get (fds s) o1 = None \<and> fd_get (fds s) o2 = None \<and>
        fd_get (fds s'') o1 \<noteq> None \<and> fd_get (fds s'') o2 \<noteq> None" if two: "two_more_open s s'"
    proof -
      from two obtain o1 o2 where o: "o1 \<noteq> o2" "fd_get (fds s) o1 = None" "fd_get (fds s) o2 = None"
        "fd_get (fds s') o1 \<noteq> None" "fd_get (fds s') o2 \<noteq> None"
        "{o1, o2} \<inter> {1, 2, stdout_replacement s', stderr_replacement s'} = {}"
        unfolding two_more_open_def by force
      have "fd_get (fds s'') o1 = fd_get (fds s') o1" "fd_get (fds s'') o2 = fd_get (fds s') o2"
        using o by (intro rest; blast)+
      with o show ?thesis by metis
    qed
    with run show thesis
      using inr by (intro that [of s'']) (simp_all add: in_request_def)
  qed
qed

text \<open>The branches of the handler, as one case distinction.\<close>

lemma handle_request_branches:
  assumes core: "core_ok core" and std: "fd_get (fds s) 1 = Some f1" "fd_get (fds s) 2 = Some f2"
    and ini: "ini_entries s = None" and path: "str_val (mem s) (path_translated (ctx s)) = Some path"
  obtains rv s' where
    "wasm_sapi_handle_request core avail s = rbind (wasm_sapi_request_shutdown core s') (\<lambda>s2. Inr (rv, s2))"
    "in_request s f1 f2 s'"
    "avail ''/request/stdout'' \<Longrightarrow> avail ''/request/stderr'' \<Longrightarrow> two_more_open s s'"
proof -
  obtain rc s1 where init: "wasm_sapi_request_init core avail s = Inr (rc, s1)" "rc = SUCCESS \<or> rc = FAILURE"
    and inr: "in_request s f1 f2 s1" and pt: "rc = SUCCESS \<Longrightarrow> ri_path_translated s1 = path_translated (ctx s)"
    and two: "avail ''/request/stdout'' \<Longrightarrow> avail ''/request/stderr'' \<Longrightarrow> two_more_open s s1"
    using request_init_result [OF core std ini] by metis
  show thesis
  proof (cases "rc = FAILURE")
    case True
    then show ?thesis using init inr two by (intro that [of s1 "Some (-1)"]) (simp_all add: wasm_sapi_handle_request_def)
  next
    case False
    let ?s2 = "s1\<lparr>exit_status := 0\<rparr>"
    from path obtain a where a: "path_translated (ctx s) = Some a" "block_at (mem s) a = Some (Str path)"
      by (auto simp: str_val_def split: option.splits block.splits)
    have "block_at (mem s1) a = Some (Str path)"
      using inr a(2) by (auto simp: in_request_def intro: heap_keeps_alive)
    then have load: "load_str a (mem ?s2) = Inr path" "ri_path_translated ?s2 = Some a"
      using pt a(1) init(2) False by auto
    obtain e s3 where fopen: "php_fopen_primary_script core path ?s2 = (e, s3)" by fastforce
    have k3: "keeps s1 s3"
      using core_ok_keeps(5) [OF core, of ?s2 path] fopen by (simp add: keeps_def)
    define s4 where "s4 = (case e of None \<Rightarrow> php_execute_script core s3 | Some errno \<Rightarrow>
        (if errno = EACCES
         then php_puts core (''Access denied.'' @ [CHR 0x0A]) (s3\<lparr>http_response_code := 403\<rparr>)
         else php_puts core (''No input file specified.'' @ [CHR 0x0A]) (s3\<lparr>http_response_code := 404\<rparr>)))"
    have "keeps s3 s4"
      using core_ok_keeps(6,7) [OF core] keeps_trans [OF _ core_ok_keeps(7) [OF core]]
      by (auto simp: s4_def split: option.splits)
    with k3 have "keeps s1 s4" by (rule keeps_trans)
    then have "in_request s f1 f2 s4"
      "avail ''/request/stdout'' \<Longrightarrow> avail ''/request/stderr'' \<Longrightarrow> two_more_open s s4"
      using inr two by (auto intro: in_request_keeps two_more_open_keeps)
    moreover have "wasm_sapi_handle_request core avail s = rbind (wasm_sapi_request_shutdown core s4)
        (\<lambda>s2. Inr (case e of None \<Rightarrow> Some (exit_status s4) | Some _ \<Rightarrow> None, s2))"
      using init(1) False load fopen by (simp add: wasm_sapi_handle_request_def s4_def Let_def split: option.splits)
    ultimately show ?thesis by (intro that [of s4]) simp_all
  qed
qed

lemma handle_request_facts:
  assumes "core_ok core" and "ctx_layout (ctx s, mem s) ns es"
    and "str_val (mem s) (path_translated (ctx s)) = Some path" and "ini_entries s = None"
    and "fd_get (fds s) 1 = Some f1" and "fd_get (fds s) 2 = Some f2"
  obtains rv s' where "wasm_sapi_handle_request core avail s = Inr (rv, s')"
    "ctx_rel (ctx s', mem s') empty_request"
    "\<And>a. a \<in> set (owned (ctx s) ns es) \<Longrightarrow> block_at (mem s') a = None"
    "fd_get (fds s') 1 = Some f1" "fd_get (fds s') 2 = Some f2"
    "avail ''/request/stdout'' \<Longrightarrow> avail ''/request/stderr'' \<Longrightarrow>
      \<exists>o1 o2. o1 \<noteq> o2 \<and> fd_get (fds s) o1 = None \<and> fd_get (fds s) o2 = None \<and>
        fd_get (fds s') o1 \<noteq> None \<and> fd_get (fds s') o2 \<noteq> None"
proof (rule handle_request_branches [OF assms(1,5,6,4,3), of avail])
  fix rv s'
  assume run: "wasm_sapi_handle_request core avail s =
      rbind (wasm_sapi_request_shutdown core s') (\<lambda>s2. Inr (rv, s2))"
    and inr: "in_request s f1 f2 s'"
    and two: "avail ''/request/stdout'' \<Longrightarrow> avail ''/request/stderr'' \<Longrightarrow> two_more_open s s'"
  show thesis
    by (rule shutdown_in_request [OF assms(1,2) inr]) (rule that; use run two in simp)
qed

text \<open>A concrete core and a concrete state, for the instances below.\<close>

definition quiet_core :: "int option \<Rightarrow> int \<Rightarrow> unit php_core" where
  "quiet_core err code = \<lparr>php_request_startup = Pair True, php_request_shutdown = id, php_module_shutdown = id,
     sapi_shutdown = id, php_fopen_primary_script = (\<lambda>f. Pair err), php_execute_script = exit_status_update (\<lambda>_. code),
     php_puts = (\<lambda>x. id), php_import_environment_variables = id, php_register_variable = (\<lambda>n v. id),
     c_fflush = (\<lambda>i. id), js_release_file_locks = id\<rparr>"

lemma quiet_core_ok [simp]: "core_ok (quiet_core err code)"
  by (auto simp: core_ok_def quiet_core_def keeps_def)

definition sapi0 :: "ctx_call list \<Rightarrow> unit sapi" where
  "sapi0 calls = (case run_calls calls (wasm_init_server_context null_context, empty_heap) of (c, h) \<Rightarrow>
     \<lparr>ctx = c, mem = h, fds = [Some ''in'', Some ''out'', Some ''err''], stdout_replacement = -1,
      stderr_replacement = -1, use_zend_alloc = True, sg_no_chdir = False, sg_server_context = False,
      ri_query_string = None, ri_path_translated = None, ri_request_uri = None, ri_request_method = None,
      ri_content_type = None, ri_content_length = 0, ri_proto_num = 0, ri_headers_only = False,
      read_post_bytes = 0, http_response_code = 0, cg_skip_shebang = False, exit_status = 0,
      ini_entries = None, engine = ()\<rparr>)"

lemma sapi0_rel: "ctx_rel (ctx (sapi0 calls), mem (sapi0 calls)) (spec_calls calls empty_request)"
  using run_calls_refine [OF init_rel [OF heap_ok_empty, of null_context], of calls]
  by (cases "run_calls calls (wasm_init_server_context null_context, empty_heap)") (simp add: sapi0_def)

lemma sapi0_fields [simp]:
  "fds (sapi0 calls) = [Some ''in'', Some ''out'', Some ''err'']" "ini_entries (sapi0 calls) = None"
  by (simp_all add: sapi0_def split: prod.splits)

lemma sapi0_layout:
  obtains ns es where "ctx_layout (ctx (sapi0 calls), mem (sapi0 calls)) ns es"
    "str_val (mem (sapi0 calls)) (path_translated (ctx (sapi0 calls))) = rs_path_translated (spec_calls calls empty_request)"
  using sapi0_rel [of calls] by (auto simp: ctx_rel_def view_def)



text \<open>
  A request leaks two descriptors: two that were free before are open afterwards.
\<close>

theorem handle_request_leaks_two_descriptors:
  assumes "core_ok core" and "ctx_layout (ctx s, mem s) ns es"
    and "str_val (mem s) (path_translated (ctx s)) = Some path" and "ini_entries s = None"
    and "fd_get (fds s) 1 = Some f1" and "fd_get (fds s) 2 = Some f2"
    and "avail ''/request/stdout''" and "avail ''/request/stderr''"
  shows "\<exists>rv s' o1 o2. wasm_sapi_handle_request core avail s = Inr (rv, s') \<and> o1 \<noteq> o2 \<and>
    fd_get (fds s) o1 = None \<and> fd_get (fds s) o2 = None \<and>
    fd_get (fds s') o1 \<noteq> None \<and> fd_get (fds s') o2 \<noteq> None"
  by (rule handle_request_facts [OF assms(1-6), of avail]) (use assms(7,8) in blast)

theorem handle_request_leaks_two_descriptors_witness:
  "\<exists>rv s' o1 o2. wasm_sapi_handle_request (quiet_core None 0) (\<lambda>_. True) (sapi0 [SetPathTranslated ''/b.php'']) = Inr (rv, s') \<and>
    o1 \<noteq> o2 \<and> fd_get (fds s') o1 \<noteq> None \<and> fd_get (fds s') o2 \<noteq> None"
proof -
  obtain ns es where lay: "ctx_layout (ctx (sapi0 [SetPathTranslated ''/b.php'']), mem (sapi0 [SetPathTranslated ''/b.php''])) ns es"
      "str_val (mem (sapi0 [SetPathTranslated ''/b.php''])) (path_translated (ctx (sapi0 [SetPathTranslated ''/b.php'']))) = Some ''/b.php''"
    using sapi0_layout [of "[SetPathTranslated ''/b.php'']"] by auto
  from handle_request_leaks_two_descriptors [OF quiet_core_ok lay, of "''out''" "''err''" "\<lambda>_. True" None 0]
  show ?thesis unfolding sapi0_fields by (simp only: fd_get_def [of "[Some ''in'', Some ''out'', Some ''err'']"] simp_thms) force
qed



end
