(* ===== verification/SapiCallbacks.thy ===== *)
theory SapiCallbacks
  imports SapiRequest
begin

text \<open>
  The callbacks the PHP core makes into \<^verbatim>\<open>compile/php/php_wasm.c\<close> while a request runs:
  \<^verbatim>\<open>wasm_sapi_read_post_body\<close>, which copies the next part of the request body, and
  \<^verbatim>\<open>wasm_sapi_register_server_variables\<close>, which fills \<^verbatim>\<open>$_SERVER\<close> from the server context. The
  array itself belongs to the core; a function \<open>look\<close> of the state reads it, and \<open>array_ok\<close> states
  what registering a variable does to it.
\<close>

section \<open>Reading the request body\<close>

text \<open>
  \<^verbatim>\<open>content_length\<close> is a \<^verbatim>\<open>zend_long\<close> and \<^verbatim>\<open>read_post_bytes\<close> an \<^verbatim>\<open>int64_t\<close>, so the minimum is taken in
  64-bit signed arithmetic and then converted to the unsigned 32-bit \<^verbatim>\<open>count_bytes\<close>. The result is
  the count returned and the bytes written to the buffer.
\<close>

definition wasm_sapi_read_post_body :: "u32 \<Rightarrow> 'e sapi \<Rightarrow> fault + (u32 \<times> bytes)" where
  "wasm_sapi_read_post_body count_bytes s =
     (case request_body (ctx s) of
        None \<Rightarrow> Inr (0, [])
      | Some a \<Rightarrow>
          let count = (word_of_int (min (uint count_bytes) (ri_content_length s - read_post_bytes s)) :: u32)
          in if count > 0
             then rbind (load_str a (mem s)) (\<lambda>body.
               if 0 \<le> read_post_bytes s \<and> read_post_bytes s + uint count \<le> int (length body)
               then Inr (count, take (unat count) (drop (nat (read_post_bytes s)) body))
               else Inl (OutOfBounds a))
             else Inr (count, []))"

text \<open>
  How the core consumes the body: it asks for blocks of the same size, advances
  \<^verbatim>\<open>read_post_bytes\<close> by what it got and stops at a block shorter than the size it asked for. The
  fuel bounds the number of blocks.
\<close>

fun read_post_blocks :: "nat \<Rightarrow> u32 \<Rightarrow> 'e sapi \<Rightarrow> (fault + bytes) option" where
  "read_post_blocks 0 k s = None"
| "read_post_blocks (Suc fuel) k s =
     (case wasm_sapi_read_post_body k s of
        Inl f \<Rightarrow> Some (Inl f)
      | Inr (n, bs) \<Rightarrow>
          if n < k then Some (Inr bs)
          else map_option (\<lambda>r. rbind r (\<lambda>rest. Inr (bs @ rest)))
                 (read_post_blocks fuel k (s\<lparr>read_post_bytes := read_post_bytes s + uint n\<rparr>)))"

lemma read_post_body_in_range:
  assumes body: "request_body (ctx s) = Some a" "block_at (mem s) a = Some (Str body)"
    and range: "0 \<le> read_post_bytes s" "read_post_bytes s \<le> ri_content_length s"
      "ri_content_length s \<le> int (length body)"
    and m_def: "m = min (unat k) (nat (ri_content_length s - read_post_bytes s))"
  shows "wasm_sapi_read_post_body k s = Inr (word_of_nat m, take m (drop (nat (read_post_bytes s)) body))"
    and "unat (word_of_nat m :: u32) = m"
proof -
  have "m < 4294967296" using unat_u32_less [of k] by (simp add: m_def)
  then show u: "unat (word_of_nat m :: u32) = m" by (rule unat_of_nat_u32)
  have "min (uint k) (ri_content_length s - read_post_bytes s) = int m"
    using range by (simp add: m_def of_nat_min)
  then have w: "word_of_int (min (uint k) (ri_content_length s - read_post_bytes s)) = (word_of_nat m :: u32)"
    by simp
  have ui: "uint (word_of_nat m :: u32) = int m" unfolding uint_nat u ..
  have "int m \<le> ri_content_length s - read_post_bytes s" using range by (simp add: m_def)
  moreover have "m = 0" if "\<not> 0 < (word_of_nat m :: u32)" using that u by (metis unat_0 word_gt_0)
  ultimately show "wasm_sapi_read_post_body k s = Inr (word_of_nat m, take m (drop (nat (read_post_bytes s)) body))"
    using body range by (auto simp: wasm_sapi_read_post_body_def w ui u Let_def)
qed

lemma read_post_blocks_all:
  assumes "request_body (ctx s) = Some a" "block_at (mem s) a = Some (Str body)" "0 < k"
    "0 \<le> read_post_bytes s" "read_post_bytes s \<le> ri_content_length s" "ri_content_length s \<le> int (length body)"
    "nat (ri_content_length s - read_post_bytes s) < fuel"
  shows "read_post_blocks fuel k s =
    Some (Inr (take (nat (ri_content_length s - read_post_bytes s)) (drop (nat (read_post_bytes s)) body)))"
  using assms
proof (induction fuel arbitrary: s)
  case 0
  then show ?case by simp
next
  case (Suc fuel)
  let ?r = "nat (ri_content_length s - read_post_bytes s)" and ?p = "nat (read_post_bytes s)"
  let ?m = "min (unat k) ?r"
  note once = read_post_body_in_range [OF Suc.prems(1,2,4-6) refl, of k]
  show ?case
  proof (cases "?r < unat k")
    case True
    then have "?m = ?r" by simp
    with True once show ?thesis by (simp add: word_less_nat_alt)
  next
    case False
    then have m: "?m = unat k" by simp
    let ?s = "s\<lparr>read_post_bytes := read_post_bytes s + uint k\<rparr>"
    have k: "0 < unat k" using Suc.prems(3) by (simp add: word_gt_0_no unat_gt_0 word_gt_0)
    have le: "uint k \<le> ri_content_length s - read_post_bytes s"
      using False Suc.prems(5) by (simp add: not_less le_nat_iff)
    have uk: "uint k = int (unat k)" by (rule uint_nat)
    have fuel: "nat (ri_content_length s - (read_post_bytes s + uint k)) < fuel"
      using Suc.prems(7) le k unfolding uk by linarith
    have "read_post_blocks fuel k ?s = Some (Inr (take (nat (ri_content_length ?s - read_post_bytes ?s))
        (drop (nat (read_post_bytes ?s)) body)))"
      by (rule Suc.IH) (use Suc.prems le fuel in simp_all)
    moreover have "nat (ri_content_length ?s - read_post_bytes ?s) = ?r - unat k"
      "nat (read_post_bytes ?s) = ?p + unat k"
      using le Suc.prems(4) nat_diff_distrib [of "uint k" "ri_content_length s - read_post_bytes s"]
      by (simp_all add: nat_add_distrib diff_diff_eq)
    moreover have "take ?r (drop ?p body) = take (unat k) (drop ?p body) @ take (?r - unat k) (drop (?p + unat k) body)"
      using False by (metis add.commute drop_drop le_add_diff_inverse not_less take_add)
    ultimately show ?thesis using once m by simp
  qed
qed

text \<open>
  C23: reading the body in blocks of any size above zero yields exactly its first
  \<^verbatim>\<open>content_length\<close> bytes, in order, without reading outside the body; a number of blocks above the
  content length is always enough.
\<close>

theorem read_post_body_complete:
  assumes "request_body (ctx s) = Some a" and "block_at (mem s) a = Some (Str body)" and "0 < k"
    and "read_post_bytes s = 0" and "0 \<le> ri_content_length s" and "ri_content_length s \<le> int (length body)"
    and "nat (ri_content_length s) < fuel"
  shows "read_post_blocks fuel k s = Some (Inr (take (nat (ri_content_length s)) body))"
  using read_post_blocks_all [OF assms(1-3), of fuel] assms(4-7) by simp

theorem read_post_body_complete_witness:
  "\<exists>s :: unit sapi. read_post_blocks 9 3 s = Some (Inr ''a=1&b=22'')"
proof -
  let ?s = "(sapi0 [])\<lparr>mem := snd (malloc (Str (''a=1&b=22'' @ [nul])) empty_heap),
      ctx := null_context\<lparr>request_body := Some 0\<rparr>, read_post_bytes := 0, ri_content_length := 8\<rparr>"
  have "read_post_blocks 9 3 ?s = Some (Inr (take 8 (''a=1&b=22'' @ [nul])))"
    using read_post_body_complete [of ?s 0 "''a=1&b=22'' @ [nul]" 3 9]
    by (simp add: block_at_def malloc_def empty_heap_def)
  then show ?thesis by (intro exI [of _ ?s]) simp
qed

text \<open>
  With a body set and the content length left at its initial value -1, the 64-bit difference is
  negative and wraps to a count of \<open>2^32 - 1\<close>: the copy runs out of the body, whatever number
  of bytes the core asks for and for every body shorter than four gigabytes.
\<close>

theorem read_post_body_unset_length_overruns:
  assumes "request_body (ctx s) = Some a" and "block_at (mem s) a = Some (Str body)"
    and "ri_content_length s = -1" and "read_post_bytes s = 0" and "length body < 2 ^ 32 - 1"
  shows "wasm_sapi_read_post_body k s = Inl (OutOfBounds a)"
proof -
  have "min (uint k) (- 1) = -1" using uint_nonnegative [of k] by linarith
  moreover have "uint (word_of_int (- 1) :: u32) = 2 ^ 32 - 1" by code_simp
  ultimately show ?thesis
    using assms by (simp add: wasm_sapi_read_post_body_def Let_def word_gt_0)
qed

theorem read_post_body_unset_length_overruns_witness:
  "\<exists>s :: unit sapi. wasm_sapi_read_post_body 1 s = Inl (OutOfBounds 0)"
proof -
  let ?s = "(sapi0 [])\<lparr>mem := snd (malloc (Str ''x'') empty_heap),
      ctx := null_context\<lparr>request_body := Some 0\<rparr>, read_post_bytes := 0, ri_content_length := -1\<rparr>"
  have "wasm_sapi_read_post_body 1 ?s = Inl (OutOfBounds 0)"
    using read_post_body_unset_length_overruns [of ?s 0 "''x''" 1]
    by (simp add: block_at_def malloc_def empty_heap_def)
  then show ?thesis by (intro exI [of _ ?s])
qed

section \<open>Registering the server variables\<close>

text \<open>A variable whose value is a C string; the guarded ones are skipped when the pointer is NULL.\<close>

definition register_if :: "'e php_core \<Rightarrow> string \<Rightarrow> ptr \<Rightarrow> 'e sapi \<Rightarrow> fault + 'e sapi" where
  "register_if core name value s = (case value of
       None \<Rightarrow> Inr s
     | Some a \<Rightarrow> rbind (load_str a (mem s)) (\<lambda>v. Inr (php_register_variable core name v s)))"

text \<open>\<^verbatim>\<open>SCRIPT_NAME\<close>, \<^verbatim>\<open>SCRIPT_FILENAME\<close> and \<^verbatim>\<open>PHP_SELF\<close>, with their fallback to the request URI.\<close>

definition register_script :: "'e php_core \<Rightarrow> ptr \<Rightarrow> 'e sapi \<Rightarrow> fault + 'e sapi" where
  "register_script core value s =
     (let fallback =
        rbind (register_if core ''SCRIPT_NAME'' value s) (\<lambda>s.
        rbind (register_if core ''SCRIPT_FILENAME'' value s) (\<lambda>s.
        register_if core ''PHP_SELF'' value s))
      in case (document_root (ctx s), path_translated (ctx s)) of
           (Some d, Some p) \<Rightarrow>
             rbind (load_str d (mem s)) (\<lambda>root.
             rbind (load_str p (mem s)) (\<lambda>path.
               if strncmp_eq root path (length root)
               then let script_name = drop (length root) path;
                        s = php_register_variable core ''SCRIPT_NAME'' script_name s;
                        s = php_register_variable core ''SCRIPT_FILENAME'' path s
                    in Inr (php_register_variable core ''PHP_SELF'' script_name s)
               else fallback))
         | _ \<Rightarrow> fallback)"

definition register_port :: "'e php_core \<Rightarrow> 'e sapi \<Rightarrow> 'e sapi" where
  "register_port core s = (if ri_proto_num s \<noteq> -1
     then php_register_variable core ''SERVER_PORT'' (int_to_string (request_port (ctx s))) s else s)"

definition register_method :: "'e php_core \<Rightarrow> 'e sapi \<Rightarrow> fault + 'e sapi" where
  "register_method core s = (case ri_request_method s of
       None \<Rightarrow> Inr s
     | Some a \<Rightarrow> rbind (load_str a (mem s)) (\<lambda>v.
         Inr ((php_register_variable core ''REQUEST_METHOD'' v s)\<lparr>ri_headers_only := (v = ''HEAD'')\<rparr>)))"

partial_function (option) register_entries :: "'e php_core \<Rightarrow> ptr \<Rightarrow> 'e sapi \<Rightarrow> (fault + 'e sapi) option" where
  "register_entries core entry s =
     (case entry of
        None \<Rightarrow> Some (Inr s)
      | Some a \<Rightarrow>
          (case load_entry a (mem s) of
             Inl f \<Rightarrow> Some (Inl f)
           | Inr (k, v, n) \<Rightarrow>
               (case load_str k (mem s) of
                  Inl f \<Rightarrow> Some (Inl f)
                | Inr key \<Rightarrow>
                    (case load_str v (mem s) of
                       Inl f \<Rightarrow> Some (Inl f)
                     | Inr val \<Rightarrow> register_entries core n (php_register_variable core key val s)))))"

definition wasm_sapi_register_server_variables :: "'e php_core \<Rightarrow> 'e sapi \<Rightarrow> (fault + 'e sapi) option" where
  "wasm_sapi_register_server_variables core s =
     (let s = php_import_environment_variables core s; uri = ri_request_uri s
      in case
        rbind (register_if core ''REQUEST_URI'' uri s) (\<lambda>s.
        rbind (register_script core uri s) (\<lambda>s.
        rbind (register_if core ''argv'' (ri_query_string s) s) (\<lambda>s.
        let s = php_register_variable core ''SERVER_SOFTWARE'' ''PHP.wasm'' s;
            s = register_port core s;
            host = request_host (ctx s)
        in rbind (register_if core ''SERVER_NAME'' host s) (\<lambda>s.
           rbind (register_if core ''HTTP_HOST'' host s) (\<lambda>s.
           rbind (register_method core s) (\<lambda>s.
           register_if core ''QUERY_STRING'' (ri_query_string s) s))))))
      of Inl f \<Rightarrow> Some (Inl f)
       | Inr s \<Rightarrow> register_entries core (server_array_entries (ctx s)) s)"

subsection \<open>What is registered\<close>

definition entry_if :: "string \<Rightarrow> string option \<Rightarrow> (string \<times> string) list" where
  "entry_if n v = (case v of None \<Rightarrow> [] | Some x \<Rightarrow> [(n, x)])"

definition script_vars :: "request_spec \<Rightarrow> (string \<times> string) list" where
  "script_vars A =
     (let fallback = concat (map (\<lambda>n. entry_if n (rs_request_uri A)) [''SCRIPT_NAME'', ''SCRIPT_FILENAME'', ''PHP_SELF''])
      in case (rs_document_root A, rs_path_translated A) of
           (Some d, Some p) \<Rightarrow>
             if prefix d p
             then [(''SCRIPT_NAME'', drop (length d) p), (''SCRIPT_FILENAME'', p), (''PHP_SELF'', drop (length d) p)]
             else fallback
         | _ \<Rightarrow> fallback)"

definition server_vars :: "int \<Rightarrow> request_spec \<Rightarrow> (string \<times> string) list" where
  "server_vars proto A =
     entry_if ''REQUEST_URI'' (rs_request_uri A) @ script_vars A @ entry_if ''argv'' (rs_query_string A) @
     [(''SERVER_SOFTWARE'', ''PHP.wasm'')] @
     (if proto \<noteq> -1 then [(''SERVER_PORT'', int_to_string (rs_request_port A))] else []) @
     entry_if ''SERVER_NAME'' (rs_request_host A) @ entry_if ''HTTP_HOST'' (rs_request_host A) @
     entry_if ''REQUEST_METHOD'' (rs_request_method A) @ entry_if ''QUERY_STRING'' (rs_query_string A) @
     rs_server A"

text \<open>
  What the callback relies on: registering a variable and importing the environment leave the
  context, the heap blocks and the request info alone, and a variable registered under a plain name
  (one the core does not mangle) is what the array holds under that name afterwards.
\<close>

definition info_keeps :: "'e sapi \<Rightarrow> 'e sapi \<Rightarrow> bool" where
  "info_keeps s s' \<longleftrightarrow> ctx s' = ctx s \<and> heap_keeps (mem s) (mem s') \<and> ri_request_uri s' = ri_request_uri s \<and>
     ri_query_string s' = ri_query_string s \<and> ri_request_method s' = ri_request_method s \<and>
     ri_proto_num s' = ri_proto_num s"

definition plain_name :: "string \<Rightarrow> bool" where
  "plain_name n \<longleftrightarrow> n \<noteq> [] \<and> set n \<inter> {CHR ''.'', CHR '' '', CHR ''['', nul} = {}"

definition array_ok :: "'e php_core \<Rightarrow> ('e sapi \<Rightarrow> string \<Rightarrow> string option) \<Rightarrow> bool" where
  "array_ok core look \<longleftrightarrow>
     (\<forall>s. info_keeps s (php_import_environment_variables core s)) \<and>
     (\<forall>n v s. info_keeps s (php_register_variable core n v s)) \<and>
     (\<forall>n v s. plain_name n \<longrightarrow> look (php_register_variable core n v s) = (look s)(n \<mapsto> v)) \<and>
     (\<forall>s b. look (s\<lparr>ri_headers_only := b\<rparr>) = look s)"

text \<open>The array after registering a list of variables in order.\<close>

definition extends :: "('e sapi \<Rightarrow> string \<Rightarrow> string option) \<Rightarrow> (string \<times> string) list \<Rightarrow> 'e sapi \<Rightarrow> 'e sapi \<Rightarrow> bool" where
  "extends look kvs s s' \<longleftrightarrow> info_keeps s s' \<and> look s' = look s ++ map_of (rev kvs)"

lemma info_keeps_refl [simp]: "info_keeps s s"
  by (simp add: info_keeps_def)

lemma info_keeps_trans: "info_keeps s s' \<Longrightarrow> info_keeps s' s'' \<Longrightarrow> info_keeps s s''"
  by (auto simp: info_keeps_def intro: heap_keeps_trans)

lemma extends_Nil [simp]: "extends look [] s s"
  by (simp add: extends_def)

lemma extends_trans: "extends look xs s s' \<Longrightarrow> extends look ys s' s'' \<Longrightarrow> extends look (xs @ ys) s s''"
  by (auto simp: extends_def intro: info_keeps_trans)

lemma extends_register:
  "array_ok core look \<Longrightarrow> plain_name n \<Longrightarrow> extends look [(n, v)] s (php_register_variable core n v s)"
  by (auto simp: array_ok_def extends_def)

lemma str_val_keeps: "info_keeps s s' \<Longrightarrow> str_val (mem s) p = Some v \<Longrightarrow> str_val (mem s') p = Some v"
  by (auto simp: info_keeps_def str_val_def dest: heap_keeps_alive split: option.splits block.splits)

text \<open>Strings referred to by a context: NULL, or live.\<close>

definition good_ptr :: "cheap \<Rightarrow> ptr \<Rightarrow> bool" where
  "good_ptr h p \<longleftrightarrow> p = None \<or> str_val h p \<noteq> None"

lemma register_if_extends:
  assumes "array_ok core look" "plain_name n" "good_ptr (mem s) p"
  shows "\<exists>s'. register_if core n p s = Inr s' \<and> extends look (entry_if n (str_val (mem s) p)) s s'"
  using assms extends_register [OF assms(1,2)]
  by (auto simp: register_if_def good_ptr_def entry_if_def str_val_def split: option.splits block.splits)

lemma good_ptr_keeps:
  "info_keeps s s' \<Longrightarrow> good_ptr (mem s) p \<Longrightarrow> good_ptr (mem s') p \<and> str_val (mem s') p = str_val (mem s) p"
  by (cases "str_val (mem s) p") (auto simp: good_ptr_def str_val_keeps)

lemma extends_info: "extends look xs s s' \<Longrightarrow> info_keeps s s'"
  by (simp add: extends_def)

lemma step_if:
  assumes "array_ok core look" "extends look xs s0 s" "plain_name n" "good_ptr (mem s0) p"
  obtains s' where "register_if core n p s = Inr s'" "extends look (xs @ entry_if n (str_val (mem s0) p)) s0 s'"
proof -
  have g: "good_ptr (mem s) p" "str_val (mem s) p = str_val (mem s0) p"
    using good_ptr_keeps [OF extends_info [OF assms(2)] assms(4)] by simp_all
  from register_if_extends [OF assms(1,3) g(1)] obtain s'
    where "register_if core n p s = Inr s'" "extends look (entry_if n (str_val (mem s) p)) s s'" by blast
  then show thesis using extends_trans [OF assms(2)] g(2) by (intro that [of s']) simp_all
qed

lemma step_register:
  assumes "array_ok core look" "extends look xs s0 s" "plain_name n"
  shows "extends look (xs @ [(n, v)]) s0 (php_register_variable core n v s)"
  by (rule extends_trans [OF assms(2) extends_register [OF assms(1,3)]])

lemma plain_names [simp]:
  "plain_name ''REQUEST_URI''" "plain_name ''SCRIPT_NAME''" "plain_name ''SCRIPT_FILENAME''"
  "plain_name ''PHP_SELF''" "plain_name ''argv''" "plain_name ''SERVER_SOFTWARE''" "plain_name ''SERVER_PORT''"
  "plain_name ''SERVER_NAME''" "plain_name ''HTTP_HOST''" "plain_name ''REQUEST_METHOD''" "plain_name ''QUERY_STRING''"
  by (simp_all add: plain_name_def)

lemma layout_good_ptr:
  assumes "ctx_layout (c, h) ns es" "p \<in> set (str_fields c)"
  shows "good_ptr h p"
proof (cases p)
  case (Some a)
  with assms(2) have "a \<in> set (somes (str_fields c))" by (force simp: somes_def)
  with assms(1) obtain x where "block_at h a = Some (Str x)" by (auto simp: ctx_layout_def)
  with Some show ?thesis by (simp add: good_ptr_def str_val_def)
qed (simp add: good_ptr_def)

text \<open>The script variables, when the context stands for the request \<open>A\<close>.\<close>

definition script_source :: "'e sapi \<Rightarrow> request_spec \<Rightarrow> bool" where
  "script_source s A \<longleftrightarrow> (\<forall>p \<in> set (str_fields (ctx s)). good_ptr (mem s) p) \<and>
     str_val (mem s) (document_root (ctx s)) = rs_document_root A \<and>
     str_val (mem s) (path_translated (ctx s)) = rs_path_translated A \<and>
     str_val (mem s) (request_uri (ctx s)) = rs_request_uri A"

lemma step_fallback:
  assumes ok: "array_ok core look" and ext: "extends look xs s0 s" and g: "good_ptr (mem s0) p"
  shows "\<exists>s'. rbind (register_if core ''SCRIPT_NAME'' p s) (\<lambda>s.
      rbind (register_if core ''SCRIPT_FILENAME'' p s) (\<lambda>s. register_if core ''PHP_SELF'' p s)) = Inr s' \<and>
    extends look (xs @ concat (map (\<lambda>n. entry_if n (str_val (mem s0) p)) [''SCRIPT_NAME'', ''SCRIPT_FILENAME'', ''PHP_SELF''])) s0 s'"
proof -
  obtain s1 where s1: "register_if core ''SCRIPT_NAME'' p s = Inr s1"
      "extends look (xs @ entry_if ''SCRIPT_NAME'' (str_val (mem s0) p)) s0 s1"
    using step_if [OF ok ext _ g] plain_names(2) by metis
  obtain s2 where s2: "register_if core ''SCRIPT_FILENAME'' p s1 = Inr s2"
      "extends look ((xs @ entry_if ''SCRIPT_NAME'' (str_val (mem s0) p)) @ entry_if ''SCRIPT_FILENAME'' (str_val (mem s0) p)) s0 s2"
    using step_if [OF ok s1(2) _ g] plain_names(3) by metis
  obtain s3 where "register_if core ''PHP_SELF'' p s2 = Inr s3"
      "extends look (((xs @ entry_if ''SCRIPT_NAME'' (str_val (mem s0) p)) @ entry_if ''SCRIPT_FILENAME'' (str_val (mem s0) p)) @
        entry_if ''PHP_SELF'' (str_val (mem s0) p)) s0 s3"
    using step_if [OF ok s2(2) _ g] plain_names(4) by metis
  with s1 s2 show ?thesis by simp
qed

lemma load_str_val: "str_val h (Some a) = Some v \<Longrightarrow> load_str a h = Inr v"
  by (auto simp: str_val_def split: option.splits block.splits)

lemma step_script:
  assumes ok: "array_ok core look" and ext: "extends look xs s0 s" and src: "script_source s0 A"
  shows "\<exists>s'. register_script core (request_uri (ctx s0)) s = Inr s' \<and> extends look (xs @ script_vars A) s0 s'"
proof -
  have info: "info_keeps s0 s" "ctx s = ctx s0" using ext by (auto simp: extends_def info_keeps_def)
  have g: "good_ptr (mem s0) (document_root (ctx s0))" "good_ptr (mem s0) (path_translated (ctx s0))"
      "good_ptr (mem s0) (request_uri (ctx s0))"
    using src by (auto simp: script_source_def str_fields_def)
  note fb = step_fallback [OF ok ext g(3)]
  show ?thesis
  proof (cases "\<exists>d p. document_root (ctx s0) = Some d \<and> path_translated (ctx s0) = Some p")
    case True
    then obtain d p where dp: "document_root (ctx s0) = Some d" "path_translated (ctx s0) = Some p" by blast
    with g obtain root path where v: "str_val (mem s0) (Some d) = Some root" "str_val (mem s0) (Some p) = Some path"
      by (auto simp: good_ptr_def)
    have l: "load_str d (mem s) = Inr root" "load_str p (mem s) = Inr path"
      by (rule load_str_val, rule str_val_keeps [OF info(1)], rule v)+
    have vars: "rs_document_root A = Some root" "rs_path_translated A = Some path"
        "rs_request_uri A = str_val (mem s0) (request_uri (ctx s0))"
      using src v dp by (simp_all add: script_source_def)
    have three: "extends look (xs @ [(''SCRIPT_NAME'', x), (''SCRIPT_FILENAME'', y), (''PHP_SELF'', z)]) s0
        (php_register_variable core ''PHP_SELF'' z (php_register_variable core ''SCRIPT_FILENAME'' y
          (php_register_variable core ''SCRIPT_NAME'' x s)))" for x y z
      using step_register [OF ok step_register [OF ok step_register [OF ok ext plain_names(2)] plain_names(3)] plain_names(4)]
      by simp
    show ?thesis
      using fb three dp l vars by (simp add: register_script_def script_vars_def info(2) strncmp_eq_prefix Let_def)
  next
    case False
    then have "\<not> (\<exists>d p. rs_document_root A = Some d \<and> rs_path_translated A = Some p)"
      using src by (auto simp: script_source_def str_val_def split: option.splits)
    then have "script_vars A = concat (map (\<lambda>n. entry_if n (rs_request_uri A)) [''SCRIPT_NAME'', ''SCRIPT_FILENAME'', ''PHP_SELF''])"
      by (auto simp: script_vars_def Let_def split: option.splits)
    moreover have "rs_request_uri A = str_val (mem s0) (request_uri (ctx s0))"
      using src by (simp add: script_source_def)
    ultimately show ?thesis
      using fb False by (auto simp: register_script_def info(2) Let_def split: option.splits)
  qed
qed

lemma step_method:
  assumes ok: "array_ok core look" and ext: "extends look xs s0 s" and g: "good_ptr (mem s0) (ri_request_method s0)"
  shows "\<exists>s'. register_method core s = Inr s' \<and>
    extends look (xs @ entry_if ''REQUEST_METHOD'' (str_val (mem s0) (ri_request_method s0))) s0 s'"
proof (cases "ri_request_method s0")
  case None
  then show ?thesis using ext by (auto simp: register_method_def extends_def info_keeps_def entry_if_def str_val_def)
next
  case (Some a)
  then obtain v where v: "str_val (mem s0) (Some a) = Some v" using g by (auto simp: good_ptr_def)
  have info: "info_keeps s0 s" using ext by (simp add: extends_def)
  then have m: "ri_request_method s = Some a" using Some by (simp add: info_keeps_def)
  have "load_str a (mem s) = Inr v" by (rule load_str_val [OF str_val_keeps [OF info v]])
  moreover have "extends look (xs @ [(''REQUEST_METHOD'', v)]) s0
      ((php_register_variable core ''REQUEST_METHOD'' v s)\<lparr>ri_headers_only := b\<rparr>)" for b
    using step_register [OF ok ext plain_names(10), of v] ok by (auto simp: extends_def array_ok_def info_keeps_def)
  ultimately show ?thesis using m Some v by (simp add: register_method_def entry_if_def)
qed

declare register_entries.simps [simp del]

lemma step_entries:
  assumes ok: "array_ok core look" and "extends look xs s0 s" and "chain (mem s0) p ns"
    and "\<forall>k \<in> fst ` set (node_kvs (mem s0) ns). plain_name k"
  shows "\<exists>s'. register_entries core p s = Some (Inr s') \<and> extends look (xs @ node_kvs (mem s0) ns) s0 s'"
  using assms(2-)
proof (induction ns arbitrary: p s xs)
  case Nil
  then show ?case by (simp add: register_entries.simps node_kvs_def)
next
  case (Cons x ns)
  obtain a k v where x: "x = (a, k, v)" by (cases x)
  from Cons.prems(2) x obtain n kk vv where p: "p = Some a" "block_at (mem s0) a = Some (Entry k v n)"
      "block_at (mem s0) k = Some (Str kk)" "block_at (mem s0) v = Some (Str vv)" and n: "chain (mem s0) n ns"
    by auto
  have kvs: "node_kvs (mem s0) (x # ns) = (kk, vv) # node_kvs (mem s0) ns"
    using p x by (simp add: node_kvs_def str_val_def)
  have "heap_keeps (mem s0) (mem s)" using Cons.prems(1) by (simp add: extends_def info_keeps_def)
  then have "block_at (mem s) a = Some (Entry k v n)" "block_at (mem s) k = Some (Str kk)" "block_at (mem s) v = Some (Str vv)"
    using p by (auto intro: heap_keeps_alive)
  then have "register_entries core p s = register_entries core n (php_register_variable core kk vv s)"
    by (subst register_entries.simps) (simp add: p(1))
  moreover have "extends look (xs @ [(kk, vv)]) s0 (php_register_variable core kk vv s)"
    using Cons.prems(1,3) kvs by (intro step_register [OF ok]) auto
  ultimately show ?case
    using Cons.IH [OF _ n] Cons.prems(3) kvs by fastforce
qed

subsection \<open>The property\<close>

lemma view_keeps:
  assumes lay: "ctx_layout (c, h) ns es" and keep: "heap_keeps h h'"
  shows "view (c, h') ns es = view (c, h) ns es"
proof -
  have same: "block_at h' a = block_at h a" if "a \<in> set (owned c ns es)" for a
    using layout_live [OF lay that] keep by (simp add: heap_keeps_def)
  have "str_val h' p = str_val h p" if "p \<in> set (str_fields c)" for p
    using same that by (cases p) (auto simp: str_val_def owned_def somes_def)
  moreover have "node_kvs h' xs = node_kvs h xs" if "set (node_addrs xs) \<subseteq> set (owned c ns es)" for xs
    using that same by (induction xs rule: node_addrs.induct) (auto simp: node_kvs_def str_val_def)
  moreover have "set (node_addrs ns) \<subseteq> set (owned c ns es)" "set (node_addrs es) \<subseteq> set (owned c ns es)"
    by (auto simp: owned_def)
  ultimately show ?thesis by (simp add: view_def str_fields_def)
qed

lemma rel_keeps: "ctx_rel (c, h) A \<Longrightarrow> heap_keeps h h' \<Longrightarrow> ctx_rel (c, h') A"
  unfolding ctx_rel_def by (metis layout_keeps view_keeps)

lemma register_from:
  assumes ok: "array_ok core look" and rel: "ctx_rel (ctx s0, mem s0) A"
    and ri: "ri_request_uri s0 = request_uri (ctx s0)" "ri_query_string s0 = query_string (ctx s0)"
      "ri_request_method s0 = request_method (ctx s0)"
    and plain: "\<forall>k \<in> fst ` set (rs_server A). plain_name k"
    and imp: "php_import_environment_variables core s = s0"
  shows "\<exists>s'. wasm_sapi_register_server_variables core s = Some (Inr s') \<and>
    extends look (server_vars (ri_proto_num s0) A) s0 s'"
proof -
  obtain ns es where lay: "ctx_layout (ctx s0, mem s0) ns es" and A: "A = view (ctx s0, mem s0) ns es"
    using rel by (auto simp: ctx_rel_def)
  have g: "good_ptr (mem s0) p" if "p \<in> set (str_fields (ctx s0))" for p by (rule layout_good_ptr [OF lay that])
  have src: "script_source s0 A" using g by (auto simp: script_source_def A view_def)
  note keep = extends_info [unfolded info_keeps_def]
  have gs: "good_ptr (mem s0) (request_uri (ctx s0))" "good_ptr (mem s0) (query_string (ctx s0))"
      "good_ptr (mem s0) (request_host (ctx s0))" "good_ptr (mem s0) (ri_request_method s0)"
    using g ri(3) by (auto simp: str_fields_def)
  note vals = A view_def ri
  obtain s1 where s1: "register_if core ''REQUEST_URI'' (request_uri (ctx s0)) s0 = Inr s1"
      "extends look ([] @ entry_if ''REQUEST_URI'' (rs_request_uri A)) s0 s1"
    using step_if [OF ok extends_Nil plain_names(1) gs(1)] by (auto simp: vals)
  obtain s2 where s2: "register_script core (request_uri (ctx s0)) s1 = Inr s2"
      "extends look (([] @ entry_if ''REQUEST_URI'' (rs_request_uri A)) @ script_vars A) s0 s2"
    using step_script [OF ok s1(2) src] by blast
  note k2 = keep [OF s2(2)]
  obtain s3 where s3: "register_if core ''argv'' (query_string (ctx s0)) s2 = Inr s3"
      "extends look ((([] @ entry_if ''REQUEST_URI'' (rs_request_uri A)) @ script_vars A) @ entry_if ''argv'' (rs_query_string A)) s0 s3"
    using step_if [OF ok s2(2) plain_names(5) gs(2)] by (auto simp: vals)
  define s4 where "s4 = php_register_variable core ''SERVER_SOFTWARE'' ''PHP.wasm'' s3"
  note e4 = step_register [OF ok s3(2) plain_names(6), of "''PHP.wasm''", folded s4_def]
  define port where "port = (if ri_proto_num s0 \<noteq> -1 then [(''SERVER_PORT'', int_to_string (rs_request_port A))] else [])"
  define s5 where "s5 = register_port core s4"
  have e5: "extends look (((([] @ entry_if ''REQUEST_URI'' (rs_request_uri A)) @ script_vars A) @ entry_if ''argv'' (rs_query_string A)) @
      [(''SERVER_SOFTWARE'', ''PHP.wasm'')] @ port) s0 s5"
    using e4 step_register [OF ok e4 plain_names(7)] keep [OF e4] by (simp add: s5_def register_port_def port_def A view_def)
  note k5 = keep [OF e5]
  obtain s6 where s6: "register_if core ''SERVER_NAME'' (request_host (ctx s0)) s5 = Inr s6"
      and e6: "extends look ((((([] @ entry_if ''REQUEST_URI'' (rs_request_uri A)) @ script_vars A) @ entry_if ''argv'' (rs_query_string A)) @
      [(''SERVER_SOFTWARE'', ''PHP.wasm'')] @ port) @ entry_if ''SERVER_NAME'' (rs_request_host A)) s0 s6"
    using step_if [OF ok e5 plain_names(8) gs(3)] by (auto simp: vals)
  obtain s7 where s7: "register_if core ''HTTP_HOST'' (request_host (ctx s0)) s6 = Inr s7"
      and e7: "extends look (entry_if ''REQUEST_URI'' (rs_request_uri A) @ script_vars A @ entry_if ''argv'' (rs_query_string A) @
      [(''SERVER_SOFTWARE'', ''PHP.wasm'')] @ port @ entry_if ''SERVER_NAME'' (rs_request_host A) @ entry_if ''HTTP_HOST'' (rs_request_host A)) s0 s7"
    using step_if [OF ok e6 plain_names(9) gs(3)] by (auto simp: vals)
  obtain s8 where s8: "register_method core s7 = Inr s8"
      and e8: "extends look ((entry_if ''REQUEST_URI'' (rs_request_uri A) @ script_vars A @ entry_if ''argv'' (rs_query_string A) @
      [(''SERVER_SOFTWARE'', ''PHP.wasm'')] @ port @ entry_if ''SERVER_NAME'' (rs_request_host A) @ entry_if ''HTTP_HOST'' (rs_request_host A)) @
      entry_if ''REQUEST_METHOD'' (rs_request_method A)) s0 s8"
    using step_method [OF ok e7 gs(4)] by (auto simp: vals)
  note k8 = keep [OF e8]
  obtain s9 where s9: "register_if core ''QUERY_STRING'' (query_string (ctx s0)) s8 = Inr s9"
      and e9: "extends look (((entry_if ''REQUEST_URI'' (rs_request_uri A) @ script_vars A @ entry_if ''argv'' (rs_query_string A) @
      [(''SERVER_SOFTWARE'', ''PHP.wasm'')] @ port @ entry_if ''SERVER_NAME'' (rs_request_host A) @ entry_if ''HTTP_HOST'' (rs_request_host A)) @
      entry_if ''REQUEST_METHOD'' (rs_request_method A)) @ entry_if ''QUERY_STRING'' (rs_query_string A)) s0 s9"
    using step_if [OF ok e8 plain_names(11) gs(2)] by (auto simp: vals)
  have ch: "chain (mem s0) (server_array_entries (ctx s0)) ns" "node_kvs (mem s0) ns = rs_server A"
    using lay by (simp_all add: ctx_layout_def A view_def)
  obtain s10 where s10: "register_entries core (server_array_entries (ctx s0)) s9 = Some (Inr s10)"
      and "extends look (server_vars (ri_proto_num s0) A) s0 s10"
    using step_entries [OF ok e9 ch(1)] ch(2) plain by (auto simp: server_vars_def port_def)
  moreover have "wasm_sapi_register_server_variables core s = Some (Inr s10)"
    using s1(1) s2(1) s3(1) s6 s7 s8 s9 s10 k2 k5 k8 keep [OF e9]
    by (simp add: wasm_sapi_register_server_variables_def imp ri Let_def flip: s4_def s5_def)
  ultimately show ?thesis by blast
qed

text \<open>
  C22: filling \<^verbatim>\<open>$_SERVER\<close> ends without a fault, and afterwards a variable has the value its last
  registration gave it: the entries added through \<^verbatim>\<open>wasm_add_SERVER_entry\<close> override the built-in
  ones, and among entries added under the same key the one added first wins, because the list is
  walked from the entry added last to the one added first. A variable that is not registered keeps
  the value the imported environment gave it.
\<close>

theorem server_variables_lookup:
  assumes "array_ok core look" and "ctx_rel (ctx s, mem s) A"
    and "ri_request_uri s = request_uri (ctx s)" and "ri_query_string s = query_string (ctx s)"
    and "ri_request_method s = request_method (ctx s)"
    and "\<forall>k \<in> fst ` set (rs_server A). plain_name k"
  shows "\<exists>s'. wasm_sapi_register_server_variables core s = Some (Inr s') \<and>
    look s' = look (php_import_environment_variables core s) ++ map_of (rev (server_vars (ri_proto_num s) A))"
proof -
  let ?s0 = "php_import_environment_variables core s"
  have info: "info_keeps s ?s0" using assms(1) by (simp add: array_ok_def)
  then have "ctx_rel (ctx ?s0, mem ?s0) A" using rel_keeps [OF assms(2)] by (simp add: info_keeps_def)
  from register_from [OF assms(1) this _ _ _ assms(6) refl] info assms(3-5)
  show ?thesis by (auto simp: info_keeps_def extends_def)
qed

text \<open>A core that keeps the array as its own state, for the instance below.\<close>

definition array_core :: "(string \<times> string) list \<Rightarrow> (string \<times> string) list php_core" where
  "array_core env = \<lparr>php_request_startup = Pair True, php_request_shutdown = id, php_module_shutdown = id,
     sapi_shutdown = id, php_fopen_primary_script = (\<lambda>f. Pair None), php_execute_script = id,
     php_puts = (\<lambda>x. id), php_import_environment_variables = engine_update (\<lambda>_. env),
     php_register_variable = (\<lambda>n v. engine_update (Cons (n, v))), c_fflush = (\<lambda>i. id), js_release_file_locks = id\<rparr>"

lemma array_core_ok: "array_ok (array_core env) (\<lambda>s. map_of (engine s))"
  by (auto simp: array_ok_def array_core_def info_keeps_def)

definition served :: "unit sapi \<Rightarrow> (string \<times> string) list sapi" where
  "served u = \<lparr>ctx = ctx u, mem = mem u, fds = [], stdout_replacement = -1, stderr_replacement = -1,
      use_zend_alloc = False, sg_no_chdir = True, sg_server_context = True,
      ri_query_string = query_string (ctx u), ri_path_translated = path_translated (ctx u),
      ri_request_uri = request_uri (ctx u), ri_request_method = request_method (ctx u),
      ri_content_type = None, ri_content_length = 0, ri_proto_num = 1000, ri_headers_only = False,
      read_post_bytes = 0, http_response_code = 200, cg_skip_shebang = False, exit_status = 0,
      ini_entries = None, engine = []\<rparr>"

theorem server_variables_lookup_witness:
  "\<exists>s s'. wasm_sapi_register_server_variables (array_core [(''HOME'', ''/h'')]) s = Some (Inr s') \<and>
    map_of (engine s') ''HTTP_X'' = Some ''first'' \<and> map_of (engine s') ''PHP_SELF'' = Some ''/dir/index.php'' \<and>
    map_of (engine s') ''HOME'' = Some ''/h''"
proof -
  let ?calls = "[AddServer ''DOCUMENT_ROOT'' ''/var/www'', SetPathTranslated ''/var/www/dir/index.php'',
    AddServer ''HTTP_X'' ''first'', AddServer ''HTTP_X'' ''second'']"
  let ?core = "array_core [(''HOME'', ''/h'')]"
  define A where "A = spec_calls ?calls empty_request"
  define s where "s = served (sapi0 ?calls)"
  have rel: "ctx_rel (ctx s, mem s) A"
    using sapi0_rel [of ?calls] by (simp add: s_def served_def A_def del: spec_calls.simps)
  have A: "rs_server A = [(''HTTP_X'', ''second''), (''HTTP_X'', ''first''), (''DOCUMENT_ROOT'', ''/var/www'')]"
    "rs_document_root A = Some ''/var/www''" "rs_path_translated A = Some ''/var/www/dir/index.php''"
    "rs_request_uri A = None" "rs_query_string A = None" "rs_request_host A = None" "rs_request_method A = None"
    by (simp_all add: A_def empty_request_def)
  have "ri_request_uri s = request_uri (ctx s)" "ri_query_string s = query_string (ctx s)"
    "ri_request_method s = request_method (ctx s)" "\<forall>k \<in> fst ` set (rs_server A). plain_name k"
    by (simp_all add: s_def served_def A plain_name_def)
  from server_variables_lookup [OF array_core_ok [of "[(''HOME'', ''/h'')]"] rel this]
  obtain s' where s': "wasm_sapi_register_server_variables ?core s = Some (Inr s')"
    "map_of (engine s') = map_of (engine (php_import_environment_variables ?core s)) ++ map_of (rev (server_vars (ri_proto_num s) A))"
    by blast
  show ?thesis
    by (intro exI [of _ s] exI [of _ s'] conjI s'(1); unfold s'(2))
      (simp_all add: server_vars_def script_vars_def entry_if_def A array_core_def)
qed

end
