(* ===== verification/PhpStream.thy ===== *)
theory PhpStream
  imports Prelude
begin

text \<open>
  The part of PHP's stream layer that the database libraries under \<^verbatim>\<open>compile/extensions/dba\<close> call. The
  layer belongs to the PHP core and is not part of the repository: its operations are the fields of
  a record, a parameter of every definition that uses a stream, over an abstract stream state.

  The locale \<open>php_stream\<close> states what is documented of a seekable stream: it has contents and an
  offset; reading returns some of the bytes at the offset, possibly fewer than asked for, and none
  only at the end; writing overwrites or extends the contents at the offset. The locale \<open>php_file\<close>
  adds what the flat file and INI libraries need: reads that are short only at the end, line
  reading, truncation and copying, as plain files and temporary streams provide them. The
  interpretation on an in-memory file at the end shows that the laws can be met.
\<close>

datatype whence = SEEK_SET | SEEK_END

datatype read_result = Data bytes | ReadError bool \<comment> \<open>-1; whether \<^verbatim>\<open>errno == EINTR\<close>\<close>

record 's php_stream_ops =
  stream_seek :: "int \<Rightarrow> whence \<Rightarrow> 's \<Rightarrow> int \<times> 's"
  stream_tell :: "'s \<Rightarrow> int"
  stream_read :: "nat \<Rightarrow> 's \<Rightarrow> read_result \<times> 's"
  stream_write :: "bytes \<Rightarrow> 's \<Rightarrow> int \<times> 's"
  stream_flush :: "'s \<Rightarrow> int \<times> 's"
  stream_eof :: "'s \<Rightarrow> bool"
  stream_gets :: "nat option \<Rightarrow> 's \<Rightarrow> bytes option \<times> 's" \<comment> \<open>buffer size, \<^const>\<open>None\<close> for a line of any length\<close>
  stream_truncate_supported :: "'s \<Rightarrow> bool"
  stream_truncate :: "nat \<Rightarrow> 's \<Rightarrow> int \<times> 's"
  stream_temp :: "'s option" \<comment> \<open>\<^verbatim>\<open>php_stream_temp_create\<close>\<close>
  stream_copy :: "nat option \<Rightarrow> 's \<Rightarrow> 's \<Rightarrow> bool \<times> 's \<times> 's" \<comment> \<open>\<^verbatim>\<open>php_stream_copy_to_stream_ex\<close>, source first\<close>

definition write_at :: "bytes \<Rightarrow> nat \<Rightarrow> bytes \<Rightarrow> bytes" where
  "write_at c off bs = (if bs = [] then c
     else take off (c @ replicate (off - length c) nul) @ bs @ drop (off + length bs) c)"

abbreviation newline :: char where "newline \<equiv> CHR 0x0A"

definition upto_newline :: "bytes \<Rightarrow> bytes" where
  "upto_newline bs = takeWhile (\<lambda>x. x \<noteq> CHR 0x0A) bs @ take 1 (dropWhile (\<lambda>x. x \<noteq> CHR 0x0A) bs)"

definition line_of :: "nat option \<Rightarrow> bytes \<Rightarrow> bytes" where
  "line_of cap bs = (case cap of None \<Rightarrow> upto_newline bs | Some n \<Rightarrow> take (n - 1) (upto_newline bs))"

section \<open>The contract\<close>

locale php_stream =
  fixes ops :: "'s php_stream_ops"
    and contents :: "'s \<Rightarrow> bytes"
    and offset :: "'s \<Rightarrow> nat"
  assumes seek_set: "0 \<le> n \<Longrightarrow> \<exists>s'. stream_seek ops n SEEK_SET s = (0, s') \<and>
      contents s' = contents s \<and> offset s' = nat n"
    and tell_off: "stream_tell ops s = int (offset s)"
    and read_some: "\<exists>bs s'. stream_read ops k s = (Data bs, s') \<and> contents s' = contents s \<and>
      length bs \<le> k \<and> bs = take (length bs) (drop (offset s) (contents s)) \<and>
      offset s' = offset s + length bs \<and> (0 < k \<longrightarrow> offset s < length (contents s) \<longrightarrow> bs \<noteq> [])"
    and write_all: "\<exists>s'. stream_write ops bs s = (int (length bs), s') \<and>
      contents s' = write_at (contents s) (offset s) bs \<and> offset s' = offset s + length bs"
    and flush_ok: "\<exists>s'. stream_flush ops s = (0, s') \<and> contents s' = contents s \<and> offset s' = offset s"

locale php_file = php_stream +
  assumes seek_end: "\<exists>s'. stream_seek ops 0 SEEK_END s = (0, s') \<and>
      contents s' = contents s \<and> offset s' = length (contents s)"
    and read_full: "stream_read ops k s = (Data bs, s') \<Longrightarrow> bs = take k (drop (offset s) (contents s))"
    and eof_end: "stream_eof ops s \<Longrightarrow> length (contents s) \<le> offset s"
    and gets_line: "offset s < length (contents s) \<Longrightarrow> \<exists>s'. stream_gets ops cap s =
        (Some (line_of cap (drop (offset s) (contents s))), s') \<and> contents s' = contents s \<and>
        offset s' = offset s + length (line_of cap (drop (offset s) (contents s)))"
    and gets_eof: "length (contents s) \<le> offset s \<Longrightarrow> \<exists>s'. stream_gets ops cap s = (None, s') \<and>
        contents s' = contents s \<and> offset s' = offset s"
    and truncate_ok: "k \<le> length (contents s) \<Longrightarrow> \<exists>s'. stream_truncate ops k s = (0, s') \<and>
        contents s' = take k (contents s)"
    and temp_new: "\<exists>t. stream_temp ops = Some t \<and> contents t = [] \<and> offset t = 0"
    and copy_ok: "\<exists>s' t'. stream_copy ops m s t = (True, s', t') \<and> contents s' = contents s \<and>
        (let bs = (case m of None \<Rightarrow> drop (offset s) (contents s) | Some k \<Rightarrow> take k (drop (offset s) (contents s)))
         in offset s' = offset s + length bs \<and>
            contents t' = write_at (contents t) (offset t) bs \<and> offset t' = offset t + length bs)"

section \<open>An in-memory file\<close>

record memfile =
  mf_data :: bytes
  mf_pos :: nat

definition mem_write :: "bytes \<Rightarrow> memfile \<Rightarrow> memfile" where
  "mem_write bs s = s\<lparr>mf_data := write_at (mf_data s) (mf_pos s) bs, mf_pos := mf_pos s + length bs\<rparr>"

definition mem_ops :: "memfile php_stream_ops" where
  "mem_ops =
    \<lparr>stream_seek = (\<lambda>n w s. case w of
         SEEK_SET \<Rightarrow> if n < 0 then (-1, s) else (0, s\<lparr>mf_pos := nat n\<rparr>)
       | SEEK_END \<Rightarrow> (0, s\<lparr>mf_pos := nat (int (length (mf_data s)) + n)\<rparr>)),
     stream_tell = (\<lambda>s. int (mf_pos s)),
     stream_read = (\<lambda>k s. let bs = take k (drop (mf_pos s) (mf_data s)) in (Data bs, s\<lparr>mf_pos := mf_pos s + length bs\<rparr>)),
     stream_write = (\<lambda>bs s. (int (length bs), mem_write bs s)),
     stream_flush = (\<lambda>s. (0, s)),
     stream_eof = (\<lambda>s. length (mf_data s) \<le> mf_pos s),
     stream_gets = (\<lambda>cap s. if mf_pos s < length (mf_data s)
         then let l = line_of cap (drop (mf_pos s) (mf_data s)) in (Some l, s\<lparr>mf_pos := mf_pos s + length l\<rparr>)
         else (None, s)),
     stream_truncate_supported = (\<lambda>s. True),
     stream_truncate = (\<lambda>n s. (0, s\<lparr>mf_data := take n (mf_data s @ replicate (n - length (mf_data s)) nul)\<rparr>)),
     stream_temp = Some \<lparr>mf_data = [], mf_pos = 0\<rparr>,
     stream_copy = (\<lambda>n s t. let bs = (case n of None \<Rightarrow> drop (mf_pos s) (mf_data s) | Some k \<Rightarrow> take k (drop (mf_pos s) (mf_data s)))
         in (True, s\<lparr>mf_pos := mf_pos s + length bs\<rparr>, mem_write bs t))\<rparr>"

interpretation memory: php_file mem_ops mf_data mf_pos
  by unfold_locales (auto simp: mem_ops_def mem_write_def Let_def min_def split: option.splits)

text \<open>Laws of the write function.\<close>

lemma write_at_Nil [simp]: "write_at c off [] = c"
  by (simp add: write_at_def)

lemma write_at_end [simp]: "write_at c (length c) bs = c @ bs"
  by (simp add: write_at_def)

text \<open>Reading a line.\<close>

lemma upto_newline_line: "newline \<notin> set l \<Longrightarrow> upto_newline (l @ newline # r) = l @ [newline]"
  by (simp add: upto_newline_def takeWhile_append takeWhile_tail dropWhile_append takeWhile_eq_all_conv)

lemma upto_newline_alone: "newline \<notin> set l \<Longrightarrow> upto_newline l = l"
  by (induction l) (auto simp: upto_newline_def)

text \<open>The lines of a text, each with its newline; only the last may lack one.\<close>

fun lines :: "bytes \<Rightarrow> bytes list" where
  "lines [] = []"
| "lines (c # cs) =
     (if c = newline then [c] # lines cs
      else case lines cs of [] \<Rightarrow> [[c]] | l # ls \<Rightarrow> (c # l) # ls)"

lemma lines_concat [simp]: "concat (lines c) = c"
  by (induction c) (auto split: list.splits)

lemma lines_Nil_iff [simp]: "lines c = [] \<longleftrightarrow> c = []"
  by (cases c) (auto split: list.splits)

lemma lines_line: "newline \<notin> set b \<Longrightarrow> lines (b @ newline # r) = (b @ [newline]) # lines r"
  by (induction b) auto

lemma lines_alone: "newline \<notin> set l \<Longrightarrow> l \<noteq> [] \<Longrightarrow> lines l = [l]"
proof (induction l)
  case (Cons c l)
  then show ?case by (cases l) auto
qed simp

end
