(* ===== verification/Cdb.thy ===== *)
theory Cdb
  imports PhpStream
begin

text \<open>
  The reader of constant databases, \<^verbatim>\<open>compile/extensions/dba/libcdb/cdb.c\<close> with
  \<^verbatim>\<open>libcdb/uint32.c\<close>. The arithmetic is that of the C code, on 32-bit words. A C function that returns -1, 0
  or 1 returns an \<^typ>\<open>int\<close>; a loop that may not end (a read interrupted for ever) is a partial
  function, with \<^const>\<open>None\<close> for not returning.
\<close>

section \<open>Packing\<close>

definition uint32_pack :: "u32 \<Rightarrow> bytes" where
  "uint32_pack n =
     [byte_of (n AND 0xff), byte_of (drop_bit 8 n AND 0xff), byte_of (drop_bit 8 (drop_bit 8 n) AND 0xff),
      byte_of (drop_bit 8 (drop_bit 8 (drop_bit 8 n)) AND 0xff)]"

definition uint32_unpack :: "bytes \<Rightarrow> u32" where
  "uint32_unpack b = push_bit 24 (word_of_byte (b ! 3)) OR push_bit 16 (word_of_byte (b ! 2)) OR
     push_bit 8 (word_of_byte (b ! 1)) OR word_of_byte (b ! 0)"

section \<open>The reader\<close>

record 's cdb =
  fp :: 's
  loop :: u32
  khash :: u32
  kpos :: u32
  hpos :: u32
  hslots :: u32
  dpos :: u32
  dlen :: u32

definition CDB_HASHSTART :: u32 where
  "CDB_HASHSTART = 5381"

definition cdb_hash :: "bytes \<Rightarrow> u32 \<Rightarrow> u32" where
  "cdb_hash buf len = foldl (\<lambda>h b. (h + push_bit 5 h) XOR word_of_byte b) CDB_HASHSTART (take (unat len) buf)"

definition cdb_findstart :: "'s cdb \<Rightarrow> 's cdb" where
  "cdb_findstart c = c\<lparr>loop := 0\<rparr>"

definition cdb_free :: "'s cdb \<Rightarrow> 's cdb" where
  "cdb_free c = c"

definition cdb_init :: "'s cdb \<Rightarrow> 's \<Rightarrow> 's cdb" where
  "cdb_init c f = (cdb_findstart (cdb_free c))\<lparr>fp := f\<rparr>"

text \<open>
  The loop of \<^verbatim>\<open>cdb_read\<close>: read until \<open>n\<close> bytes have arrived; an interrupted read is retried. The
  result is the bytes read, \<^const>\<open>None\<close> inside for the return value -1.
\<close>

partial_function (option) cdb_read_loop ::
    "'s php_stream_ops \<Rightarrow> nat \<Rightarrow> bytes \<Rightarrow> 's \<Rightarrow> (bytes option \<times> 's) option" where
  "cdb_read_loop ops n buf s =
     (if n = 0 then Some (Some buf, s)
      else case stream_read ops n s of (r, s') \<Rightarrow>
        (case r of
           ReadError eintr \<Rightarrow> if eintr then cdb_read_loop ops n buf s' else Some (None, s')
         | Data bs \<Rightarrow>
             if bs = [] then Some (None, s')
             else cdb_read_loop ops (n - length bs) (buf @ bs) s'))"

definition cdb_read :: "'s php_stream_ops \<Rightarrow> 's cdb \<Rightarrow> u32 \<Rightarrow> u32 \<Rightarrow> (bytes option \<times> 's cdb) option" where
  "cdb_read ops c len pos =
     (case stream_seek ops (uint pos) SEEK_SET (fp c) of (r, s) \<Rightarrow>
        if r = -1 then Some (None, c\<lparr>fp := s\<rparr>)
        else map_option (\<lambda>(b, s'). (b, c\<lparr>fp := s'\<rparr>)) (cdb_read_loop ops (unat len) [] s))"

text \<open>\<^verbatim>\<open>cdb_match\<close> compares the key with the file in pieces of at most 32 bytes.\<close>

partial_function (option) cdb_match ::
    "'s php_stream_ops \<Rightarrow> 's cdb \<Rightarrow> bytes \<Rightarrow> u32 \<Rightarrow> u32 \<Rightarrow> (int \<times> 's cdb) option" where
  "cdb_match ops c key len pos =
     (if len > 0
      then let n = (if 32 > len then len else 32)
           in case cdb_read ops c n pos of
                None \<Rightarrow> None
              | Some r \<Rightarrow>
                  (case fst r of
                     None \<Rightarrow> Some (-1, snd r)
                   | Some buf \<Rightarrow>
                       if buf \<noteq> take (unat n) key then Some (0, snd r)
                       else cdb_match ops (snd r) (drop (unat n) key) (len - n) (pos + n))
      else Some (1, c))"

text \<open>The loop of \<^verbatim>\<open>cdb_findnext\<close> over the slots of the hash table.\<close>

partial_function (option) cdb_find_loop ::
    "'s php_stream_ops \<Rightarrow> 's cdb \<Rightarrow> bytes \<Rightarrow> u32 \<Rightarrow> (int \<times> 's cdb) option" where
  "cdb_find_loop ops c key len =
     (if loop c < hslots c
      then case cdb_read ops c 8 (kpos c) of
             None \<Rightarrow> None
           | Some r \<Rightarrow>
               (case fst r of
                  None \<Rightarrow> Some (-1, snd r)
                | Some buf \<Rightarrow>
                    let pos = uint32_unpack (drop 4 buf)
                    in if pos = 0 then Some (0, snd r)
                       else
                         let c1 = (snd r)\<lparr>loop := loop (snd r) + 1, kpos := kpos (snd r) + 8\<rparr>;
                             c2 = (if kpos c1 = hpos c1 + push_bit 3 (hslots c1) then c1\<lparr>kpos := hpos c1\<rparr> else c1)
                         in if uint32_unpack buf = khash c2
                            then case cdb_read ops c2 8 pos of
                                   None \<Rightarrow> None
                                 | Some q \<Rightarrow>
                                     (case fst q of
                                        None \<Rightarrow> Some (-1, snd q)
                                      | Some rec \<Rightarrow>
                                          if uint32_unpack rec = len
                                          then case cdb_match ops (snd q) key len (pos + 8) of
                                                 None \<Rightarrow> None
                                               | Some m \<Rightarrow>
                                                   if fst m = -1 then Some (-1, snd m)
                                                   else if fst m = 1
                                                   then Some (1, (snd m)\<lparr>dlen := uint32_unpack (drop 4 rec), dpos := pos + 8 + len\<rparr>)
                                                   else cdb_find_loop ops (snd m) key len
                                          else cdb_find_loop ops (snd q) key len)
                            else cdb_find_loop ops c2 key len)
      else Some (0, c))"

definition cdb_findnext :: "'s php_stream_ops \<Rightarrow> 's cdb \<Rightarrow> bytes \<Rightarrow> u32 \<Rightarrow> (int \<times> 's cdb) option" where
  "cdb_findnext ops c key len =
     (if loop c = 0
      then let u = cdb_hash key len
           in case cdb_read ops c 8 (push_bit 3 u AND 2047) of
                None \<Rightarrow> None
              | Some (None, c1) \<Rightarrow> Some (-1, c1)
              | Some (Some buf, c1) \<Rightarrow>
                  let slots = uint32_unpack (drop 4 buf); c2 = c1\<lparr>hslots := slots\<rparr>
                  in if slots = 0 then Some (0, c2)
                     else let hp = uint32_unpack buf
                          in cdb_find_loop ops (c2\<lparr>hpos := hp, khash := u,
                                kpos := hp + push_bit 3 (drop_bit 8 u mod slots)\<rparr>) key len
      else cdb_find_loop ops c key len)"

definition cdb_find :: "'s php_stream_ops \<Rightarrow> 's cdb \<Rightarrow> bytes \<Rightarrow> u32 \<Rightarrow> (int \<times> 's cdb) option" where
  "cdb_find ops c key len = cdb_findnext ops (cdb_findstart c) key len"

definition cdb_version :: string where
  "cdb_version = ''0.75, $Id$''"

section \<open>Packing is invertible\<close>

lemma length_uint32_pack [simp]: "length (uint32_pack n) = 4"
  by (simp add: uint32_pack_def)

lemma uint32_unpack_pack [simp]: "uint32_unpack (uint32_pack n @ r) = n"
proof -
  have "uint32_unpack (uint32_pack n @ r) =
      push_bit 24 (take_bit 8 (drop_bit 24 n)) OR push_bit 16 (take_bit 8 (drop_bit 16 n)) OR
      push_bit 8 (take_bit 8 (drop_bit 8 n)) OR take_bit 8 n"
    by (simp add: uint32_unpack_def uint32_pack_def nth_append and_255_take_bit)
  also have "\<dots> = n"
  proof (rule bit_eqI)
    fix i :: nat
    consider "i < 8" | "8 \<le> i" "i < 16" | "16 \<le> i" "i < 24" | "24 \<le> i" by linarith
    then show "bit (push_bit 24 (take_bit 8 (drop_bit 24 n)) OR push_bit 16 (take_bit 8 (drop_bit 16 n)) OR
        push_bit 8 (take_bit 8 (drop_bit 8 n)) OR take_bit 8 n) i = bit n i"
      by cases (auto simp: bit_simps dest: bit_imp_le_length)
  qed
  finally show ?thesis .
qed

section \<open>Reading on a well-behaved stream\<close>

declare cdb_read_loop.simps [simp del] cdb_match.simps [simp del] cdb_find_loop.simps [simp del]

definition same_file :: "('s \<Rightarrow> bytes) \<Rightarrow> 's cdb \<Rightarrow> 's cdb \<Rightarrow> bool" where
  "same_file contents c c' \<longleftrightarrow> c' = c\<lparr>fp := fp c'\<rparr> \<and> contents (fp c') = contents (fp c)"

lemma same_file_trans: "same_file f c c' \<Longrightarrow> same_file f c' c'' \<Longrightarrow> same_file f c c''"
  unfolding same_file_def by (metis cdb.update_convs(1) cdb.surjective cdb.select_convs(1))

lemma same_file_fields:
  "same_file f c c' \<Longrightarrow> loop c' = loop c \<and> khash c' = khash c \<and> kpos c' = kpos c \<and> hpos c' = hpos c \<and>
    hslots c' = hslots c \<and> f (fp c') = f (fp c)"
  unfolding same_file_def by (metis cdb.select_convs cdb.surjective cdb.update_convs(1))

context php_stream
begin

lemma read_loop_ok:
  assumes "offset s + n \<le> length (contents s)"
  shows "\<exists>s'. cdb_read_loop ops n buf s = Some (Some (buf @ take n (drop (offset s) (contents s))), s') \<and>
    contents s' = contents s"
  using assms
proof (induction n arbitrary: buf s rule: less_induct)
  case (less n)
  show ?case
  proof (cases "n = 0")
    case True
    then show ?thesis by (simp add: cdb_read_loop.simps)
  next
    case False
    obtain bs s1 where r: "stream_read ops n s = (Data bs, s1)" "contents s1 = contents s" "length bs \<le> n"
      "bs = take (length bs) (drop (offset s) (contents s))" "offset s1 = offset s + length bs" "bs \<noteq> []"
      using read_some [of n s] False less.prems by auto
    then have "\<exists>s'. cdb_read_loop ops (n - length bs) (buf @ bs) s1 =
        Some (Some ((buf @ bs) @ take (n - length bs) (drop (offset s1) (contents s1))), s') \<and> contents s' = contents s1"
      using False less.prems by (intro less.IH) auto
    moreover have "take n (drop (offset s) (contents s)) =
        take (length bs) (drop (offset s) (contents s)) @ take (n - length bs) (drop (length bs) (drop (offset s) (contents s)))"
      by (metis r(3) le_add_diff_inverse take_add)
    then have "take n (drop (offset s) (contents s)) = bs @ take (n - length bs) (drop (offset s1) (contents s1))"
      using r(2,4,5) by (simp add: add.commute)
    ultimately show ?thesis
      using r False by (subst cdb_read_loop.simps) simp
  qed
qed

lemma cdb_read_ok:
  assumes "unat pos + unat len \<le> length (contents (fp c))"
  shows "\<exists>c'. cdb_read ops c len pos = Some (Some (take (unat len) (drop (unat pos) (contents (fp c)))), c') \<and>
    same_file contents c c'"
proof -
  obtain s where s: "stream_seek ops (uint pos) SEEK_SET (fp c) = (0, s)" "contents s = contents (fp c)"
      "offset s = unat pos"
    using seek_set [of "uint pos" "fp c"] by auto
  then show ?thesis
    using read_loop_ok [of s "unat len" "[]"] assms by (auto simp: cdb_read_def same_file_def)
qed

lemma cdb_match_ok:
  assumes "length key = unat len" "unat pos + unat len \<le> length (contents (fp c))"
    "length (contents (fp c)) < 2 ^ 32"
  shows "\<exists>c'. cdb_match ops c key len pos =
      Some (if take (unat len) (drop (unat pos) (contents (fp c))) = key then 1 else 0, c') \<and> same_file contents c c'"
  using assms
proof (induction "length key" arbitrary: key len pos c rule: less_induct)
  case less
  show ?case
  proof (cases "len = 0")
    case True
    then show ?thesis using less.prems(1)
      by (auto simp: cdb_match.simps same_file_def intro: exI [of _ c])
  next
    case False
    define n :: u32 where "n = (if 32 > len then len else 32)"
    have n: "unat n \<le> unat len" "0 < unat n"
      using False by (auto simp: n_def word_less_nat_alt unat_gt_0)
    let ?f = "contents (fp c)"
    obtain c1 where c1: "cdb_read ops c n pos = Some (Some (take (unat n) (drop (unat pos) ?f)), c1)"
        "same_file contents c c1"
      using cdb_read_ok [of pos n c] less.prems n by auto
    have f1: "contents (fp c1) = ?f" using c1(2) by (simp add: same_file_def)
    have step: "cdb_match ops c key len pos =
        (if take (unat n) (drop (unat pos) ?f) \<noteq> take (unat n) key then Some (0, c1)
         else cdb_match ops c1 (drop (unat n) key) (len - n) (pos + n))"
      using False c1(1) by (subst cdb_match.simps) (simp add: Let_def word_gt_0 flip: n_def)
    have split: "take (unat len) (drop (unat pos) ?f) = key \<longleftrightarrow>
        take (unat n) (drop (unat pos) ?f) = take (unat n) key \<and>
        take (unat len - unat n) (drop (unat pos + unat n) ?f) = drop (unat n) key"
    proof -
      have "take (unat len) (drop (unat pos) ?f) =
          take (unat n) (drop (unat pos) ?f) @ take (unat len - unat n) (drop (unat pos + unat n) ?f)"
        using n by (metis add.commute drop_drop le_add_diff_inverse take_add)
      moreover have "length (take (unat n) (drop (unat pos) ?f)) = length (take (unat n) key)"
        using less.prems n by simp
      ultimately show ?thesis
        using append_eq_append_conv [of "take (unat n) (drop (unat pos) ?f)" "take (unat n) key" _ "drop (unat n) key"]
        by (simp only: append_take_drop_id simp_thms)
    qed
    show ?thesis
    proof (cases "take (unat n) (drop (unat pos) ?f) = take (unat n) key")
      case False
      then show ?thesis using step split c1(2) by auto
    next
      case True
      have sub: "unat (len - n) = unat len - unat n" using n by (simp add: unat_sub word_le_nat_alt)
      have add: "unat (pos + n) = unat pos + unat n"
        using less.prems n by (simp add: unat_word_ariths)
      have "\<exists>c'. cdb_match ops c1 (drop (unat n) key) (len - n) (pos + n) =
          Some (if take (unat (len - n)) (drop (unat (pos + n)) (contents (fp c1))) = drop (unat n) key then 1 else 0, c') \<and>
          same_file contents c1 c'"
        by (rule less.hyps) (use less.prems n in \<open>simp_all add: sub add f1\<close>)
      then show ?thesis
        using step True split c1(2) f1 by (auto simp: sub add intro: same_file_trans)
    qed
  qed
qed

end

section \<open>Searching a hash table in a file\<close>

type_synonym slot = "u32 \<times> u32" \<comment> \<open>hash and record position; position 0 is an empty slot\<close>

definition slot_bytes :: "slot \<Rightarrow> bytes" where
  "slot_bytes s = uint32_pack (fst s) @ uint32_pack (snd s)"

definition rec_bytes :: "bytes \<times> bytes \<Rightarrow> bytes" where
  "rec_bytes kd = uint32_pack (word_of_nat (length (fst kd))) @ uint32_pack (word_of_nat (length (snd kd))) @ fst kd @ snd kd"

definition at_pos :: "bytes \<Rightarrow> nat \<Rightarrow> bytes \<Rightarrow> bool" where
  "at_pos f p bs \<longleftrightarrow> p + length bs \<le> length f \<and> take (length bs) (drop p f) = bs"

definition table_at :: "bytes \<Rightarrow> nat \<Rightarrow> slot list \<Rightarrow> bool" where
  "table_at f H T \<longleftrightarrow> H + 8 * length T \<le> length f \<and> (\<forall>i < length T. at_pos f (H + 8 * i) (slot_bytes (T ! i)))"

text \<open>The slots in the order in which a search with home slot \<open>w\<close> visits them, and the search itself.\<close>

definition scan :: "'a list \<Rightarrow> nat \<Rightarrow> 'a list" where
  "scan T w = map (\<lambda>d. T ! ((w + d) mod length T)) [0..<length T]"

fun search :: "(slot \<Rightarrow> bool) \<Rightarrow> slot list \<Rightarrow> nat option" where
  "search P [] = None"
| "search P (s # ss) = (if snd s = 0 then None else if P s then Some 0 else map_option Suc (search P ss))"

lemma length_slot_bytes [simp]: "length (slot_bytes s) = 8"
  by (simp add: slot_bytes_def)

lemma slot_unpack [simp]:
  "uint32_unpack (slot_bytes s) = fst s" "uint32_unpack (drop 4 (slot_bytes s)) = snd s"
  using uint32_unpack_pack [of "snd s" "[]"] by (simp_all add: slot_bytes_def)

lemma length_scan [simp]: "length (scan T w) = length T"
  by (simp add: scan_def)

lemma scan_nth: "d < length T \<Longrightarrow> scan T w ! d = T ! ((w + d) mod length T)"
  by (simp add: scan_def)

lemma at_pos_drop:
  assumes "at_pos f p bs" "m + n \<le> length bs"
  shows "take n (drop (p + m) f) = take n (drop m bs)"
proof -
  have "take n (drop m bs) = take n (drop m (take (length bs) (drop p f)))"
    using assms(1) by (simp add: at_pos_def)
  also have "\<dots> = take n (drop (p + m) f)"
    using assms(2) by (simp add: drop_take min_def add.commute)
  finally show ?thesis by simp
qed

lemma at_pos_take: "at_pos f p bs \<Longrightarrow> n \<le> length bs \<Longrightarrow> take n (drop p f) = take n bs"
  using at_pos_drop [of f p bs 0 n] by simp

text \<open>The state of a search that has visited \<open>l\<close> slots.\<close>

definition search_state :: "('s \<Rightarrow> bytes) \<Rightarrow> bytes \<Rightarrow> u32 \<Rightarrow> nat \<Rightarrow> nat \<Rightarrow> nat \<Rightarrow> nat \<Rightarrow> 's cdb \<Rightarrow> bool" where
  "search_state contents f h H L w l c \<longleftrightarrow> contents (fp c) = f \<and> khash c = h \<and> unat (hpos c) = H \<and>
     unat (hslots c) = L \<and> unat (loop c) = l \<and> unat (kpos c) = H + 8 * ((w + l) mod L)"

lemma search_state_same: "search_state g f h H L w l c \<Longrightarrow> same_file g c c' \<Longrightarrow> search_state g f h H L w l c'"
  using same_file_fields [of g c c'] by (auto simp: search_state_def)

text \<open>Advancing by one slot, with the wrap at the end of the table.\<close>

lemma search_state_next:
  assumes st: "search_state g f h H L w l c" and "l < L" "H + 8 * L < 2 ^ 32"
  defines "c1 \<equiv> c\<lparr>loop := loop c + 1, kpos := kpos c + 8\<rparr>"
  shows "search_state g f h H L w (Suc l)
    (if kpos c1 = hpos c1 + push_bit 3 (hslots c1) then c1\<lparr>kpos := hpos c1\<rparr> else c1)"
proof -
  let ?j = "(w + l) mod L"
  have j: "?j < L" using assms(2) by simp
  have st': "unat (hpos c) = H" "unat (hslots c) = L" "unat (loop c) = l" "unat (kpos c) = H + 8 * ?j"
    using st by (auto simp: search_state_def)
  have loop: "unat (loop c + 1) = Suc l" using assms(2,3) st' by (simp add: unat_word_ariths)
  have kp: "unat (kpos c + 8) = H + 8 * Suc ?j" using st' j assms(3) by (simp add: unat_word_ariths)
  have push: "push_bit 3 (hslots c) = hslots c * 8" by (simp add: push_bit_eq_mult mult.commute)
  have "unat (hslots c * 8) = 8 * L" using st' assms(3) by (simp add: unat_word_ariths)
  then have en: "unat (hpos c + push_bit 3 (hslots c)) = H + 8 * L"
    using st' assms(3) push by (simp add: unat_word_ariths)
  have wrap: "kpos c1 = hpos c1 + push_bit 3 (hslots c1) \<longleftrightarrow> Suc ?j = L"
  proof -
    have "kpos c1 = hpos c1 + push_bit 3 (hslots c1) \<longleftrightarrow> H + 8 * Suc ?j = H + 8 * L"
      unfolding c1_def by (simp add: word_unat_eq_iff kp en del: push_bit_eq_mult)
    then show ?thesis using j by auto
  qed
  show ?thesis
    unfolding wrap using st st' loop kp j assms(2)
    by (auto simp: search_state_def c1_def mod_Suc simp del: mult_Suc_right)
qed

definition records_at :: "bytes \<Rightarrow> (u32 \<Rightarrow> bytes \<times> bytes) \<Rightarrow> slot list \<Rightarrow> bool" where
  "records_at f recs T \<longleftrightarrow> (\<forall>s \<in> set T. snd s \<noteq> 0 \<longrightarrow> at_pos f (unat (snd s)) (rec_bytes (recs (snd s))))"

definition hit :: "(u32 \<Rightarrow> bytes \<times> bytes) \<Rightarrow> u32 \<Rightarrow> bytes \<Rightarrow> slot \<Rightarrow> bool" where
  "hit recs h key s \<longleftrightarrow> fst s = h \<and> fst (recs (snd s)) = key"

definition found_at :: "(u32 \<Rightarrow> bytes \<times> bytes) \<Rightarrow> u32 \<Rightarrow> 's cdb \<Rightarrow> bool" where
  "found_at recs p c \<longleftrightarrow> unat (dpos c) = unat p + 8 + length (fst (recs p)) \<and>
     unat (dlen c) = length (snd (recs p))"

lemma length_rec_bytes [simp]: "length (rec_bytes kd) = 8 + length (fst kd) + length (snd kd)"
  by (simp add: rec_bytes_def)

lemma rec_header:
  "uint32_unpack (take 8 (rec_bytes kd)) = word_of_nat (length (fst kd))"
  "uint32_unpack (drop 4 (take 8 (rec_bytes kd))) = word_of_nat (length (snd kd))"
  using uint32_unpack_pack [of "word_of_nat (length (snd kd))" "[]"] by (simp_all add: rec_bytes_def)

lemma rec_key: "take (length (fst kd)) (drop 8 (rec_bytes kd)) = fst kd"
  by (simp add: rec_bytes_def)

context php_stream
begin

text \<open>Examining one occupied slot: the record is a hit, or the loop goes on.\<close>

lemma find_loop_step:
  assumes st: "search_state contents f h H (length T) w l c" and l: "l < length T"
    and tab: "table_at f H T" and recs: "records_at f recs T" and size: "length f < 2 ^ 32"
    and key: "length key = unat len" and s: "s = scan T w ! l" "snd s \<noteq> 0"
  shows "\<exists>c'. search_state contents f h H (length T) w (Suc l) c' \<and>
    (if hit recs h key s then cdb_find_loop ops c key len = Some (1, c') \<and> found_at recs (snd s) c'
     else cdb_find_loop ops c key len = cdb_find_loop ops c' key len)"
proof -
  let ?j = "(w + l) mod length T" and ?p = "snd s"
  have j: "?j < length T" using l by (intro mod_less_divisor) linarith
  have sT: "s = T ! ?j" using s(1) l by (simp add: scan_nth)
  have slot: "at_pos f (H + 8 * ?j) (slot_bytes s)" using tab j sT by (simp add: table_at_def)
  have rec: "at_pos f (unat ?p) (rec_bytes (recs ?p))"
    using recs s(2) sT j by (auto simp: records_at_def)
  let ?k = "fst (recs ?p)" and ?d = "snd (recs ?p)"
  have small: "unat ?p + 8 + length ?k + length ?d \<le> length f" using rec by (simp add: at_pos_def)
  have c: "contents (fp c) = f" "unat (kpos c) = H + 8 * ?j" "loop c < hslots c" "khash c = h"
    using st l by (auto simp: search_state_def word_less_nat_alt)
  have bound: "H + 8 * length T < 2 ^ 32" using tab size by (simp add: table_at_def)
  obtain c0 where c0: "cdb_read ops c 8 (kpos c) = Some (Some (slot_bytes s), c0)" "same_file contents c c0"
    using cdb_read_ok [of "kpos c" 8 c] slot by (auto simp: c at_pos_def)
  define c1 where "c1 = c0\<lparr>loop := loop c0 + 1, kpos := kpos c0 + 8\<rparr>"
  define c2 where "c2 = (if kpos c1 = hpos c1 + push_bit 3 (hslots c1) then c1\<lparr>kpos := hpos c1\<rparr> else c1)"
  have st2: "search_state contents f h H (length T) w (Suc l) c2"
    unfolding c2_def c1_def by (rule search_state_next [OF search_state_same [OF st c0(2)] l bound])
  then have c2: "contents (fp c2) = f" "khash c2 = h" by (simp_all add: search_state_def)
  obtain c3 where c3: "cdb_read ops c2 8 ?p = Some (Some (take 8 (rec_bytes (recs ?p))), c3)" "same_file contents c2 c3"
    using cdb_read_ok [of ?p 8 c2] rec small by (auto simp: c2 at_pos_take)
  have st3: "search_state contents f h H (length T) w (Suc l) c3" by (rule search_state_same [OF st2 c3(2)])
  then have f3: "contents (fp c3) = f" by (simp add: search_state_def)
  have lens: "unat (word_of_nat (length ?k) :: u32) = length ?k" "unat (word_of_nat (length ?d) :: u32) = length ?d"
    using small size by (auto intro!: unat_of_nat_u32)
  have p8: "unat (?p + 8) = unat ?p + 8" using small size by (simp add: unat_word_ariths)
  have step: "cdb_find_loop ops c key len =
      (if fst s = h then
         (if word_of_nat (length ?k) = len
          then case cdb_match ops c3 key len (?p + 8) of
                 None \<Rightarrow> None
               | Some m \<Rightarrow> if fst m = -1 then Some (-1, snd m)
                   else if fst m = 1 then Some (1, (snd m)\<lparr>dlen := word_of_nat (length ?d), dpos := ?p + 8 + len\<rparr>)
                   else cdb_find_loop ops (snd m) key len
          else cdb_find_loop ops c3 key len)
       else cdb_find_loop ops c2 key len)"
    using c(3) c0(1) s(2) c3(1) c2(2)
    by (subst cdb_find_loop.simps) (simp add: Let_def rec_header flip: c1_def c2_def split: option.split)
  show ?thesis
  proof (cases "fst s = h \<and> word_of_nat (length ?k) = len")
    case False
    then have "\<not> hit recs h key s" using key lens by (auto simp: hit_def)
    then show ?thesis using step False st2 st3 by auto
  next
    case True
    then have len: "length ?k = unat len" using lens by auto
    have "take (unat len) (drop (unat ?p + 8) f) = ?k"
      using at_pos_drop [OF rec, of 8 "unat len"] len rec_key [of "recs ?p"] by simp
    then obtain c4 where c4: "cdb_match ops c3 key len (?p + 8) = Some (if ?k = key then 1 else 0, c4)"
        "same_file contents c3 c4"
      using cdb_match_ok [of key len "?p + 8" c3] small size len key by (auto simp: f3 p8)
    have st4: "search_state contents f h H (length T) w (Suc l) c4" by (rule search_state_same [OF st3 c4(2)])
    show ?thesis
    proof (cases "?k = key")
      case hitk: True
      have "unat (?p + 8 + len) = unat ?p + 8 + length ?k"
        using small size p8 len by (simp add: unat_word_ariths)
      then show ?thesis using step True hitk c4 st4 lens
        by (auto simp: hit_def found_at_def search_state_def)
    next
      case False
      then show ?thesis using step True c4 st4 by (auto simp: hit_def)
    qed
  qed
qed

text \<open>The whole loop is the abstract search over the slots not yet visited.\<close>

lemma find_loop_search:
  assumes tab: "table_at f H T" and recs: "records_at f recs T" and size: "length f < 2 ^ 32"
    and key: "length key = unat len"
    and "search_state contents f h H (length T) w l c" "l \<le> length T"
  shows "case search (hit recs h key) (drop l (scan T w)) of
      None \<Rightarrow> \<exists>c'. cdb_find_loop ops c key len = Some (0, c') \<and> contents (fp c') = f
    | Some j \<Rightarrow> \<exists>c'. cdb_find_loop ops c key len = Some (1, c') \<and> l + j < length T \<and>
        search_state contents f h H (length T) w (Suc (l + j)) c' \<and> found_at recs (snd (scan T w ! (l + j))) c'"
  using assms(5-)
proof (induction "length T - l" arbitrary: l c rule: less_induct)
  case less
  show ?case
  proof (cases "l = length T")
    case True
    then have "\<not> loop c < hslots c" using less.prems(1) by (simp add: search_state_def word_less_nat_alt)
    then show ?thesis
      using True less.prems(1) by (subst cdb_find_loop.simps) (simp add: search_state_def)
  next
    case False
    with less.prems(2) have l: "l < length T" by simp
    let ?s = "scan T w ! l"
    have drop: "drop l (scan T w) = ?s # drop (Suc l) (scan T w)" using l by (simp add: Cons_nth_drop_Suc)
    show ?thesis
    proof (cases "snd ?s = 0")
      case True
      have j: "(w + l) mod length T < length T" using l by (intro mod_less_divisor) linarith
      have c: "contents (fp c) = f" "unat (kpos c) = H + 8 * ((w + l) mod length T)" "loop c < hslots c"
        using less.prems(1) l by (auto simp: search_state_def word_less_nat_alt)
      have "at_pos f (unat (kpos c)) (slot_bytes ?s)"
        using tab j l c(2) by (simp add: table_at_def scan_nth)
      then obtain c0 where c0: "cdb_read ops c 8 (kpos c) = Some (Some (slot_bytes ?s), c0)" "same_file contents c c0"
        using cdb_read_ok [of "kpos c" 8 c] by (auto simp: c at_pos_def)
      have "cdb_find_loop ops c key len = Some (0, c0)"
        using c(3) c0(1) True by (subst cdb_find_loop.simps) (simp add: Let_def)
      then show ?thesis using True drop c(1) c0(2) by (simp add: same_file_def)
    next
      case False
      obtain c' where c': "search_state contents f h H (length T) w (Suc l) c'"
          "if hit recs h key ?s then cdb_find_loop ops c key len = Some (1, c') \<and> found_at recs (snd ?s) c'
           else cdb_find_loop ops c key len = cdb_find_loop ops c' key len"
        using find_loop_step [OF less.prems(1) l tab recs size key refl False] by blast
      show ?thesis
      proof (cases "hit recs h key ?s")
        case True
        then show ?thesis using c' drop False l by auto
      next
        case nohit: False
        have "length T - Suc l < length T - l" using l by simp
        from less.hyps [OF this c'(1)] l show ?thesis
          using c'(2) nohit drop False by (auto split: option.splits)
      qed
    qed
  qed
qed

end

end
