(* ===== verification/CdbMake.thy ===== *)
theory CdbMake
  imports Cdb
begin

text \<open>
  The writer of constant databases, \<^verbatim>\<open>compile/extensions/dba/libcdb/cdb_make.c\<close>. The linked list of
  blocks of at most 1000 entries is a list of lists, the newest block first; the arrays \<^verbatim>\<open>split\<close> and
  \<^verbatim>\<open>hash\<close>, allocated and freed inside \<^verbatim>\<open>cdb_make_finish\<close>, are values of the functions that fill them.
  Allocation succeeds. The theorems at the end tie the writer to the reader of theory \<open>Cdb\<close>.
\<close>

record 's cdb_make =
  final :: bytes
  count :: "u32 list"
  start :: "u32 list"
  head :: "slot list list"
  numentries :: u32
  pos :: u32
  mfp :: 's

definition CDB_HPLIST :: nat where
  "CDB_HPLIST = 1000"

definition cdb_make_write :: "'s php_stream_ops \<Rightarrow> 's cdb_make \<Rightarrow> bytes \<Rightarrow> u32 \<Rightarrow> int \<times> 's cdb_make" where
  "cdb_make_write ops c buf sz =
     (let (r, s) = stream_write ops (take (unat sz) buf) (mfp c)
      in (if word_of_int r = sz then 0 else -1, c\<lparr>mfp := s\<rparr>))"

definition cdb_posplus :: "'s cdb_make \<Rightarrow> u32 \<Rightarrow> int \<times> 's cdb_make" where
  "cdb_posplus c len =
     (let newpos = pos c + len in if newpos < len then (-1, c) else (0, c\<lparr>pos := newpos\<rparr>))"

definition cdb_make_start :: "'s php_stream_ops \<Rightarrow> 's cdb_make \<Rightarrow> 's \<Rightarrow> int \<times> 's cdb_make" where
  "cdb_make_start ops c f =
     (let c1 = c\<lparr>head := [], numentries := 0, mfp := f, pos := 2048\<rparr>;
          (r, s) = stream_seek ops (uint (pos c1)) SEEK_SET (mfp c1);
          c2 = c1\<lparr>mfp := s\<rparr>
      in if r = -1 then (-1, c2) else (stream_tell ops (mfp c2), c2))"

definition cdb_make_addend :: "'s cdb_make \<Rightarrow> u32 \<Rightarrow> u32 \<Rightarrow> u32 \<Rightarrow> int \<times> 's cdb_make" where
  "cdb_make_addend c keylen datalen h =
     (let blocks = (case head c of [] \<Rightarrow> [[]] | b # bs \<Rightarrow> if length b \<ge> CDB_HPLIST then [] # b # bs else b # bs);
          c1 = c\<lparr>head := (hd blocks @ [(h, pos c)]) # tl blocks, numentries := numentries c + 1\<rparr>;
          (r1, c2) = cdb_posplus c1 8
      in if r1 = -1 then (-1, c2)
         else let (r2, c3) = cdb_posplus c2 keylen
              in if r2 = -1 then (-1, c3)
                 else let (r3, c4) = cdb_posplus c3 datalen
                      in if r3 = -1 then (-1, c4) else (0, c4))"

text \<open>The two tests against \<^verbatim>\<open>0xffffffff\<close> can never hold on 32-bit arguments.\<close>

definition cdb_make_addbegin :: "'s php_stream_ops \<Rightarrow> 's cdb_make \<Rightarrow> u32 \<Rightarrow> u32 \<Rightarrow> int \<times> 's cdb_make" where
  "cdb_make_addbegin ops c keylen datalen =
     (if keylen > 0xffffffff then (-1, c)
      else if datalen > 0xffffffff then (-1, c)
      else let buf = uint32_pack keylen @ uint32_pack datalen;
               (r, c1) = cdb_make_write ops c buf 8
           in if r \<noteq> 0 then (-1, c1) else (0, c1))"

definition cdb_make_add :: "'s php_stream_ops \<Rightarrow> 's cdb_make \<Rightarrow> bytes \<Rightarrow> u32 \<Rightarrow> bytes \<Rightarrow> u32 \<Rightarrow> int \<times> 's cdb_make" where
  "cdb_make_add ops c key keylen data datalen =
     (let (r1, c1) = cdb_make_addbegin ops c keylen datalen
      in if r1 = -1 then (-1, c1)
         else let (r2, c2) = cdb_make_write ops c1 key keylen
              in if r2 \<noteq> 0 then (-1, c2)
                 else let (r3, c3) = cdb_make_write ops c2 data datalen
                      in if r3 \<noteq> 0 then (-1, c3)
                         else cdb_make_addend c3 keylen datalen (cdb_hash key keylen))"

section \<open>Finishing\<close>

definition bucket :: "slot \<Rightarrow> nat" where
  "bucket hp = unat (255 AND fst hp)"

text \<open>All entries in the order in which the loops \<^verbatim>\<open>for (x = c->head; x; x = x->next) while (i--)\<close> visit them.\<close>

definition newest_first :: "slot list list \<Rightarrow> slot list" where
  "newest_first blocks = concat (map rev blocks)"

definition count_entries :: "slot list list \<Rightarrow> u32 list" where
  "count_entries blocks = foldl (\<lambda>cnt hp. cnt[bucket hp := cnt ! bucket hp + 1]) (replicate 256 0) (newest_first blocks)"

definition table_memsize :: "u32 list \<Rightarrow> u32 \<Rightarrow> u32" where
  "table_memsize cnt n = foldl (\<lambda>m k. if k * 2 > m then k * 2 else m) 1 cnt + n"

fun running_sums :: "u32 \<Rightarrow> u32 list \<Rightarrow> u32 list" where
  "running_sums u [] = []"
| "running_sums u (k # ks) = (u + k) # running_sums (u + k) ks"

definition place_entry :: "u32 list \<times> slot list \<Rightarrow> slot \<Rightarrow> u32 list \<times> slot list" where
  "place_entry = (\<lambda>(st, split) hp. let i = st ! bucket hp - 1 in (st[bucket hp := i], split[unat i := hp]))"

definition split_entries :: "slot list list \<Rightarrow> u32 list \<Rightarrow> nat \<Rightarrow> u32 list \<times> slot list" where
  "split_entries blocks st n = foldl place_entry (st, replicate n (0, 0)) (newest_first blocks)"

partial_function (option) probe :: "slot list \<Rightarrow> u32 \<Rightarrow> u32 \<Rightarrow> u32 option" where
  "probe T len where1 =
     (if snd (T ! unat where1) \<noteq> 0
      then probe T len (if where1 + 1 = len then 0 else where1 + 1)
      else Some where1)"

fun fill_table :: "u32 \<Rightarrow> slot list \<Rightarrow> slot list \<Rightarrow> slot list option" where
  "fill_table len T [] = Some T"
| "fill_table len T (hp # hps) =
     (case probe T len (drop_bit 8 (fst hp) mod len) of
        None \<Rightarrow> None
      | Some i \<Rightarrow> fill_table len (T[unat i := hp]) hps)"

fun write_table :: "'s php_stream_ops \<Rightarrow> 's cdb_make \<Rightarrow> slot list \<Rightarrow> int \<times> 's cdb_make" where
  "write_table ops c [] = (0, c)"
| "write_table ops c (s # T) =
     (let (r1, c1) = cdb_make_write ops c (slot_bytes s) 8
      in if r1 \<noteq> 0 then (-1, c1)
         else let (r2, c2) = cdb_posplus c1 8
              in if r2 = -1 then (-1, c2) else write_table ops c2 T)"

definition set_final :: "bytes \<Rightarrow> nat \<Rightarrow> u32 \<Rightarrow> u32 \<Rightarrow> bytes" where
  "set_final f i p len = take (8 * i) f @ uint32_pack p @ uint32_pack len @ drop (8 * i + 8) f"

fun finish_buckets :: "'s php_stream_ops \<Rightarrow> slot list \<Rightarrow> nat list \<Rightarrow> 's cdb_make \<Rightarrow> (int \<times> 's cdb_make) option" where
  "finish_buckets ops split [] c = Some (0, c)"
| "finish_buckets ops split (i # is) c =
     (let cnt = count c ! i; len = cnt + cnt; c1 = c\<lparr>final := set_final (final c) i (pos c) len\<rparr>;
          hps = take (unat cnt) (drop (unat (start c ! i)) split)
      in case fill_table len (replicate (unat len) (0, 0)) hps of
           None \<Rightarrow> None
         | Some T \<Rightarrow>
             (case write_table ops c1 T of
                (r, c2) \<Rightarrow> if r = -1 then Some (-1, c2) else finish_buckets ops split is c2))"

definition cdb_make_close :: "'s php_stream_ops \<Rightarrow> 's cdb_make \<Rightarrow> int \<times> 's cdb_make" where
  "cdb_make_close ops c =
     (let (r1, s1) = stream_flush ops (mfp c)
      in if r1 \<noteq> 0 then (-1, c\<lparr>mfp := s1\<rparr>)
         else let s2 = snd (stream_seek ops 0 SEEK_SET s1)
              in if stream_tell ops s2 \<noteq> 0 then (-1, c\<lparr>mfp := s2\<rparr>)
                 else let (r3, c3) = cdb_make_write ops (c\<lparr>mfp := s2\<rparr>) (final c) 2048
                      in if r3 \<noteq> 0 then (-1, c3)
                         else let (r4, s4) = stream_flush ops (mfp c3) in (r4, c3\<lparr>mfp := s4\<rparr>))"

definition cdb_make_finish :: "'s php_stream_ops \<Rightarrow> 's cdb_make \<Rightarrow> (int \<times> 's cdb_make) option" where
  "cdb_make_finish ops c =
     (let c1 = c\<lparr>count := count_entries (head c)\<rparr>
      in if table_memsize (count c1) (numentries c1) > 0xffffffff div 8 then Some (-1, c1)
         else let (st, split) = split_entries (head c1) (running_sums 0 (count c1)) (unat (numentries c1))
              in case finish_buckets ops split [0..<256] (c1\<lparr>start := st\<rparr>) of
                   None \<Rightarrow> None
                 | Some (r, c2) \<Rightarrow> if r = -1 then Some (-1, c2) else Some (cdb_make_close ops (c2\<lparr>head := []\<rparr>)))"

definition cdb_make_version :: string where
  "cdb_make_version = ''0.75, $Id$''"

section \<open>The hash table of a bucket\<close>

declare probe.simps [simp del]

definition home :: "nat \<Rightarrow> u32 \<Rightarrow> nat" where
  "home L h = unat (drop_bit 8 h) mod L"

lemma unat_home: "unat len = L \<Longrightarrow> unat (drop_bit 8 h mod len) = home L h"
  by (simp add: home_def unat_mod)

text \<open>Probing finds the first empty slot after the home slot.\<close>

lemma probe_finds:
  assumes len: "unat len = length T" "0 < length T"
    and "\<forall>d' < d. snd (T ! ((unat w + d') mod length T)) \<noteq> 0"
    and "snd (T ! ((unat w + d) mod length T)) = 0" and "unat w < length T"
  shows "\<exists>i. probe T len w = Some i \<and> unat i = (unat w + d) mod length T"
  using assms(3-)
proof (induction d arbitrary: w)
  case 0
  then show ?case by (subst probe.simps) simp
next
  case (Suc d)
  define w1 where "w1 = (if w + 1 = len then 0 else w + 1)"
  have "unat (w + 1) = Suc (unat w)"
    using Suc.prems(3) len(1) unat_u32_less [of len] by (simp add: unat_word_ariths)
  then have w1: "unat w1 = Suc (unat w) mod length T"
    using Suc.prems(3) len(1) by (auto simp: w1_def mod_Suc word_unat_eq_iff)
  have shift: "(unat w1 + k) mod length T = (unat w + Suc k) mod length T" for k
    by (simp add: w1 mod_add_left_eq)
  have "snd (T ! unat w) \<noteq> 0" using Suc.prems(1,3) by (metis add.right_neutral mod_less zero_less_Suc)
  then have "probe T len w = probe T len w1" by (subst probe.simps) (simp add: w1_def)
  moreover have "\<exists>i. probe T len w1 = Some i \<and> unat i = (unat w1 + d) mod length T"
  proof (rule Suc.IH)
    show "\<forall>d' < d. snd (T ! ((unat w1 + d') mod length T)) \<noteq> 0" unfolding shift using Suc.prems(1) by (simp del: add_Suc_right)
    show "snd (T ! ((unat w1 + d) mod length T)) = 0" unfolding shift using Suc.prems(2) by simp
    show "unat w1 < length T" unfolding w1 using len(2) by (rule mod_less_divisor)
  qed
  ultimately show ?case by (simp add: shift)
qed

definition filled :: "slot \<Rightarrow> bool" where
  "filled s \<longleftrightarrow> snd s \<noteq> 0"

definition has_hash :: "u32 \<Rightarrow> slot \<Rightarrow> bool" where
  "has_hash h s \<longleftrightarrow> fst s = h \<and> filled s"

text \<open>
  The invariant of the table after the entries \<open>es\<close> have been inserted: a search from the home slot
  of any hash meets exactly the entries with that hash, in insertion order, and none of them after
  an empty slot.
\<close>

definition table_ok :: "slot list \<Rightarrow> slot list \<Rightarrow> bool" where
  "table_ok T es \<longleftrightarrow> length (filter filled T) = length es \<and>
     (\<forall>h. let S = scan T (home (length T) h) in
        filter (has_hash h) S = filter (\<lambda>s. fst s = h) es \<and>
        (\<forall>d < length T. has_hash h (S ! d) \<longrightarrow> (\<forall>d' < d. filled (S ! d'))))"

lemma filter_update_neither:
  "i < length xs \<Longrightarrow> \<not> P (xs ! i) \<Longrightarrow> \<not> P y \<Longrightarrow> filter P (xs[i := y]) = filter P xs"
  by (induction xs arbitrary: i) (auto split: nat.splits)

lemma filter_update_append:
  assumes "i < length xs" "\<not> P (xs ! i)" "P y" "\<And>j. i < j \<Longrightarrow> j < length xs \<Longrightarrow> \<not> P (xs ! j)"
  shows "filter P (xs[i := y]) = filter P xs @ [y]"
proof -
  have xs: "xs = take i xs @ xs ! i # drop (Suc i) xs" using assms(1) by (simp add: id_take_nth_drop)
  have none: "filter P (drop (Suc i) xs) = []"
    using assms(4) by (auto simp: filter_empty_conv in_set_conv_nth)
  have "filter P (xs[i := y]) = filter P (take i xs) @ [y]"
    using assms(1,3) none by (simp add: upd_conv_take_nth_drop)
  also have "filter P (take i xs) = filter P xs" by (subst (2) xs) (simp add: assms(2) none)
  finally show ?thesis .
qed

lemma length_filter_update_grow:
  "i < length xs \<Longrightarrow> \<not> P (xs ! i) \<Longrightarrow> P y \<Longrightarrow> length (filter P (xs[i := y])) = Suc (length (filter P xs))"
  by (induction xs arbitrary: i) (auto split: nat.splits)

text \<open>Each slot has one distance from a home slot.\<close>

lemma distance_exists:
  assumes "q < L" obtains d where "d < L" "(w + d) mod L = (q :: nat)"
proof (rule that [of "(q + (L - w mod L)) mod L"])
  show "(q + (L - w mod L)) mod L < L" using assms by simp
  have "(w + (q + (L - w mod L)) mod L) mod L = (w mod L + (q + (L - w mod L))) mod L"
    by (simp add: mod_simps)
  also have "w mod L + (q + (L - w mod L)) = q + L" using assms mod_less_divisor [of L w] by linarith
  finally show "(w + (q + (L - w mod L)) mod L) mod L = q" using assms by simp
qed

lemma distance_unique:
  assumes "d < L" "e < L" "(w + d) mod L = (w + e) mod (L :: nat)" shows "d = e"
proof -
  have "d mod L = e mod L" using assms(3) by (simp add: nat_mod_eq_iff)
  then show ?thesis using assms by simp
qed

lemma scan_update:
  assumes "d < length T" "q = (w + d) mod length T"
  shows "scan (T[q := e]) w = (scan T w)[d := e]"
proof (rule nth_equalityI)
  fix i assume "i < length (scan (T[q := e]) w)"
  then have i: "i < length T" by simp
  then have "(w + i) mod length T < length T" by (intro mod_less_divisor) linarith
  moreover have "(w + i) mod length T = q \<longleftrightarrow> i = d"
    using distance_unique [OF i assms(1), of w] assms(2) by auto
  ultimately show "scan (T[q := e]) w ! i = (scan T w)[d := e] ! i"
    using i assms(1) by (cases "i = d") (simp_all add: scan_nth)
qed simp

lemma table_ok_insert:
  assumes ok: "table_ok T es" and e: "filled e" and d: "d < length T"
    and q: "q = (home (length T) (fst e) + d) mod length T" and free: "\<not> filled (T ! q)"
    and before: "\<forall>d' < d. filled (T ! ((home (length T) (fst e) + d') mod length T))"
  shows "table_ok (T[q := e]) (es @ [e])"
proof -
  let ?L = "length T"
  have qL: "q < ?L" unfolding q using d by (intro mod_less_divisor) linarith
  have inv: "filter (has_hash h) (scan T (home ?L h)) = filter (\<lambda>s. fst s = h) es"
    "\<And>i j. i < ?L \<Longrightarrow> has_hash h (scan T (home ?L h) ! i) \<Longrightarrow> j < i \<Longrightarrow> filled (scan T (home ?L h) ! j)" for h
    using ok by (auto simp: table_ok_def Let_def)
  have "filter (has_hash h) (scan (T[q := e]) (home ?L h)) = filter (\<lambda>s. fst s = h) (es @ [e]) \<and>
    (\<forall>i < ?L. has_hash h (scan (T[q := e]) (home ?L h) ! i) \<longrightarrow> (\<forall>j < i. filled (scan (T[q := e]) (home ?L h) ! j)))" for h
  proof -
    let ?S = "scan T (home ?L h)"
    obtain k where k: "k < ?L" "(home ?L h + k) mod ?L = q" using distance_exists [OF qL] by blast
    have S': "scan (T[q := e]) (home ?L h) = ?S[k := e]" by (rule scan_update) (use k in auto)
    have Sk: "?S ! k = T ! q" using k by (simp add: scan_nth)
    have grow: "filled (?S[k := e] ! j)" if "filled (?S ! j)" for j
      using that e k(1) by (cases "j = k") simp_all
    show ?thesis
    proof (cases "fst e = h")
      case False
      then have "filter (has_hash h) (?S[k := e]) = filter (has_hash h) ?S"
        using k free Sk by (intro filter_update_neither) (auto simp: has_hash_def)
      moreover have "filled (?S[k := e] ! j)" if "i < ?L" "has_hash h (?S[k := e] ! i)" "j < i" for i j
      proof -
        have "i \<noteq> k" using that(1,2) False k by (auto simp: has_hash_def)
        then show ?thesis using that inv(2) [of i h j] grow by simp
      qed
      ultimately show ?thesis using False inv(1) [of h] S' by auto
    next
      case True
      have "k = d" using distance_unique [OF k(1) d, of "home ?L h"] k(2) q True by simp
      have first: "filled (?S ! j)" if "j < d" for j using before that d True by (simp add: scan_nth)
      have later: "\<not> has_hash h (?S ! j)" if "d < j" "j < ?L" for j
        using inv(2) [of j h d] that free Sk \<open>k = d\<close> by auto
      have "filter (has_hash h) (?S[k := e]) = filter (has_hash h) ?S @ [e]"
        using k free Sk e True later \<open>k = d\<close> by (intro filter_update_append) (auto simp: has_hash_def)
      moreover have "filled (?S[k := e] ! j)" if "i < ?L" "has_hash h (?S[k := e] ! i)" "j < i" for i j
      proof (cases "i = d")
        case True
        then show ?thesis using first that(3) grow by simp
      next
        case False
        then have "has_hash h (?S ! i)" using that \<open>k = d\<close> by simp
        then show ?thesis using inv(2) that grow by blast
      qed
      ultimately show ?thesis using True inv(1) [of h] S' by auto
    qed
  qed
  moreover have "length (filter filled (T[q := e])) = Suc (length (filter filled T))"
    using qL free e by (intro length_filter_update_grow)
  ultimately show ?thesis using ok by (simp add: table_ok_def Let_def)
qed

lemma some_slot_free:
  assumes "table_ok T es" "length es < length T"
  obtains d where "d < length T" "\<not> filled (T ! ((w + d) mod length T))"
    "\<forall>d' < d. filled (T ! ((w + d') mod length T))"
proof -
  have "length (filter filled T) < length T" using assms by (simp add: table_ok_def)
  then obtain q where q: "q < length T" "\<not> filled (T ! q)"
    by (metis filter_True in_set_conv_nth less_irrefl)
  obtain k where k: "k < length T" "(w + k) mod length T = q" using distance_exists [OF q(1)] by blast
  define d where "d = (LEAST d. \<not> filled (T ! ((w + d) mod length T)))"
  have "d \<le> k" unfolding d_def using k q by (intro Least_le) simp
  moreover have "\<not> filled (T ! ((w + d) mod length T))" unfolding d_def by (rule LeastI [of _ k]) (simp add: k q)
  moreover have "\<forall>d' < d. filled (T ! ((w + d') mod length T))"
    unfolding d_def using not_less_Least by blast
  ultimately show thesis using k that [of d] by simp
qed

text \<open>Filling the table with at most as many entries as there are free slots keeps the invariant.\<close>

lemma fill_table_ok:
  assumes "table_ok T es" "\<forall>e \<in> set hps. filled e" "length es + length hps \<le> length T" "unat len = length T"
  shows "\<exists>T'. fill_table len T hps = Some T' \<and> table_ok T' (es @ hps) \<and> length T' = length T"
  using assms
proof (induction hps arbitrary: T es)
  case Nil
  then show ?case by simp
next
  case (Cons e hps)
  let ?w = "drop_bit 8 (fst e) mod len" and ?L = "length T"
  have pos: "0 < ?L" using Cons.prems(3) by (cases T) simp_all
  have w: "unat ?w = home ?L (fst e)" by (rule unat_home [OF Cons.prems(4)])
  obtain d where d: "d < ?L" "\<not> filled (T ! ((home ?L (fst e) + d) mod ?L))"
      "\<forall>d' < d. filled (T ! ((home ?L (fst e) + d') mod ?L))"
    using some_slot_free [OF Cons.prems(1), of "home ?L (fst e)"] Cons.prems(3) by auto
  have "home ?L (fst e) < ?L" unfolding home_def using pos by (rule mod_less_divisor)
  then obtain i where i: "probe T len ?w = Some i" "unat i = (home ?L (fst e) + d) mod ?L"
    using probe_finds [OF Cons.prems(4) pos, of d ?w] d unfolding w filled_def by blast
  have "table_ok (T[unat i := e]) (es @ [e])"
    using Cons.prems(2) d i(2) by (intro table_ok_insert [OF Cons.prems(1)]) auto
  from Cons.IH [OF this] Cons.prems show ?case by (simp add: i(1))
qed

lemma table_ok_empty: "table_ok (replicate L (0, 0)) []"
  by (auto simp: table_ok_def filled_def has_hash_def Let_def filter_empty_conv scan_def)

section \<open>Sorting the entries into buckets\<close>

lemma newest_first_rev: "newest_first blocks = rev (concat (rev blocks))"
  by (simp add: newest_first_def rev_concat rev_map [symmetric])

lemma bucket_less: "bucket s < 256"
  unfolding bucket_def by (subst and.commute) (simp add: unat_and_255)

abbreviation of_bucket :: "nat \<Rightarrow> slot list \<Rightarrow> slot list" where
  "of_bucket i es \<equiv> filter (\<lambda>s. bucket s = i) es"

lemma count_foldl:
  assumes "length cnt = 256"
  shows "length (foldl (\<lambda>cnt hp. cnt[bucket hp := cnt ! bucket hp + 1]) cnt xs) = 256 \<and>
    (\<forall>i < 256. foldl (\<lambda>cnt hp. cnt[bucket hp := cnt ! bucket hp + 1]) cnt xs ! i =
      cnt ! i + (word_of_nat (length (of_bucket i xs)) :: u32))"
  using assms
proof (induction xs arbitrary: cnt)
  case (Cons x xs)
  then show ?case by (auto simp: nth_list_update bucket_less)
qed simp

lemma count_entries_nth:
  "length (count_entries blocks) = 256"
  "i < 256 \<Longrightarrow> count_entries blocks ! i = word_of_nat (length (of_bucket i (concat (rev blocks))))"
  using count_foldl [of "replicate 256 0" "newest_first blocks"]
  by (auto simp: count_entries_def newest_first_rev rev_filter [symmetric])

definition base :: "slot list \<Rightarrow> nat \<Rightarrow> nat" where
  "base es i = length (filter (\<lambda>s. bucket s < i) es)"

lemma base_Suc: "base es (Suc i) = base es i + length (of_bucket i es)"
  unfolding base_def by (induction es) auto

lemma base_mono: "i \<le> j \<Longrightarrow> base es i \<le> base es j"
  by (induction rule: dec_induct) (auto simp: base_Suc)

lemma base_0 [simp]: "base es 0 = 0"
  by (simp add: base_def)

lemma base_all: "256 \<le> i \<Longrightarrow> base es i = length es"
  unfolding base_def using bucket_less by (metis filter_True less_le_trans)

lemma running_sums_nth:
  "length (running_sums u ks) = length ks"
  "i < length ks \<Longrightarrow> running_sums u ks ! i = u + sum_list (take (Suc i) ks)"
  by (induction ks arbitrary: u i) (auto simp: nth_Cons' add.assoc)

lemma sums_are_bases:
  assumes "\<forall>i < 256. cnt ! i = word_of_nat (length (of_bucket i es))" "length cnt = 256" "i \<le> 256"
  shows "sum_list (take i cnt) = (word_of_nat (base es i) :: u32)"
  using assms(3)
proof (induction i)
  case (Suc i)
  then have "take (Suc i) cnt = take i cnt @ [cnt ! i]" using assms(2) by (simp add: take_Suc_conv_app_nth)
  then show ?case using Suc assms(1) by (simp add: base_Suc)
qed simp

text \<open>
  The downward fill: after the entries \<open>suf\<close> have been placed, from the last to the first, each
  bucket's part of the array ends with its entries of \<open>suf\<close>, in order.
\<close>

lemma place_entries:
  assumes st0: "length st0 = 256" "\<forall>i < 256. st0 ! i = word_of_nat (base es (Suc i))"
    and A0: "length A0 = length es" and n: "length es < 2 ^ 32"
  shows "es = pre @ suf \<Longrightarrow> foldl place_entry (st0, A0) (rev suf) = (st, A) \<Longrightarrow>
    length st = 256 \<and> length A = length es \<and>
    (\<forall>i < 256. st ! i = word_of_nat (base es i + length (of_bucket i pre))) \<and>
    (\<forall>i < 256. \<forall>j < length (of_bucket i suf). A ! (base es i + length (of_bucket i pre) + j) = of_bucket i suf ! j)"
proof (induction suf arbitrary: pre st A)
  case Nil
  then show ?case using st0 A0 by (auto simp: base_Suc)
next
  case (Cons e suf)
  obtain st1 A1 where run: "foldl place_entry (st0, A0) (rev suf) = (st1, A1)" by fastforce
  have IH: "length st1 = 256" "length A1 = length es"
      "\<And>i. i < 256 \<Longrightarrow> st1 ! i = word_of_nat (base es i + length (of_bucket i (pre @ [e])))"
      "\<And>i j. i < 256 \<Longrightarrow> j < length (of_bucket i suf) \<Longrightarrow>
        A1 ! (base es i + length (of_bucket i (pre @ [e])) + j) = of_bucket i suf ! j"
    using Cons.IH [of "pre @ [e]" st1 A1] Cons.prems(1) run by auto
  let ?b = "bucket e"
  let ?q = "base es ?b + length (of_bucket ?b pre)"
  have b: "?b < 256" by (rule bucket_less)
  have top: "base es i + length (of_bucket i pre) + length (of_bucket i (e # suf)) = base es (Suc i)" for i
    using Cons.prems(1) by (simp add: base_Suc)
  have qn: "?q < length es"
    using top [of ?b] base_mono [of "Suc ?b" 256 es] b base_all [of 256 es] by simp
  have "st1 ! ?b - 1 = word_of_nat ?q" using IH(3) [OF b] by simp
  moreover have uq: "unat (word_of_nat ?q :: u32) = ?q"
    using qn n by (intro unat_of_nat_u32) simp
  ultimately have res: "st = st1[?b := word_of_nat ?q]" "A = A1[?q := e]"
    using Cons.prems(2) run by (simp_all add: place_entry_def Let_def)
  have "st ! i = word_of_nat (base es i + length (of_bucket i pre))" if "i < 256" for i
    using IH(3) [OF that] IH(1) b by (cases "i = ?b") (simp_all add: res)
  moreover have "A ! (base es i + length (of_bucket i pre) + j) = of_bucket i (e # suf) ! j"
    if i: "i < 256" and j: "j < length (of_bucket i (e # suf))" for i j
  proof (cases "i = ?b")
    case True
    then show ?thesis
      using IH(2) IH(4) [OF i, of "j - 1"] j qn by (cases j) (simp_all add: res)
  next
    case False
    have "base es i + length (of_bucket i pre) + j \<noteq> ?q"
    proof (cases "i < ?b")
      case True
      then show ?thesis using top [of i] j base_mono [of "Suc i" ?b es] by simp
    next
      case False
      then have "Suc ?b \<le> i" using \<open>i \<noteq> ?b\<close> by simp
      from base_mono [OF this, of es] top [of ?b] show ?thesis by simp
    qed
    then show ?thesis using IH(4) [OF i, of j] j False by (simp add: res)
  qed
  ultimately show ?case using IH(1,2) res by simp
qed

lemma split_entries_ok:
  assumes "split_entries blocks (running_sums 0 (count_entries blocks)) (length (concat (rev blocks))) = (st, split)"
    and "length (concat (rev blocks)) < 2 ^ 32" and i: "i < 256"
  shows "take (length (of_bucket i (concat (rev blocks)))) (drop (unat (st ! i)) split) = of_bucket i (concat (rev blocks))"
proof -
  let ?es = "concat (rev blocks)" and ?cnt = "count_entries blocks"
  have st0: "length (running_sums 0 ?cnt) = 256"
    "\<forall>i < 256. running_sums 0 ?cnt ! i = word_of_nat (base ?es (Suc i))"
    using sums_are_bases [of ?cnt ?es] count_entries_nth by (auto simp: running_sums_nth)
  have "foldl place_entry (running_sums 0 ?cnt, replicate (length ?es) (0, 0)) (rev ?es) = (st, split)"
    using assms(1) by (simp add: split_entries_def newest_first_rev)
  from place_entries [OF st0 _ assms(2) _ this, of "[]"]
  have A: "length split = length ?es" "st ! i = word_of_nat (base ?es i)"
      "\<And>j. j < length (of_bucket i ?es) \<Longrightarrow> split ! (base ?es i + j) = of_bucket i ?es ! j"
    using i by auto
  have le: "base ?es i + length (of_bucket i ?es) \<le> length ?es"
    using base_mono [of "Suc i" 256 ?es] i base_all [of 256 ?es] by (simp add: base_Suc)
  then have "unat (st ! i) = base ?es i" using A(2) assms(2) by (simp add: unat_of_nat_u32)
  then show ?thesis using A(1,3) le by (intro nth_equalityI) simp_all
qed

lemma memsize_bound:
  assumes "\<forall>k \<in> set cnt. unat k \<le> N" "unat n = N" "3 * N < 536870911"
  shows "\<not> table_memsize cnt n > 0xffffffff div 8"
proof -
  have "unat m \<le> 2 * N + 1 \<Longrightarrow> unat (foldl (\<lambda>m k. if k * 2 > m then k * 2 else m) m cnt) \<le> 2 * N + 1" for m :: u32
    using assms(1)
  proof (induction cnt arbitrary: m)
    case (Cons k cnt)
    have "unat (k * 2) = unat k * 2" using Cons.prems(2) assms(3) by (simp add: unat_word_ariths)
    then show ?case using Cons by simp
  qed simp
  from this [of 1] have "unat (table_memsize cnt n) \<le> 3 * N + 1"
    using assms by (simp add: table_memsize_def unat_word_ariths)
  then have "unat (table_memsize cnt n) \<le> 536870911" using assms(3) by simp
  moreover have "unat (0xffffffff div 8 :: u32) = 536870911" by simp
  ultimately show ?thesis by (simp add: word_less_nat_alt not_less)
qed

section \<open>The file being written\<close>

definition header_gap :: bytes where
  "header_gap = replicate 2048 nul"

text \<open>The stream has been written up to its offset; nothing at all before the first write.\<close>

definition written :: "('s \<Rightarrow> bytes) \<Rightarrow> ('s \<Rightarrow> nat) \<Rightarrow> 's \<Rightarrow> bytes \<Rightarrow> bool" where
  "written contents offset s f \<longleftrightarrow> offset s = length f \<and>
     (contents s = f \<or> contents s = [] \<and> f = header_gap)"

definition record_bytes :: "(bytes \<times> bytes) list \<Rightarrow> bytes" where
  "record_bytes kvs = concat (map rec_bytes kvs)"

definition key_hash :: "bytes \<Rightarrow> u32" where
  "key_hash k = cdb_hash k (word_of_nat (length k))"

fun entries :: "nat \<Rightarrow> (bytes \<times> bytes) list \<Rightarrow> slot list" where
  "entries P [] = []"
| "entries P (kd # kvs) = (key_hash (fst kd), word_of_nat P) # entries (P + length (rec_bytes kd)) kvs"

lemma entries_append: "entries P (xs @ ys) = entries P xs @ entries (P + length (record_bytes xs)) ys"
  by (induction xs arbitrary: P) (auto simp: record_bytes_def add.assoc)

lemma length_entries [simp]: "length (entries P kvs) = length kvs"
  by (induction kvs arbitrary: P) auto

definition made :: "('s \<Rightarrow> bytes) \<Rightarrow> ('s \<Rightarrow> nat) \<Rightarrow> (bytes \<times> bytes) list \<Rightarrow> 's cdb_make \<Rightarrow> bool" where
  "made contents offset kvs c \<longleftrightarrow> written contents offset (mfp c) (header_gap @ record_bytes kvs) \<and>
     pos c = word_of_nat (2048 + length (record_bytes kvs)) \<and> concat (rev (head c)) = entries 2048 kvs \<and>
     numentries c = word_of_nat (length kvs) \<and> length (final c) = 2048"

lemma posplus_ok:
  assumes "pos c = word_of_nat p" "p + unat len < 2 ^ 32"
  shows "cdb_posplus c len = (0, c\<lparr>pos := word_of_nat (p + unat len)\<rparr>)"
proof -
  have "pos c + len = word_of_nat (p + unat len)" using assms(1) by simp
  moreover have "unat (word_of_nat (p + unat len) :: u32) = p + unat len"
    using assms(2) by (intro unat_of_nat_u32) simp
  ultimately show ?thesis by (simp add: cdb_posplus_def Let_def word_less_nat_alt del: of_nat_add)
qed

lemma addend_ok:
  assumes "pos c = word_of_nat p" "p + 8 + unat keylen + unat datalen < 2 ^ 32"
  shows "\<exists>blocks. cdb_make_addend c keylen datalen h =
      (0, c\<lparr>head := blocks, numentries := numentries c + 1, pos := word_of_nat (p + 8 + unat keylen + unat datalen)\<rparr>) \<and>
    concat (rev blocks) = concat (rev (head c)) @ [(h, pos c)]"
proof -
  define blocks where "blocks = (case head c of [] \<Rightarrow> [[]] | b # bs \<Rightarrow> if length b \<ge> CDB_HPLIST then [] # b # bs else b # bs)"
  define new where "new = (hd blocks @ [(h, pos c)]) # tl blocks"
  have "concat (rev blocks) = concat (rev (head c))" "blocks \<noteq> []"
    by (auto simp: blocks_def split: list.splits)
  then have "concat (rev new) = concat (rev (head c)) @ [(h, pos c)]"
    by (cases blocks) (auto simp: new_def)
  moreover have "cdb_make_addend c keylen datalen h =
      (0, c\<lparr>head := new, numentries := numentries c + 1, pos := word_of_nat (p + 8 + unat keylen + unat datalen)\<rparr>)"
    unfolding cdb_make_addend_def Let_def blocks_def [symmetric] new_def [symmetric]
    using assms by (simp add: posplus_ok [of _ p] posplus_ok [of _ "p + 8"] posplus_ok [of _ "p + 8 + unat keylen"] del: of_nat_add)
  ultimately show ?thesis by blast
qed

context php_stream
begin

lemma write_grows:
  assumes "written contents offset s f"
  shows "\<exists>s'. stream_write ops bs s = (int (length bs), s') \<and> written contents offset s' (f @ bs)"
proof -
  obtain s' where s': "stream_write ops bs s = (int (length bs), s')"
      "contents s' = write_at (contents s) (offset s) bs" "offset s' = offset s + length bs"
    using write_all by blast
  have "written contents offset s' (f @ bs)"
    using assms s' by (auto simp: written_def write_at_def header_gap_def)
  with s'(1) show ?thesis by blast
qed

lemma make_write_ok:
  assumes "written contents offset (mfp c) f" "length buf = unat sz"
  shows "\<exists>s'. cdb_make_write ops c buf sz = (0, c\<lparr>mfp := s'\<rparr>) \<and> written contents offset s' (f @ buf)"
  using write_grows [OF assms(1), of buf] assms(2) by (auto simp: cdb_make_write_def)

lemma start_ok:
  assumes "contents f = []" "length (final c) = 2048"
  shows "\<exists>c'. cdb_make_start ops c f = (2048, c') \<and> made contents offset [] c'"
proof -
  obtain s where s: "stream_seek ops 2048 SEEK_SET f = (0, s)" "contents s = []" "offset s = 2048"
    using seek_set [of 2048 f] assms(1) by auto
  then show ?thesis using assms(2) tell_off
    by (auto simp: cdb_make_start_def made_def written_def header_gap_def record_bytes_def)
qed

lemma add_ok:
  assumes m: "made contents offset kvs c"
    and size: "2048 + length (record_bytes (kvs @ [(k, d)])) < 2 ^ 32"
  shows "\<exists>c'. cdb_make_add ops c k (word_of_nat (length k)) d (word_of_nat (length d)) = (0, c') \<and>
    made contents offset (kvs @ [(k, d)]) c'"
proof -
  let ?kl = "word_of_nat (length k) :: u32" and ?dl = "word_of_nat (length d) :: u32"
  let ?f = "header_gap @ record_bytes kvs" and ?p = "2048 + length (record_bytes kvs)"
  have total: "?p + 8 + length k + length d < 2 ^ 32" using size by (simp add: record_bytes_def)
  then have lens: "unat ?kl = length k" "unat ?dl = length d" by (simp_all add: unat_of_nat_u32)
  have big: "\<not> ?kl > 0xffffffff" "\<not> ?dl > 0xffffffff"
    using unat_u32_less [of ?kl] unat_u32_less [of ?dl] by (simp_all add: word_less_nat_alt)
  obtain s1 where s1: "cdb_make_write ops c (uint32_pack ?kl @ uint32_pack ?dl) 8 = (0, c\<lparr>mfp := s1\<rparr>)"
      "written contents offset s1 (?f @ uint32_pack ?kl @ uint32_pack ?dl)"
    using make_write_ok [of c ?f "uint32_pack ?kl @ uint32_pack ?dl" 8] m by (auto simp: made_def)
  obtain s2 where s2: "cdb_make_write ops (c\<lparr>mfp := s1\<rparr>) k ?kl = (0, c\<lparr>mfp := s2\<rparr>)"
      "written contents offset s2 ((?f @ uint32_pack ?kl @ uint32_pack ?dl) @ k)"
    using make_write_ok [of "c\<lparr>mfp := s1\<rparr>" "?f @ uint32_pack ?kl @ uint32_pack ?dl" k ?kl] s1(2) lens by auto
  obtain s3 where s3: "cdb_make_write ops (c\<lparr>mfp := s2\<rparr>) d ?dl = (0, c\<lparr>mfp := s3\<rparr>)"
      "written contents offset s3 (((?f @ uint32_pack ?kl @ uint32_pack ?dl) @ k) @ d)"
    using make_write_ok [of "c\<lparr>mfp := s2\<rparr>" "(?f @ uint32_pack ?kl @ uint32_pack ?dl) @ k" d ?dl] s2(2) lens by auto
  obtain blocks where b: "cdb_make_addend (c\<lparr>mfp := s3\<rparr>) ?kl ?dl (key_hash k) =
      (0, c\<lparr>mfp := s3, head := blocks, numentries := numentries c + 1, pos := word_of_nat (?p + 8 + length k + length d)\<rparr>)"
      "concat (rev blocks) = concat (rev (head c)) @ [(key_hash k, pos c)]"
    using addend_ok [of "c\<lparr>mfp := s3\<rparr>" ?p ?kl ?dl "key_hash k"] m total by (auto simp: made_def lens)
  have "cdb_make_add ops c k ?kl d ?dl =
      (0, c\<lparr>mfp := s3, head := blocks, numentries := numentries c + 1, pos := word_of_nat (?p + 8 + length k + length d)\<rparr>)"
    using s1(1) s2(1) s3(1) b(1) big by (simp add: cdb_make_add_def cdb_make_addbegin_def key_hash_def)
  moreover have "made contents offset (kvs @ [(k, d)])
      (c\<lparr>mfp := s3, head := blocks, numentries := numentries c + 1, pos := word_of_nat (?p + 8 + length k + length d)\<rparr>)"
    using m s3(2) b(2) by (auto simp: made_def record_bytes_def rec_bytes_def entries_append)
  ultimately show ?thesis by blast
qed

lemma write_table_ok:
  assumes "written contents offset (mfp c) f" "pos c = word_of_nat (length f)" "length f + 8 * length T < 2 ^ 32"
  shows "\<exists>s'. write_table ops c T = (0, c\<lparr>mfp := s', pos := word_of_nat (length f + 8 * length T)\<rparr>) \<and>
    written contents offset s' (f @ concat (map slot_bytes T))"
  using assms
proof (induction T arbitrary: c f)
  case Nil
  then show ?case by (intro exI [of _ "mfp c"]) simp
next
  case (Cons s T)
  obtain s1 where s1: "cdb_make_write ops c (slot_bytes s) 8 = (0, c\<lparr>mfp := s1\<rparr>)"
      "written contents offset s1 (f @ slot_bytes s)"
    using make_write_ok [OF Cons.prems(1), of "slot_bytes s" 8] by auto
  let ?c2 = "c\<lparr>mfp := s1, pos := word_of_nat (length f + 8)\<rparr>"
  have p: "cdb_posplus (c\<lparr>mfp := s1\<rparr>) 8 = (0, ?c2)"
    using posplus_ok [of "c\<lparr>mfp := s1\<rparr>" "length f" 8] Cons.prems(2,3) by simp
  obtain s' where s': "write_table ops ?c2 T = (0, ?c2\<lparr>mfp := s', pos := word_of_nat (length (f @ slot_bytes s) + 8 * length T)\<rparr>)"
      "written contents offset s' ((f @ slot_bytes s) @ concat (map slot_bytes T))"
    using Cons.IH [of ?c2 "f @ slot_bytes s"] s1(2) Cons.prems(3) by auto
  then show ?case using s1(1) p by (intro exI [of _ s']) (simp add: add.assoc)
qed

end

section \<open>The tables and the header\<close>

lemma at_pos_prefix: "at_pos f p bs \<Longrightarrow> at_pos (f @ g) p bs"
  by (auto simp: at_pos_def)

lemma at_pos_here: "at_pos (f @ bs @ g) (length f) bs"
  by (simp add: at_pos_def)

lemma table_at_prefix: "table_at f H T \<Longrightarrow> table_at (f @ g) H T"
  by (auto simp: table_at_def intro: at_pos_prefix)

lemma length_slots: "length (concat (map slot_bytes T)) = 8 * length T"
  by (induction T) auto

lemma table_at_here: "table_at (f @ concat (map slot_bytes T)) (length f) T"
proof -
  have "at_pos (f @ concat (map slot_bytes T)) (length f + 8 * i) (slot_bytes (T ! i))" if "i < length T" for i
  proof -
    have "f @ concat (map slot_bytes T) =
        (f @ concat (map slot_bytes (take i T))) @ slot_bytes (T ! i) @ concat (map slot_bytes (drop (Suc i) T))"
      by (subst id_take_nth_drop [OF that]) simp
    moreover have "length (f @ concat (map slot_bytes (take i T))) = length f + 8 * i"
      using that by (simp add: length_slots)
    ultimately show ?thesis using at_pos_here by metis
  qed
  then show ?thesis by (simp add: table_at_def length_slots)
qed

lemma table_at_header:
  assumes "table_at (h @ f) H T" "length h \<le> H" "length h' = length h"
  shows "table_at (h' @ f) H T"
  using assms by (auto simp: table_at_def at_pos_def)

definition hdr :: "bytes \<Rightarrow> nat \<Rightarrow> bytes" where
  "hdr F j = take 8 (drop (8 * j) F)"

lemma length_set_final [simp]: "length F = 2048 \<Longrightarrow> i < 256 \<Longrightarrow> length (set_final F i p l) = 2048"
  by (simp add: set_final_def)

lemma hdr_set_final:
  assumes "length F = 2048" "i < 256" "j < 256"
  shows "hdr (set_final F i p l) j = (if j = i then slot_bytes (p, l) else hdr F j)"
proof (cases i j rule: linorder_cases)
  case less
  then show ?thesis using assms by (simp add: hdr_def set_final_def slot_bytes_def)
next
  case equal
  then show ?thesis using assms by (simp add: hdr_def set_final_def slot_bytes_def)
next
  case greater
  then have "8 * j + 8 \<le> 8 * i" by simp
  then have "take 8 (drop (8 * j) (take (8 * i) F)) = take 8 (drop (8 * j) F)"
    by (simp add: drop_take min_def)
  then show ?thesis using greater assms by (simp add: hdr_def set_final_def)
qed

definition buckets_done :: "slot list \<Rightarrow> nat list \<Rightarrow> bytes \<Rightarrow> bytes \<Rightarrow> bool" where
  "buckets_done es is F f \<longleftrightarrow> (\<forall>i \<in> set is. \<exists>H T. table_ok T (of_bucket i es) \<and> length T = 2 * length (of_bucket i es) \<and>
     hdr F i = slot_bytes (word_of_nat H, word_of_nat (length T)) \<and> 2048 \<le> H \<and> table_at f H T)"

context php_stream
begin

lemma finish_buckets_ok:
  assumes "length (final c) = 2048" "distinct is" "\<forall>i \<in> set is. i < 256 \<and> count c ! i = word_of_nat (length (of_bucket i es)) \<and>
      take (length (of_bucket i es)) (drop (unat (start c ! i)) split) = of_bucket i es"
    and "\<forall>e \<in> set es. filled e" "written contents offset (mfp c) f" "pos c = word_of_nat (length f)"
    and "length f + sum_list (map (\<lambda>i. 16 * length (of_bucket i es)) is) < 2 ^ 32" "2048 \<le> length f"
  shows "\<exists>c' g. finish_buckets ops split is c = Some (0, c') \<and> written contents offset (mfp c') (f @ g) \<and>
    length g = sum_list (map (\<lambda>i. 16 * length (of_bucket i es)) is) \<and> length (final c') = 2048 \<and>
    (\<forall>j < 256. j \<notin> set is \<longrightarrow> hdr (final c') j = hdr (final c) j) \<and> buckets_done es is (final c') (f @ g) \<and>
    (is \<noteq> [] \<longrightarrow> (\<exists>n. hdr (final c') (hd is) = slot_bytes (word_of_nat (length f), n)))"
  using assms
proof (induction "is" arbitrary: c f)
  case Nil
  then show ?case by (auto simp: buckets_done_def)
next
  case (Cons i "is")
  let ?es = "of_bucket i es"
  define cnt where "cnt = count c ! i"
  define c1 where "c1 = c\<lparr>final := set_final (final c) i (pos c) (cnt + cnt)\<rparr>"
  have i: "i < 256" "cnt = word_of_nat (length ?es)" "take (length ?es) (drop (unat (start c ! i)) split) = ?es"
    using Cons.prems(3) by (simp_all add: cnt_def)
  have small: "length f + 16 * length ?es < 4294967296" using Cons.prems(7) by simp
  then have ucnt: "unat cnt = length ?es" unfolding i(2) by (intro unat_of_nat_u32) linarith
  have ulen: "unat (cnt + cnt) = 2 * length ?es" using small ucnt by (simp add: unat_word_ariths)
  have "\<exists>T. fill_table (cnt + cnt) (replicate (unat (cnt + cnt)) (0, 0)) ?es = Some T \<and> table_ok T ([] @ ?es) \<and>
      length T = length (replicate (unat (cnt + cnt)) (0 :: u32, 0 :: u32))"
    using Cons.prems(4) ulen by (intro fill_table_ok table_ok_empty) auto
  then obtain T where T: "fill_table (cnt + cnt) (replicate (unat (cnt + cnt)) (0, 0)) ?es = Some T"
      "table_ok T ?es" "length T = 2 * length ?es"
    using ulen by auto
  have wT: "cnt + cnt = word_of_nat (length T)"
    unfolding word_unat_eq_iff ulen T(3) using small by (subst unat_of_nat_u32) auto
  let ?f1 = "f @ concat (map slot_bytes T)"
  have lenf1: "length ?f1 = length f + 16 * length ?es" by (simp add: length_slots T(3))
  obtain s' where s': "write_table ops c1 T = (0, c1\<lparr>mfp := s', pos := word_of_nat (length f + 8 * length T)\<rparr>)"
      "written contents offset s' ?f1"
    using write_table_ok [of c1 f T] Cons.prems(5,6) small T(3) by (auto simp: c1_def)
  define c2 where "c2 = c1\<lparr>mfp := s', pos := word_of_nat (length f + 8 * length T)\<rparr>"
  have c2: "length (final c2) = 2048" "count c2 = count c" "start c2 = start c" "mfp c2 = s'"
      "pos c2 = word_of_nat (length ?f1)"
      "\<And>j. j < 256 \<Longrightarrow> hdr (final c2) j = (if j = i then slot_bytes (pos c, cnt + cnt) else hdr (final c) j)"
    using Cons.prems(1) i(1) by (simp_all add: c2_def c1_def length_slots hdr_set_final)
  obtain c' g where IH: "finish_buckets ops split is c2 = Some (0, c')" "written contents offset (mfp c') (?f1 @ g)"
      "length g = sum_list (map (\<lambda>i. 16 * length (of_bucket i es)) is)" "length (final c') = 2048"
      "\<forall>j < 256. j \<notin> set is \<longrightarrow> hdr (final c') j = hdr (final c2) j" "buckets_done es is (final c') (?f1 @ g)"
    using Cons.IH [of c2 ?f1] Cons.prems c2(1-5) s'(2) lenf1 by auto
  have run: "finish_buckets ops split (i # is) c = Some (0, c')"
    unfolding finish_buckets.simps Let_def cnt_def [symmetric] c1_def [symmetric] ucnt i(3) T(1) option.case
      s'(1) c2_def [symmetric] prod.case using IH(1) by simp
  have first: "hdr (final c') i = slot_bytes (word_of_nat (length f), word_of_nat (length T))"
    using IH(5) Cons.prems(2,6) i(1) c2(6) wT by simp
  have "table_at (?f1 @ g) (length f) T" by (rule table_at_prefix [OF table_at_here])
  with first have "\<exists>H T. table_ok T (of_bucket i es) \<and> length T = 2 * length (of_bucket i es) \<and>
     hdr (final c') i = slot_bytes (word_of_nat H, word_of_nat (length T)) \<and> 2048 \<le> H \<and> table_at (?f1 @ g) H T"
    using T(2,3) Cons.prems(8) by blast
  then have "buckets_done es (i # is) (final c') (?f1 @ g)"
    using IH(6) unfolding buckets_done_def by (metis set_ConsD)
  moreover have "\<forall>j < 256. j \<notin> set (i # is) \<longrightarrow> hdr (final c') j = hdr (final c) j"
    using IH(5) c2(6) by auto
  moreover have "length (concat (map slot_bytes T) @ g) = sum_list (map (\<lambda>i. 16 * length (of_bucket i es)) (i # is))"
    using IH(3) by (simp add: length_slots T(3))
  moreover have "\<exists>n. hdr (final c') (hd (i # is)) = slot_bytes (word_of_nat (length f), n)"
    using first by (simp only: list.sel) blast
  ultimately show ?case using run IH(2,4) by (intro exI [of _ c'] exI [of _ "concat (map slot_bytes T) @ g"]) simp
qed

lemma close_ok:
  assumes w: "written contents offset (mfp c) (header_gap @ g)" and F: "length (final c) = 2048"
  shows "\<exists>c'. cdb_make_close ops c = (0, c') \<and> contents (mfp c') = final c @ g"
proof -
  obtain s1 where s1: "stream_flush ops (mfp c) = (0, s1)" "contents s1 = contents (mfp c)"
    using flush_ok by blast
  obtain s2 where s2: "stream_seek ops 0 SEEK_SET s1 = (0, s2)" "contents s2 = contents (mfp c)" "offset s2 = 0"
    using seek_set [of 0 s1] s1(2) by auto
  obtain s3 where s3: "stream_write ops (final c) s2 = (int (length (final c)), s3)"
      "contents s3 = write_at (contents s2) (offset s2) (final c)"
    using write_all by blast
  obtain s4 where s4: "stream_flush ops s3 = (0, s4)" "contents s4 = contents s3" using flush_ok by blast
  have "final c \<noteq> []" using F by auto
  then have "contents s4 = final c @ g"
    using w F s2 s3(2) s4(2) by (auto simp: write_at_def written_def header_gap_def)
  moreover have "cdb_make_close ops c = (0, c\<lparr>mfp := s4\<rparr>)"
    using s1(1) s2(1,3) s3(1) s4(1) F tell_off [of s2]
    by (simp add: cdb_make_close_def cdb_make_write_def)
  ultimately show ?thesis by (intro exI [of _ "c\<lparr>mfp := s4\<rparr>"]) simp
qed

end

section \<open>The finished database\<close>

text \<open>
  The file of a database with the given records: below four gigabytes, the records from offset 2048
  on, and for each bucket a header entry that names a table fulfilling the table invariant.
\<close>

definition cdb_image :: "bytes \<Rightarrow> (bytes \<times> bytes) list \<Rightarrow> bool" where
  "cdb_image f kvs \<longleftrightarrow> length f < 2 ^ 32 \<and> at_pos f 2048 (record_bytes kvs) \<and>
     at_pos f 0 (uint32_pack (word_of_nat (2048 + length (record_bytes kvs)))) \<and>
     (\<forall>i < 256. \<exists>H T. table_ok T (of_bucket i (entries 2048 kvs)) \<and>
        at_pos f (8 * i) (slot_bytes (word_of_nat H, word_of_nat (length T))) \<and> table_at f H T)"

definition db_size :: "(bytes \<times> bytes) list \<Rightarrow> nat" where
  "db_size kvs = 2048 + length (record_bytes kvs) + 16 * length kvs"

lemma sum_buckets: "sum_list (map (\<lambda>i. 16 * length (of_bucket i es)) [0..<n]) = 16 * base es n"
  by (induction n) (auto simp: base_Suc)

lemma entry_positions:
  "s \<in> set (entries P kvs) \<Longrightarrow> P + length (record_bytes kvs) < 2 ^ 32 \<Longrightarrow> P \<le> unat (snd s)"
proof (induction kvs arbitrary: P)
  case (Cons kd kvs)
  show ?case
  proof (cases "s \<in> set (entries (P + length (rec_bytes kd)) kvs)")
    case True
    then show ?thesis using Cons by (force simp: record_bytes_def)
  next
    case False
    then have "snd s = word_of_nat P" using Cons.prems(1) by simp
    then show ?thesis using Cons.prems(2) by (simp add: unat_of_nat_u32)
  qed
qed simp

lemma record_bytes_length: "8 * length kvs \<le> length (record_bytes kvs)"
  by (induction kvs) (auto simp: record_bytes_def)

context php_stream
begin

lemma finish_ok:
  assumes m: "made contents offset kvs c" and size: "db_size kvs < 2 ^ 32"
  shows "\<exists>c'. cdb_make_finish ops c = Some (0, c') \<and> cdb_image (contents (mfp c')) kvs"
proof -
  let ?es = "entries 2048 kvs" and ?f = "header_gap @ record_bytes kvs"
  define c1 where "c1 = c\<lparr>count := count_entries (head c)\<rparr>"
  have es: "concat (rev (head c)) = ?es" "numentries c = word_of_nat (length kvs)" "length (final c) = 2048"
    "written contents offset (mfp c) ?f" "pos c = word_of_nat (length ?f)"
    using m by (auto simp: made_def header_gap_def)
  have kvs: "24 * length kvs < 2 ^ 32 - 2048"
    using size record_bytes_length [of kvs] by (simp add: db_size_def)
  have n: "unat (numentries c) = length kvs" unfolding es(2) using kvs by (intro unat_of_nat_u32) simp
  have cnt: "length (count c1) = 256" "\<And>i. i < 256 \<Longrightarrow> count c1 ! i = word_of_nat (length (of_bucket i ?es))"
    by (simp_all add: c1_def count_entries_nth es(1))
  have "unat k \<le> length kvs" if in_cnt: "k \<in> set (count c1)" for k
  proof -
    obtain i where "i < 256" "k = count c1 ! i" using in_cnt cnt(1) by (auto simp: in_set_conv_nth)
    then have i: "i < 256" "k = word_of_nat (length (of_bucket i ?es))" using cnt(2) by simp_all
    have "length (of_bucket i ?es) \<le> length kvs" by (metis length_entries length_filter_le)
    then show ?thesis using kvs by (simp add: i(2) unat_of_nat_u32)
  qed
  then have mem: "\<not> table_memsize (count c1) (numentries c) > 0xffffffff div 8"
    using n kvs by (intro memsize_bound [of _ "length kvs"]) auto
  obtain st split where sp: "split_entries (head c) (running_sums 0 (count c1)) (length kvs) = (st, split)"
    by fastforce
  have seg: "take (length (of_bucket i ?es)) (drop (unat (st ! i)) split) = of_bucket i ?es" if "i < 256" for i
    using split_entries_ok [where blocks = "head c" and st = st and split = split and i = i] sp that kvs es(1) by (simp add: c1_def)
  have filled: "\<forall>e \<in> set ?es. filled e"
  proof
    fix e assume "e \<in> set ?es"
    then have "2048 \<le> unat (snd e)" using size by (intro entry_positions) (auto simp: db_size_def)
    then show "filled e" by (auto simp: filled_def)
  qed
  have "base ?es 256 = length kvs" by (simp add: base_all)
  then have sum: "sum_list (map (\<lambda>i. 16 * length (of_bucket i ?es)) [0..<256]) = 16 * length kvs"
    by (simp only: sum_buckets)
  define c2 where "c2 = c1\<lparr>start := st\<rparr>"
  have "\<exists>c' g. finish_buckets ops split [0..<256] c2 = Some (0, c') \<and> written contents offset (mfp c') (?f @ g) \<and>
      length g = sum_list (map (\<lambda>i. 16 * length (of_bucket i ?es)) [0..<256]) \<and> length (final c') = 2048 \<and>
      (\<forall>j < 256. j \<notin> set [0..<256] \<longrightarrow> hdr (final c') j = hdr (final c2) j) \<and>
      buckets_done ?es [0..<256] (final c') (?f @ g) \<and>
      ([0..<256] \<noteq> [] \<longrightarrow> (\<exists>n. hdr (final c') (hd [0..<256]) = slot_bytes (word_of_nat (length ?f), n)))"
    using es(3-5) cnt seg filled size
    by (intro finish_buckets_ok) (auto simp: c2_def c1_def sum db_size_def header_gap_def)
  then obtain c3 g where c3: "finish_buckets ops split [0..<256] c2 = Some (0, c3)"
      "written contents offset (mfp c3) (?f @ g)" "length g = 16 * length kvs" "length (final c3) = 2048"
      "buckets_done ?es [0..<256] (final c3) (?f @ g)"
      and first: "\<exists>n. hdr (final c3) 0 = slot_bytes (word_of_nat (length ?f), n)"
    unfolding sum by (metis hd_upt upt_eq_Nil_conv zero_less_numeral not_le zero_neq_numeral)
  obtain c' where c': "cdb_make_close ops (c3\<lparr>head := []\<rparr>) = (0, c')" "contents (mfp c') = final c3 @ record_bytes kvs @ g"
    using close_ok [of "c3\<lparr>head := []\<rparr>" "record_bytes kvs @ g"] c3(2,4) by auto
  have run: "cdb_make_finish ops c = Some (0, c')"
    using mem sp c3(1) c'(1) n by (simp add: cdb_make_finish_def Let_def c2_def c1_def)
  have len: "length (final c3 @ record_bytes kvs @ g) = db_size kvs" using c3(3,4) by (simp add: db_size_def)
  have rec: "at_pos (final c3 @ record_bytes kvs @ g) 2048 (record_bytes kvs)"
    using at_pos_here [of "final c3"] c3(4) by metis
  have "\<exists>H T. table_ok T (of_bucket i ?es) \<and> at_pos (final c3 @ record_bytes kvs @ g) (8 * i)
      (slot_bytes (word_of_nat H, word_of_nat (length T))) \<and> table_at (final c3 @ record_bytes kvs @ g) H T" if i: "i < 256" for i
  proof -
    obtain H T where HT: "table_ok T (of_bucket i ?es)" "hdr (final c3) i = slot_bytes (word_of_nat H, word_of_nat (length T))"
        "2048 \<le> H" "table_at (?f @ g) H T"
      using c3(5) i unfolding buckets_done_def by (metis atLeastLessThan_iff set_upt zero_le)
    have "at_pos (final c3) (8 * i) (slot_bytes (word_of_nat H, word_of_nat (length T)))"
      using HT(2) i c3(4) by (simp add: hdr_def at_pos_def)
    then show ?thesis
      using HT(1,3,4) table_at_header [of header_gap "record_bytes kvs @ g" H T "final c3"] c3(4)
      by (auto intro: at_pos_prefix simp: header_gap_def)
  qed
  moreover have "at_pos (final c3 @ record_bytes kvs @ g) 0 (uint32_pack (word_of_nat (2048 + length (record_bytes kvs))))"
  proof -
    obtain n where "hdr (final c3) 0 = uint32_pack (word_of_nat (2048 + length (record_bytes kvs))) @ uint32_pack n"
      using first by (auto simp: slot_bytes_def header_gap_def)
    then have "take 4 (hdr (final c3) 0) = uint32_pack (word_of_nat (2048 + length (record_bytes kvs)))" by simp
    then show ?thesis using c3(4) by (simp add: at_pos_def hdr_def)
  qed
  ultimately have "cdb_image (contents (mfp c')) kvs"
    using rec len size by (simp add: cdb_image_def c'(2))
  then show ?thesis using run by blast
qed

end

end
