(* ===== verification/CdbDatabase.thy ===== *)
theory CdbDatabase
  imports CdbMake
begin

text \<open>
  What a reader finds in a finished constant database: the lemmas that join the table invariant of
  theory \<open>CdbMake\<close> with the search of theory \<open>Cdb\<close>. A search for a key meets the records stored
  under it one after the other, in the order in which they were added.
\<close>

section \<open>Records and their positions\<close>

lemma entries_nth:
  "i < length kvs \<Longrightarrow> entries P kvs ! i =
    (key_hash (fst (kvs ! i)), word_of_nat (P + length (record_bytes (take i kvs))))"
proof (induction kvs arbitrary: P i)
  case (Cons kd kvs)
  then show ?case by (cases i) (simp_all add: record_bytes_def add.assoc)
qed simp

definition rec_of :: "(bytes \<times> bytes) list \<Rightarrow> u32 \<Rightarrow> bytes \<times> bytes" where
  "rec_of kvs p = the (map_of (zip (map snd (entries 2048 kvs)) kvs) p)"

lemma record_bytes_take_less:
  assumes "i < j" "j \<le> length kvs"
  shows "length (record_bytes (take i kvs)) < length (record_bytes (take j kvs))"
proof -
  have "take j kvs = take i kvs @ take (j - i) (drop i kvs)" using assms by (metis le_add_diff_inverse less_imp_le take_add)
  then have "length (record_bytes (take j kvs)) = length (record_bytes (take i kvs)) + length (record_bytes (take (j - i) (drop i kvs)))"
    by (simp add: record_bytes_def)
  moreover have "0 < length (record_bytes (take (j - i) (drop i kvs)))"
    by (rule less_le_trans [OF _ record_bytes_length]) (use assms in simp)
  ultimately show ?thesis by simp
qed

lemma position_nth:
  assumes "2048 + length (record_bytes kvs) < 2 ^ 32" "i < length kvs"
  shows "unat (snd (entries 2048 kvs ! i)) = 2048 + length (record_bytes (take i kvs))"
proof -
  have "2048 + length (record_bytes (take i kvs)) < 4294967296"
    using record_bytes_take_less [OF assms(2) order_refl] assms(1) by simp
  then show ?thesis using assms(2) by (simp add: entries_nth unat_of_nat_u32 del: of_nat_add)
qed

lemma positions_distinct:
  assumes "2048 + length (record_bytes kvs) < 2 ^ 32"
  shows "distinct (map snd (entries 2048 kvs))"
proof -
  have "snd (entries 2048 kvs ! i) \<noteq> snd (entries 2048 kvs ! j)" if "i < j" "j < length kvs" for i j
    using position_nth [OF assms, of i] position_nth [OF assms, of j] record_bytes_take_less [of i j kvs] that
    by (metis add_left_cancel less_imp_le less_irrefl less_trans)
  then show ?thesis
    by (auto simp: distinct_conv_nth) (metis linorder_neqE_nat)
qed

lemma rec_of_entries:
  assumes "2048 + length (record_bytes kvs) < 2 ^ 32"
  shows "map (\<lambda>s. rec_of kvs (snd s)) (entries 2048 kvs) = kvs"
proof (rule nth_equalityI)
  fix i assume "i < length (map (\<lambda>s. rec_of kvs (snd s)) (entries 2048 kvs))"
  then have i: "i < length kvs" by simp
  have "map_of (zip (map snd (entries 2048 kvs)) kvs) (map snd (entries 2048 kvs) ! i) = Some (kvs ! i)"
    using positions_distinct [OF assms] i by (intro map_of_zip_nth) simp_all
  then show "map (\<lambda>s. rec_of kvs (snd s)) (entries 2048 kvs) ! i = kvs ! i"
    using i by (simp add: rec_of_def)
qed simp

lemma at_pos_middle: "at_pos f p (a @ b @ c) \<Longrightarrow> at_pos f (p + length a) b"
  using at_pos_drop [of f p "a @ b @ c" "length a" "length b"] by (simp add: at_pos_def)

lemma record_at_position:
  assumes "at_pos f 2048 (record_bytes kvs)" "length f < 2 ^ 32" "s \<in> set (entries 2048 kvs)"
  shows "at_pos f (unat (snd s)) (rec_bytes (rec_of kvs (snd s)))" and "fst s = key_hash (fst (rec_of kvs (snd s)))"
proof -
  have size: "2048 + length (record_bytes kvs) < 2 ^ 32" using assms(1,2) by (simp add: at_pos_def)
  obtain i where i: "i < length kvs" "s = entries 2048 kvs ! i"
    using assms(3) by (metis in_set_conv_nth length_entries)
  then have rec: "rec_of kvs (snd s) = kvs ! i"
    using rec_of_entries [OF size] by (metis length_entries nth_map)
  have "record_bytes kvs = record_bytes (take i kvs) @ rec_bytes (kvs ! i) @ record_bytes (drop (Suc i) kvs)"
    by (subst id_take_nth_drop [OF i(1)]) (simp add: record_bytes_def)
  then show "at_pos f (unat (snd s)) (rec_bytes (rec_of kvs (snd s)))"
    using assms(1) at_pos_middle position_nth [OF size i(1)] rec i(2) by metis
  show "fst s = key_hash (fst (rec_of kvs (snd s)))" using i rec by (simp add: entries_nth)
qed

section \<open>The hits of a search\<close>

lemma search_hits:
  "case search P xs of
     None \<Rightarrow> filter P (takeWhile filled xs) = []
   | Some j \<Rightarrow> j < length xs \<and> filter P (takeWhile filled xs) = xs ! j # filter P (takeWhile filled (drop (Suc j) xs))"
proof (induction xs)
  case (Cons s xs)
  then show ?case by (cases "snd s = 0") (simp_all add: filled_def [of s] split: option.splits)
qed simp

lemma filter_takeWhile_all:
  assumes "\<And>s. Q s \<Longrightarrow> filled s" "\<And>d d'. d < length S \<Longrightarrow> Q (S ! d) \<Longrightarrow> d' < d \<Longrightarrow> filled (S ! d')"
  shows "filter Q (takeWhile filled S) = filter Q S"
proof -
  let ?n = "length (takeWhile filled S)"
  have "\<not> Q (S ! d)" if "?n \<le> d" "d < length S" for d
  proof (cases "d = ?n")
    case True
    then show ?thesis using that nth_length_takeWhile [of filled S] assms(1) [of "S ! d"] by blast
  next
    case False
    then show ?thesis using that assms(2) [of d ?n] nth_length_takeWhile [of filled S] by force
  qed
  then have "\<not> Q (drop ?n S ! i)" if "i < length (drop ?n S)" for i using that by simp
  then have "filter Q (drop ?n S) = []" by (metis filter_False in_set_conv_nth)
  then have "filter Q (dropWhile filled S) = []" by (simp add: dropWhile_eq_drop)
  then show ?thesis by (metis append_Nil2 filter_append takeWhile_dropWhile_id)
qed

definition hits :: "(bytes \<times> bytes) list \<Rightarrow> bytes \<Rightarrow> slot list \<Rightarrow> slot list" where
  "hits kvs key xs = filter (hit (rec_of kvs) (key_hash key) key) (takeWhile filled xs)"

lemma hits_are_records:
  assumes img: "at_pos f 2048 (record_bytes kvs)" "length f < 2 ^ 32"
    and ok: "table_ok T (of_bucket (bucket (key_hash key, 0)) (entries 2048 kvs))"
  shows "map (\<lambda>s. rec_of kvs (snd s)) (hits kvs key (scan T (home (length T) (key_hash key)))) =
    filter (\<lambda>kd. fst kd = key) kvs"
proof -
  let ?h = "key_hash key" and ?es = "entries 2048 kvs"
  let ?S = "scan T (home (length T) ?h)" and ?K = "\<lambda>s. fst (rec_of kvs (snd s)) = key"
  have size: "2048 + length (record_bytes kvs) < 2 ^ 32" using img by (simp add: at_pos_def)
  have inv: "filter (has_hash ?h) ?S = filter (\<lambda>s. fst s = ?h) (of_bucket (bucket (?h, 0)) ?es)"
    "\<And>d d'. d < length ?S \<Longrightarrow> has_hash ?h (?S ! d) \<Longrightarrow> d' < d \<Longrightarrow> filled (?S ! d')"
    using ok by (auto simp: table_ok_def Let_def)
  have "hits kvs key ?S = filter ?K (filter (has_hash ?h) (takeWhile filled ?S))"
    by (auto simp: hits_def hit_def has_hash_def dest: set_takeWhileD intro!: filter_cong)
  also have "\<dots> = filter ?K (filter (has_hash ?h) ?S)"
    by (subst filter_takeWhile_all) (use inv(2) in \<open>auto simp: has_hash_def\<close>)
  also have "\<dots> = filter ?K ?es"
    using record_at_position(2) [OF img] by (auto simp: inv(1) bucket_def intro!: filter_cong)
  also have "map (\<lambda>s. rec_of kvs (snd s)) \<dots> = filter (\<lambda>kd. fst kd = key) (map (\<lambda>s. rec_of kvs (snd s)) ?es)"
    by (simp add: filter_map comp_def)
  finally show ?thesis by (simp only: rec_of_entries [OF size])
qed

section \<open>Finding\<close>

lemma header_offset: "unat (push_bit 3 (u :: u32) AND 2047) = 8 * bucket (u, 0)"
proof -
  have "(2047 :: u32) = mask 11" by (simp add: mask_eq_exp_minus_1)
  then have "push_bit 3 u AND 2047 = take_bit 11 (push_bit 3 u)" by (simp add: take_bit_eq_mask)
  also have "\<dots> = push_bit 3 (take_bit 8 u)" by (simp add: take_bit_push_bit)
  also have "unat \<dots> = 8 * unat (take_bit 8 u)"
  proof -
    have "unat (take_bit 8 u) < 256"
      using unat_and_255 [of u] by (simp add: and_255_take_bit)
    then show ?thesis by (simp add: push_bit_eq_mult unat_word_ariths)
  qed
  finally show ?thesis by (simp add: bucket_def and.commute [of 255] and_255_take_bit)
qed

lemma table_records:
  assumes img: "at_pos f 2048 (record_bytes kvs)" "length f < 2 ^ 32"
    and ok: "table_ok T (of_bucket i (entries 2048 kvs))"
  shows "records_at f (rec_of kvs) T"
  unfolding records_at_def
proof (intro ballI impI)
  fix s assume s: "s \<in> set T" "snd s \<noteq> 0"
  then obtain q where q: "q < length T" "s = T ! q" by (metis in_set_conv_nth)
  obtain d where d: "d < length T" "(home (length T) (fst s) + d) mod length T = q"
    using distance_exists [OF q(1)] by blast
  then have "scan T (home (length T) (fst s)) ! d = s" using q(2) by (simp add: scan_nth)
  then have "s \<in> set (scan T (home (length T) (fst s)))" using d(1) by (metis length_scan nth_mem)
  then have "s \<in> set (filter (has_hash (fst s)) (scan T (home (length T) (fst s))))"
    using s(2) by (simp add: has_hash_def filled_def)
  also have "\<dots> \<subseteq> set (entries 2048 kvs)" using ok by (auto simp: table_ok_def Let_def)
  finally show "at_pos f (unat (snd s)) (rec_bytes (rec_of kvs (snd s)))"
    using record_at_position(1) [OF img] by blast
qed

lemma hits_records:
  assumes "records_at f (rec_of kvs) T" "s \<in> set (hits kvs key (scan T w))"
  shows "at_pos f (unat (snd s)) (rec_bytes (rec_of kvs (snd s)))"
proof -
  have "s \<in> set (scan T w)" "filled s" using assms(2) by (auto simp: hits_def dest: set_takeWhileD)
  moreover from this have "s \<in> set T" by (auto simp: scan_def) (metis length_pos_if_in_set mod_less_divisor nth_mem length_greater_0_conv list.size(3) not_less_zero)
  ultimately show ?thesis using assms(1) by (simp add: records_at_def filled_def)
qed

text \<open>The state of a reader in the middle of a search, with the slots still to be found.\<close>

definition reading :: "('s \<Rightarrow> bytes) \<Rightarrow> bytes \<Rightarrow> (bytes \<times> bytes) list \<Rightarrow> bytes \<Rightarrow> slot list \<Rightarrow> 's cdb \<Rightarrow> bool" where
  "reading contents f kvs key R c \<longleftrightarrow> (\<exists>H T w l. table_at f H T \<and> records_at f (rec_of kvs) T \<and> 0 < l \<and> l \<le> length T \<and>
     search_state contents f (key_hash key) H (length T) w l c \<and> R = hits kvs key (drop l (scan T w)))"

definition found :: "('s \<Rightarrow> bytes) \<Rightarrow> bytes \<Rightarrow> (bytes \<times> bytes) list \<Rightarrow> bytes \<Rightarrow> slot list \<Rightarrow> (int \<times> 's cdb) option \<Rightarrow> bool" where
  "found contents f kvs key R r \<longleftrightarrow> (case R of
       [] \<Rightarrow> \<exists>c'. r = Some (0, c') \<and> contents (fp c') = f
     | s # R' \<Rightarrow> \<exists>c'. r = Some (1, c') \<and> contents (fp c') = f \<and> found_at (rec_of kvs) (snd s) c' \<and>
         reading contents f kvs key R' c')"

lemma reading_loop: "reading g f kvs key R c \<Longrightarrow> loop c \<noteq> 0 \<and> g (fp c) = f"
  by (auto simp: reading_def search_state_def)

context php_stream
begin

lemma find_loop_hits:
  assumes "table_at f H T" "records_at f (rec_of kvs) T" "length f < 2 ^ 32"
    and st: "search_state contents f (key_hash key) H (length T) w l c" "l \<le> length T" and key: "length key < 2 ^ 32"
  shows "found contents f kvs key (hits kvs key (drop l (scan T w)))
    (cdb_find_loop ops c key (word_of_nat (length key)))"
proof -
  let ?P = "hit (rec_of kvs) (key_hash key) key" and ?xs = "drop l (scan T w)"
  have "length key = unat (word_of_nat (length key) :: u32)" using key by (simp add: unat_of_nat_u32)
  from find_loop_search [OF assms(1-3) this st]
  show ?thesis
  proof (cases "search ?P ?xs")
    case None
    then show ?thesis
      using find_loop_search [OF assms(1-3) \<open>length key = _\<close> st] search_hits [of ?P ?xs] by (simp add: found_def hits_def)
  next
    case (Some j)
    then obtain c' where c': "cdb_find_loop ops c key (word_of_nat (length key)) = Some (1, c')" "l + j < length T"
        "search_state contents f (key_hash key) H (length T) w (Suc (l + j)) c'"
        "found_at (rec_of kvs) (snd (scan T w ! (l + j))) c'"
      using find_loop_search [OF assms(1-3) \<open>length key = _\<close> st] by auto
    have "hits kvs key ?xs = scan T w ! (l + j) # hits kvs key (drop (Suc (l + j)) (scan T w))"
      using search_hits [of ?P ?xs] Some c'(2) by (simp add: hits_def add.commute)
    moreover have "reading contents f kvs key (hits kvs key (drop (Suc (l + j)) (scan T w))) c'"
      unfolding reading_def using assms(1,2) c'(2,3) by (intro exI conjI) auto
    ultimately show ?thesis using c' by (simp add: found_def search_state_def)
  qed
qed

lemma findnext_hits:
  assumes "reading contents f kvs key R c" "length f < 2 ^ 32" "length key < 2 ^ 32"
  shows "found contents f kvs key R (cdb_findnext ops c key (word_of_nat (length key)))"
proof -
  obtain H T w l where r: "table_at f H T" "records_at f (rec_of kvs) T" "0 < l" "l \<le> length T"
      "search_state contents f (key_hash key) H (length T) w l c" "R = hits kvs key (drop l (scan T w))"
    using assms(1) by (auto simp: reading_def)
  then show ?thesis
    using find_loop_hits [OF r(1,2) assms(2) r(5,4) assms(3)] reading_loop [OF assms(1)] by (simp add: cdb_findnext_def)
qed

lemma find_hits:
  assumes img: "cdb_image f kvs" and c: "contents (fp c) = f" and key: "length key < 2 ^ 32"
  shows "\<exists>R. map (\<lambda>s. rec_of kvs (snd s)) R = filter (\<lambda>kd. fst kd = key) kvs \<and>
    found contents f kvs key R (cdb_find ops c key (word_of_nat (length key))) \<and>
    (\<forall>s \<in> set R. at_pos f (unat (snd s)) (rec_bytes (rec_of kvs (snd s))))"
proof -
  let ?len = "word_of_nat (length key) :: u32" and ?h = "key_hash key"
  define i where "i = bucket (?h, 0)"
  have f: "length f < 2 ^ 32" "at_pos f 2048 (record_bytes kvs)" using img by (auto simp: cdb_image_def)
  obtain H T where T: "table_ok T (of_bucket i (entries 2048 kvs))" "table_at f H T"
      "at_pos f (8 * i) (slot_bytes (word_of_nat H, word_of_nat (length T)))"
    using img bucket_less [of "(?h, 0)"] by (auto simp: cdb_image_def i_def)
  let ?w = "home (length T) ?h"
  have small: "H + 8 * length T < 2 ^ 32" using T(2) f(1) by (simp add: table_at_def)
  then have u: "unat (word_of_nat H :: u32) = H" "unat (word_of_nat (length T) :: u32) = length T"
    by (simp_all add: unat_of_nat_u32)
  let ?c0 = "cdb_findstart c"
  have c0: "contents (fp ?c0) = f" "loop ?c0 = 0" using c by (simp_all add: cdb_findstart_def)
  obtain c1 where c1: "cdb_read ops ?c0 8 (push_bit 3 ?h AND 2047) =
      Some (Some (slot_bytes (word_of_nat H, word_of_nat (length T))), c1)" "same_file contents ?c0 c1"
    using cdb_read_ok [of "push_bit 3 ?h AND 2047" 8 ?c0] T(3) c0(1)
    by (auto simp: header_offset at_pos_def i_def)
  have c1': "contents (fp c1) = f" "loop c1 = 0" using same_file_fields [OF c1(2)] c0 by auto
  define c2 where "c2 = c1\<lparr>hslots := word_of_nat (length T), hpos := word_of_nat H, khash := ?h,
      kpos := word_of_nat H + push_bit 3 (drop_bit 8 ?h mod word_of_nat (length T))\<rparr>"
  have run: "cdb_find ops c key ?len =
      (if (word_of_nat (length T) :: u32) = 0 then Some (0, c1\<lparr>hslots := word_of_nat (length T)\<rparr>)
       else cdb_find_loop ops c2 key ?len)"
    using c1(1) c0(2) unfolding cdb_find_def cdb_findnext_def key_hash_def [symmetric]
    by (simp add: Let_def c2_def)
  let ?R = "hits kvs key (scan T ?w)"
  have "found contents f kvs key ?R (cdb_find ops c key ?len)"
  proof (cases "length T = 0")
    case True
    then show ?thesis using run c1' by (simp add: found_def hits_def scan_def)
  next
    case False
    have hm: "home (length T) ?h < length T" unfolding home_def using False by (intro mod_less_divisor) simp
    have "unat (push_bit 3 (drop_bit 8 ?h mod word_of_nat (length T))) = 8 * home (length T) ?h"
      using unat_home [OF u(2), of ?h] hm small by (simp add: push_bit_eq_mult unat_word_ariths)
    then have "search_state contents f ?h H (length T) ?w 0 c2"
      using u hm small c1' by (simp add: search_state_def c2_def unat_word_ariths)
    from find_loop_hits [OF T(2) table_records [OF f(2,1) T(1)] f(1) this _ key]
    show ?thesis using run False u(2) by (auto simp: word_unat_eq_iff)
  qed
  then show ?thesis
    using hits_are_records [OF f(2,1) T(1) [unfolded i_def]] hits_records [OF table_records [OF f(2,1) T(1)]] by blast
qed

end

end
