(* ===== verification/DbaCdb.thy ===== *)
theory DbaCdb
  imports CdbDatabase
begin

text \<open>
  The handler for constant databases, \<^verbatim>\<open>compile/extensions/dba/dba_cdb.c\<close> with the built-in library: the
  functions behind \<^verbatim>\<open>dba_open\<close>, \<^verbatim>\<open>dba_fetch\<close>, \<^verbatim>\<open>dba_insert\<close> and so on for the handlers \<^verbatim>\<open>cdb\<close> and
  \<^verbatim>\<open>cdb_make\<close>. The pointers \<^verbatim>\<open>cdb->file\<close>, \<^verbatim>\<open>cdb->c.fp\<close> and \<^verbatim>\<open>cdb->m.fp\<close> all name the stream the database was
  opened on: its state is kept in the reader when the database is open for reading and in the
  writer when it is being made. \<^verbatim>\<open>dba.c\<close> passes this handler no negative \<^verbatim>\<open>skip\<close>.
\<close>

datatype dba_mode = DBA_READER | DBA_WRITER | DBA_TRUNC | DBA_CREAT

record 's dba_cdb =
  dc_c :: "'s cdb"
  dc_m :: "'s cdb_make"
  dc_make :: bool
  dc_eod :: u32
  dc_pos :: u32

abbreviation (input) DBA_SUCCESS :: int where "DBA_SUCCESS \<equiv> 0"
abbreviation (input) DBA_FAILURE :: int where "DBA_FAILURE \<equiv> -1"

text \<open>The structure after \<^verbatim>\<open>memset\<close>.\<close>

definition zero_dba_cdb :: "'s \<Rightarrow> 's dba_cdb" where
  "zero_dba_cdb file =
     \<lparr>dc_c = \<lparr>fp = file, loop = 0, khash = 0, kpos = 0, hpos = 0, hslots = 0, dpos = 0, dlen = 0\<rparr>,
      dc_m = \<lparr>final = replicate 2048 nul, count = replicate 256 0, start = replicate 256 0, head = [],
              numentries = 0, pos = 0, mfp = file\<rparr>,
      dc_make = False, dc_eod = 0, dc_pos = 0\<rparr>"

definition dba_open_cdb :: "'s php_stream_ops \<Rightarrow> dba_mode \<Rightarrow> 's \<Rightarrow> string + 's dba_cdb" where
  "dba_open_cdb ops mode file =
     (case mode of
        DBA_CREAT \<Rightarrow> Inl ''Update operations are not supported''
      | DBA_WRITER \<Rightarrow> Inl ''Update operations are not supported''
      | DBA_READER \<Rightarrow>
          let cdb = zero_dba_cdb file in Inr (cdb\<lparr>dc_c := cdb_init (dc_c cdb) file, dc_make := False\<rparr>)
      | DBA_TRUNC \<Rightarrow>
          let cdb = zero_dba_cdb file in Inr (cdb\<lparr>dc_m := snd (cdb_make_start ops (dc_m cdb) file), dc_make := True\<rparr>))"

text \<open>Closing leaves the stream open; its state is the result.\<close>

definition dba_close_cdb :: "'s php_stream_ops \<Rightarrow> 's dba_cdb \<Rightarrow> 's option" where
  "dba_close_cdb ops cdb =
     (if dc_make cdb then map_option (\<lambda>(r, m). mfp m) (cdb_make_finish ops (dc_m cdb))
      else Some (fp (cdb_free (dc_c cdb))))"

fun skip_records :: "'s php_stream_ops \<Rightarrow> bytes \<Rightarrow> u32 \<Rightarrow> nat \<Rightarrow> 's cdb \<Rightarrow> (bool \<times> 's cdb) option" where
  "skip_records ops key len 0 c = Some (True, c)"
| "skip_records ops key len (Suc skip) c =
     (case cdb_findnext ops c key len of
        None \<Rightarrow> None
      | Some (r, c1) \<Rightarrow> if r \<noteq> 1 then Some (False, c1) else skip_records ops key len skip c1)"

definition dba_fetch_cdb :: "'s php_stream_ops \<Rightarrow> 's dba_cdb \<Rightarrow> bytes \<Rightarrow> nat \<Rightarrow> (bytes option \<times> 's dba_cdb) option" where
  "dba_fetch_cdb ops cdb key skip =
     (if dc_make cdb then Some (None, cdb)
      else let len = word_of_nat (length key)
           in case cdb_find ops (dc_c cdb) key len of
                None \<Rightarrow> None
              | Some (r, c1) \<Rightarrow>
                  if r \<noteq> 1 then Some (None, cdb\<lparr>dc_c := c1\<rparr>)
                  else (case skip_records ops key len skip c1 of
                          None \<Rightarrow> None
                        | Some (ok, c2) \<Rightarrow>
                            if \<not> ok then Some (None, cdb\<lparr>dc_c := c2\<rparr>)
                            else map_option (\<lambda>(v, c3). (v, cdb\<lparr>dc_c := c3\<rparr>)) (cdb_read ops c2 (dlen c2) (dpos c2))))"

definition dba_update_cdb :: "'s php_stream_ops \<Rightarrow> 's dba_cdb \<Rightarrow> bytes \<Rightarrow> bytes \<Rightarrow> bool \<Rightarrow> int \<times> 's dba_cdb" where
  "dba_update_cdb ops cdb key val mode =
     (if \<not> dc_make cdb then (DBA_FAILURE, cdb)
      else if \<not> mode then (DBA_FAILURE, cdb)
      else let (r, m) = cdb_make_add ops (dc_m cdb) key (word_of_nat (length key)) val (word_of_nat (length val))
           in (if r \<noteq> -1 then DBA_SUCCESS else DBA_FAILURE, cdb\<lparr>dc_m := m\<rparr>))"

definition dba_exists_cdb :: "'s php_stream_ops \<Rightarrow> 's dba_cdb \<Rightarrow> bytes \<Rightarrow> (int \<times> 's dba_cdb) option" where
  "dba_exists_cdb ops cdb key =
     (if dc_make cdb then Some (DBA_FAILURE, cdb)
      else map_option (\<lambda>(r, c1). (if r = 1 then DBA_SUCCESS else DBA_FAILURE, cdb\<lparr>dc_c := c1\<rparr>))
             (cdb_find ops (dc_c cdb) key (word_of_nat (length key))))"

definition dba_delete_cdb :: "'s dba_cdb \<Rightarrow> bytes \<Rightarrow> int" where
  "dba_delete_cdb cdb key = DBA_FAILURE"

definition cdb_file_lseek :: "'s php_stream_ops \<Rightarrow> 's \<Rightarrow> int \<Rightarrow> whence \<Rightarrow> int \<times> 's" where
  "cdb_file_lseek ops s n w = (let s1 = snd (stream_seek ops n w s) in (stream_tell ops s1, s1))"

text \<open>The macros \<^verbatim>\<open>CSEEK\<close> and \<^verbatim>\<open>CREAD\<close>: \<^const>\<open>None\<close> stands for the \<^verbatim>\<open>return NULL\<close> they hold.\<close>

definition CSEEK :: "'s php_stream_ops \<Rightarrow> u32 \<Rightarrow> 's dba_cdb \<Rightarrow> 's dba_cdb option \<times> 's dba_cdb" where
  "CSEEK ops n cdb =
     (if n \<ge> dc_eod cdb then (None, cdb)
      else let (p, s) = cdb_file_lseek ops (fp (dc_c cdb)) (uint n) SEEK_SET; cdb1 = cdb\<lparr>dc_c := (dc_c cdb)\<lparr>fp := s\<rparr>\<rparr>
           in (if p \<noteq> uint n then None else Some cdb1, cdb1))"

definition CREAD :: "'s php_stream_ops \<Rightarrow> nat \<Rightarrow> 's dba_cdb \<Rightarrow> bytes option \<times> 's dba_cdb" where
  "CREAD ops n cdb =
     (let (r, s) = stream_read ops n (fp (dc_c cdb)); cdb1 = cdb\<lparr>dc_c := (dc_c cdb)\<lparr>fp := s\<rparr>\<rparr>
      in (case r of ReadError _ \<Rightarrow> None | Data bs \<Rightarrow> if length bs < n then None else Some bs, cdb1))"

text \<open>
  A key as the traversal returns it. The comparison \<^verbatim>\<open>cdb_file_read(...) < klen\<close> is between a signed
  and an unsigned 32-bit value, so the error value -1 counts as the largest number: the test
  passes and the buffer, never written, is returned.
\<close>

datatype key_result = NoKey | Key bytes | UninitKey nat

definition read_key :: "'s php_stream_ops \<Rightarrow> u32 \<Rightarrow> 's dba_cdb \<Rightarrow> key_result \<times> 's dba_cdb" where
  "read_key ops klen cdb =
     (let (r, s) = stream_read ops (unat klen) (fp (dc_c cdb)); cdb1 = cdb\<lparr>dc_c := (dc_c cdb)\<lparr>fp := s\<rparr>\<rparr>
      in (case r of
            Data bs \<Rightarrow> if (word_of_nat (length bs) :: u32) < klen then NoKey else Key bs
          | ReadError _ \<Rightarrow> if (-1 :: u32) < klen then NoKey else UninitKey (unat klen), cdb1))"

definition dba_firstkey_cdb :: "'s php_stream_ops \<Rightarrow> 's dba_cdb \<Rightarrow> key_result \<times> 's dba_cdb" where
  "dba_firstkey_cdb ops cdb =
     (if dc_make cdb then (NoKey, cdb)
      else case CSEEK ops 0 (cdb\<lparr>dc_eod := -1\<rparr>) of
             (None, d1) \<Rightarrow> (NoKey, d1)
           | (Some _, d1) \<Rightarrow>
               (case CREAD ops 4 d1 of
                  (None, d2) \<Rightarrow> (NoKey, d2)
                | (Some buf, d2) \<Rightarrow>
                    (case CSEEK ops 2048 (d2\<lparr>dc_eod := uint32_unpack buf\<rparr>) of
                       (None, d3) \<Rightarrow> (NoKey, d3)
                     | (Some _, d3) \<Rightarrow>
                         (case CREAD ops 8 d3 of
                            (None, d4) \<Rightarrow> (NoKey, d4)
                          | (Some buf, d4) \<Rightarrow>
                              let klen = uint32_unpack buf; dln = uint32_unpack (drop 4 buf); (k, d5) = read_key ops klen d4
                              in (k, d5\<lparr>dc_pos := 2048 + 4 + 4 + klen + dln\<rparr>)))))"

definition dba_nextkey_cdb :: "'s php_stream_ops \<Rightarrow> 's dba_cdb \<Rightarrow> key_result \<times> 's dba_cdb" where
  "dba_nextkey_cdb ops cdb =
     (if dc_make cdb then (NoKey, cdb)
      else case CSEEK ops (dc_pos cdb) cdb of
             (None, d1) \<Rightarrow> (NoKey, d1)
           | (Some _, d1) \<Rightarrow>
               (case CREAD ops 8 d1 of
                  (None, d2) \<Rightarrow> (NoKey, d2)
                | (Some buf, d2) \<Rightarrow>
                    let klen = uint32_unpack buf; dln = uint32_unpack (drop 4 buf); (k, d3) = read_key ops klen d2
                    in (k, d3\<lparr>dc_pos := dc_pos d3 + (8 + klen + dln)\<rparr>)))"

definition dba_optimize_cdb :: "'s dba_cdb \<Rightarrow> int" where
  "dba_optimize_cdb cdb = DBA_SUCCESS"

definition dba_sync_cdb :: "'s dba_cdb \<Rightarrow> int" where
  "dba_sync_cdb cdb = DBA_SUCCESS"

definition dba_info_cdb :: "string \<Rightarrow> string" where
  "dba_info_cdb name = (if name = ''cdb'' then cdb_version else cdb_make_version)"

section \<open>Making a database and fetching from it\<close>

text \<open>Inserting a list of records through the handler; \<^const>\<open>None\<close> when an insert fails.\<close>

fun insert_all :: "'s php_stream_ops \<Rightarrow> (bytes \<times> bytes) list \<Rightarrow> 's dba_cdb \<Rightarrow> 's dba_cdb option" where
  "insert_all ops [] cdb = Some cdb"
| "insert_all ops ((k, v) # kvs) cdb =
     (case dba_update_cdb ops cdb k v True of (r, cdb1) \<Rightarrow> if r = DBA_SUCCESS then insert_all ops kvs cdb1 else None)"

text \<open>A whole life of a \<^verbatim>\<open>cdb_make\<close> handle: open for truncation, insert, close.\<close>

definition make_database :: "'s php_stream_ops \<Rightarrow> (bytes \<times> bytes) list \<Rightarrow> 's \<Rightarrow> 's option" where
  "make_database ops kvs s =
     (case dba_open_cdb ops DBA_TRUNC s of
        Inl _ \<Rightarrow> None
      | Inr cdb \<Rightarrow> Option.bind (insert_all ops kvs cdb) (dba_close_cdb ops))"

context php_stream
begin

lemma insert_all_ok:
  assumes "made contents offset done (dc_m cdb)" "dc_make cdb" "db_size (done @ kvs) < 2 ^ 32"
  shows "\<exists>cdb'. insert_all ops kvs cdb = Some cdb' \<and> made contents offset (done @ kvs) (dc_m cdb') \<and> dc_make cdb'"
  using assms
proof (induction kvs arbitrary: "done" cdb)
  case Nil
  then show ?case by simp
next
  case (Cons kd kvs)
  obtain k d where kd: "kd = (k, d)" by (cases kd)
  have "2048 + length (record_bytes (done @ [(k, d)])) < 2 ^ 32"
    using Cons.prems(3) kd by (simp add: db_size_def record_bytes_def)
  from add_ok [OF Cons.prems(1) this] obtain m
    where m: "cdb_make_add ops (dc_m cdb) k (word_of_nat (length k)) d (word_of_nat (length d)) = (0, m)"
      "made contents offset (done @ [(k, d)]) m" by blast
  then show ?case
    using Cons.IH [of "done @ [(k, d)]" "cdb\<lparr>dc_m := m\<rparr>"] Cons.prems(2,3) kd
    by (simp add: dba_update_cdb_def)
qed

lemma make_database_ok:
  assumes "contents s = []" "db_size kvs < 2 ^ 32"
  shows "\<exists>s'. make_database ops kvs s = Some s' \<and> cdb_image (contents s') kvs"
proof -
  obtain m where m: "cdb_make_start ops (dc_m (zero_dba_cdb s)) s = (2048, m)" "made contents offset [] m"
    using start_ok [OF assms(1), of "dc_m (zero_dba_cdb s)"] by (auto simp: zero_dba_cdb_def)
  let ?cdb = "(zero_dba_cdb s)\<lparr>dc_m := m, dc_make := True\<rparr>"
  obtain cdb' where cdb': "insert_all ops kvs ?cdb = Some cdb'" "made contents offset kvs (dc_m cdb')" "dc_make cdb'"
    using insert_all_ok [of "[]" ?cdb kvs] m(2) assms(2) by auto
  obtain m' where "cdb_make_finish ops (dc_m cdb') = Some (0, m')" "cdb_image (contents (mfp m')) kvs"
    using finish_ok [OF cdb'(2) assms(2)] by blast
  then show ?thesis
    using m(1) cdb' by (simp add: make_database_def dba_open_cdb_def Let_def dba_close_cdb_def)
qed

lemma skip_records_ok:
  assumes "reading contents f kvs key R c" "length f < 2 ^ 32" "length key < 2 ^ 32"
  shows "if n \<le> length R
    then \<exists>c'. skip_records ops key (word_of_nat (length key)) n c = Some (True, c') \<and> contents (fp c') = f \<and>
      (n = 0 \<longrightarrow> c' = c) \<and> (0 < n \<longrightarrow> found_at (rec_of kvs) (snd (R ! (n - 1))) c')
    else \<exists>c'. skip_records ops key (word_of_nat (length key)) n c = Some (False, c') \<and> contents (fp c') = f"
  using assms(1)
proof (induction n arbitrary: R c)
  case 0
  then show ?case using reading_loop [OF 0] by simp
next
  case (Suc n)
  note fnd = findnext_hits [OF Suc.prems assms(2,3)]
  show ?case
  proof (cases R)
    case Nil
    then show ?thesis using fnd by (auto simp: found_def)
  next
    case (Cons s R')
    then obtain c1 where c1: "cdb_findnext ops c key (word_of_nat (length key)) = Some (1, c1)"
        "found_at (rec_of kvs) (snd s) c1" "reading contents f kvs key R' c1"
      using fnd by (auto simp: found_def)
    show ?thesis using Suc.IH [OF c1(3)] c1(1,2) Cons by (cases n) (auto split: if_splits)
  qed
qed

lemma cdb_fetch_ok:
  assumes img: "cdb_image f kvs" and c: "contents (fp (dc_c cdb)) = f" "\<not> dc_make cdb" and key: "length key < 2 ^ 32"
  defines "vals \<equiv> map snd (filter (\<lambda>kd. fst kd = key) kvs)"
  shows "\<exists>cdb'. dba_fetch_cdb ops cdb key skip = Some (if skip < length vals then Some (vals ! skip) else None, cdb') \<and>
    contents (fp (dc_c cdb')) = f \<and> \<not> dc_make cdb'"
proof -
  have f: "length f < 2 ^ 32" "at_pos f 2048 (record_bytes kvs)" using img by (auto simp: cdb_image_def)
  obtain R where R: "map (\<lambda>s. rec_of kvs (snd s)) R = filter (\<lambda>kd. fst kd = key) kvs"
      "found contents f kvs key R (cdb_find ops (dc_c cdb) key (word_of_nat (length key)))"
      "\<And>s. s \<in> set R \<Longrightarrow> at_pos f (unat (snd s)) (rec_bytes (rec_of kvs (snd s)))"
    using find_hits [OF img c(1) key] by blast
  have lenR: "length vals = length R" using arg_cong [OF R(1), of length] by (simp add: vals_def)
  have valR: "vals ! i = snd (rec_of kvs (snd (R ! i)))" if "i < length R" for i
    using that by (simp add: vals_def flip: R(1))
  show ?thesis
  proof (cases R)
    case Nil
    then show ?thesis using R(2) lenR c(2) by (auto simp: found_def dba_fetch_cdb_def Let_def)
  next
    case (Cons s R')
    then obtain c1 where c1: "cdb_find ops (dc_c cdb) key (word_of_nat (length key)) = Some (1, c1)" "contents (fp c1) = f"
        "found_at (rec_of kvs) (snd s) c1" "reading contents f kvs key R' c1"
      using R(2) by (auto simp: found_def)
    note sk = skip_records_ok [OF c1(4) f(1) key, of skip]
    show ?thesis
    proof (cases "skip < length R")
      case False
      then obtain c2 where "skip_records ops key (word_of_nat (length key)) skip c1 = Some (False, c2)" "contents (fp c2) = f"
        using sk Cons by auto
      then show ?thesis using c1(1) c(2) lenR False by (auto simp: dba_fetch_cdb_def Let_def)
    next
      case True
      then obtain c2 where c2: "skip_records ops key (word_of_nat (length key)) skip c1 = Some (True, c2)" "contents (fp c2) = f"
          "found_at (rec_of kvs) (snd (R ! skip)) c2"
        using sk c1(3) Cons by (cases skip) auto
      let ?p = "snd (R ! skip)"
      let ?kd = "rec_of kvs ?p"
      have at: "at_pos f (unat ?p) (rec_bytes ?kd)" using R(3) True by simp
      then have "take (length (snd ?kd)) (drop (unat ?p + (8 + length (fst ?kd))) f) = snd ?kd"
        using at_pos_drop [OF at, of "8 + length (fst ?kd)" "length (snd ?kd)"] by (simp add: rec_bytes_def)
      then obtain c3 where c3: "cdb_read ops c2 (dlen c2) (dpos c2) = Some (Some (snd ?kd), c3)" "same_file contents c2 c3"
        using cdb_read_ok [of "dpos c2" "dlen c2" c2] c2(2,3) at by (auto simp: found_at_def at_pos_def add.assoc)
      have "contents (fp c3) = f" using c3(2) c2(2) by (simp add: same_file_def)
      then show ?thesis
        using c1(1) c2(1) c3(1) c(2) lenR valR [OF True] True by (auto simp: dba_fetch_cdb_def Let_def)
    qed
  qed
qed

end

section \<open>Walking over the keys\<close>

text \<open>
  The keys as a script collects them with \<^verbatim>\<open>dba_firstkey\<close> and \<^verbatim>\<open>dba_nextkey\<close>; the fuel bounds the number of
  calls and \<^const>\<open>None\<close> is fuel that ran out or a key that is not a value of the database.
\<close>

fun remaining_keys :: "'s php_stream_ops \<Rightarrow> nat \<Rightarrow> key_result \<times> 's dba_cdb \<Rightarrow> bytes list option" where
  "remaining_keys ops 0 r = None"
| "remaining_keys ops (Suc fuel) (k, cdb) =
     (case k of
        NoKey \<Rightarrow> Some []
      | UninitKey _ \<Rightarrow> None
      | Key x \<Rightarrow> map_option (Cons x) (remaining_keys ops fuel (dba_nextkey_cdb ops cdb)))"

definition all_keys :: "'s php_stream_ops \<Rightarrow> nat \<Rightarrow> 's dba_cdb \<Rightarrow> bytes list option" where
  "all_keys ops fuel cdb = remaining_keys ops fuel (dba_firstkey_cdb ops cdb)"

definition in_walk :: "('s \<Rightarrow> bytes) \<Rightarrow> bytes \<Rightarrow> (bytes \<times> bytes) list \<Rightarrow> 's dba_cdb \<Rightarrow> bool" where
  "in_walk contents f kvs cdb \<longleftrightarrow> contents (fp (dc_c cdb)) = f \<and> \<not> dc_make cdb \<and>
     unat (dc_eod cdb) = 2048 + length (record_bytes kvs)"

definition walking :: "('s \<Rightarrow> bytes) \<Rightarrow> bytes \<Rightarrow> (bytes \<times> bytes) list \<Rightarrow> nat \<Rightarrow> 's dba_cdb \<Rightarrow> bool" where
  "walking contents f kvs i cdb \<longleftrightarrow> in_walk contents f kvs cdb \<and>
     unat (dc_pos cdb) = 2048 + length (record_bytes (take i kvs))"

context php_file
begin

lemma read_exact: "\<exists>s'. stream_read ops k s = (Data (take k (drop (offset s) (contents s))), s') \<and>
    contents s' = contents s \<and> offset s' = offset s + length (take k (drop (offset s) (contents s)))"
  using read_some [of k s] read_full by metis

lemma CSEEK_ok:
  assumes "n < dc_eod cdb"
  shows "\<exists>s'. CSEEK ops n cdb = (Some (cdb\<lparr>dc_c := (dc_c cdb)\<lparr>fp := s'\<rparr>\<rparr>), cdb\<lparr>dc_c := (dc_c cdb)\<lparr>fp := s'\<rparr>\<rparr>) \<and>
    contents s' = contents (fp (dc_c cdb)) \<and> offset s' = unat n"
proof -
  obtain s' where s': "stream_seek ops (uint n) SEEK_SET (fp (dc_c cdb)) = (0, s')"
      "contents s' = contents (fp (dc_c cdb))" "offset s' = unat n"
    using seek_set [of "uint n" "fp (dc_c cdb)"] by auto
  then show ?thesis
    using assms tell_off [of s'] by (auto simp: CSEEK_def cdb_file_lseek_def not_less [symmetric] Let_def)
qed

lemma CREAD_ok:
  assumes "offset (fp (dc_c cdb)) + n \<le> length (contents (fp (dc_c cdb)))"
  shows "\<exists>s'. CREAD ops n cdb = (Some (take n (drop (offset (fp (dc_c cdb))) (contents (fp (dc_c cdb))))), cdb\<lparr>dc_c := (dc_c cdb)\<lparr>fp := s'\<rparr>\<rparr>) \<and>
    contents s' = contents (fp (dc_c cdb)) \<and> offset s' = offset (fp (dc_c cdb)) + n"
  using read_exact [of n "fp (dc_c cdb)"] assms by (auto simp: CREAD_def)

lemma read_key_ok:
  assumes "offset (fp (dc_c cdb)) + unat n \<le> length (contents (fp (dc_c cdb)))"
  shows "\<exists>s'. read_key ops n cdb = (Key (take (unat n) (drop (offset (fp (dc_c cdb))) (contents (fp (dc_c cdb))))), cdb\<lparr>dc_c := (dc_c cdb)\<lparr>fp := s'\<rparr>\<rparr>) \<and>
    contents s' = contents (fp (dc_c cdb))"
  using read_exact [of "unat n" "fp (dc_c cdb)"] assms by (auto simp: read_key_def)

text \<open>Reading one record's header and key from its position.\<close>

lemma record_step:
  assumes "in_walk contents f kvs cdb" "i < length kvs" "cdb_image f kvs"
    and p: "unat p = 2048 + length (record_bytes (take i kvs))"
  shows "\<exists>d1 d2 d3. CSEEK ops p cdb = (Some d1, d1) \<and>
    CREAD ops 8 d1 = (Some (take 8 (rec_bytes (kvs ! i))), d2) \<and>
    read_key ops (word_of_nat (length (fst (kvs ! i)))) d2 = (Key (fst (kvs ! i)), d3) \<and>
    dc_pos d3 = dc_pos cdb \<and>
    walking contents f kvs (Suc i) (d3\<lparr>dc_pos := p +
      (8 + word_of_nat (length (fst (kvs ! i))) + word_of_nat (length (snd (kvs ! i))))\<rparr>)"
proof -
  let ?kd = "kvs ! i" and ?p = "2048 + length (record_bytes (take i kvs))"
  have f: "length f < 2 ^ 32" "at_pos f 2048 (record_bytes kvs)" using assms(3) by (auto simp: cdb_image_def)
  have split: "record_bytes kvs = record_bytes (take i kvs) @ rec_bytes ?kd @ record_bytes (drop (Suc i) kvs)"
    by (subst id_take_nth_drop [OF assms(2)]) (simp add: record_bytes_def)
  have at: "at_pos f ?p (rec_bytes ?kd)" by (rule at_pos_middle [OF f(2) [unfolded split]])
  then have le: "?p + 8 + length (fst ?kd) + length (snd ?kd) \<le> length f" by (simp add: at_pos_def)
  have w: "contents (fp (dc_c cdb)) = f" "\<not> dc_make cdb" "unat (dc_eod cdb) = 2048 + length (record_bytes kvs)"
      "unat p = ?p"
    using assms(1) p by (auto simp: in_walk_def)
  have "p < dc_eod cdb" using w(3,4) split by (simp add: word_less_nat_alt)
  from CSEEK_ok [OF this] obtain s1 where s1: "CSEEK ops p cdb =
      (Some (cdb\<lparr>dc_c := (dc_c cdb)\<lparr>fp := s1\<rparr>\<rparr>), cdb\<lparr>dc_c := (dc_c cdb)\<lparr>fp := s1\<rparr>\<rparr>)" "contents s1 = f" "offset s1 = ?p"
    using w by auto
  define d1 where "d1 = cdb\<lparr>dc_c := (dc_c cdb)\<lparr>fp := s1\<rparr>\<rparr>"
  obtain s2 where s2: "CREAD ops 8 d1 = (Some (take 8 (drop ?p f)), d1\<lparr>dc_c := (dc_c d1)\<lparr>fp := s2\<rparr>\<rparr>)"
      "contents s2 = f" "offset s2 = ?p + 8"
    using CREAD_ok [of d1 8] s1(2,3) le by (auto simp: d1_def)
  define d2 where "d2 = d1\<lparr>dc_c := (dc_c d1)\<lparr>fp := s2\<rparr>\<rparr>"
  let ?kl = "word_of_nat (length (fst ?kd)) :: u32" and ?dl = "word_of_nat (length (snd ?kd)) :: u32"
  have lens: "unat ?kl = length (fst ?kd)" "unat ?dl = length (snd ?kd)"
    using le f(1) by (simp_all add: unat_of_nat_u32)
  obtain s3 where s3: "read_key ops ?kl d2 = (Key (take (length (fst ?kd)) (drop (?p + 8) f)), d2\<lparr>dc_c := (dc_c d2)\<lparr>fp := s3\<rparr>\<rparr>)"
      "contents s3 = f"
    using read_key_ok [of d2 ?kl] s2(2,3) le lens by (auto simp: d2_def)
  have bytes: "take 8 (drop ?p f) = take 8 (rec_bytes ?kd)" "take (length (fst ?kd)) (drop (?p + 8) f) = fst ?kd"
    using at_pos_take [OF at, of 8] at_pos_drop [OF at, of 8 "length (fst ?kd)"] by (simp_all add: rec_key)
  have "unat (p + (8 + ?kl + ?dl)) = ?p + (8 + length (fst ?kd) + length (snd ?kd))"
    using w(4) lens le f(1) by (simp add: unat_word_ariths)
  moreover have "length (record_bytes (take (Suc i) kvs)) = length (record_bytes (take i kvs)) + length (rec_bytes ?kd)"
    using assms(2) by (simp add: take_Suc_conv_app_nth record_bytes_def)
  ultimately show ?thesis
    using s1(1) s2(1) s3 w(2,3) unfolding bytes d1_def [symmetric] d2_def [symmetric]
    by (auto simp: walking_def in_walk_def d1_def d2_def)
qed

lemma cdb_nextkey_ok:
  assumes "walking contents f kvs i cdb" "i < length kvs" "cdb_image f kvs"
  shows "\<exists>d. dba_nextkey_cdb ops cdb = (Key (fst (kvs ! i)), d) \<and> walking contents f kvs (Suc i) d"
proof -
  have w: "in_walk contents f kvs cdb" "\<not> dc_make cdb"
      "unat (dc_pos cdb) = 2048 + length (record_bytes (take i kvs))"
    using assms(1) by (auto simp: walking_def in_walk_def)
  show ?thesis using record_step [OF w(1) assms(2,3) w(3)] w(2) by (auto simp: dba_nextkey_cdb_def rec_header Let_def)
qed

lemma nextkey_end:
  assumes "walking contents f kvs (length kvs) cdb"
  shows "dba_nextkey_cdb ops cdb = (NoKey, cdb)"
  using assms by (simp add: walking_def in_walk_def dba_nextkey_cdb_def CSEEK_def word_le_nat_alt)

lemma firstkey_ok:
  assumes img: "cdb_image f kvs" and c: "contents (fp (dc_c cdb)) = f" "\<not> dc_make cdb"
  shows "\<exists>d. dba_firstkey_cdb ops cdb = (if kvs = [] then NoKey else Key (fst (hd kvs)), d) \<and>
    (kvs \<noteq> [] \<longrightarrow> walking contents f kvs 1 d)"
proof -
  let ?eod = "word_of_nat (2048 + length (record_bytes kvs)) :: u32" and ?d0 = "cdb\<lparr>dc_eod := -1\<rparr>"
  have f: "length f < 2 ^ 32" "at_pos f 2048 (record_bytes kvs)" "at_pos f 0 (uint32_pack ?eod)"
    using img by (auto simp: cdb_image_def)
  then have ue: "unat ?eod = 2048 + length (record_bytes kvs)" by (intro unat_of_nat_u32) (simp add: at_pos_def)
  have "(0 :: u32) < dc_eod ?d0" by (simp add: word_gt_0)
  from CSEEK_ok [OF this] obtain s1 where s1: "CSEEK ops 0 ?d0 =
      (Some (?d0\<lparr>dc_c := (dc_c ?d0)\<lparr>fp := s1\<rparr>\<rparr>), ?d0\<lparr>dc_c := (dc_c ?d0)\<lparr>fp := s1\<rparr>\<rparr>)" "contents s1 = f" "offset s1 = 0"
    using c(1) by auto
  define d1 where "d1 = ?d0\<lparr>dc_c := (dc_c ?d0)\<lparr>fp := s1\<rparr>\<rparr>"
  obtain s2 where s2: "CREAD ops 4 d1 = (Some (uint32_pack ?eod), d1\<lparr>dc_c := (dc_c d1)\<lparr>fp := s2\<rparr>\<rparr>)" "contents s2 = f"
    using CREAD_ok [of d1 4] s1(2,3) f(3) by (auto simp: d1_def at_pos_def)
  define d2 where "d2 = d1\<lparr>dc_c := (dc_c d1)\<lparr>fp := s2\<rparr>, dc_eod := ?eod\<rparr>"
  have up: "uint32_unpack (uint32_pack ?eod) = ?eod" using uint32_unpack_pack [of ?eod "[]"] by simp
  have walk: "in_walk contents f kvs d2"
    using s2(2) c(2) ue by (simp add: in_walk_def d2_def d1_def del: of_nat_add)
  have run: "dba_firstkey_cdb ops cdb = (case CSEEK ops 2048 d2 of
       (None, d3) \<Rightarrow> (NoKey, d3)
     | (Some _, d3) \<Rightarrow>
         (case CREAD ops 8 d3 of
            (None, d4) \<Rightarrow> (NoKey, d4)
          | (Some buf, d4) \<Rightarrow>
              let klen = uint32_unpack buf; dln = uint32_unpack (drop 4 buf); (k, d5) = read_key ops klen d4
              in (k, d5\<lparr>dc_pos := 2048 + 4 + 4 + klen + dln\<rparr>)))"
    unfolding dba_firstkey_cdb_def s1(1) [folded d1_def] s2(1) prod.case option.case up d2_def using c(2) by simp
  show ?thesis
  proof (cases "kvs = []")
    case True
    then have "CSEEK ops 2048 d2 = (None, d2)" by (simp add: CSEEK_def d2_def record_bytes_def)
    then show ?thesis using run True by simp
  next
    case False
    then have "\<exists>e1 e2 e3. CSEEK ops 2048 d2 = (Some e1, e1) \<and> CREAD ops 8 e1 = (Some (take 8 (rec_bytes (kvs ! 0))), e2) \<and>
        read_key ops (word_of_nat (length (fst (kvs ! 0)))) e2 = (Key (fst (kvs ! 0)), e3) \<and> dc_pos e3 = dc_pos d2 \<and>
        walking contents f kvs (Suc 0) (e3\<lparr>dc_pos := 2048 +
          (8 + word_of_nat (length (fst (kvs ! 0))) + word_of_nat (length (snd (kvs ! 0))))\<rparr>)"
      by (intro record_step [OF walk _ img]) (auto simp: record_bytes_def)
    then show ?thesis using run False by (auto simp: rec_header Let_def hd_conv_nth add.assoc)
  qed
qed

lemma remaining_keys_ok:
  assumes "walking contents f kvs i cdb" "cdb_image f kvs" "i \<le> length kvs" "length kvs - i < fuel"
  shows "remaining_keys ops fuel (dba_nextkey_cdb ops cdb) = Some (map fst (drop i kvs))"
  using assms
proof (induction fuel arbitrary: i cdb)
  case (Suc fuel)
  show ?case
  proof (cases "i = length kvs")
    case True
    then show ?thesis using nextkey_end Suc.prems(1) by simp
  next
    case False
    then have i: "i < length kvs" using Suc.prems(3) by simp
    obtain d where d: "dba_nextkey_cdb ops cdb = (Key (fst (kvs ! i)), d)" "walking contents f kvs (Suc i) d"
      using cdb_nextkey_ok [OF Suc.prems(1) i Suc.prems(2)] by blast
    have "map fst (drop i kvs) = fst (kvs ! i) # map fst (drop (Suc i) kvs)"
      using i by (simp flip: Cons_nth_drop_Suc)
    then show ?thesis using Suc.IH [OF d(2) Suc.prems(2)] Suc.prems(4) i d(1) by simp
  qed
qed simp

lemma all_keys_ok:
  assumes "cdb_image f kvs" "contents (fp (dc_c cdb)) = f" "\<not> dc_make cdb" "length kvs < fuel"
  shows "all_keys ops fuel cdb = Some (map fst kvs)"
proof -
  obtain n where n: "fuel = Suc n" using assms(4) by (cases fuel) auto
  obtain d where d: "dba_firstkey_cdb ops cdb = (if kvs = [] then NoKey else Key (fst (hd kvs)), d)"
      "kvs \<noteq> [] \<Longrightarrow> walking contents f kvs 1 d"
    using firstkey_ok [OF assms(1-3)] by blast
  show ?thesis
  proof (cases kvs)
    case Nil
    then show ?thesis using d(1) n by (simp add: all_keys_def)
  next
    case (Cons x xs)
    then show ?thesis using d n assms(1,4) remaining_keys_ok [of f kvs 1 d n] by (simp add: all_keys_def)
  qed
qed

end

section \<open>Properties\<close>

text \<open>
  C3: a database made through the handler gives back what was put in. Whatever records are inserted
  into a new file, in whatever order and with keys repeated, as long as the result stays below four
  gigabytes: opening, inserting and closing succeed, and a fetch of a key with \<^verbatim>\<open>skip\<close> \<open>n\<close> returns the
  value of the \<open>n\<close>-th record inserted under that key, counted from zero, NULL when there are not so
  many. The streams read and write may split transfers as they like.
\<close>

theorem cdb_fetch_after_make:
  assumes "php_stream ops contents offset" and "contents s = []"
    and "db_size kvs < 2 ^ 32" and "length key < 2 ^ 32"
  shows "\<exists>s' cdb cdb'. make_database ops kvs s = Some s' \<and> dba_open_cdb ops DBA_READER s' = Inr cdb \<and>
    dba_fetch_cdb ops cdb key skip =
      Some (if skip < length (filter (\<lambda>kd. fst kd = key) kvs)
            then Some (snd (filter (\<lambda>kd. fst kd = key) kvs ! skip)) else None, cdb')"
proof -
  obtain s' where s': "make_database ops kvs s = Some s'" "cdb_image (contents s') kvs"
    using php_stream.make_database_ok [OF assms(1-3)] by blast
  let ?cdb = "(zero_dba_cdb s')\<lparr>dc_c := cdb_init (dc_c (zero_dba_cdb s')) s', dc_make := False\<rparr>"
  have "contents (fp (dc_c ?cdb)) = contents s'" "\<not> dc_make ?cdb" by (simp_all add: cdb_init_def)
  from php_stream.cdb_fetch_ok [OF assms(1) s'(2) this assms(4), of skip] s'(1) show ?thesis
    by (auto simp: dba_open_cdb_def Let_def)
qed

theorem cdb_fetch_after_make_witness:
  "\<exists>s' cdb cdb'. make_database mem_ops [(''k'', ''one''), (''x'', []), (''k'', ''two'')] \<lparr>mf_data = [], mf_pos = 0\<rparr> = Some s' \<and>
    dba_open_cdb mem_ops DBA_READER s' = Inr cdb \<and> dba_fetch_cdb mem_ops cdb ''k'' 1 = Some (Some ''two'', cdb')"
  using cdb_fetch_after_make [OF memory.php_stream_axioms, of "\<lparr>mf_data = [], mf_pos = 0\<rparr>"
      "[(''k'', ''one''), (''x'', []), (''k'', ''two'')]" "''k''" 1]
  by (simp add: db_size_def record_bytes_def)

text \<open>
  \<^verbatim>\<open>dba_exists\<close> on a database made through the handler succeeds for exactly the keys inserted.
\<close>

theorem cdb_exists_after_make:
  assumes "php_stream ops contents offset" and "contents s = []"
    and "db_size kvs < 2 ^ 32" and "length key < 2 ^ 32"
  shows "\<exists>s' cdb cdb'. make_database ops kvs s = Some s' \<and> dba_open_cdb ops DBA_READER s' = Inr cdb \<and>
    dba_exists_cdb ops cdb key = Some (if key \<in> fst ` set kvs then DBA_SUCCESS else DBA_FAILURE, cdb')"
proof -
  obtain s' where s': "make_database ops kvs s = Some s'" "cdb_image (contents s') kvs"
    using php_stream.make_database_ok [OF assms(1-3)] by blast
  let ?cdb = "(zero_dba_cdb s')\<lparr>dc_c := cdb_init (dc_c (zero_dba_cdb s')) s', dc_make := False\<rparr>"
  have "contents (fp (dc_c ?cdb)) = contents s'" by (simp add: cdb_init_def)
  from php_stream.find_hits [OF assms(1) s'(2) this assms(4)] obtain R
    where R: "map (\<lambda>s. rec_of kvs (snd s)) R = filter (\<lambda>kd. fst kd = key) kvs"
      "found contents (contents s') kvs key R (cdb_find ops (dc_c ?cdb) key (word_of_nat (length key)))" by blast
  have "R = [] \<longleftrightarrow> key \<notin> fst ` set kvs"
  proof -
    have "R = [] \<longleftrightarrow> filter (\<lambda>kd. fst kd = key) kvs = []" by (simp flip: R(1))
    then show ?thesis by (auto simp: filter_empty_conv)
  qed
  with R(2) obtain c' where "cdb_find ops (dc_c ?cdb) key (word_of_nat (length key)) = Some (if key \<in> fst ` set kvs then 1 else 0, c')"
    by (cases R) (auto simp: found_def)
  then have "dba_exists_cdb ops ?cdb key = Some (if key \<in> fst ` set kvs then DBA_SUCCESS else DBA_FAILURE, ?cdb\<lparr>dc_c := c'\<rparr>)"
    by (auto simp: dba_exists_cdb_def)
  then show ?thesis using s'(1) by (intro exI conjI) (auto simp: dba_open_cdb_def Let_def)
qed

theorem cdb_exists_after_make_witness:
  "\<exists>s' cdb cdb'. make_database mem_ops [(''k'', ''one'')] \<lparr>mf_data = [], mf_pos = 0\<rparr> = Some s' \<and>
    dba_open_cdb mem_ops DBA_READER s' = Inr cdb \<and> dba_exists_cdb mem_ops cdb ''q'' = Some (DBA_FAILURE, cdb')"
  using cdb_exists_after_make [OF memory.php_stream_axioms, of "\<lparr>mf_data = [], mf_pos = 0\<rparr>" "[(''k'', ''one'')]" "''q''"]
  by (simp add: db_size_def record_bytes_def)

text \<open>
  C20: walking over a database with \<^verbatim>\<open>dba_firstkey\<close> and \<^verbatim>\<open>dba_nextkey\<close> yields the keys of all records in
  the order of insertion, repeated keys repeated, and then ends; one call more than there are
  records is enough. (The traversal reads the stream directly and takes a short read for the end,
  so it needs a stream whose reads are short only at the end of the file.)
\<close>

theorem cdb_keys_after_make:
  assumes "php_file ops contents offset" and "contents s = []"
    and "db_size kvs < 2 ^ 32" and "length kvs < fuel"
  shows "\<exists>s' cdb. make_database ops kvs s = Some s' \<and> dba_open_cdb ops DBA_READER s' = Inr cdb \<and>
    all_keys ops fuel cdb = Some (map fst kvs)"
proof -
  have stream: "php_stream ops contents offset" using assms(1) by (simp add: php_file_def)
  obtain s' where s': "make_database ops kvs s = Some s'" "cdb_image (contents s') kvs"
    using php_stream.make_database_ok [OF stream assms(2,3)] by blast
  let ?cdb = "(zero_dba_cdb s')\<lparr>dc_c := cdb_init (dc_c (zero_dba_cdb s')) s', dc_make := False\<rparr>"
  have "contents (fp (dc_c ?cdb)) = contents s'" "\<not> dc_make ?cdb" by (simp_all add: cdb_init_def)
  from php_file.all_keys_ok [OF assms(1) s'(2) this assms(4)] s'(1) show ?thesis
    by (simp add: dba_open_cdb_def Let_def)
qed

theorem cdb_keys_after_make_witness:
  "\<exists>s' cdb. make_database mem_ops [(''b'', ''1''), (''a'', ''2''), (''b'', ''3'')] \<lparr>mf_data = [], mf_pos = 0\<rparr> = Some s' \<and>
    dba_open_cdb mem_ops DBA_READER s' = Inr cdb \<and> all_keys mem_ops 4 cdb = Some [''b'', ''a'', ''b'']"
  using cdb_keys_after_make [OF memory.php_file_axioms, of "\<lparr>mf_data = [], mf_pos = 0\<rparr>"
      "[(''b'', ''1''), (''a'', ''2''), (''b'', ''3'')]" 4]
  by (simp add: db_size_def record_bytes_def)

text \<open>
  A read error in the middle of the traversal is not noticed: when the key's bytes cannot be
  read, the comparison of -1 with the unsigned length passes and the key returned is the memory that
  was allocated for it, never written.
\<close>

theorem cdb_nextkey_read_error:
  assumes "\<not> dc_make cdb" and "CSEEK ops (dc_pos cdb) cdb = (Some d1, d1)"
    and "CREAD ops 8 d1 = (Some buf, d2)"
    and "stream_read ops (unat (uint32_unpack buf)) (fp (dc_c d2)) = (ReadError e, s)"
  shows "\<exists>d3. dba_nextkey_cdb ops cdb = (UninitKey (unat (uint32_unpack buf)), d3)"
proof -
  have "\<not> (-1 :: u32) < uint32_unpack buf" by (simp add: not_less)
  then show ?thesis using assms by (simp add: dba_nextkey_cdb_def read_key_def Let_def)
qed

text \<open>A stream that reads headers and fails on keys, for the instance below.\<close>

definition flaky_ops :: "nat php_stream_ops" where
  "flaky_ops =
    \<lparr>stream_seek = (\<lambda>n w s. (0, nat n)), stream_tell = int,
     stream_read = (\<lambda>k s. if k = 8 then (Data (uint32_pack 5 @ uint32_pack 0), s + 8) else (ReadError False, s)),
     stream_write = (\<lambda>bs s. (int (length bs), s)), stream_flush = Pair 0, stream_eof = (\<lambda>s. False),
     stream_gets = (\<lambda>c s. (None, s)), stream_truncate_supported = (\<lambda>s. False), stream_truncate = (\<lambda>n s. (-1, s)),
     stream_temp = None, stream_copy = (\<lambda>n s t. (False, s, t))\<rparr>"

theorem cdb_nextkey_read_error_witness:
  "\<exists>d3. dba_nextkey_cdb flaky_ops ((zero_dba_cdb 0)\<lparr>dc_eod := 9\<rparr>) = (UninitKey 5, d3)"
proof -
  let ?cdb = "(zero_dba_cdb (0 :: nat))\<lparr>dc_eod := 9\<rparr>" and ?buf = "uint32_pack 5 @ uint32_pack 0"
  have seek: "CSEEK flaky_ops (dc_pos ?cdb) ?cdb = (Some ?cdb, ?cdb)"
    by (simp add: CSEEK_def cdb_file_lseek_def flaky_ops_def zero_dba_cdb_def Let_def)
  have read: "CREAD flaky_ops 8 ?cdb = (Some ?buf, ?cdb\<lparr>dc_c := (dc_c ?cdb)\<lparr>fp := 8\<rparr>\<rparr>)"
    by (simp add: CREAD_def flaky_ops_def zero_dba_cdb_def)
  have n: "unat (uint32_unpack ?buf) = 5" by simp
  have fail: "stream_read flaky_ops (unat (uint32_unpack ?buf)) (fp (dc_c (?cdb\<lparr>dc_c := (dc_c ?cdb)\<lparr>fp := 8\<rparr>\<rparr>))) = (ReadError False, 8)"
    unfolding n by (simp add: flaky_ops_def)
  have "\<not> dc_make ?cdb" by (simp add: zero_dba_cdb_def)
  from cdb_nextkey_read_error [OF this seek read fail] show ?thesis unfolding n .
qed

end
