(* ===== verification/DbaContract.thy ===== *)
theory DbaContract
  imports Prelude
begin

text \<open>
  What the updatable handlers of the dba extension promise to a script: they behave like a finite map
  from keys to values. The locale \<open>dba_dictionary\<close> states the laws of one handler's operations,
  \<^verbatim>\<open>dba_fetch\<close>, \<^verbatim>\<open>dba_replace\<close>, \<^verbatim>\<open>dba_insert\<close> and \<^verbatim>\<open>dba_delete\<close>, on the keys and values the handler can
  represent; its lemma says that any sequence of operations gives the results the map gives. The
  handler theories interpret it.
\<close>

datatype dba_op = Fetch bytes | Replace bytes bytes | Insert bytes bytes | Delete bytes

datatype dba_result = Value "bytes option" | Status bool

fun run_ops ::
    "('d \<Rightarrow> bytes \<Rightarrow> bytes option \<times> 'd) \<Rightarrow> ('d \<Rightarrow> bytes \<Rightarrow> bytes \<Rightarrow> bool \<times> 'd) \<Rightarrow> ('d \<Rightarrow> bytes \<Rightarrow> bytes \<Rightarrow> bool \<times> 'd) \<Rightarrow>
     ('d \<Rightarrow> bytes \<Rightarrow> bool \<times> 'd) \<Rightarrow> dba_op list \<Rightarrow> 'd \<Rightarrow> dba_result list \<times> 'd" where
  "run_ops get put add del [] d = ([], d)"
| "run_ops get put add del (Fetch k # xs) d =
     (let (v, d1) = get d k; (rs, d2) = run_ops get put add del xs d1 in (Value v # rs, d2))"
| "run_ops get put add del (Replace k v # xs) d =
     (let (b, d1) = put d k v; (rs, d2) = run_ops get put add del xs d1 in (Status b # rs, d2))"
| "run_ops get put add del (Insert k v # xs) d =
     (let (b, d1) = add d k v; (rs, d2) = run_ops get put add del xs d1 in (Status b # rs, d2))"
| "run_ops get put add del (Delete k # xs) d =
     (let (b, d1) = del d k; (rs, d2) = run_ops get put add del xs d1 in (Status b # rs, d2))"

text \<open>The same operations on a map.\<close>

fun map_ops :: "dba_op list \<Rightarrow> (bytes \<rightharpoonup> bytes) \<Rightarrow> dba_result list" where
  "map_ops [] m = []"
| "map_ops (Fetch k # xs) m = Value (m k) # map_ops xs m"
| "map_ops (Replace k v # xs) m = Status True # map_ops xs (m(k \<mapsto> v))"
| "map_ops (Insert k v # xs) m =
     (if m k = None then Status True # map_ops xs (m(k \<mapsto> v)) else Status False # map_ops xs m)"
| "map_ops (Delete k # xs) m = Status (m k \<noteq> None) # map_ops xs (m(k := None))"

fun op_ok :: "(bytes \<Rightarrow> bool) \<Rightarrow> (bytes \<Rightarrow> bool) \<Rightarrow> dba_op \<Rightarrow> bool" where
  "op_ok key_ok val_ok (Fetch k) = key_ok k"
| "op_ok key_ok val_ok (Replace k v) = (key_ok k \<and> val_ok v)"
| "op_ok key_ok val_ok (Insert k v) = (key_ok k \<and> val_ok v)"
| "op_ok key_ok val_ok (Delete k) = key_ok k"

locale dba_dictionary =
  fixes represents :: "'d \<Rightarrow> (bytes \<rightharpoonup> bytes) \<Rightarrow> bool"
    and get :: "'d \<Rightarrow> bytes \<Rightarrow> bytes option \<times> 'd"
    and put :: "'d \<Rightarrow> bytes \<Rightarrow> bytes \<Rightarrow> bool \<times> 'd"
    and add :: "'d \<Rightarrow> bytes \<Rightarrow> bytes \<Rightarrow> bool \<times> 'd"
    and del :: "'d \<Rightarrow> bytes \<Rightarrow> bool \<times> 'd"
    and key_ok :: "bytes \<Rightarrow> bool"
    and val_ok :: "bytes \<Rightarrow> bool"
  assumes get_law: "represents d m \<Longrightarrow> key_ok k \<Longrightarrow> fst (get d k) = m k \<and> represents (snd (get d k)) m"
    and put_law: "represents d m \<Longrightarrow> key_ok k \<Longrightarrow> val_ok v \<Longrightarrow>
      fst (put d k v) \<and> represents (snd (put d k v)) (m(k \<mapsto> v))"
    and add_law: "represents d m \<Longrightarrow> key_ok k \<Longrightarrow> val_ok v \<Longrightarrow> fst (add d k v) = (m k = None) \<and>
      represents (snd (add d k v)) (if m k = None then m(k \<mapsto> v) else m)"
    and del_law: "represents d m \<Longrightarrow> key_ok k \<Longrightarrow> fst (del d k) = (m k \<noteq> None) \<and>
      represents (snd (del d k)) (m(k := None))"
begin

lemma run_is_map:
  assumes "represents d m" "\<forall>x \<in> set xs. op_ok key_ok val_ok x"
  shows "fst (run_ops get put add del xs d) = map_ops xs m"
  using assms
proof (induction xs arbitrary: d m)
  case (Cons x xs)
  show ?case
  proof (cases x)
    case (Fetch k)
    with Cons get_law [of d m k] show ?thesis by (auto simp: Let_def case_prod_beta)
  next
    case (Replace k v)
    with Cons put_law [of d m k v] show ?thesis by (auto simp: Let_def case_prod_beta)
  next
    case (Insert k v)
    with Cons.prems add_law [of d m k v] Cons.IH [of "snd (add d k v)"]
    show ?thesis by (cases "m k = None") (simp_all add: Let_def case_prod_beta fun_upd_def)
  next
    case (Delete k)
    with Cons del_law [of d m k] show ?thesis by (auto simp: Let_def case_prod_beta)
  qed
qed simp

text \<open>A replaced value is what the next fetch of its key returns, and no other key changes.\<close>

lemma get_after_put:
  assumes "represents d m" "key_ok k" "val_ok v" "key_ok k'"
  shows "fst (get (snd (put d k v)) k') = (if k' = k then Some v else m k')"
  using put_law [OF assms(1-3)] get_law assms(4) by fastforce

end

section \<open>Walking over the keys\<close>

text \<open>
  What a script does with \<^verbatim>\<open>dba_firstkey\<close> and \<^verbatim>\<open>dba_nextkey\<close>: it collects keys until NULL. The number
  bounds the calls of \<^verbatim>\<open>dba_nextkey\<close>; \<^const>\<open>None\<close> means that a call does not return or that the bound was reached.
\<close>

fun walk :: "('d \<Rightarrow> ('k option \<times> 'd) option) \<Rightarrow> nat \<Rightarrow> ('k option \<times> 'd) option \<Rightarrow> 'k list option" where
  "walk nextkey n None = None"
| "walk nextkey n (Some (None, d)) = Some []"
| "walk nextkey 0 (Some (Some k, d)) = None"
| "walk nextkey (Suc n) (Some (Some k, d)) = map_option ((#) k) (walk nextkey n (nextkey d))"

end
