(* ===== verification/Flatfile.thy ===== *)
theory Flatfile
  imports PhpStream DbaContract
begin

text \<open>
  The flat file database, \<^verbatim>\<open>compile/extensions/dba/libflatfile/flatfile.c\<close>, and its handler,
  \<^verbatim>\<open>compile/extensions/dba/dba_flatfile.c\<close>. A file is a sequence of records, each the decimal length of the key,
  a newline, the key, the decimal length of the value, a newline, the value; a record is deleted by
  a NUL byte over the first byte of its key.

  The read buffer is a list of bytes that a read overlays from its start, because the code looks at
  its first byte after reads of any length; \<^verbatim>\<open>size_t\<close> is a 32-bit word. The loops run until the
  stream says so: they are partial functions, \<^const>\<open>None\<close> for not returning.
\<close>

definition FLATFILE_BLOCK_SIZE :: u32 where
  "FLATFILE_BLOCK_SIZE = 1024"

text \<open>\<^verbatim>\<open>atoi\<close>: white space, a sign, digits; the value is taken modulo \<open>2^32\<close>.\<close>

definition atoi :: "bytes \<Rightarrow> u32" where
  "atoi buf =
     (let s = dropWhile isspace (cstr buf)
      in case s of
           [] \<Rightarrow> 0
         | c # r \<Rightarrow> if c = CHR ''-'' then - word_of_nat (read_dec 0 r)
                    else if c = CHR ''+'' then word_of_nat (read_dec 0 r) else word_of_nat (read_dec 0 s))"

definition overlay :: "bytes \<Rightarrow> bytes \<Rightarrow> bytes" where
  "overlay bs buf = bs @ drop (length bs) buf"

text \<open>The macro: \<^const>\<open>None\<close> when the caller stops, otherwise the size of the buffer afterwards.\<close>

definition FLATFILE_GROW_BUF :: "u32 \<Rightarrow> u32 \<Rightarrow> u32 option" where
  "FLATFILE_GROW_BUF num buf_size =
     (if num \<ge> buf_size
      then (if num > 0xffffffff - FLATFILE_BLOCK_SIZE then None else Some (num + FLATFILE_BLOCK_SIZE))
      else Some buf_size)"

text \<open>The two steps every loop is made of: a length line with the macro, and the bytes it announces.\<close>

definition read_length :: "'s php_stream_ops \<Rightarrow> bytes \<Rightarrow> u32 \<Rightarrow> 's \<Rightarrow> (u32 \<times> bytes \<times> u32) option \<times> 's" where
  "read_length ops buf buf_size s =
     (case stream_gets ops (Some 15) s of
        (None, s1) \<Rightarrow> (None, s1)
      | (Some l, s1) \<Rightarrow>
          let buf1 = overlay (l @ [nul]) buf; num = atoi buf1
          in (map_option (\<lambda>sz. (num, buf1, sz)) (FLATFILE_GROW_BUF num buf_size), s1))"

definition read_data :: "'s php_stream_ops \<Rightarrow> u32 \<Rightarrow> bytes \<Rightarrow> 's \<Rightarrow> (u32 \<times> bytes) \<times> 's" where
  "read_data ops num buf s =
     (case stream_read ops (unat num) s of
        (Data bs, s1) \<Rightarrow> ((word_of_nat (length bs), overlay bs buf), s1)
      | (ReadError _, s1) \<Rightarrow> ((-1, buf), s1))"

partial_function (option) findkey_loop ::
    "'s php_stream_ops \<Rightarrow> bytes \<Rightarrow> bytes \<Rightarrow> u32 \<Rightarrow> 's \<Rightarrow> (bool \<times> 's) option" where
  "findkey_loop ops key buf buf_size s =
     (if stream_eof ops s then Some (False, s)
      else case read_length ops buf buf_size s of (l1, s1) \<Rightarrow>
        (case l1 of
           None \<Rightarrow> Some (False, s1)
         | Some x \<Rightarrow>
             (case read_data ops (fst x) (fst (snd x)) s1 of (d1, s2) \<Rightarrow>
                if word_of_nat (length key) = fst d1 \<and> take (length key) (snd d1) = key then Some (True, s2)
                else (case read_length ops (snd d1) (snd (snd x)) s2 of (l2, s3) \<Rightarrow>
                       (case l2 of
                          None \<Rightarrow> Some (False, s3)
                        | Some y \<Rightarrow>
                            (case read_data ops (fst y) (fst (snd y)) s3 of (d2, s4) \<Rightarrow>
                               findkey_loop ops key (snd d2) (snd (snd y)) s4))))))"

definition flatfile_findkey :: "'s php_stream_ops \<Rightarrow> 's \<Rightarrow> bytes \<Rightarrow> (bool \<times> 's) option" where
  "flatfile_findkey ops s key = findkey_loop ops key [] FLATFILE_BLOCK_SIZE (snd (stream_seek ops 0 SEEK_SET s))"

text \<open>\<^verbatim>\<open>flatfile_delete\<close>: the result is \<^verbatim>\<open>SUCCESS\<close> (0) or \<^verbatim>\<open>FAILURE\<close> (-1).\<close>

partial_function (option) delete_loop ::
    "'s php_stream_ops \<Rightarrow> bytes \<Rightarrow> bytes \<Rightarrow> u32 \<Rightarrow> 's \<Rightarrow> (int \<times> 's) option" where
  "delete_loop ops key buf buf_size s =
     (if stream_eof ops s then Some (-1, s)
      else case read_length ops buf buf_size s of (l1, s1) \<Rightarrow>
        (case l1 of
           None \<Rightarrow> Some (-1, s1)
         | Some x \<Rightarrow>
             (case read_data ops (fst x) (fst (snd x)) s1 of (d1, s2) \<Rightarrow>
                if word_of_nat (length key) = fst d1 \<and> take (length key) (snd d1) = key
                then let s3 = snd (stream_seek ops (stream_tell ops s1) SEEK_SET s2);
                         s4 = snd (stream_write ops [nul] s3);
                         s5 = snd (stream_flush ops s4)
                     in Some (0, snd (stream_seek ops 0 SEEK_END s5))
                else (case read_length ops (snd d1) (snd (snd x)) s2 of (l2, s3) \<Rightarrow>
                       (case l2 of
                          None \<Rightarrow> Some (-1, s3)
                        | Some y \<Rightarrow>
                            (case read_data ops (fst y) (fst (snd y)) s3 of (d2, s4) \<Rightarrow>
                               delete_loop ops key (snd d2) (snd (snd y)) s4))))))"

definition flatfile_delete :: "'s php_stream_ops \<Rightarrow> 's \<Rightarrow> bytes \<Rightarrow> (int \<times> 's) option" where
  "flatfile_delete ops s key = delete_loop ops key [] FLATFILE_BLOCK_SIZE (snd (stream_seek ops 0 SEEK_SET s))"

text \<open>Appending a record: the same four writes in both modes, with the early returns on short writes.\<close>

definition write_short :: "int \<Rightarrow> bytes \<Rightarrow> bool" where
  "write_short r bs \<longleftrightarrow> (word_of_int r :: u32) < word_of_nat (length bs)"

definition append_record :: "'s php_stream_ops \<Rightarrow> bool \<Rightarrow> bytes \<Rightarrow> bytes \<Rightarrow> 's \<Rightarrow> int \<times> 's" where
  "append_record ops flush_before_value key value s =
     (let s1 = snd (stream_write ops (dec_nat (length key) @ [newline]) s);
          s2 = snd (stream_flush ops s1);
          (r3, s3) = stream_write ops key s2
      in if write_short r3 key then (-1, s3)
         else let s4 = snd (stream_write ops (dec_nat (length value) @ [newline]) s3);
                  s5 = (if flush_before_value then snd (stream_flush ops s4) else s4);
                  (r6, s6) = stream_write ops value s5
              in if write_short r6 value then (-1, s6) else (0, snd (stream_flush ops s6)))"

definition flatfile_store :: "'s php_stream_ops \<Rightarrow> 's \<Rightarrow> bytes \<Rightarrow> bytes \<Rightarrow> bool \<Rightarrow> (int \<times> 's) option" where
  "flatfile_store ops s key value ins =
     (if ins
      then case flatfile_findkey ops s key of
             None \<Rightarrow> None
           | Some (found, s1) \<Rightarrow>
               if found then Some (1, s1)
               else Some (append_record ops True key value (snd (stream_seek ops 0 SEEK_END s1)))
      else case flatfile_delete ops s key of
             None \<Rightarrow> None
           | Some (r, s1) \<Rightarrow> Some (append_record ops False key value s1))"

text \<open>A \<^verbatim>\<open>datum\<close>: \<^const>\<open>None\<close> for a NULL pointer, otherwise the bytes it points to and the field \<^verbatim>\<open>dsize\<close>.\<close>

type_synonym datum = "(bytes \<times> u32) option"

definition flatfile_fetch :: "'s php_stream_ops \<Rightarrow> 's \<Rightarrow> bytes \<Rightarrow> (datum \<times> 's) option" where
  "flatfile_fetch ops s key =
     (case flatfile_findkey ops s key of
        None \<Rightarrow> None
      | Some (found, s1) \<Rightarrow>
          if \<not> found then Some (None, s1)
          else (case stream_gets ops (Some 16) s1 of
                  (None, s2) \<Rightarrow> Some (None, s2)
                | (Some l, s2) \<Rightarrow>
                    (case stream_read ops (unat (atoi (l @ [nul]))) s2 of
                       (Data bs, s3) \<Rightarrow> Some (Some (bs, word_of_nat (length bs)), s3)
                     | (ReadError _, s3) \<Rightarrow> Some (Some ([], -1), s3))))"

text \<open>The traversal: \<^verbatim>\<open>*buf != 0\<close> tells a live record from a deleted one.\<close>

partial_function (option) firstkey_loop ::
    "'s php_stream_ops \<Rightarrow> bytes \<Rightarrow> u32 \<Rightarrow> 's \<Rightarrow> (datum \<times> 's) option" where
  "firstkey_loop ops buf buf_size s =
     (if stream_eof ops s then Some (None, s)
      else case read_length ops buf buf_size s of (l1, s1) \<Rightarrow>
        (case l1 of
           None \<Rightarrow> Some (None, s1)
         | Some x \<Rightarrow>
             (case read_data ops (fst x) (fst (snd x)) s1 of (d1, s2) \<Rightarrow>
                if hd (snd d1) \<noteq> nul then Some (Some (snd d1, fst d1), s2)
                else (case read_length ops (snd d1) (snd (snd x)) s2 of (l2, s3) \<Rightarrow>
                       (case l2 of
                          None \<Rightarrow> Some (None, s3)
                        | Some y \<Rightarrow>
                            (case read_data ops (fst y) (fst (snd y)) s3 of (d2, s4) \<Rightarrow>
                               firstkey_loop ops (snd d2) (snd (snd y)) s4))))))"

partial_function (option) nextkey_loop ::
    "'s php_stream_ops \<Rightarrow> bytes \<Rightarrow> u32 \<Rightarrow> 's \<Rightarrow> (datum \<times> 's) option" where
  "nextkey_loop ops buf buf_size s =
     (if stream_eof ops s then Some (None, s)
      else case read_length ops buf buf_size s of (l1, s1) \<Rightarrow>
        (case l1 of
           None \<Rightarrow> Some (None, s1)
         | Some x \<Rightarrow>
             (case read_data ops (fst x) (fst (snd x)) s1 of (d1, s2) \<Rightarrow>
               (case read_length ops (snd d1) (snd (snd x)) s2 of (l2, s3) \<Rightarrow>
                 (case l2 of
                    None \<Rightarrow> Some (None, s3)
                  | Some y \<Rightarrow>
                      (case read_data ops (fst y) (fst (snd y)) s3 of (d2, s4) \<Rightarrow>
                         if hd (snd d2) \<noteq> nul then Some (Some (snd d2, fst d2), s4)
                         else nextkey_loop ops (snd d2) (snd (snd y)) s4))))))"

section \<open>The handler\<close>

record 's flatfile =
  ff_fp :: 's
  CurrentFlatFilePos :: u32
  nextkey :: datum

definition remember_pos :: "'s php_stream_ops \<Rightarrow> 's flatfile \<Rightarrow> datum \<times> 's \<Rightarrow> datum \<times> 's flatfile" where
  "remember_pos ops dba = (\<lambda>(res, s). (res, dba\<lparr>ff_fp := s,
     CurrentFlatFilePos := (if res = None then CurrentFlatFilePos dba else word_of_int (stream_tell ops s))\<rparr>))"

definition flatfile_firstkey :: "'s php_stream_ops \<Rightarrow> 's flatfile \<Rightarrow> (datum \<times> 's flatfile) option" where
  "flatfile_firstkey ops dba =
     map_option (remember_pos ops dba)
       (firstkey_loop ops [] FLATFILE_BLOCK_SIZE (snd (stream_seek ops 0 SEEK_SET (ff_fp dba))))"

definition flatfile_nextkey :: "'s php_stream_ops \<Rightarrow> 's flatfile \<Rightarrow> (datum \<times> 's flatfile) option" where
  "flatfile_nextkey ops dba =
     map_option (remember_pos ops dba)
       (nextkey_loop ops [] FLATFILE_BLOCK_SIZE
          (snd (stream_seek ops (uint (CurrentFlatFilePos dba)) SEEK_SET (ff_fp dba))))"

definition flatfile_version :: string where
  "flatfile_version = ''1.0, $Id$''"

text \<open>\<^verbatim>\<open>zend_string_init(dptr, dsize)\<close>: copying more bytes than there are is an error.\<close>

datatype dba_value = NullVal | Val bytes | Overrun

definition string_of_datum :: "datum \<Rightarrow> dba_value" where
  "string_of_datum d = (case d of
       None \<Rightarrow> NullVal
     | Some (bs, n) \<Rightarrow> if unat n \<le> length bs then Val (take (unat n) bs) else Overrun)"

definition dba_open_flatfile :: "'s \<Rightarrow> 's flatfile" where
  "dba_open_flatfile s = \<lparr>ff_fp = s, CurrentFlatFilePos = 0, nextkey = None\<rparr>"

definition dba_close_flatfile :: "'s flatfile \<Rightarrow> 's" where
  "dba_close_flatfile dba = ff_fp dba"

definition dba_fetch_flatfile :: "'s php_stream_ops \<Rightarrow> 's flatfile \<Rightarrow> bytes \<Rightarrow> (dba_value \<times> 's flatfile) option" where
  "dba_fetch_flatfile ops dba key =
     map_option (\<lambda>(gval, s). (string_of_datum gval, dba\<lparr>ff_fp := s\<rparr>)) (flatfile_fetch ops (ff_fp dba) key)"

definition dba_update_flatfile :: "'s php_stream_ops \<Rightarrow> 's flatfile \<Rightarrow> bytes \<Rightarrow> bytes \<Rightarrow> bool \<Rightarrow> (int \<times> 's flatfile) option" where
  "dba_update_flatfile ops dba key val mode =
     map_option (\<lambda>(r, s). (if r = 0 then 0 else -1, dba\<lparr>ff_fp := s\<rparr>)) (flatfile_store ops (ff_fp dba) key val mode)"

definition dba_exists_flatfile :: "'s php_stream_ops \<Rightarrow> 's flatfile \<Rightarrow> bytes \<Rightarrow> (int \<times> 's flatfile) option" where
  "dba_exists_flatfile ops dba key =
     map_option (\<lambda>(gval, s). (if gval = None then -1 else 0, dba\<lparr>ff_fp := s\<rparr>)) (flatfile_fetch ops (ff_fp dba) key)"

definition dba_delete_flatfile :: "'s php_stream_ops \<Rightarrow> 's flatfile \<Rightarrow> bytes \<Rightarrow> (int \<times> 's flatfile) option" where
  "dba_delete_flatfile ops dba key =
     map_option (\<lambda>(r, s). (if r = -1 then -1 else 0, dba\<lparr>ff_fp := s\<rparr>)) (flatfile_delete ops (ff_fp dba) key)"

definition dba_firstkey_flatfile :: "'s php_stream_ops \<Rightarrow> 's flatfile \<Rightarrow> (dba_value \<times> 's flatfile) option" where
  "dba_firstkey_flatfile ops dba =
     map_option (\<lambda>(k, d). (string_of_datum k, d\<lparr>nextkey := k\<rparr>)) (flatfile_firstkey ops dba)"

definition dba_nextkey_flatfile :: "'s php_stream_ops \<Rightarrow> 's flatfile \<Rightarrow> (dba_value \<times> 's flatfile) option" where
  "dba_nextkey_flatfile ops dba =
     (if nextkey dba = None then Some (NullVal, dba)
      else map_option (\<lambda>(k, d). (string_of_datum k, d\<lparr>nextkey := k\<rparr>)) (flatfile_nextkey ops dba))"

definition dba_optimize_flatfile :: "'s flatfile \<Rightarrow> int" where
  "dba_optimize_flatfile dba = 0"

definition dba_sync_flatfile :: "'s flatfile \<Rightarrow> int" where
  "dba_sync_flatfile dba = 0"

definition dba_info_flatfile :: string where
  "dba_info_flatfile = flatfile_version"

section \<open>Length lines\<close>

text \<open>The buffer always holds the bytes about to be read and one more.\<close>

lemma grow_buf_fits: "FLATFILE_GROW_BUF num buf_size = Some sz \<Longrightarrow> num < sz \<and> buf_size \<le> sz"
proof -
  assume grow: "FLATFILE_GROW_BUF num buf_size = Some sz"
  show ?thesis
  proof (cases "buf_size \<le> num")
    case True
    then have "num \<le> 0xffffffff - 1024" "sz = num + 1024"
      using grow by (auto simp: FLATFILE_GROW_BUF_def FLATFILE_BLOCK_SIZE_def not_less split: if_splits)
    then have "unat num \<le> 4294966271" "sz = num + 1024" by (simp_all add: word_le_nat_alt)
    then have "unat sz = unat num + 1024" by (simp add: unat_word_ariths)
    then show ?thesis using True by (simp add: word_less_nat_alt word_le_nat_alt)
  next
    case False
    then have "sz = buf_size" using grow by (simp add: FLATFILE_GROW_BUF_def)
    with False show ?thesis by (simp add: not_le)
  qed
qed

lemma dec_nat_length: "n < 10 ^ Suc k \<Longrightarrow> length (dec_nat n) \<le> Suc k"
proof (induction k arbitrary: n)
  case 0
  then show ?case by (simp add: dec_nat.simps)
next
  case (Suc k)
  then have "n div 10 < 10 ^ Suc k" by (simp add: less_mult_imp_div_less)
  then show ?case using Suc.IH [of "n div 10"] by (simp add: dec_nat.simps [of n])
qed

lemma dec_nat_no_newline: "newline \<notin> set (dec_nat n)"
  using dec_nat_digits [of newline n] by (auto simp: digit_val_def)

lemma line_of_dec:
  assumes "n < 2147483648" "12 \<le> c" shows "line_of (Some c) (dec_nat n @ newline # r) = dec_nat n @ [newline]"
proof -
  have "n < 10 ^ Suc 9" using assms(1) by simp
  from dec_nat_length [OF this] assms(2) show ?thesis
    by (simp add: line_of_def upto_newline_line dec_nat_no_newline)
qed

lemma digit_not_space: "digit_val c \<noteq> None \<Longrightarrow> \<not> isspace c \<and> c \<noteq> CHR ''-'' \<and> c \<noteq> CHR ''+'' \<and> c \<noteq> nul"
  by (auto simp: isspace_def digit_val_def Let_def split: if_splits)

lemma atoi_line: "atoi ((dec_nat n @ [newline]) @ nul # r) = word_of_nat n"
proof -
  have "cstr ((dec_nat n @ [newline]) @ nul # r) = dec_nat n @ [newline]"
    using dec_nat_c_string [of n] by (intro cstr_append_nul) (simp add: c_string_def)
  moreover obtain c cs where d: "dec_nat n = c # cs" by (cases "dec_nat n") auto
  moreover have "digit_val c \<noteq> None" using dec_nat_digits [of c n] d by simp
  moreover have "read_dec 0 (dec_nat n @ [newline]) = n"
    by (rule read_dec_dec_nat) (simp add: digit_val_def)
  ultimately show ?thesis
    using digit_not_space [of c] by (simp add: atoi_def Let_def d)
qed

section \<open>The file as a list of records\<close>

definition ff_rec :: "bytes \<times> bytes \<Rightarrow> bytes" where
  "ff_rec kv = dec_nat (length (fst kv)) @ newline # fst kv @ dec_nat (length (snd kv)) @ newline # snd kv"

definition ff_file :: "(bytes \<times> bytes) list \<Rightarrow> bytes" where
  "ff_file rs = concat (map ff_rec rs)"

definition small :: "bytes \<Rightarrow> bool" where
  "small bs \<longleftrightarrow> length bs < 2147483648"

definition small_records :: "(bytes \<times> bytes) list \<Rightarrow> bool" where
  "small_records rs \<longleftrightarrow> (\<forall>kv \<in> set rs. small (fst kv) \<and> small (snd kv))"

lemma ff_file_simps [simp]:
  "ff_file [] = []" "ff_file (kv # rs) = ff_rec kv @ ff_file rs" "ff_file (rs @ rs') = ff_file rs @ ff_file rs'"
  by (simp_all add: ff_file_def)

lemma ff_rec_nonempty [simp]: "ff_rec kv \<noteq> []"
  by (simp add: ff_rec_def)

lemma hd_overlay: "bs \<noteq> [] \<Longrightarrow> hd (overlay bs buf) = hd bs"
  by (simp add: overlay_def)

lemma take_overlay [simp]: "take (length bs) (overlay bs buf) = bs"
  by (simp add: overlay_def)

text \<open>Deleting on the list: the first record with the key gets a NUL for the key's first byte.\<close>

fun mark :: "bytes \<Rightarrow> (bytes \<times> bytes) list \<Rightarrow> (bytes \<times> bytes) list" where
  "mark key [] = []"
| "mark key ((k, v) # rs) = (if k = key then (nul # tl k, v) # rs else (k, v) # mark key rs)"

lemma write_at_byte: "write_at (a @ x # b) (length a) [y] = a @ y # b"
  by (simp add: write_at_def)

text \<open>Where a search ends: just after the key of the first record that has it, or at the end.\<close>

definition search_end ::
    "('s \<Rightarrow> bytes) \<Rightarrow> ('s \<Rightarrow> nat) \<Rightarrow> bytes \<Rightarrow> (bytes \<times> bytes) list \<Rightarrow> bytes \<Rightarrow> 's \<Rightarrow> bool" where
  "search_end contents offset pre rs key s' \<longleftrightarrow>
     (if key \<in> fst ` set rs
      then \<exists>rs1 v rs2. rs = rs1 @ (key, v) # rs2 \<and> key \<notin> fst ` set rs1 \<and>
        offset s' = length (pre @ ff_file rs1 @ dec_nat (length key) @ newline # key)
      else offset s' = length (contents s'))"

lemma search_end_Cons:
  assumes "search_end contents offset (pre @ ff_rec (k, v)) rs key s'" "k \<noteq> key"
  shows "search_end contents offset pre ((k, v) # rs) key s'"
proof (cases "key \<in> fst ` set rs")
  case True
  with assms(1) obtain rs1 w rs2 where "rs = rs1 @ (key, w) # rs2" "key \<notin> fst ` set rs1"
      "offset s' = length ((pre @ ff_rec (k, v)) @ ff_file rs1 @ dec_nat (length key) @ newline # key)"
    by (auto simp: search_end_def)
  then have "\<exists>rs1 w rs2. (k, v) # rs = rs1 @ (key, w) # rs2 \<and> key \<notin> fst ` set rs1 \<and>
      offset s' = length (pre @ ff_file rs1 @ dec_nat (length key) @ newline # key)"
    using assms(2) by (intro exI [of _ "(k, v) # rs1"] exI [of _ w] exI [of _ rs2]) simp
  then show ?thesis using True unfolding search_end_def by simp
next
  case False
  then show ?thesis using assms by (auto simp: search_end_def)
qed

lemma key_test:
  assumes "small k" "small key"
  shows "(word_of_nat (length key) :: u32) = word_of_nat (length k) \<and> take (length key) (overlay k buf) = key \<longleftrightarrow> k = key"
proof -
  have "(word_of_nat (length key) :: u32) = word_of_nat (length k) \<longleftrightarrow> length key = length k"
    using assms by (simp add: small_def word_unat_eq_iff unat_of_nat_u32)
  then show ?thesis by (auto simp: overlay_def)
qed

context php_file
begin

lemma read_length_ok:
  assumes f: "contents s = pre @ dec_nat n @ newline # r" "offset s = length pre" and n: "n < 2147483648"
  shows "\<exists>sz s'. read_length ops buf buf_size s =
      (Some (word_of_nat n, overlay ((dec_nat n @ [newline]) @ [nul]) buf, sz), s') \<and>
    contents s' = contents s \<and> offset s' = length (pre @ dec_nat n @ [newline])"
proof -
  have l: "line_of (Some 15) (drop (offset s) (contents s)) = dec_nat n @ [newline]"
    using f n by (simp add: line_of_dec)
  obtain s' where s': "stream_gets ops (Some 15) s = (Some (dec_nat n @ [newline]), s')" "contents s' = contents s"
      "offset s' = offset s + length (dec_nat n @ [newline])"
    using gets_line [of s "Some 15"] f unfolding l by auto
  have a: "atoi (overlay ((dec_nat n @ [newline]) @ [nul]) buf) = word_of_nat n"
    using atoi_line [of n] by (simp add: overlay_def)
  have "\<not> (word_of_nat n :: u32) > 0xffffffff - FLATFILE_BLOCK_SIZE"
    using n by (simp add: FLATFILE_BLOCK_SIZE_def word_less_nat_alt unat_of_nat_u32)
  then obtain sz where "FLATFILE_GROW_BUF (word_of_nat n) buf_size = Some sz"
    by (cases "buf_size \<le> word_of_nat n") (simp_all add: FLATFILE_GROW_BUF_def)
  then show ?thesis using s' a f(2) by (simp add: read_length_def Let_def)
qed

lemma read_data_ok:
  assumes f: "contents s = pre @ bs @ r" "offset s = length pre" and n: "small bs"
  shows "\<exists>s'. read_data ops (word_of_nat (length bs)) buf s = ((word_of_nat (length bs), overlay bs buf), s') \<and>
    contents s' = contents s \<and> offset s' = length (pre @ bs)"
proof -
  have u: "unat (word_of_nat (length bs) :: u32) = length bs" using n by (simp add: small_def unat_of_nat_u32)
  obtain s' where "stream_read ops (length bs) s = (Data (take (length bs) (drop (offset s) (contents s))), s')"
      "contents s' = contents s" "offset s' = offset s + length (take (length bs) (drop (offset s) (contents s)))"
    using read_some [of "length bs" s] read_full by metis
  then show ?thesis using f by (simp add: read_data_def u)
qed

lemma not_eof: "offset s < length (contents s) \<Longrightarrow> \<not> stream_eof ops s"
  using eof_end [of s] by linarith

text \<open>The key part and the value part of a record, as each loop reads them.\<close>

lemma read_key_part:
  assumes f: "contents s = pre @ ff_rec (k, v) @ r" "offset s = length pre" and k: "small k"
  obtains sz s1 s2 where "\<not> stream_eof ops s"
    "read_length ops buf buf_size s = (Some (word_of_nat (length k), overlay ((dec_nat (length k) @ [newline]) @ [nul]) buf, sz), s1)"
    "contents s1 = contents s" "offset s1 = length (pre @ dec_nat (length k) @ [newline])"
    "\<And>buf'. read_data ops (word_of_nat (length k)) buf' s1 = ((word_of_nat (length k), overlay k buf'), s2)"
    "contents s2 = contents s" "offset s2 = length (pre @ dec_nat (length k) @ newline # k)"
proof -
  have f1: "contents s = pre @ dec_nat (length k) @ newline # (k @ dec_nat (length v) @ newline # v @ r)"
    using f(1) by (simp add: ff_rec_def)
  obtain sz s1 where s1: "read_length ops buf buf_size s =
      (Some (word_of_nat (length k), overlay ((dec_nat (length k) @ [newline]) @ [nul]) buf, sz), s1)"
      "contents s1 = contents s" "offset s1 = length (pre @ dec_nat (length k) @ [newline])"
    using read_length_ok [OF f1 f(2) k [unfolded small_def], of buf buf_size] by blast
  have f2: "contents s1 = (pre @ dec_nat (length k) @ [newline]) @ k @ (dec_nat (length v) @ newline # v @ r)"
    using s1(2) f1 by simp
  obtain s2 where s2: "read_data ops (word_of_nat (length k)) [] s1 = ((word_of_nat (length k), overlay k []), s2)"
      "contents s2 = contents s1" "offset s2 = length ((pre @ dec_nat (length k) @ [newline]) @ k)"
    using read_data_ok [OF f2 s1(3) k] by blast
  have "read_data ops (word_of_nat (length k)) buf' s1 = ((word_of_nat (length k), overlay k buf'), s2)" for buf'
    using read_data_ok [OF f2 s1(3) k, of buf'] s2(1) by (auto simp: read_data_def split: prod.splits read_result.splits)
  then show thesis
    using s1 s2 f by (intro that [of sz s1 s2] not_eof) (simp_all add: ff_rec_def)
qed

lemma read_value_part:
  assumes f: "contents s = pre @ dec_nat (length v) @ newline # v @ r" "offset s = length pre" and v: "small v"
  obtains sz s1 s2 where
    "read_length ops buf buf_size s = (Some (word_of_nat (length v), overlay ((dec_nat (length v) @ [newline]) @ [nul]) buf, sz), s1)"
    "\<And>buf'. read_data ops (word_of_nat (length v)) buf' s1 = ((word_of_nat (length v), overlay v buf'), s2)"
    "contents s2 = contents s" "offset s2 = length (pre @ dec_nat (length v) @ newline # v)"
proof -
  obtain sz s1 where s1: "read_length ops buf buf_size s =
      (Some (word_of_nat (length v), overlay ((dec_nat (length v) @ [newline]) @ [nul]) buf, sz), s1)"
      "contents s1 = contents s" "offset s1 = length (pre @ dec_nat (length v) @ [newline])"
    using read_length_ok [OF f v [unfolded small_def], of buf buf_size] by blast
  have f2: "contents s1 = (pre @ dec_nat (length v) @ [newline]) @ v @ r" using s1(2) f(1) by simp
  obtain s2 where s2: "read_data ops (word_of_nat (length v)) [] s1 = ((word_of_nat (length v), overlay v []), s2)"
      "contents s2 = contents s1" "offset s2 = length ((pre @ dec_nat (length v) @ [newline]) @ v)"
    using read_data_ok [OF f2 s1(3) v] by blast
  have "read_data ops (word_of_nat (length v)) buf' s1 = ((word_of_nat (length v), overlay v buf'), s2)" for buf'
    using read_data_ok [OF f2 s1(3) v, of buf'] s2(1) by (auto simp: read_data_def split: prod.splits read_result.splits)
  then show thesis using s1 s2 by (intro that [of sz s1 s2]) simp_all
qed

lemma read_length_at_end:
  "length (contents s) \<le> offset s \<Longrightarrow> \<exists>s'. read_length ops buf buf_size s = (None, s') \<and> contents s' = contents s \<and> offset s' = offset s"
  using gets_eof [of s "Some 15"] by (auto simp: read_length_def)

lemma findkey_loop_ok:
  assumes "contents s = pre @ ff_file rs" "offset s = length pre" "small_records rs" "small key"
  shows "\<exists>s'. findkey_loop ops key buf buf_size s = Some (key \<in> fst ` set rs, s') \<and> contents s' = contents s \<and>
    search_end contents offset pre rs key s'"
  using assms
proof (induction rs arbitrary: s pre buf buf_size)
  case Nil
  obtain s' where "read_length ops buf buf_size s = (None, s')" "contents s' = contents s" "offset s' = offset s"
    using read_length_at_end [of s buf buf_size] Nil by auto
  then show ?case
    using Nil by (subst findkey_loop.simps) (auto simp: search_end_def)
next
  case (Cons kv rs)
  obtain k v where kv: "kv = (k, v)" by (cases kv)
  have sm: "small k" "small v" "small_records rs" using Cons.prems(3) kv by (auto simp: small_records_def)
  have f0: "contents s = pre @ ff_rec (k, v) @ ff_file rs" using Cons.prems(1) kv by simp
  obtain sz s1 s2 where kp: "\<not> stream_eof ops s"
      "read_length ops buf buf_size s = (Some (word_of_nat (length k), overlay ((dec_nat (length k) @ [newline]) @ [nul]) buf, sz), s1)"
      "contents s1 = contents s" "offset s1 = length (pre @ dec_nat (length k) @ [newline])"
      "\<And>buf'. read_data ops (word_of_nat (length k)) buf' s1 = ((word_of_nat (length k), overlay k buf'), s2)"
      "contents s2 = contents s" "offset s2 = length (pre @ dec_nat (length k) @ newline # k)"
    by (rule read_key_part [OF f0 Cons.prems(2) sm(1), where buf = buf and buf_size = buf_size]) blast
  let ?b = "overlay k (overlay ((dec_nat (length k) @ [newline]) @ [nul]) buf)"
  show ?case
  proof (cases "k = key")
    case True
    have "findkey_loop ops key buf buf_size s = Some (True, s2)"
      using kp(1,2,5) key_test [OF sm(1) Cons.prems(4)] True by (subst findkey_loop.simps) simp
    moreover have "search_end contents offset pre (kv # rs) key s2"
    proof -
      have "\<exists>rs1 w rs2. kv # rs = rs1 @ (key, w) # rs2 \<and> key \<notin> fst ` set rs1 \<and>
          offset s2 = length (pre @ ff_file rs1 @ dec_nat (length key) @ newline # key)"
        using kp(7) kv True by (intro exI [of _ "[]"] exI [of _ v] exI [of _ rs]) simp
      then show ?thesis using kv True by (simp add: search_end_def)
    qed
    ultimately show ?thesis using kp(6) kv True by auto
  next
    case False
    have f2: "contents s2 = (pre @ dec_nat (length k) @ newline # k) @ dec_nat (length v) @ newline # v @ ff_file rs"
      using kp(6) f0 by (simp add: ff_rec_def)
    obtain sz' s3 s4 where vp:
        "read_length ops ?b sz s2 = (Some (word_of_nat (length v), overlay ((dec_nat (length v) @ [newline]) @ [nul]) ?b, sz'), s3)"
        "\<And>buf'. read_data ops (word_of_nat (length v)) buf' s3 = ((word_of_nat (length v), overlay v buf'), s4)"
        "contents s4 = contents s2" "offset s4 = length ((pre @ dec_nat (length k) @ newline # k) @ dec_nat (length v) @ newline # v)"
      by (rule read_value_part [OF f2 kp(7) sm(2), where buf = ?b and buf_size = sz]) blast
    let ?b2 = "overlay v (overlay ((dec_nat (length v) @ [newline]) @ [nul]) ?b)"
    have step: "findkey_loop ops key buf buf_size s = findkey_loop ops key ?b2 sz' s4"
      using kp(1,2,5) vp(1,2) key_test [OF sm(1) Cons.prems(4)] False
      by (subst findkey_loop.simps) (auto simp del: append_assoc append.simps)
    have "contents s4 = (pre @ ff_rec (k, v)) @ ff_file rs" "offset s4 = length (pre @ ff_rec (k, v))"
      using vp(3,4) f2 by (simp_all add: ff_rec_def)
    from Cons.IH [OF this sm(3) Cons.prems(4), of ?b2 sz'] show ?thesis
      using step False kv vp(3) kp(6) search_end_Cons [of contents offset pre k v rs key] by auto
  qed
qed

lemma delete_loop_ok:
  assumes "contents s = pre @ ff_file rs" "offset s = length pre" "small_records rs" "small key" "key \<noteq> []"
  shows "\<exists>s'. delete_loop ops key buf buf_size s = Some (if key \<in> fst ` set rs then 0 else -1, s') \<and>
    contents s' = pre @ ff_file (mark key rs) \<and> offset s' = length (contents s')"
  using assms
proof (induction rs arbitrary: s pre buf buf_size)
  case Nil
  obtain s' where "read_length ops buf buf_size s = (None, s')" "contents s' = contents s" "offset s' = offset s"
    using read_length_at_end [of s buf buf_size] Nil by auto
  then show ?case using Nil by (subst delete_loop.simps) auto
next
  case (Cons kv rs)
  obtain k v where kv: "kv = (k, v)" by (cases kv)
  have sm: "small k" "small v" "small_records rs" using Cons.prems(3) kv by (auto simp: small_records_def)
  have f0: "contents s = pre @ ff_rec (k, v) @ ff_file rs" using Cons.prems(1) kv by simp
  obtain sz s1 s2 where kp: "\<not> stream_eof ops s"
      "read_length ops buf buf_size s = (Some (word_of_nat (length k), overlay ((dec_nat (length k) @ [newline]) @ [nul]) buf, sz), s1)"
      "contents s1 = contents s" "offset s1 = length (pre @ dec_nat (length k) @ [newline])"
      "\<And>buf'. read_data ops (word_of_nat (length k)) buf' s1 = ((word_of_nat (length k), overlay k buf'), s2)"
      "contents s2 = contents s" "offset s2 = length (pre @ dec_nat (length k) @ newline # k)"
    by (rule read_key_part [OF f0 Cons.prems(2) sm(1), where buf = buf and buf_size = buf_size]) blast
  let ?b = "overlay k (overlay ((dec_nat (length k) @ [newline]) @ [nul]) buf)"
  show ?case
  proof (cases "k = key")
    case True
    then obtain x ks where k: "k = x # ks" using Cons.prems(5) by (cases k) auto
    obtain s3 where s3: "stream_seek ops (stream_tell ops s1) SEEK_SET s2 = (0, s3)" "contents s3 = contents s"
        "offset s3 = length (pre @ dec_nat (length k) @ [newline])"
      using seek_set [of "stream_tell ops s1" s2] kp(4,6) tell_off [of s1] by auto
    obtain s4 where s4: "stream_write ops [nul] s3 = (int (length [nul]), s4)"
        "contents s4 = write_at (contents s3) (offset s3) [nul]"
      using write_all by blast
    obtain s5 where s5: "stream_flush ops s4 = (0, s5)" "contents s5 = contents s4" using flush_ok by blast
    obtain s6 where s6: "stream_seek ops 0 SEEK_END s5 = (0, s6)" "contents s6 = contents s5" "offset s6 = length (contents s5)"
      using seek_end by blast
    have "contents s3 = (pre @ dec_nat (length k) @ [newline]) @ x # (ks @ dec_nat (length v) @ newline # v @ ff_file rs)"
      using s3(2) f0 by (simp add: ff_rec_def k)
    then have "contents s6 = (pre @ dec_nat (length k) @ [newline]) @ nul # (ks @ dec_nat (length v) @ newline # v @ ff_file rs)"
      using s4(2) s5(2) s6(2) s3(3) write_at_byte by metis
    then have "contents s6 = pre @ ff_file (mark key (kv # rs))"
      unfolding kv True [symmetric] k by (simp add: ff_rec_def)
    moreover have "delete_loop ops key buf buf_size s = Some (0, s6)"
      using kp(1,2,5) key_test [OF sm(1) Cons.prems(4)] True s3(1) s4(1) s5(1) s6(1)
      by (subst delete_loop.simps) simp
    ultimately show ?thesis using True kv s6(2,3) by auto
  next
    case False
    have f2: "contents s2 = (pre @ dec_nat (length k) @ newline # k) @ dec_nat (length v) @ newline # v @ ff_file rs"
      using kp(6) f0 by (simp add: ff_rec_def)
    obtain sz' s3 s4 where vp:
        "read_length ops ?b sz s2 = (Some (word_of_nat (length v), overlay ((dec_nat (length v) @ [newline]) @ [nul]) ?b, sz'), s3)"
        "\<And>buf'. read_data ops (word_of_nat (length v)) buf' s3 = ((word_of_nat (length v), overlay v buf'), s4)"
        "contents s4 = contents s2" "offset s4 = length ((pre @ dec_nat (length k) @ newline # k) @ dec_nat (length v) @ newline # v)"
      by (rule read_value_part [OF f2 kp(7) sm(2), where buf = ?b and buf_size = sz]) blast
    let ?b2 = "overlay v (overlay ((dec_nat (length v) @ [newline]) @ [nul]) ?b)"
    have step: "delete_loop ops key buf buf_size s = delete_loop ops key ?b2 sz' s4"
      using kp(1,2,5) vp(1,2) key_test [OF sm(1) Cons.prems(4)] False
      by (subst delete_loop.simps) (auto simp del: append_assoc append.simps)
    have "contents s4 = (pre @ ff_rec (k, v)) @ ff_file rs" "offset s4 = length (pre @ ff_rec (k, v))"
      using vp(3,4) f2 by (simp_all add: ff_rec_def)
    from Cons.IH [OF this sm(3) Cons.prems(4,5), of ?b2 sz'] show ?thesis
      using step False kv by auto
  qed
qed

lemma rewind_ok: "\<exists>s'. stream_seek ops 0 SEEK_SET s = (0, s') \<and> contents s' = contents s \<and> offset s' = 0"
  using seek_set [of 0 s] by simp

lemma delete_ok:
  assumes "contents s = ff_file rs" "small_records rs" "small key" "key \<noteq> []"
  shows "\<exists>s'. flatfile_delete ops s key = Some (if key \<in> fst ` set rs then 0 else -1, s') \<and>
    contents s' = ff_file (mark key rs) \<and> offset s' = length (contents s')"
proof -
  obtain s1 where "stream_seek ops 0 SEEK_SET s = (0, s1)" "contents s1 = contents s" "offset s1 = 0"
    using rewind_ok by blast
  then show ?thesis
    using delete_loop_ok [of s1 "[]" rs key "[]" FLATFILE_BLOCK_SIZE] assms by (simp add: flatfile_delete_def)
qed

lemma findkey_ok:
  assumes "contents s = ff_file rs" "small_records rs" "small key"
  shows "\<exists>s'. flatfile_findkey ops s key = Some (key \<in> fst ` set rs, s') \<and> contents s' = contents s \<and>
    search_end contents offset [] rs key s'"
proof -
  obtain s1 where "stream_seek ops 0 SEEK_SET s = (0, s1)" "contents s1 = contents s" "offset s1 = 0"
    using rewind_ok by blast
  then show ?thesis
    using findkey_loop_ok [of s1 "[]" rs key "[]" FLATFILE_BLOCK_SIZE] assms by (simp add: flatfile_findkey_def)
qed

lemma append_ok:
  assumes "offset s = length (contents s)" "small key" "small value"
  shows "\<exists>s'. append_record ops b key value s = (0, s') \<and> contents s' = contents s @ ff_rec (key, value)"
proof -
  have at_end: "\<exists>s'. stream_write ops bs s = (int (length bs), s') \<and> contents s' = contents s @ bs \<and>
      offset s' = length (contents s')" if "offset s = length (contents s)" for s bs
    using write_all [of bs s] that by auto
  obtain s1 where s1: "stream_write ops (dec_nat (length key) @ [newline]) s = (int (length (dec_nat (length key) @ [newline])), s1)"
      "contents s1 = contents s @ dec_nat (length key) @ [newline]" "offset s1 = length (contents s1)"
    using at_end [OF assms(1)] by blast
  obtain s2 where s2: "stream_flush ops s1 = (0, s2)" "contents s2 = contents s1" "offset s2 = length (contents s2)"
    using flush_ok [of s1] s1(3) by auto
  obtain s3 where s3: "stream_write ops key s2 = (int (length key), s3)" "contents s3 = contents s2 @ key" "offset s3 = length (contents s3)"
    using at_end [OF s2(3)] by blast
  obtain s4 where s4: "stream_write ops (dec_nat (length value) @ [newline]) s3 = (int (length (dec_nat (length value) @ [newline])), s4)"
      "contents s4 = contents s3 @ dec_nat (length value) @ [newline]" "offset s4 = length (contents s4)"
    using at_end [OF s3(3)] by blast
  define s5 where "s5 = (if b then snd (stream_flush ops s4) else s4)"
  have s5: "contents s5 = contents s4" "offset s5 = length (contents s5)"
    using flush_ok [of s4] s4(3) by (auto simp: s5_def)
  obtain s6 where s6: "stream_write ops value s5 = (int (length value), s6)" "contents s6 = contents s5 @ value"
    using at_end [OF s5(2)] by blast
  obtain s7 where s7: "stream_flush ops s6 = (0, s7)" "contents s7 = contents s6" using flush_ok by blast
  have "append_record ops b key value s = (0, s7)"
    unfolding append_record_def Let_def s1(1) snd_conv s2(1) s3(1) prod.case s4(1) s5_def [symmetric] s6(1) s7(1)
    by (simp add: write_short_def)
  moreover have "contents s7 = contents s @ ff_rec (key, value)"
    using s1(2) s2(2) s3(2) s4(2) s5(1) s6(2) s7(2) by (simp add: ff_rec_def)
  ultimately show ?thesis by blast
qed

lemma fetch_ok:
  assumes "contents s = ff_file rs" "small_records rs" "small key"
  shows "\<exists>s'. flatfile_fetch ops s key = Some (map_option (\<lambda>v. (v, word_of_nat (length v))) (map_of rs key), s') \<and>
    contents s' = contents s"
proof -
  obtain s1 where s1: "flatfile_findkey ops s key = Some (key \<in> fst ` set rs, s1)" "contents s1 = contents s"
      "search_end contents offset [] rs key s1"
    using findkey_ok [OF assms] by blast
  show ?thesis
  proof (cases "key \<in> fst ` set rs")
    case False
    then have "map_of rs key = None" by (simp add: map_of_eq_None_iff)
    then show ?thesis using s1(1,2) False by (simp add: flatfile_fetch_def)
  next
    case True
    then obtain rs1 v rs2 where rs: "rs = rs1 @ (key, v) # rs2" "key \<notin> fst ` set rs1"
        "offset s1 = length (ff_file rs1 @ dec_nat (length key) @ newline # key)"
      using s1(3) by (auto simp: search_end_def)
    let ?pre = "ff_file rs1 @ dec_nat (length key) @ newline # key"
    have v: "length v < 2147483648" using assms(2) rs(1) by (simp add: small_records_def small_def)
    have f: "contents s1 = ?pre @ dec_nat (length v) @ newline # v @ ff_file rs2"
      using s1(2) assms(1) rs(1) by (simp add: ff_rec_def)
    have "line_of (Some 16) (drop (offset s1) (contents s1)) = dec_nat (length v) @ [newline]"
      using f rs(3) v by (simp add: line_of_dec)
    then obtain s2 where s2: "stream_gets ops (Some 16) s1 = (Some (dec_nat (length v) @ [newline]), s2)" "contents s2 = contents s1"
        "offset s2 = offset s1 + length (dec_nat (length v) @ [newline])"
      using gets_line [of s1 "Some 16"] f rs(3) by auto
    have a: "unat (atoi ((dec_nat (length v) @ [newline]) @ [nul])) = length v"
      using atoi_line [of "length v" "[]"] v by (simp add: unat_of_nat_u32)
    have "take (length v) (drop (offset s2) (contents s2)) = v"
      using s2(2,3) f rs(3) by simp
    then obtain s3 where s3: "stream_read ops (length v) s2 = (Data v, s3)" "contents s3 = contents s2"
      using read_some [of "length v" s2] read_full [of "length v" s2] by metis
    have "map_of rs key = Some v" using rs(1,2) by (simp add: map_add_def map_of_eq_None_iff [THEN iffD2])
    then show ?thesis
      using s1(1,2) True s2(1,2) s3 by (simp add: flatfile_fetch_def a del: append_assoc)
  qed
qed

end

section \<open>The handler is a dictionary\<close>

text \<open>A key that a deleted record cannot be mistaken for: not empty, and not beginning with a NUL byte.\<close>

definition ff_key_ok :: "bytes \<Rightarrow> bool" where
  "ff_key_ok k \<longleftrightarrow> k \<noteq> [] \<and> hd k \<noteq> nul \<and> small k"

definition ff_represents :: "('s \<Rightarrow> bytes) \<Rightarrow> 's flatfile \<Rightarrow> (bytes \<rightharpoonup> bytes) \<Rightarrow> bool" where
  "ff_represents contents d m \<longleftrightarrow> (\<exists>rs. contents (ff_fp d) = ff_file rs \<and> small_records rs \<and>
     distinct (filter ff_key_ok (map fst rs)) \<and> (\<forall>k. ff_key_ok k \<longrightarrow> m k = map_of rs k))"

definition ff_get :: "'s php_stream_ops \<Rightarrow> 's flatfile \<Rightarrow> bytes \<Rightarrow> bytes option \<times> 's flatfile" where
  "ff_get ops d k = (case dba_fetch_flatfile ops d k of Some (Val v, d') \<Rightarrow> (Some v, d') | Some (_, d') \<Rightarrow> (None, d') | None \<Rightarrow> (None, d))"

definition ff_put :: "'s php_stream_ops \<Rightarrow> bool \<Rightarrow> 's flatfile \<Rightarrow> bytes \<Rightarrow> bytes \<Rightarrow> bool \<times> 's flatfile" where
  "ff_put ops ins d k v = (case dba_update_flatfile ops d k v ins of Some (r, d') \<Rightarrow> (r = 0, d') | None \<Rightarrow> (False, d))"

definition ff_del :: "'s php_stream_ops \<Rightarrow> 's flatfile \<Rightarrow> bytes \<Rightarrow> bool \<times> 's flatfile" where
  "ff_del ops d k = (case dba_delete_flatfile ops d k of Some (r, d') \<Rightarrow> (r = 0, d') | None \<Rightarrow> (False, d))"

lemma map_of_mark:
  assumes "distinct (filter ff_key_ok (map fst rs))" "ff_key_ok k" "ff_key_ok k'"
  shows "map_of (mark k rs) k' = (if k' = k then None else map_of rs k')"
  using assms(1)
proof (induction rs)
  case (Cons x rs)
  obtain a b where x: "x = (a, b)" by (cases x)
  have marked: "k' \<noteq> nul # tl k" using assms(3) by (auto simp: ff_key_ok_def)
  show ?case
  proof (cases "a = k")
    case True
    then have "k \<notin> fst ` set rs" using Cons.prems x assms(2) by auto
    then have "map_of rs k = None" by (simp add: map_of_eq_None_iff)
    then show ?thesis using True x marked by simp
  next
    case False
    have "map_of (mark k rs) k' = (if k' = k then None else map_of rs k')"
      using Cons x by (intro Cons.IH) (auto split: if_splits)
    then show ?thesis using False x by auto
  qed
qed simp

lemma mark_live_keys:
  assumes "ff_key_ok k"
  shows "filter ff_key_ok (map fst (mark k rs)) = remove1 k (filter ff_key_ok (map fst rs))"
proof (induction rs)
  case (Cons x rs)
  have "\<not> ff_key_ok (nul # tl k)" by (simp add: ff_key_ok_def)
  then show ?case using Cons assms by (cases x) auto
qed simp

lemma mark_distinct:
  assumes "distinct (filter ff_key_ok (map fst rs))" "ff_key_ok k"
  shows "distinct (filter ff_key_ok (map fst (mark k rs @ [(k, v)])))"
  using assms by (simp add: mark_live_keys)

lemma mark_small: "small_records rs \<Longrightarrow> k \<noteq> [] \<Longrightarrow> small_records (mark k rs)"
proof (induction rs)
  case (Cons x rs)
  have "small (nul # tl k)" if "small k" using that Cons.prems(2) by (cases k) (simp_all add: small_def)
  then show ?case using Cons by (cases x) (auto simp: small_records_def)
qed (simp add: small_records_def)

text \<open>The operations on the list of records keep what the map relation needs.\<close>

lemma represents_list_ops:
  assumes rs: "small_records rs" "distinct (filter ff_key_ok (map fst rs))" "\<forall>k. ff_key_ok k \<longrightarrow> m k = map_of rs k"
    and k: "ff_key_ok k" and v: "small v"
  shows "small_records (mark k rs @ [(k, v)])" "distinct (filter ff_key_ok (map fst (mark k rs @ [(k, v)])))"
    "\<forall>k'. ff_key_ok k' \<longrightarrow> (m(k \<mapsto> v)) k' = map_of (mark k rs @ [(k, v)]) k'"
    "\<forall>k'. ff_key_ok k' \<longrightarrow> (m(k := None)) k' = map_of (mark k rs) k'"
    "m k = None \<Longrightarrow> k \<notin> fst ` set rs \<and> mark k rs = rs" "m k \<noteq> None \<Longrightarrow> k \<in> fst ` set rs"
proof -
  show "small_records (mark k rs @ [(k, v)])"
    using mark_small [OF rs(1)] k v by (auto simp: small_records_def ff_key_ok_def)
  show "distinct (filter ff_key_ok (map fst (mark k rs @ [(k, v)])))" by (rule mark_distinct [OF rs(2) k])
  show del: "\<forall>k'. ff_key_ok k' \<longrightarrow> (m(k := None)) k' = map_of (mark k rs) k'"
    using map_of_mark [OF rs(2) k] rs(3) by auto
  show "\<forall>k'. ff_key_ok k' \<longrightarrow> (m(k \<mapsto> v)) k' = map_of (mark k rs @ [(k, v)]) k'"
    using map_of_mark [OF rs(2) k] rs(3) k by (auto simp: map_add_def split: option.splits)
  have mk: "m k = map_of rs k" using rs(3) k by simp
  have "k \<notin> fst ` set rs \<Longrightarrow> mark k rs = rs" by (induction rs) auto
  then show "m k = None \<Longrightarrow> k \<notin> fst ` set rs \<and> mark k rs = rs" using mk by (simp add: map_of_eq_None_iff)
  show "m k \<noteq> None \<Longrightarrow> k \<in> fst ` set rs" using mk by (metis map_of_eq_None_iff)
qed

context php_file
begin

lemma ff_fetch_ok:
  assumes "contents (ff_fp d) = ff_file rs" "small_records rs" "small key"
  shows "\<exists>s'. dba_fetch_flatfile ops d key = Some (case map_of rs key of None \<Rightarrow> NullVal | Some v \<Rightarrow> Val v, d\<lparr>ff_fp := s'\<rparr>) \<and>
    contents s' = ff_file rs"
proof -
  have "string_of_datum (map_option (\<lambda>v. (v, word_of_nat (length v))) (map_of rs key)) =
      (case map_of rs key of None \<Rightarrow> NullVal | Some v \<Rightarrow> Val v)"
  proof (cases "map_of rs key")
    case (Some v)
    then have "length v < 4294967296" using assms(2) map_of_SomeD [OF Some] by (force simp: small_records_def small_def)
    then show ?thesis using Some by (simp add: string_of_datum_def unat_of_nat_u32)
  qed (simp add: string_of_datum_def)
  then show ?thesis using fetch_ok [OF assms] assms(1) by (auto simp: dba_fetch_flatfile_def)
qed

lemma ff_update_ok:
  assumes "contents (ff_fp d) = ff_file rs" "small_records rs" "ff_key_ok k" "small v"
  shows "\<exists>s'. dba_update_flatfile ops d k v False = Some (0, d\<lparr>ff_fp := s'\<rparr>) \<and> contents s' = ff_file (mark k rs @ [(k, v)])"
    and "\<exists>s'. dba_update_flatfile ops d k v True = Some (if k \<in> fst ` set rs then -1 else 0, d\<lparr>ff_fp := s'\<rparr>) \<and>
      contents s' = ff_file (if k \<in> fst ` set rs then rs else rs @ [(k, v)])"
proof -
  have k: "small k" "k \<noteq> []" using assms(3) by (auto simp: ff_key_ok_def)
  obtain s1 r where s1: "flatfile_delete ops (ff_fp d) k = Some (r, s1)" "contents s1 = ff_file (mark k rs)" "offset s1 = length (contents s1)"
    using delete_ok [OF assms(1,2) k] by blast
  then show "\<exists>s'. dba_update_flatfile ops d k v False = Some (0, d\<lparr>ff_fp := s'\<rparr>) \<and> contents s' = ff_file (mark k rs @ [(k, v)])"
    using append_ok [OF s1(3) k(1) assms(4), of False] by (auto simp: dba_update_flatfile_def flatfile_store_def)
  obtain s2 where s2: "flatfile_findkey ops (ff_fp d) k = Some (k \<in> fst ` set rs, s2)" "contents s2 = ff_file rs"
    using findkey_ok [OF assms(1,2) k(1)] assms(1) by auto
  obtain s3 where s3: "stream_seek ops 0 SEEK_END s2 = (0, s3)" "contents s3 = ff_file rs" "offset s3 = length (contents s3)"
    using seek_end [of s2] s2(2) by auto
  show "\<exists>s'. dba_update_flatfile ops d k v True = Some (if k \<in> fst ` set rs then -1 else 0, d\<lparr>ff_fp := s'\<rparr>) \<and>
      contents s' = ff_file (if k \<in> fst ` set rs then rs else rs @ [(k, v)])"
    using append_ok [OF s3(3) k(1) assms(4), of True] s2 s3(1,2) by (auto simp: dba_update_flatfile_def flatfile_store_def)
qed

lemma delete_empty_key:
  assumes f: "contents s = ff_file (([], v) # rs)" and sm: "small_records (([], v) # rs)"
  shows "\<exists>s' r. flatfile_delete ops s [] = Some (0, s') \<and> contents s' = (dec_nat 0 @ [newline]) @ nul # r"
proof -
  obtain s0 where s0: "stream_seek ops 0 SEEK_SET s = (0, s0)" "contents s0 = contents s" "offset s0 = 0"
    using rewind_ok by blast
  have f0: "contents s0 = [] @ ff_rec ([], v) @ ff_file rs" "offset s0 = length ([] :: bytes)" "small []"
    using s0 f by (simp_all add: small_def)
  obtain sz s1 s2 where kp: "\<not> stream_eof ops s0"
      "read_length ops [] FLATFILE_BLOCK_SIZE s0 = (Some (word_of_nat (length ([] :: bytes)), overlay ((dec_nat (length ([] :: bytes)) @ [newline]) @ [nul]) [], sz), s1)"
      "contents s1 = contents s0" "offset s1 = length ([] @ dec_nat (length ([] :: bytes)) @ [newline])"
      "\<And>buf'. read_data ops (word_of_nat (length ([] :: bytes))) buf' s1 = ((word_of_nat (length ([] :: bytes)), overlay [] buf'), s2)"
      "contents s2 = contents s0" "offset s2 = length ([] @ dec_nat (length ([] :: bytes)) @ newline # [])"
    by (rule read_key_part [OF f0, where buf = "[]" and buf_size = FLATFILE_BLOCK_SIZE]) blast
  obtain s3 where s3: "stream_seek ops (stream_tell ops s1) SEEK_SET s2 = (0, s3)" "contents s3 = contents s"
      "offset s3 = length (dec_nat 0 @ [newline])"
    using seek_set [of "stream_tell ops s1" s2] kp(4,6) tell_off [of s1] s0(2) by auto
  obtain s4 where s4: "stream_write ops [nul] s3 = (int (length [nul]), s4)"
      "contents s4 = write_at (contents s3) (offset s3) [nul]"
    using write_all by blast
  obtain s5 where s5: "stream_flush ops s4 = (0, s5)" "contents s5 = contents s4" using flush_ok by blast
  obtain s6 where s6: "stream_seek ops 0 SEEK_END s5 = (0, s6)" "contents s6 = contents s5" using seek_end by blast
  obtain c cs where c: "dec_nat (length v) = c # cs" by (cases "dec_nat (length v)") auto
  have "contents s3 = (dec_nat 0 @ [newline]) @ c # (cs @ newline # v @ ff_file rs)"
    using s3(2) f c by (simp add: ff_rec_def)
  then have "contents s6 = (dec_nat 0 @ [newline]) @ nul # (cs @ newline # v @ ff_file rs)"
    using s4(2) s5(2) s6(2) s3(3) write_at_byte by metis
  moreover have "flatfile_delete ops s [] = Some (0, s6)"
    using s0(1) kp(1,2,5) s3(1) s4(1) s5(1) s6(1)
    by (simp add: flatfile_delete_def) (subst delete_loop.simps, simp)
  ultimately show ?thesis by blast
qed

lemma fetch_cut_record:
  assumes f: "contents s = (dec_nat 0 @ [newline]) @ nul # r"
  shows "\<exists>s'. flatfile_fetch ops s [] = Some (Some ([], 0), s')"
proof -
  obtain s0 where s0: "stream_seek ops 0 SEEK_SET s = (0, s0)" "contents s0 = contents s" "offset s0 = 0"
    using rewind_ok by blast
  have f0: "contents s0 = [] @ dec_nat 0 @ newline # (nul # r)" "offset s0 = length []" using s0 f by simp_all
  obtain sz s1 where s1: "read_length ops [] FLATFILE_BLOCK_SIZE s0 = (Some (word_of_nat 0, overlay ((dec_nat 0 @ [newline]) @ [nul]) [], sz), s1)"
      "contents s1 = contents s0" "offset s1 = length ([] @ dec_nat 0 @ [newline])"
    using read_length_ok [OF f0, of "[]" FLATFILE_BLOCK_SIZE] by auto
  have f1: "contents s1 = ([] @ dec_nat 0 @ [newline]) @ [] @ (nul # r)" using s1(2) f0(1) by simp
  obtain s2 where s2: "read_data ops 0 (overlay ((dec_nat 0 @ [newline]) @ [nul]) []) s1 = ((0, overlay ((dec_nat 0 @ [newline]) @ [nul]) []), s2)"
      "contents s2 = contents s1" "offset s2 = length (dec_nat 0 @ [newline])"
    using read_data_ok [OF f1 s1(3), of "overlay ((dec_nat 0 @ [newline]) @ [nul]) []"] by (auto simp: small_def overlay_def)
  have "\<not> stream_eof ops s0" using f0 by (intro not_eof) simp
  then have find: "flatfile_findkey ops s [] = Some (True, s2)"
    using s0(1) s1(1) s2(1) by (simp add: flatfile_findkey_def) (subst findkey_loop.simps, simp)
  have drp: "drop (offset s2) (contents s2) = nul # r" using s2(2,3) f1 by simp
  have line: "line_of (Some 16) (drop (offset s2) (contents s2)) = nul # take 14 (upto_newline r)"
    unfolding drp by (simp add: line_of_def upto_newline_def)
  have "offset s2 < length (contents s2)" using s2(2,3) f1 by simp
  then obtain s3 where s3: "stream_gets ops (Some 16) s2 = (Some (nul # take 14 (upto_newline r)), s3)"
    using gets_line [of s2 "Some 16"] unfolding line by blast
  have "atoi ((nul # take 14 (upto_newline r)) @ [nul]) = 0" by (simp add: atoi_def cstr_def)
  moreover obtain s4 where "stream_read ops 0 s3 = (Data [], s4)" using read_some [of 0 s3] by auto
  ultimately show ?thesis using find s3 by (simp add: flatfile_fetch_def)
qed

end

sublocale php_file \<subseteq> ff: dba_dictionary "ff_represents contents" "ff_get ops" "ff_put ops False" "ff_put ops True" "ff_del ops" ff_key_ok small
proof (unfold_locales, goal_cases)
  case (1 d m k)
  then obtain rs where rs: "contents (ff_fp d) = ff_file rs" "small_records rs"
      "distinct (filter ff_key_ok (map fst rs))" "\<forall>k. ff_key_ok k \<longrightarrow> m k = map_of rs k"
    by (auto simp: ff_represents_def)
  have "small k" using 1(2) by (simp add: ff_key_ok_def)
  from ff_fetch_ok [OF rs(1,2) this] obtain s' where
    "dba_fetch_flatfile ops d k = Some (case map_of rs k of None \<Rightarrow> NullVal | Some v \<Rightarrow> Val v, d\<lparr>ff_fp := s'\<rparr>)" "contents s' = ff_file rs" by blast
  then show ?case using rs 1(2) by (auto simp: ff_get_def ff_represents_def split: option.splits)
next
  case (2 d m k v)
  then obtain rs where rs: "contents (ff_fp d) = ff_file rs" "small_records rs"
      "distinct (filter ff_key_ok (map fst rs))" "\<forall>k. ff_key_ok k \<longrightarrow> m k = map_of rs k"
    by (auto simp: ff_represents_def)
  obtain s' where s': "dba_update_flatfile ops d k v False = Some (0, d\<lparr>ff_fp := s'\<rparr>)" "contents s' = ff_file (mark k rs @ [(k, v)])"
    using ff_update_ok(1) [OF rs(1,2) 2(2,3)] by blast
  have "ff_represents contents (d\<lparr>ff_fp := s'\<rparr>) (m(k \<mapsto> v))"
    unfolding ff_represents_def using s'(2) represents_list_ops(1-3) [OF rs(2-4) 2(2,3)] by (intro exI [of _ "mark k rs @ [(k, v)]"]) simp
  then show ?case using s'(1) by (simp add: ff_put_def)
next
  case (3 d m k v)
  then obtain rs where rs: "contents (ff_fp d) = ff_file rs" "small_records rs"
      "distinct (filter ff_key_ok (map fst rs))" "\<forall>k. ff_key_ok k \<longrightarrow> m k = map_of rs k"
    by (auto simp: ff_represents_def)
  obtain s' where s': "dba_update_flatfile ops d k v True = Some (if k \<in> fst ` set rs then -1 else 0, d\<lparr>ff_fp := s'\<rparr>)"
      "contents s' = ff_file (if k \<in> fst ` set rs then rs else rs @ [(k, v)])"
    using ff_update_ok(2) [OF rs(1,2) 3(2,3)] by blast
  note lo = represents_list_ops [OF rs(2-4) 3(2,3)]
  show ?case
  proof (cases "m k = None")
    case True
    then have "k \<notin> fst ` set rs" "mark k rs = rs" using lo(5) by auto
    moreover from this have "ff_represents contents (d\<lparr>ff_fp := s'\<rparr>) (m(k \<mapsto> v))"
      unfolding ff_represents_def using s'(2) lo(1-3) by (intro exI [of _ "rs @ [(k, v)]"]) simp
    ultimately show ?thesis using s'(1) True by (simp add: ff_put_def)
  next
    case False
    then have "k \<in> fst ` set rs" using lo(6) by blast
    moreover from this have "ff_represents contents (d\<lparr>ff_fp := s'\<rparr>) m"
      unfolding ff_represents_def using s'(2) rs(2-4) by (intro exI [of _ rs]) simp
    ultimately show ?thesis using s'(1) False by (auto simp: ff_put_def)
  qed
next
  case (4 d m k)
  then obtain rs where rs: "contents (ff_fp d) = ff_file rs" "small_records rs"
      "distinct (filter ff_key_ok (map fst rs))" "\<forall>k. ff_key_ok k \<longrightarrow> m k = map_of rs k"
    by (auto simp: ff_represents_def)
  have k: "small k" "k \<noteq> []" using 4(2) by (auto simp: ff_key_ok_def)
  obtain s' where s': "flatfile_delete ops (ff_fp d) k = Some (if k \<in> fst ` set rs then 0 else -1, s')" "contents s' = ff_file (mark k rs)"
    using delete_ok [OF rs(1,2) k] by blast
  note lo = represents_list_ops [OF rs(2-4) 4(2), of "[]"]
  have "small []" by (simp add: small_def)
  have "ff_represents contents (d\<lparr>ff_fp := s'\<rparr>) (m(k := None))"
    unfolding ff_represents_def using s'(2) mark_small [OF rs(2) k(2)] mark_distinct [OF rs(3) 4(2)] lo(4) \<open>small []\<close>
    by (intro exI [of _ "mark k rs"]) simp
  moreover have "k \<in> fst ` set rs \<longleftrightarrow> m k \<noteq> None" using lo(5,6) \<open>small []\<close> by blast
  ultimately show ?case using s'(1) by (simp add: ff_del_def dba_delete_flatfile_def)
qed

context php_file
begin

lemma flatfile_run:
  assumes "ff_represents contents d m" "\<forall>x \<in> set xs. op_ok ff_key_ok small x"
  shows "fst (run_ops (ff_get ops) (ff_put ops False) (ff_put ops True) (ff_del ops) xs d) = map_ops xs m"
  by (rule ff.run_is_map [OF assms])

end

section \<open>Properties\<close>

text \<open>
  C11: a script that works on a new flat file sees a map: for any sequence of fetch, replace, insert
  and delete with keys that are not empty and do not begin with a NUL byte, and keys and values
  below two gigabytes, every result is the one a map gives.
\<close>

theorem flatfile_is_map:
  assumes "php_file ops contents offset" and "contents s = []"
    and "\<forall>x \<in> set xs. op_ok ff_key_ok small x"
  shows "fst (run_ops (ff_get ops) (ff_put ops False) (ff_put ops True) (ff_del ops) xs (dba_open_flatfile s)) =
    map_ops xs Map.empty"
proof -
  have "ff_represents contents (dba_open_flatfile s) Map.empty"
    using assms(2) by (auto simp: ff_represents_def dba_open_flatfile_def small_records_def intro!: exI [of _ "[]"])
  from php_file.flatfile_run [OF assms(1) this assms(3)] show ?thesis .
qed

text \<open>
  The operations on a file of records return, and what each does to the records: a fetch gives
  the value of the first record with the key; an insert appends a record unless the key is there; a
  replace marks the first record with the key as deleted and appends; a delete marks it.
\<close>

theorem flatfile_operations:
  assumes "php_file ops contents offset" and "contents (ff_fp d) = ff_file rs" and "small_records rs"
    and "ff_key_ok k" and "small v"
  shows "(\<exists>d'. dba_fetch_flatfile ops d k = Some (case map_of rs k of None \<Rightarrow> NullVal | Some v \<Rightarrow> Val v, d') \<and>
      contents (ff_fp d') = ff_file rs) \<and>
    (\<exists>d'. dba_update_flatfile ops d k v True = Some (if k \<in> fst ` set rs then -1 else 0, d') \<and>
      contents (ff_fp d') = ff_file (if k \<in> fst ` set rs then rs else rs @ [(k, v)])) \<and>
    (\<exists>d'. dba_update_flatfile ops d k v False = Some (0, d') \<and> contents (ff_fp d') = ff_file (mark k rs @ [(k, v)])) \<and>
    (\<exists>d'. dba_delete_flatfile ops d k = Some (if k \<in> fst ` set rs then 0 else -1, d') \<and>
      contents (ff_fp d') = ff_file (mark k rs))"
proof -
  have k: "small k" "k \<noteq> []" using assms(4) by (auto simp: ff_key_ok_def)
  obtain s4 where "flatfile_delete ops (ff_fp d) k = Some (if k \<in> fst ` set rs then 0 else -1, s4)" "contents s4 = ff_file (mark k rs)"
    using php_file.delete_ok [OF assms(1-3) k] by blast
  then have "\<exists>d'. dba_delete_flatfile ops d k = Some (if k \<in> fst ` set rs then 0 else -1, d') \<and> contents (ff_fp d') = ff_file (mark k rs)"
    by (intro exI [of _ "d\<lparr>ff_fp := s4\<rparr>"]) (simp add: dba_delete_flatfile_def)
  moreover obtain s1 where "dba_fetch_flatfile ops d k = Some (case map_of rs k of None \<Rightarrow> NullVal | Some v \<Rightarrow> Val v, d\<lparr>ff_fp := s1\<rparr>)" "contents s1 = ff_file rs"
    using php_file.ff_fetch_ok [OF assms(1-3) k(1)] by blast
  moreover obtain s2 where "dba_update_flatfile ops d k v False = Some (0, d\<lparr>ff_fp := s2\<rparr>)" "contents s2 = ff_file (mark k rs @ [(k, v)])"
    using php_file.ff_update_ok(1) [OF assms] by blast
  moreover obtain s3 where "dba_update_flatfile ops d k v True = Some (if k \<in> fst ` set rs then -1 else 0, d\<lparr>ff_fp := s3\<rparr>)"
      "contents s3 = ff_file (if k \<in> fst ` set rs then rs else rs @ [(k, v)])"
    using php_file.ff_update_ok(2) [OF assms] by blast
  ultimately show ?thesis by (intro conjI) force+
qed

theorem flatfile_is_map_witness:
  "fst (run_ops (ff_get mem_ops) (ff_put mem_ops False) (ff_put mem_ops True) (ff_del mem_ops)
     [Insert ''a'' ''1'', Insert ''a'' ''2'', Fetch ''a'', Replace ''a'' ''3'', Fetch ''a'', Delete ''a'', Fetch ''a'']
     (dba_open_flatfile \<lparr>mf_data = [], mf_pos = 0\<rparr>)) =
   [Status True, Status False, Value (Some ''1''), Status True, Value (Some ''3''), Status True, Value None]"
  using flatfile_is_map [OF memory.php_file_axioms, of "\<lparr>mf_data = [], mf_pos = 0\<rparr>"
      "[Insert ''a'' ''1'', Insert ''a'' ''2'', Fetch ''a'', Replace ''a'' ''3'', Fetch ''a'', Delete ''a'', Fetch ''a'']"]
  by (simp add: ff_key_ok_def small_def)

theorem flatfile_operations_witness:
  "\<exists>d'. dba_delete_flatfile mem_ops (dba_open_flatfile \<lparr>mf_data = ff_file [(''k'', ''v''), (''q'', [])], mf_pos = 0\<rparr>) ''k'' = Some (0, d') \<and>
     mf_data (ff_fp d') = ff_file [([nul], ''v''), (''q'', [])]"
  using flatfile_operations [OF memory.php_file_axioms, of "dba_open_flatfile \<lparr>mf_data = ff_file [(''k'', ''v''), (''q'', [])], mf_pos = 0\<rparr>"
      "[(''k'', ''v''), (''q'', [])]" "''k''" "[]"]
  by (simp add: dba_open_flatfile_def small_records_def small_def ff_key_ok_def)

text \<open>
  The empty key cannot be deleted. The NUL byte goes where the key's first byte would be, which
  for an empty key is the first digit of the value's length: the delete reports success, the key still
  exists afterwards, and its value is lost: a fetch gives the empty string.
\<close>

theorem flatfile_delete_empty_key:
  assumes "php_file ops contents offset" and "contents (ff_fp d) = ff_file (([], v) # rs)"
    and "small_records (([], v) # rs)"
  shows "\<exists>d' d'' d3. dba_delete_flatfile ops d [] = Some (0, d') \<and> dba_exists_flatfile ops d' [] = Some (0, d'') \<and>
    dba_fetch_flatfile ops d' [] = Some (Val [], d3)"
proof -
  obtain s1 r where del: "flatfile_delete ops (ff_fp d) [] = Some (0, s1)" "contents s1 = (dec_nat 0 @ [newline]) @ nul # r"
    using php_file.delete_empty_key [OF assms] by blast
  obtain s2 where fetch: "flatfile_fetch ops s1 [] = Some (Some ([], 0), s2)"
    using php_file.fetch_cut_record [OF assms(1) del(2)] by blast
  have "dba_delete_flatfile ops d [] = Some (0, d\<lparr>ff_fp := s1\<rparr>)" using del(1) by (simp add: dba_delete_flatfile_def)
  moreover have "dba_exists_flatfile ops (d\<lparr>ff_fp := s1\<rparr>) [] = Some (0, d\<lparr>ff_fp := s2\<rparr>)"
    "dba_fetch_flatfile ops (d\<lparr>ff_fp := s1\<rparr>) [] = Some (Val [], d\<lparr>ff_fp := s2\<rparr>)"
    using fetch by (simp_all add: dba_exists_flatfile_def dba_fetch_flatfile_def string_of_datum_def)
  ultimately show ?thesis by blast
qed

theorem flatfile_delete_empty_key_witness:
  "\<exists>d' d''. dba_delete_flatfile mem_ops (dba_open_flatfile \<lparr>mf_data = ff_file [([], ''abc'')], mf_pos = 0\<rparr>) [] = Some (0, d') \<and>
     dba_exists_flatfile mem_ops d' [] = Some (0, d'')"
  using flatfile_delete_empty_key [OF memory.php_file_axioms, of "dba_open_flatfile \<lparr>mf_data = ff_file [([], ''abc'')], mf_pos = 0\<rparr>" "''abc''" "[]"]
  by (auto simp: dba_open_flatfile_def small_records_def small_def)

end
