(* ===== verification/Inifile.thy ===== *)
theory Inifile
  imports PhpStream DbaContract "HOL-Library.Monad_Syntax"
begin

text \<open>
  The INI file database, \<^verbatim>\<open>compile/extensions/dba/libinifile/inifile.c\<close>, and its handler,
  \<^verbatim>\<open>compile/extensions/dba/dba_inifile.c\<close>: keys \<^verbatim>\<open>[group]name\<close> in a text file of groups and lines
  \<^verbatim>\<open>name=value\<close>. Strings are C strings, a NULL pointer is \<^const>\<open>None\<close>; freeing is not modelled, only what it
  leaves in the structures. Assertions are compiled out. Loops that read until the end of the stream
  are partial functions, \<^const>\<open>None\<close> for not returning.
\<close>

record key_type =
  group :: "string option"
  name :: "string option"

record line_type =
  key :: key_type
  val :: "string option"
  lpos :: nat

record 's inifile =
  ifp :: 's
  readonly :: bool
  curr :: line_type
  next_line :: line_type

definition no_key :: key_type where
  "no_key = \<lparr>group = None, name = None\<rparr>"

definition no_line :: line_type where
  "no_line = \<lparr>key = no_key, val = None, lpos = 0\<rparr>"

definition inifile_version :: string where
  "inifile_version = ''1.0, $Id$''"

definition inifile_key_free :: "key_type \<Rightarrow> key_type" where
  "inifile_key_free k = no_key"

definition inifile_val_free :: "string option \<Rightarrow> string option" where
  "inifile_val_free v = None"

definition inifile_line_free :: "line_type \<Rightarrow> line_type" where
  "inifile_line_free ln = ln\<lparr>key := inifile_key_free (key ln), val := inifile_val_free (val ln), lpos := 0\<rparr>"

definition inifile_alloc :: "'s php_stream_ops \<Rightarrow> 's \<Rightarrow> bool \<Rightarrow> 's inifile option" where
  "inifile_alloc ops s ro =
     (if \<not> ro \<and> \<not> stream_truncate_supported ops s then None
      else Some \<lparr>ifp = s, readonly = ro, curr = no_line, next_line = no_line\<rparr>)"

text \<open>\<^verbatim>\<open>strchr\<close>: the text before and after the first occurrence.\<close>

fun split_at :: "char \<Rightarrow> string \<Rightarrow> (string \<times> string) option" where
  "split_at c [] = None"
| "split_at c (x # xs) = (if x = c then Some ([], xs) else map_option (\<lambda>(a, b). (x # a, b)) (split_at c xs))"

definition inifile_key_split :: "string \<Rightarrow> key_type" where
  "inifile_key_split group_name =
     (case group_name of
        [] \<Rightarrow> \<lparr>group = Some [], name = Some group_name\<rparr>
      | c # r \<Rightarrow>
          (if c = CHR ''['' then
             (case split_at (CHR '']'') r of
                Some (g, n) \<Rightarrow> \<lparr>group = Some g, name = Some n\<rparr>
              | None \<Rightarrow> \<lparr>group = Some [], name = Some group_name\<rparr>)
           else \<lparr>group = Some [], name = Some group_name\<rparr>))"

definition inifile_key_string :: "key_type \<Rightarrow> string option" where
  "inifile_key_string k =
     (if group k \<noteq> None \<and> the (group k) \<noteq> []
      then Some (CHR ''['' # the (group k) @ CHR '']'' # (case name k of None \<Rightarrow> [] | Some n \<Rightarrow> n))
      else name k)"

definition trim_char :: "char \<Rightarrow> bool" where
  "trim_char c \<longleftrightarrow> c \<in> {CHR '' '', CHR 0x09, CHR 0x0D, CHR 0x0A}"

text \<open>
  \<^verbatim>\<open>strchr(s, 0)\<close> finds the terminator, so the first loop tests for the end of the string as well; the
  second runs over characters of the string only.
\<close>

definition etrim :: "string \<Rightarrow> string" where
  "etrim str = rev (dropWhile trim_char (rev (dropWhile trim_char str)))"

partial_function (option) read_line_loop ::
    "'s php_stream_ops \<Rightarrow> line_type \<Rightarrow> 's \<Rightarrow> (bool \<times> line_type \<times> 's) option" where
  "read_line_loop ops ln s =
     (case stream_gets ops None s of (l, s1) \<Rightarrow>
       (case l of
          None \<Rightarrow> Some (False, inifile_line_free ln, s1)
        | Some raw \<Rightarrow>
            let fline = cstr raw
            in if fline \<noteq> [] \<and> hd fline = CHR ''[''
               then (case split_at (CHR '']'') (tl fline) of
                       None \<Rightarrow> read_line_loop ops ln s1
                     | Some x \<Rightarrow>
                         Some (True, ln\<lparr>key := \<lparr>group = Some (etrim (fst x)), name = Some []\<rparr>,
                                        lpos := nat (stream_tell ops s1)\<rparr>, s1))
               else (case split_at (CHR ''='') fline of
                       None \<Rightarrow> read_line_loop ops ln s1
                     | Some x \<Rightarrow>
                         Some (True, ln\<lparr>key := \<lparr>group = (if group (key ln) = None then Some [] else group (key ln)),
                                                name = Some (etrim (fst x))\<rparr>,
                                        val := Some (etrim (snd x)), lpos := nat (stream_tell ops s1)\<rparr>, s1))))"

definition inifile_read :: "'s php_stream_ops \<Rightarrow> 's \<Rightarrow> line_type \<Rightarrow> (bool \<times> line_type \<times> 's) option" where
  "inifile_read ops s ln = read_line_loop ops (ln\<lparr>val := inifile_val_free (val ln)\<rparr>) s"

definition inifile_key_cmp :: "key_type \<Rightarrow> key_type \<Rightarrow> nat" where
  "inifile_key_cmp k1 k2 =
     (if strcaseeq (the (group k1)) (the (group k2))
      then (if strcaseeq (the (name k1)) (the (name k2)) then 0 else 1)
      else 2)"

section \<open>Fetching\<close>

text \<open>The loop of \<^verbatim>\<open>inifile_fetch\<close>: the line found, or \<^const>\<open>None\<close> after the end or after the group.\<close>

partial_function (option) fetch_loop ::
    "'s php_stream_ops \<Rightarrow> key_type \<Rightarrow> int \<Rightarrow> bool \<Rightarrow> line_type \<Rightarrow> 's \<Rightarrow> (line_type option \<times> 's) option" where
  "fetch_loop ops k skip grp_eq ln s =
     (case inifile_read ops s ln of
        None \<Rightarrow> None
      | Some r \<Rightarrow>
          if \<not> fst r then Some (None, snd (snd r))
          else let ln1 = fst (snd r); s1 = snd (snd r); res = inifile_key_cmp (key ln1) k
               in if res = 0 then (if skip = 0 then Some (Some ln1, s1) else fetch_loop ops k (skip - 1) grp_eq ln1 s1)
                  else if res = 1 then fetch_loop ops k skip True ln1 s1
                  else if grp_eq then Some (None, s1)
                  else fetch_loop ops k skip grp_eq ln1 s1)"

definition inifile_fetch :: "'s php_stream_ops \<Rightarrow> 's inifile \<Rightarrow> key_type \<Rightarrow> int \<Rightarrow> (string option \<times> 's inifile) option" where
  "inifile_fetch ops dba k skip =
     (let cached = (skip = -1 \<and> group (key (next_line dba)) \<noteq> None \<and> name (key (next_line dba)) \<noteq> None \<and>
            inifile_key_cmp (key (next_line dba)) k = 0);
          s1 = snd (stream_seek ops (if cached then int (lpos (next_line dba)) else 0) SEEK_SET (ifp dba));
          ln = (if cached then no_line\<lparr>key := \<lparr>group = group (key (next_line dba)), name = None\<rparr>\<rparr> else no_line);
          dba1 = (if cached then dba else dba\<lparr>next_line := inifile_line_free (next_line dba)\<rparr>)
      in case fetch_loop ops k (if skip = -1 then 0 else skip) False ln s1 of
           None \<Rightarrow> None
         | Some (Some ln1, s2) \<Rightarrow>
             Some (Some (case val ln1 of None \<Rightarrow> [] | Some v \<Rightarrow> v),
                   dba1\<lparr>ifp := s2, next_line := ln1\<lparr>lpos := nat (stream_tell ops s2)\<rparr>\<rparr>)
         | Some (None, s2) \<Rightarrow>
             Some (None, dba1\<lparr>ifp := s2, next_line := (next_line dba1)\<lparr>lpos := nat (stream_tell ops s2)\<rparr>\<rparr>))"

definition inifile_nextkey :: "'s php_stream_ops \<Rightarrow> 's inifile \<Rightarrow> (bool \<times> 's inifile) option" where
  "inifile_nextkey ops dba =
     (let s1 = snd (stream_seek ops (int (lpos (curr dba))) SEEK_SET (ifp dba));
          ln = no_line\<lparr>key := \<lparr>group = Some (case group (key (curr dba)) of None \<Rightarrow> [] | Some g \<Rightarrow> g), name = None\<rparr>\<rparr>
      in map_option (\<lambda>(r, ln1, s2). (group (key ln1) \<noteq> None \<or> name (key ln1) \<noteq> None, dba\<lparr>ifp := s2, curr := ln1\<rparr>))
           (inifile_read ops s1 ln))"

definition inifile_firstkey :: "'s php_stream_ops \<Rightarrow> 's inifile \<Rightarrow> (bool \<times> 's inifile) option" where
  "inifile_firstkey ops dba = inifile_nextkey ops (dba\<lparr>curr := (inifile_line_free (curr dba))\<lparr>lpos := 0\<rparr>\<rparr>)"

section \<open>Updating\<close>

definition inifile_truncate :: "'s php_stream_ops \<Rightarrow> nat \<Rightarrow> 's \<Rightarrow> int \<times> 's" where
  "inifile_truncate ops size1 s =
     (let (r, s1) = stream_truncate ops size1 s
      in if r \<noteq> 0 then (-1, s1) else (0, snd (stream_seek ops (int size1) SEEK_SET s1)))"

text \<open>The loops of \<^verbatim>\<open>inifile_find_group\<close> and \<^verbatim>\<open>inifile_next_group\<close>; the position is the one before the line found.\<close>

partial_function (option) group_loop ::
    "'s php_stream_ops \<Rightarrow> (key_type \<Rightarrow> bool) \<Rightarrow> nat \<Rightarrow> line_type \<Rightarrow> 's \<Rightarrow> (bool \<times> nat \<times> 's) option" where
  "group_loop ops stop p ln s =
     (case inifile_read ops s ln of
        None \<Rightarrow> None
      | Some r \<Rightarrow>
          if \<not> fst r then Some (False, p, snd (snd r))
          else if stop (key (fst (snd r))) then Some (True, p, snd (snd r))
          else group_loop ops stop (nat (stream_tell ops (snd (snd r)))) (fst (snd r)) (snd (snd r)))"

definition inifile_find_group :: "'s php_stream_ops \<Rightarrow> 's inifile \<Rightarrow> key_type \<Rightarrow> nat \<Rightarrow> (int \<times> nat \<times> 's inifile) option" where
  "inifile_find_group ops dba k pos_grp_start =
     (let s1 = snd (stream_seek ops 0 SEEK_SET (snd (stream_flush ops (ifp dba))));
          dba1 = dba\<lparr>ifp := s1, curr := inifile_line_free (curr dba), next_line := inifile_line_free (next_line dba)\<rparr>
      in if group k \<noteq> None \<and> the (group k) \<noteq> []
         then case group_loop ops (\<lambda>k1. inifile_key_cmp k1 k < 2) pos_grp_start no_line s1 of
                None \<Rightarrow> None
              | Some (found, p, s2) \<Rightarrow>
                  if found then Some (0, p, dba1\<lparr>ifp := s2\<rparr>)
                  else Some (-1, nat (stream_tell ops s2), dba1\<lparr>ifp := s2\<rparr>)
         else Some (0, 0, dba1))"

definition inifile_next_group :: "'s php_stream_ops \<Rightarrow> 's inifile \<Rightarrow> key_type \<Rightarrow> (int \<times> nat \<times> 's inifile) option" where
  "inifile_next_group ops dba k =
     map_option (\<lambda>(found, p, s2). (if found then 0 else -1, p, dba\<lparr>ifp := s2\<rparr>))
       (group_loop ops (\<lambda>k1. inifile_key_cmp k1 k = 2) (nat (stream_tell ops (ifp dba)))
          (no_line\<lparr>key := \<lparr>group = group k, name = None\<rparr>\<rparr>) (ifp dba))"

definition inifile_copy_to :: "'s php_stream_ops \<Rightarrow> 's inifile \<Rightarrow> nat \<Rightarrow> nat \<Rightarrow> int \<times> 's inifile \<times> 's inifile option" where
  "inifile_copy_to ops dba pos_start pos_end =
     (if pos_start = pos_end then (0, dba, None)
      else case stream_temp ops of
             None \<Rightarrow> (-1, dba, None)
           | Some t \<Rightarrow>
               (case inifile_alloc ops t True of
                  None \<Rightarrow> (-1, dba, None)
                | Some copy \<Rightarrow>
                    let s1 = snd (stream_seek ops (int pos_start) SEEK_SET (ifp dba));
                        (ok, s2, t2) = stream_copy ops (Some (pos_end - pos_start)) s1 (ifp copy)
                    in (if ok then 0 else -1, dba\<lparr>ifp := s2\<rparr>, Some (copy\<lparr>ifp := t2\<rparr>))))"

text \<open>The state of \<^verbatim>\<open>inifile_filter\<close>: source, destination, the two positions, whether the key was met and whether copying failed.\<close>

record 's filter_state =
  fs_from :: 's
  fs_to :: 's
  fs_start :: nat
  fs_next :: nat
  fs_found :: bool
  fs_failed :: bool

definition copy_pending :: "'s php_stream_ops \<Rightarrow> 's filter_state \<Rightarrow> 's filter_state" where
  "copy_pending ops st =
     (if fs_start st \<noteq> fs_next st
      then let f1 = snd (stream_seek ops (int (fs_start st)) SEEK_SET (fs_from st));
               (ok, f2, t2) = stream_copy ops (Some (fs_next st - fs_start st)) f1 (fs_to st)
           in st\<lparr>fs_from := f2, fs_to := t2, fs_failed := fs_failed st \<or> \<not> ok\<rparr>
      else st)"

definition filter_step :: "'s php_stream_ops \<Rightarrow> nat \<Rightarrow> 's filter_state \<Rightarrow> 's filter_state" where
  "filter_step ops res st =
     (if res = 0
      then let p = nat (stream_tell ops (fs_from st));
               st1 = copy_pending ops st;
               st2 = (if fs_start st \<noteq> fs_next st
                      then st1\<lparr>fs_from := snd (stream_seek ops (int p) SEEK_SET (fs_from st1))\<rparr> else st1)
           in st2\<lparr>fs_found := True, fs_next := p, fs_start := p\<rparr>
      else if res = 1 then st\<lparr>fs_next := nat (stream_tell ops (fs_from st))\<rparr>
      else st)"

partial_function (option) filter_loop ::
    "'s php_stream_ops \<Rightarrow> key_type \<Rightarrow> line_type \<Rightarrow> 's filter_state \<Rightarrow> 's filter_state option" where
  "filter_loop ops k ln st =
     (case inifile_read ops (fs_from st) ln of
        None \<Rightarrow> None
      | Some r \<Rightarrow>
          let st1 = st\<lparr>fs_from := snd (snd r)\<rparr>
          in if \<not> fst r then Some st1
             else filter_loop ops k (fst (snd r)) (filter_step ops (inifile_key_cmp (key (fst (snd r))) k) st1))"

definition inifile_filter :: "'s php_stream_ops \<Rightarrow> 's \<Rightarrow> 's \<Rightarrow> key_type \<Rightarrow> (int \<times> bool \<times> 's \<times> 's) option" where
  "inifile_filter ops dst src k =
     (let st = \<lparr>fs_from = snd (stream_seek ops 0 SEEK_SET src), fs_to = snd (stream_seek ops 0 SEEK_END dst),
                fs_start = 0, fs_next = 0, fs_found = False, fs_failed = False\<rparr>
      in map_option (\<lambda>st1. let st2 = copy_pending ops st1
           in (if fs_failed st2 then -1 else 0, fs_found st2, fs_to st2, fs_from st2))
         (filter_loop ops k no_line st))"

text \<open>Steps 4 and 5 of \<^verbatim>\<open>inifile_delete_replace_append\<close>: the remainder goes to a temporary stream, the file is cut.\<close>

definition save_remainder :: "'s php_stream_ops \<Rightarrow> nat \<Rightarrow> 's \<Rightarrow> int \<times> 's \<times> 's option" where
  "save_remainder ops pos_grp_next s =
     (case stream_temp ops of
        None \<Rightarrow> (-1, s, None)
      | Some t \<Rightarrow>
          let s1 = snd (stream_seek ops 0 SEEK_END s)
          in if int pos_grp_next \<noteq> stream_tell ops s1
             then let s2 = snd (stream_seek ops (int pos_grp_next) SEEK_SET s1);
                      (ok, s3, t3) = stream_copy ops None s2 t
                  in (if ok then 0 else -1, s3, Some t3)
             else (0, s1, Some t))"

text \<open>Steps 6 and 7: the lines of the group that stay are copied back, the new line is written.\<close>

definition write_group :: "'s php_stream_ops \<Rightarrow> key_type \<Rightarrow> string option \<Rightarrow> bool \<Rightarrow> bool \<Rightarrow> 's inifile option \<Rightarrow> 's \<Rightarrow>
    (int \<times> bool \<times> 's \<times> 's inifile option) option" where
  "write_group ops k value app new_group ini_tmp s =
     (case (if \<not> app then ini_tmp else None) of
        None \<Rightarrow> Some (0, False, s, ini_tmp)
      | Some tmp \<Rightarrow> map_option (\<lambda>(r, found, s1, t1). (r, found, s1, Some (tmp\<lparr>ifp := t1\<rparr>))) (inifile_filter ops s (ifp tmp) k))
     \<bind> (\<lambda>(r, found, s1, tmp1).
       Some (r, found,
         (case value of
            None \<Rightarrow> s1
          | Some v \<Rightarrow>
              let s2 = (if new_group \<and> group k \<noteq> None \<and> the (group k) \<noteq> []
                        then snd (stream_write ops (CHR ''['' # the (group k) @ [CHR '']'', newline]) s1) else s1)
              in snd (stream_write ops (the (name k) @ CHR ''='' # v @ [newline]) s2)), tmp1))"

text \<open>Step 8: the remainder is appended.\<close>

definition append_remainder :: "'s php_stream_ops \<Rightarrow> 's option \<Rightarrow> 's \<Rightarrow> bool \<times> 's" where
  "append_remainder ops fp_tmp s =
     (case fp_tmp of
        None \<Rightarrow> (True, s)
      | Some t \<Rightarrow>
          if stream_tell ops t = 0 then (True, s)
          else let t1 = snd (stream_seek ops 0 SEEK_SET t); s1 = snd (stream_seek ops 0 SEEK_END s);
                   (ok, t2, s2) = stream_copy ops None t1 s1
               in (ok, s2))"

definition has_name :: "key_type \<Rightarrow> bool" where
  "has_name k \<longleftrightarrow> name k \<noteq> None \<and> the (name k) \<noteq> []"

definition inifile_delete_replace_append ::
    "'s php_stream_ops \<Rightarrow> 's inifile \<Rightarrow> key_type \<Rightarrow> string option \<Rightarrow> bool \<Rightarrow> (int \<times> bool \<times> 's inifile) option" where
  "inifile_delete_replace_append ops dba k value app =
     (inifile_find_group ops dba k 0 \<bind> (\<lambda>(_, pos_grp_start, dba1).
      inifile_next_group ops dba1 k \<bind> (\<lambda>(_, pos_grp_next, dba2).
        let (ret3, dba3, ini_tmp) =
              (if app then (0, dba2, None) else inifile_copy_to ops dba2 pos_grp_start pos_grp_next);
            (ret4, s4, fp_tmp) =
              (if ret3 = 0 then save_remainder ops pos_grp_next (ifp dba3) else (ret3, ifp dba3, None));
            (ret5, s5) =
              (if ret4 = 0 \<and> (value = None \<or> has_name k)
               then inifile_truncate ops (if app then pos_grp_next else pos_grp_start) s4 else (ret4, s4))
        in (if ret5 = 0
            then (if has_name k then write_group ops k value app (pos_grp_start = pos_grp_next) ini_tmp s5
                  else Some (0, False, s5, ini_tmp))
                 \<bind> (\<lambda>(ret7, found, s7, tmp7).
                   let (ok, s8) = append_remainder ops fp_tmp s7 in Some (if ok then ret7 else -1, found, s8))
            else Some (ret5, False, s5))
           \<bind> (\<lambda>(ret, found, s8).
             Some (ret, found, dba3\<lparr>ifp := snd (stream_seek ops 0 SEEK_SET (snd (stream_flush ops s8)))\<rparr>)))))"

definition inifile_delete :: "'s php_stream_ops \<Rightarrow> 's inifile \<Rightarrow> key_type \<Rightarrow> (int \<times> 's inifile) option" where
  "inifile_delete ops dba k = map_option (\<lambda>(r, f, d). (r, d)) (inifile_delete_replace_append ops dba k None False)"

definition inifile_delete_ex :: "'s php_stream_ops \<Rightarrow> 's inifile \<Rightarrow> key_type \<Rightarrow> (int \<times> bool \<times> 's inifile) option" where
  "inifile_delete_ex ops dba k = inifile_delete_replace_append ops dba k None False"

definition inifile_replace :: "'s php_stream_ops \<Rightarrow> 's inifile \<Rightarrow> key_type \<Rightarrow> string option \<Rightarrow> (int \<times> 's inifile) option" where
  "inifile_replace ops dba k v = map_option (\<lambda>(r, f, d). (r, d)) (inifile_delete_replace_append ops dba k v False)"

definition inifile_replace_ex :: "'s php_stream_ops \<Rightarrow> 's inifile \<Rightarrow> key_type \<Rightarrow> string option \<Rightarrow> (int \<times> bool \<times> 's inifile) option" where
  "inifile_replace_ex ops dba k v = inifile_delete_replace_append ops dba k v False"

definition inifile_append :: "'s php_stream_ops \<Rightarrow> 's inifile \<Rightarrow> key_type \<Rightarrow> string option \<Rightarrow> (int \<times> 's inifile) option" where
  "inifile_append ops dba k v = map_option (\<lambda>(r, f, d). (r, d)) (inifile_delete_replace_append ops dba k v True)"

section \<open>The handler\<close>

definition dba_open_inifile :: "'s php_stream_ops \<Rightarrow> bool \<Rightarrow> 's \<Rightarrow> 's inifile option" where
  "dba_open_inifile ops reader s = inifile_alloc ops s reader"

definition dba_close_inifile :: "'s inifile \<Rightarrow> 's" where
  "dba_close_inifile dba = ifp dba"

definition dba_fetch_inifile :: "'s php_stream_ops \<Rightarrow> 's inifile \<Rightarrow> bytes \<Rightarrow> int \<Rightarrow> (string option \<times> 's inifile) option" where
  "dba_fetch_inifile ops dba k skip = inifile_fetch ops dba (inifile_key_split (cstr k)) skip"

definition dba_update_inifile :: "'s php_stream_ops \<Rightarrow> 's inifile \<Rightarrow> bytes \<Rightarrow> bytes \<Rightarrow> bool \<Rightarrow> (int \<times> 's inifile) option" where
  "dba_update_inifile ops dba k v mode =
     map_option (\<lambda>(res, d). (if res = -1 \<or> res = 1 then -1 else 0, d))
       (if mode then inifile_append ops dba (inifile_key_split (cstr k)) (Some (cstr v))
        else inifile_replace ops dba (inifile_key_split (cstr k)) (Some (cstr v)))"

definition dba_exists_inifile :: "'s php_stream_ops \<Rightarrow> 's inifile \<Rightarrow> bytes \<Rightarrow> (int \<times> 's inifile) option" where
  "dba_exists_inifile ops dba k =
     map_option (\<lambda>(v, d). (if v = None then -1 else 0, d)) (inifile_fetch ops dba (inifile_key_split (cstr k)) 0)"

definition dba_delete_inifile :: "'s php_stream_ops \<Rightarrow> 's inifile \<Rightarrow> bytes \<Rightarrow> (int \<times> 's inifile) option" where
  "dba_delete_inifile ops dba k =
     map_option (\<lambda>(res, found, d). (if res = -1 \<or> \<not> found then -1 else 0, d))
       (inifile_delete_ex ops dba (inifile_key_split (cstr k)))"

definition dba_firstkey_inifile :: "'s php_stream_ops \<Rightarrow> 's inifile \<Rightarrow> (string option \<times> 's inifile) option" where
  "dba_firstkey_inifile ops dba =
     map_option (\<lambda>(b, d). (if b then inifile_key_string (key (curr d)) else None, d)) (inifile_firstkey ops dba)"

definition dba_nextkey_inifile :: "'s php_stream_ops \<Rightarrow> 's inifile \<Rightarrow> (string option \<times> 's inifile) option" where
  "dba_nextkey_inifile ops dba =
     (if group (key (curr dba)) = None \<and> name (key (curr dba)) = None then Some (None, dba)
      else map_option (\<lambda>(b, d). (if b then inifile_key_string (key (curr d)) else None, d)) (inifile_nextkey ops dba))"

definition dba_optimize_inifile :: "'s inifile \<Rightarrow> int" where
  "dba_optimize_inifile dba = 0"

definition dba_sync_inifile :: "'s inifile \<Rightarrow> int" where
  "dba_sync_inifile dba = 0"

definition dba_info_inifile :: string where
  "dba_info_inifile = inifile_version"

section \<open>The file as lines and entries\<close>

text \<open>
  A file is cut into lines, each with its newline; only the last may lack one. A line is a group
  header, an entry or neither, and the entries of a file are what repeated calls of
  \<^verbatim>\<open>inifile_read\<close> deliver.
\<close>

definition is_line :: "bytes \<Rightarrow> bool" where
  "is_line l \<longleftrightarrow> l \<noteq> [] \<and> newline \<notin> set (butlast l)"

fun file_lines :: "bytes list \<Rightarrow> bool" where
  "file_lines [] = True"
| "file_lines [l] = is_line l"
| "file_lines (l # m # ls) = (is_line l \<and> last l = newline \<and> file_lines (m # ls))"

definition parse_line :: "string option \<Rightarrow> bytes \<Rightarrow> (key_type \<times> string option) option" where
  "parse_line g raw =
     (let fline = cstr raw
      in if fline \<noteq> [] \<and> hd fline = CHR ''[''
         then map_option (\<lambda>x. (\<lparr>group = Some (etrim (fst x)), name = Some []\<rparr>, None)) (split_at (CHR '']'') (tl fline))
         else map_option (\<lambda>x. (\<lparr>group = (if g = None then Some [] else g), name = Some (etrim (fst x))\<rparr>, Some (etrim (snd x))))
                (split_at (CHR ''='') fline))"

definition junk :: "bytes \<Rightarrow> bool" where
  "junk l \<longleftrightarrow> parse_line None l = None"

fun entries :: "string option \<Rightarrow> bytes list \<Rightarrow> (key_type \<times> string option) list" where
  "entries g [] = []"
| "entries g (l # ls) =
     (case parse_line g l of None \<Rightarrow> entries g ls | Some e \<Rightarrow> e # entries (group (fst e)) ls)"

lemma parse_line_None_iff: "parse_line g l = None \<longleftrightarrow> junk l"
  by (simp add: parse_line_def junk_def Let_def)

lemma parse_junk [simp]: "junk l \<Longrightarrow> parse_line g l = None"
  by (simp add: parse_line_None_iff)

lemma parse_not_junk: "parse_line g l = Some e \<Longrightarrow> \<not> junk l"
  using parse_line_None_iff [of g l] by simp

lemma parse_line_keys: "parse_line g l = Some e \<Longrightarrow> group (fst e) \<noteq> None \<and> name (fst e) \<noteq> None"
  by (auto simp: parse_line_def Let_def split: if_splits)

lemma entries_junk: "\<forall>l \<in> set ls. junk l \<Longrightarrow> entries g ls = []"
  by (induction ls) auto

lemma entries_skip: "\<forall>l \<in> set js. junk l \<Longrightarrow> entries g (js @ ls) = entries g ls"
  by (induction js) auto

lemma entries_keys: "e \<in> set (entries g ls) \<Longrightarrow> group (fst e) \<noteq> None \<and> name (fst e) \<noteq> None"
  by (induction g ls rule: entries.induct) (auto split: option.splits dest: parse_line_keys)

lemma entries_None_Some: "entries (Some []) ls = entries None ls"
  by (induction ls) (auto simp: parse_line_def Let_def split: option.splits)

lemma lines_file_lines: "file_lines (lines c)"
proof (induction c)
  case (Cons c cs)
  show ?case
  proof (cases "lines cs")
    case Nil
    then show ?thesis by (simp add: is_line_def)
  next
    case (Cons l ls)
    then show ?thesis using Cons.IH by (cases ls) (auto simp: is_line_def)
  qed
qed simp

lemma file_lines_tl: "file_lines (l # ls) \<Longrightarrow> file_lines ls"
  by (cases ls) auto

lemma file_lines_suffix: "file_lines (xs @ ys) \<Longrightarrow> file_lines ys"
  by (induction xs) (auto dest: file_lines_tl)

lemma file_lines_nonempty: "file_lines ls \<Longrightarrow> l \<in> set ls \<Longrightarrow> l \<noteq> []"
  by (induction ls rule: file_lines.induct) (auto simp: is_line_def)

lemma upto_newline_file_lines:
  assumes "file_lines (l # ls)"
  shows "upto_newline (concat (l # ls)) = l"
proof -
  have l: "l \<noteq> []" "newline \<notin> set (butlast l)" and nl: "ls \<noteq> [] \<Longrightarrow> last l = newline"
    using assms by (cases ls; auto simp: is_line_def)+
  show ?thesis
  proof (cases "last l = newline")
    case True
    then have "l = butlast l @ [newline]" using l(1) by (metis append_butlast_last_id)
    moreover have "upto_newline (butlast l @ newline # concat ls) = butlast l @ [newline]"
      using l(2) by (rule upto_newline_line)
    ultimately show ?thesis by (metis append.assoc append_Cons append_Nil concat.simps(2))
  next
    case False
    then have "ls = []" using nl by blast
    moreover have "newline \<notin> set l" using l False by (metis append_butlast_last_id in_set_conv_decomp rotate1.simps(2) set_ConsD set_rotate1)
    ultimately show ?thesis by (simp add: upto_newline_alone)
  qed
qed

text \<open>The stream stands before the lines \<open>ls\<close> of a file that begins with \<open>pre\<close>.\<close>

definition stands :: "('s \<Rightarrow> bytes) \<Rightarrow> ('s \<Rightarrow> nat) \<Rightarrow> bytes list \<Rightarrow> bytes list \<Rightarrow> 's \<Rightarrow> bool" where
  "stands c off pre ls s \<longleftrightarrow> c s = concat (pre @ ls) \<and> off s = length (concat pre)"

text \<open>What one call of \<^verbatim>\<open>inifile_read\<close> delivers.\<close>

inductive delivers :: "string option \<Rightarrow> bytes list \<Rightarrow> bytes list \<Rightarrow> (key_type \<times> string option) option \<Rightarrow> bytes list \<Rightarrow> bool" where
  delivers_end: "\<forall>l \<in> set ls. junk l \<Longrightarrow> delivers g ls ls None []"
| delivers_entry: "\<forall>l \<in> set js. junk l \<Longrightarrow> parse_line g l = Some e \<Longrightarrow> delivers g (js @ l # ls) (js @ [l]) (Some e) ls"

lemma delivers_ex: "\<exists>used e rest. delivers g ls used e rest"
proof (cases "\<forall>l \<in> set ls. junk l")
  case True
  then show ?thesis by (blast intro: delivers_end)
next
  case False
  then obtain js l rest where "ls = js @ l # rest" "\<not> junk l" "\<forall>l \<in> set js. junk l"
    using split_list_first_prop [of ls "\<lambda>l. \<not> junk l"] by blast
  then show ?thesis by (metis delivers_entry not_None_eq parse_line_None_iff)
qed

lemma delivers_split: "delivers g ls used e rest \<Longrightarrow> ls = used @ rest"
  by (auto elim: delivers.cases)

lemma delivers_entries:
  "delivers g ls used e rest \<Longrightarrow> entries g ls = (case e of None \<Rightarrow> [] | Some e \<Rightarrow> e # entries (group (fst e)) rest)"
  by (auto elim!: delivers.cases simp: entries_junk entries_skip)

lemma delivers_less: "delivers g ls used (Some e) rest \<Longrightarrow> length rest < length ls"
  by (auto elim: delivers.cases)

lemma delivers_Cons_junk: "junk l \<Longrightarrow> delivers g (l # ls) used e rest \<Longrightarrow> \<exists>u. used = l # u \<and> delivers g ls u e rest"
  by (erule delivers.cases)
    (auto simp: Cons_eq_append_conv dest: parse_not_junk intro: delivers.intros)

lemma delivers_Cons_entry:
  "parse_line g l = Some x \<Longrightarrow> delivers g (l # ls) used e rest \<Longrightarrow> used = [l] \<and> e = Some x \<and> rest = ls"
  by (erule delivers.cases) (auto simp: Cons_eq_append_conv dest: parse_not_junk)

lemma delivers_unique:
  assumes "delivers g ls u1 e1 r1" "delivers g ls u2 e2 r2"
  shows "u1 = u2 \<and> e1 = e2 \<and> r1 = r2"
  using assms
proof (induction ls arbitrary: u1 u2)
  case Nil
  then show ?case by (auto elim!: delivers.cases)
next
  case (Cons l ls)
  show ?case
  proof (cases "parse_line g l")
    case None
    then show ?thesis using Cons delivers_Cons_junk [of l g ls] by (metis parse_line_None_iff)
  next
    case (Some x)
    then show ?thesis using delivers_Cons_entry [OF Some] Cons.prems by metis
  qed
qed

context php_file
begin

abbreviation before :: "bytes list \<Rightarrow> bytes list \<Rightarrow> 'a \<Rightarrow> bool" where
  "before \<equiv> stands contents offset"

lemma gets_before:
  assumes "before pre (l # ls) s" "file_lines (l # ls)"
  shows "\<exists>s'. stream_gets ops None s = (Some l, s') \<and> before (pre @ [l]) ls s'"
proof -
  have "l \<noteq> []" using assms(2) file_lines_nonempty by (metis list.set_intros(1))
  have "line_of None (drop (offset s) (contents s)) = l"
    using assms upto_newline_file_lines by (simp add: stands_def line_of_def)
  with gets_line [of s None] assms(1) \<open>l \<noteq> []\<close> show ?thesis
    by (force simp: stands_def)
qed

lemma gets_before_end: "before pre [] s \<Longrightarrow> \<exists>s'. stream_gets ops None s = (None, s') \<and> before pre [] s'"
  using gets_eof [of s None] by (force simp: stands_def)

lemma read_line_loop_ok:
  assumes "before pre ls s" "file_lines ls" "delivers (group (key ln)) ls used e rest" "val ln = None"
  shows "\<exists>s'. read_line_loop ops ln s =
      Some (case e of None \<Rightarrow> (False, inifile_line_free ln, s')
            | Some (k, v) \<Rightarrow> (True, \<lparr>key = k, val = v, lpos = length (concat (pre @ used))\<rparr>, s')) \<and>
    before (pre @ used) rest s'"
  using assms
proof (induction ls arbitrary: pre s used)
  case Nil
  then have "used = []" "e = None" "rest = []" by (auto elim: delivers.cases)
  with gets_before_end [of pre s] Nil.prems(1) show ?case
    by (subst read_line_loop.simps) auto
next
  case (Cons l ls)
  obtain s1 where s1: "stream_gets ops None s = (Some l, s1)" "before (pre @ [l]) ls s1"
    using gets_before [OF Cons.prems(1,2)] by blast
  show ?case
  proof (cases "parse_line (group (key ln)) l")
    case None
    then have "junk l" by (simp add: parse_line_None_iff)
    then obtain u where u: "used = l # u" "delivers (group (key ln)) ls u e rest"
      using delivers_Cons_junk Cons.prems(3) by blast
    have "read_line_loop ops ln s = read_line_loop ops ln s1"
      using None s1(1) by (subst read_line_loop.simps) (auto simp: parse_line_def Let_def split: if_splits)
    with Cons.IH [OF s1(2) file_lines_tl [OF Cons.prems(2)] u(2) Cons.prems(4)] u(1) show ?thesis
      by (cases e) auto
  next
    case (Some x)
    then have "used = [l]" "e = Some x" "rest = ls" using delivers_Cons_entry Cons.prems(3) by blast+
    moreover have "nat (stream_tell ops s1) = length (concat (pre @ [l]))"
      using s1(2) by (simp add: tell_off stands_def)
    ultimately show ?thesis
      using Some s1 Cons.prems(4)
      by (subst read_line_loop.simps) (cases ln, auto simp: parse_line_def Let_def split: if_splits)
  qed
qed

lemma inifile_read_ok:
  assumes "before pre ls s" "file_lines ls" "delivers (group (key ln)) ls used e rest"
  shows "\<exists>s'. inifile_read ops s ln =
      Some (case e of None \<Rightarrow> (False, no_line, s')
            | Some (k, v) \<Rightarrow> (True, \<lparr>key = k, val = v, lpos = length (concat (pre @ used))\<rparr>, s')) \<and>
    before (pre @ used) rest s'"
proof -
  have "inifile_line_free l = no_line" for l
    by (cases l) (simp add: inifile_line_free_def no_line_def inifile_key_free_def inifile_val_free_def)
  with read_line_loop_ok [OF assms(1,2), of "ln\<lparr>val := inifile_val_free (val ln)\<rparr>" used e rest] assms(3)
  show ?thesis by (simp add: inifile_read_def inifile_val_free_def cong: option.case_cong)
qed

end

section \<open>Fetching and walking\<close>

text \<open>The search of \<^verbatim>\<open>inifile_fetch\<close> on the entries.\<close>

fun find_entry :: "key_type \<Rightarrow> int \<Rightarrow> bool \<Rightarrow> (key_type \<times> string option) list \<Rightarrow> (key_type \<times> string option) option" where
  "find_entry k skip grp_eq [] = None"
| "find_entry k skip grp_eq (e # es) =
     (if inifile_key_cmp (fst e) k = 0 then (if skip = 0 then Some e else find_entry k (skip - 1) grp_eq es)
      else if inifile_key_cmp (fst e) k = 1 then find_entry k skip True es
      else if grp_eq then None else find_entry k skip grp_eq es)"

text \<open>The values a key has: those of the entries equal to it, a header counting as empty.\<close>

definition values_of :: "key_type \<Rightarrow> (key_type \<times> string option) list \<Rightarrow> string list" where
  "values_of k es = map (\<lambda>e. case snd e of None \<Rightarrow> [] | Some v \<Rightarrow> v) (filter (\<lambda>e. inifile_key_cmp (fst e) k = 0) es)"

definition entry_value :: "(key_type \<times> string option) option \<Rightarrow> string option" where
  "entry_value e = map_option (\<lambda>e. case snd e of None \<Rightarrow> [] | Some v \<Rightarrow> v) e"

lemma find_entry_other: "\<forall>e \<in> set es. inifile_key_cmp (fst e) k = 2 \<Longrightarrow> find_entry k skip ge es = None"
  by (induction es) auto

lemma find_entry_skip_group:
  "\<forall>e \<in> set xs. inifile_key_cmp (fst e) k = 2 \<Longrightarrow> find_entry k skip False (xs @ es) = find_entry k skip False es"
  by (induction xs) auto

lemma key_cmp_cases: "inifile_key_cmp a b = 0 \<or> inifile_key_cmp a b = 1 \<or> inifile_key_cmp a b = 2"
  by (simp add: inifile_key_cmp_def)

text \<open>When the group is in one piece the search gives the value with the number asked for.\<close>

lemma find_entry_block:
  assumes "\<forall>e \<in> set blk. inifile_key_cmp (fst e) k < 2" "\<forall>e \<in> set post. inifile_key_cmp (fst e) k = 2" "0 \<le> skip"
  shows "entry_value (find_entry k skip ge (blk @ post)) =
    (if nat skip < length (values_of k blk) then Some (values_of k blk ! nat skip) else None)"
  using assms
proof (induction blk arbitrary: skip ge)
  case Nil
  then show ?case by (simp add: find_entry_other values_of_def entry_value_def)
next
  case (Cons e es)
  consider "inifile_key_cmp (fst e) k = 1" | "inifile_key_cmp (fst e) k = 0" "skip = 0"
    | "inifile_key_cmp (fst e) k = 0" "0 < skip"
    using Cons.prems key_cmp_cases [of "fst e" k] by force
  then show ?case
  proof cases
    case 1
    then show ?thesis using Cons.IH [of skip True] Cons.prems by (simp add: values_of_def)
  next
    case 2
    then show ?thesis by (simp add: values_of_def entry_value_def)
  next
    case 3
    then have "nat skip = Suc (nat (skip - 1))" by simp
    then show ?thesis using Cons.IH [of "skip - 1" ge] Cons.prems 3 by (simp add: values_of_def)
  qed
qed

lemma key_string_Some: "group k \<noteq> None \<Longrightarrow> name k \<noteq> None \<Longrightarrow> \<exists>x. inifile_key_string k = Some x"
  by (auto simp: inifile_key_string_def)

context php_file
begin

lemma fetch_loop_ok:
  assumes "before pre ls s" "file_lines ls"
  shows "\<exists>s'. contents s' = contents s \<and>
    (case find_entry k skip ge (entries (group (key ln)) ls) of
       None \<Rightarrow> fetch_loop ops k skip ge ln s = Some (None, s')
     | Some e \<Rightarrow> \<exists>used rest. ls = used @ rest \<and> before (pre @ used) rest s' \<and>
         fetch_loop ops k skip ge ln s = Some (Some \<lparr>key = fst e, val = snd e, lpos = length (concat (pre @ used))\<rparr>, s'))"
  using assms
proof (induction "length ls" arbitrary: ls pre s skip ge ln rule: less_induct)
  case less
  let ?cmp = "\<lambda>e. inifile_key_cmp (fst e) k"
  obtain used e rest where d: "delivers (group (key ln)) ls used e rest" using delivers_ex by blast
  have split: "ls = used @ rest" by (rule delivers_split [OF d])
  obtain s1 where read: "inifile_read ops s ln =
      Some (case e of None \<Rightarrow> (False, no_line, s1)
            | Some (k, v) \<Rightarrow> (True, \<lparr>key = k, val = v, lpos = length (concat (pre @ used))\<rparr>, s1))"
      and s1: "before (pre @ used) rest s1"
    using inifile_read_ok [OF less.prems d] by blast
  have same: "contents s1 = contents s" using s1 less.prems(1) split by (simp add: stands_def)
  show ?case
  proof (cases e)
    case None
    then show ?thesis using read same d by (subst fetch_loop.simps) (auto simp: delivers_entries)
  next
    case (Some x)
    define ln1 where "ln1 = \<lparr>key = fst x, val = snd x, lpos = length (concat (pre @ used))\<rparr>"
    have read1: "inifile_read ops s ln = Some (True, ln1, s1)" using read Some by (simp add: ln1_def case_prod_beta)
    have ent: "entries (group (key ln)) ls = x # entries (group (key ln1)) rest"
      using delivers_entries [OF d] Some by (simp add: ln1_def)
    have rest: "length rest < length ls" "file_lines rest"
      using delivers_less d Some less.prems(2) split file_lines_suffix by blast+
    have IH: "\<exists>s'. contents s' = contents s \<and>
      (case find_entry k sk g (entries (group (key ln1)) rest) of
         None \<Rightarrow> fetch_loop ops k sk g ln1 s1 = Some (None, s')
       | Some e \<Rightarrow> \<exists>used rest. ls = used @ rest \<and> before (pre @ used) rest s' \<and>
           fetch_loop ops k sk g ln1 s1 = Some (Some \<lparr>key = fst e, val = snd e, lpos = length (concat (pre @ used))\<rparr>, s'))" for sk g
    proof -
      from less.hyps [OF rest(1) s1 rest(2), of sk g ln1] obtain s' where s': "contents s' = contents s"
        "case find_entry k sk g (entries (group (key ln1)) rest) of
         None \<Rightarrow> fetch_loop ops k sk g ln1 s1 = Some (None, s')
       | Some e \<Rightarrow> \<exists>used' rest'. rest = used' @ rest' \<and> before ((pre @ used) @ used') rest' s' \<and>
           fetch_loop ops k sk g ln1 s1 = Some (Some \<lparr>key = fst e, val = snd e, lpos = length (concat ((pre @ used) @ used'))\<rparr>, s')"
        unfolding same by blast
      then show ?thesis
        by (cases "find_entry k sk g (entries (group (key ln1)) rest)")
          (auto simp: split, metis append.assoc concat_append length_append)
    qed
    have step: "fetch_loop ops k skip ge ln s =
       (if ?cmp x = 0 then (if skip = 0 then Some (Some ln1, s1) else fetch_loop ops k (skip - 1) ge ln1 s1)
        else if ?cmp x = 1 then fetch_loop ops k skip True ln1 s1
        else if ge then Some (None, s1) else fetch_loop ops k skip ge ln1 s1)"
      by (subst fetch_loop.simps) (simp add: read1 ln1_def)
    consider (hit) "?cmp x = 0" "skip = 0" | (leave) "?cmp x = 2" "ge"
      | (go) sk g where "fetch_loop ops k skip ge ln s = fetch_loop ops k sk g ln1 s1"
          "find_entry k skip ge (entries (group (key ln)) ls) = find_entry k sk g (entries (group (key ln1)) rest)"
      unfolding step ent using key_cmp_cases [of "fst x" k] by (cases "skip = 0"; cases ge) auto
    then show ?thesis
    proof cases
      case hit
      then show ?thesis using same s1 split unfolding ent step ln1_def by auto
    next
      case leave
      then show ?thesis using same unfolding ent step by auto
    next
      case go
      show ?thesis unfolding go by (rule IH)
    qed
  qed
qed

lemma rewind_lines:
  "\<exists>s'. stream_seek ops 0 SEEK_SET s = (0, s') \<and> before [] (lines (contents s)) s'"
  using seek_set [of 0 s] by (force simp: stands_def)

text \<open>\<^verbatim>\<open>inifile_fetch\<close> with a number, from any state of the handle.\<close>

lemma inifile_fetch_ok:
  assumes "0 \<le> skip"
  shows "\<exists>d'. inifile_fetch ops d k skip =
      Some (entry_value (find_entry k skip False (entries None (lines (contents (ifp d))))), d') \<and>
    contents (ifp d') = contents (ifp d)"
proof -
  obtain s1 where s1: "stream_seek ops 0 SEEK_SET (ifp d) = (0, s1)" "before [] (lines (contents (ifp d))) s1"
    using rewind_lines by blast
  have "contents s1 = contents (ifp d)" using s1(2) by (simp add: stands_def)
  moreover have "group (key no_line) = None" by (simp add: no_line_def no_key_def)
  ultimately show ?thesis
    using fetch_loop_ok [OF s1(2) lines_file_lines, of k skip False no_line] assms s1(1)
    by (cases "find_entry k skip False (entries None (lines (contents (ifp d))))")
      (auto simp: inifile_fetch_def Let_def entry_value_def)
qed

lemma nextkey_ok:
  assumes "contents (ifp d) = concat (pre @ ls)" "file_lines ls" "lpos (curr d) = length (concat pre)"
    and "delivers g ls used e rest" "g = Some (case group (key (curr d)) of None \<Rightarrow> [] | Some g \<Rightarrow> g)"
  shows "\<exists>s'. inifile_nextkey ops d = Some (e \<noteq> None, d\<lparr>ifp := s', curr :=
      (case e of None \<Rightarrow> no_line | Some (k, v) \<Rightarrow> \<lparr>key = k, val = v, lpos = length (concat (pre @ used))\<rparr>)\<rparr>) \<and>
    contents s' = contents (ifp d)"
proof -
  obtain s1 where s1: "stream_seek ops (int (lpos (curr d))) SEEK_SET (ifp d) = (0, s1)" "before pre ls s1"
    using seek_set [of "int (lpos (curr d))" "ifp d"] assms(1,3) by (force simp: stands_def)
  define ln where "ln = no_line\<lparr>key := \<lparr>group = g, name = None\<rparr>\<rparr>"
  have "group (key ln) = g" by (simp add: ln_def)
  from inifile_read_ok [OF s1(2) assms(2), of ln used e rest] assms(4) this obtain s2 where
    read: "inifile_read ops s1 ln =
      Some (case e of None \<Rightarrow> (False, no_line, s2)
            | Some (k, v) \<Rightarrow> (True, \<lparr>key = k, val = v, lpos = length (concat (pre @ used))\<rparr>, s2))"
    "before (pre @ used) rest s2" by auto
  have "contents s2 = contents (ifp d)" using read(2) assms(1) delivers_split [OF assms(4)] by (simp add: stands_def)
  moreover have "e = Some x \<Longrightarrow> group (fst x) \<noteq> None" for x
    using delivers_entries [OF assms(4)] entries_keys [of x g ls] by auto
  moreover have "group (key no_line) = None" "name (key no_line) = None" by (simp_all add: no_line_def no_key_def)
  ultimately show ?thesis using s1(1) read(1) assms(5)
    by (cases e) (auto simp: inifile_nextkey_def Let_def ln_def)
qed

abbreviation ini_next :: "'a inifile \<Rightarrow> (string option \<times> 'a inifile) option" where
  "ini_next \<equiv> dba_nextkey_inifile ops"

lemma walk_ok:
  assumes "contents (ifp d) = concat (pre @ ls)" "file_lines ls"
    and "curr d = \<lparr>key = \<lparr>group = Some g, name = Some n\<rparr>, val = v, lpos = length (concat pre)\<rparr>"
    and "length (entries (Some g) ls) < fuel"
  shows "walk ini_next fuel (Some (inifile_key_string (key (curr d)), d)) =
    Some (map (\<lambda>e. the (inifile_key_string (fst e))) ((key (curr d), v) # entries (Some g) ls))"
  using assms
proof (induction fuel arbitrary: d pre ls g n v)
  case (Suc fuel)
  obtain used e rest where d: "delivers (Some g) ls used e rest" using delivers_ex by blast
  have split: "ls = used @ rest" by (rule delivers_split [OF d])
  obtain ks where ks: "inifile_key_string (key (curr d)) = Some ks" using key_string_Some [of "key (curr d)"] Suc.prems(3) by auto
  have key: "lpos (curr d) = length (concat pre)" "Some g = Some (case group (key (curr d)) of None \<Rightarrow> [] | Some g \<Rightarrow> g)"
    by (simp_all add: Suc.prems(3))
  obtain s1 where s1: "inifile_nextkey ops d = Some (e \<noteq> None, d\<lparr>ifp := s1, curr :=
      (case e of None \<Rightarrow> no_line | Some (k, v) \<Rightarrow> \<lparr>key = k, val = v, lpos = length (concat (pre @ used))\<rparr>)\<rparr>)"
      "contents s1 = contents (ifp d)"
    using nextkey_ok [OF Suc.prems(1,2) key(1) d key(2)] by blast
  show ?case
  proof (cases e)
    case None
    then have "entries (Some g) ls = []" using delivers_entries [OF d] by simp
    then show ?thesis using s1(1) None ks Suc.prems(3) by (simp add: dba_nextkey_inifile_def)
  next
    case (Some x)
    obtain g' n' where x: "fst x = \<lparr>group = Some g', name = Some n'\<rparr>"
      using delivers_entries [OF d] entries_keys [of x "Some g" ls] Some by (cases "fst x") auto
    define d' where "d' = d\<lparr>ifp := s1, curr := \<lparr>key = fst x, val = snd x, lpos = length (concat (pre @ used))\<rparr>\<rparr>"
    have ent: "entries (Some g) ls = x # entries (Some g') rest" using delivers_entries [OF d] Some x by simp
    have "walk ini_next fuel (Some (inifile_key_string (key (curr d')), d')) =
        Some (map (\<lambda>e. the (inifile_key_string (fst e))) ((key (curr d'), snd x) # entries (Some g') rest))"
      by (rule Suc.IH [where pre = "pre @ used" and n = n'])
        (use s1(2) Suc.prems(1,2,4) split file_lines_suffix x ent in \<open>auto simp: d'_def\<close>)
    moreover have "ini_next d = Some (inifile_key_string (key (curr d')), d')"
      using s1(1) Some Suc.prems(3) by (simp add: dba_nextkey_inifile_def d'_def case_prod_beta)
    ultimately show ?thesis using ks ent by (simp add: d'_def)
  qed
qed simp

lemma walk_all:
  assumes "length (entries None (lines (contents (ifp d)))) < fuel"
  shows "walk ini_next fuel (dba_firstkey_inifile ops d) =
    Some (map (\<lambda>e. the (inifile_key_string (fst e))) (entries None (lines (contents (ifp d)))))"
proof -
  let ?d = "d\<lparr>curr := (inifile_line_free (curr d))\<lparr>lpos := 0\<rparr>\<rparr>"
  let ?ls = "lines (contents (ifp d))"
  obtain used e rest where del: "delivers (Some []) ?ls used e rest" using delivers_ex by blast
  have key: "group (key (curr ?d)) = None" "lpos (curr ?d) = 0"
    by (simp_all add: inifile_line_free_def inifile_key_free_def no_key_def)
  obtain s1 where s1: "inifile_nextkey ops ?d = Some (e \<noteq> None, ?d\<lparr>ifp := s1, curr :=
      (case e of None \<Rightarrow> no_line | Some (k, v) \<Rightarrow> \<lparr>key = k, val = v, lpos = length (concat ([] @ used))\<rparr>)\<rparr>)"
      "contents s1 = contents (ifp d)"
    using nextkey_ok [OF _ lines_file_lines _ del, of ?d "[]"] key by auto
  show ?thesis
  proof (cases e)
    case None
    then have "entries None ?ls = []" using delivers_entries [OF del] by (simp add: entries_None_Some)
    then show ?thesis using s1(1) None by (simp add: dba_firstkey_inifile_def inifile_firstkey_def)
  next
    case (Some x)
    obtain g' n' where x: "fst x = \<lparr>group = Some g', name = Some n'\<rparr>"
      using delivers_entries [OF del] entries_keys [of x "Some []" ?ls] Some by (cases "fst x") auto
    define d' where "d' = ?d\<lparr>ifp := s1, curr := \<lparr>key = fst x, val = snd x, lpos = length (concat used)\<rparr>\<rparr>"
    have ent: "entries None ?ls = x # entries (Some g') rest"
      using delivers_entries [OF del] Some x by (simp add: entries_None_Some)
    have "concat (used @ rest) = contents (ifp d)" by (metis delivers_split del lines_concat)
    then have cont: "contents (ifp d') = concat (used @ rest)" using s1(2) by (simp add: d'_def)
    have "walk ini_next fuel (Some (inifile_key_string (key (curr d')), d')) =
        Some (map (\<lambda>e. the (inifile_key_string (fst e))) ((key (curr d'), snd x) # entries (Some g') rest))"
      by (rule walk_ok [OF cont, where n = n'])
        (use lines_file_lines [of "contents (ifp d)"] delivers_split [OF del] file_lines_suffix [of used rest] x ent assms in \<open>auto simp: d'_def\<close>)
    moreover have "dba_firstkey_inifile ops d = Some (inifile_key_string (key (curr d')), d')"
      using s1(1) Some by (simp add: dba_firstkey_inifile_def inifile_firstkey_def d'_def case_prod_beta)
    ultimately show ?thesis using ent by (simp add: d'_def)
  qed
qed

end

end
