(* ===== verification/InifileUpdate.thy ===== *)
theory InifileUpdate
  imports Inifile
begin

text \<open>
  What replacing, appending and deleting do to an INI file (\<^verbatim>\<open>inifile_delete_replace_append\<close> of
  \<^verbatim>\<open>compile/extensions/dba/libinifile/inifile.c\<close>), line by line and entry by entry, and the properties of
  the INI library and handler. The lines of the file are cut into those before the key's group, those
  of the group and those after it; \<open>keep\<close> is what stays of the group.
\<close>

section \<open>The parts of a file\<close>

fun last_group :: "string option \<Rightarrow> bytes list \<Rightarrow> string option" where
  "last_group g [] = g"
| "last_group g (l # ls) = (case parse_line g l of None \<Rightarrow> last_group g ls | Some e \<Rightarrow> last_group (group (fst e)) ls)"

definition ends_entry :: "bytes list \<Rightarrow> bool" where
  "ends_entry ls \<longleftrightarrow> ls = [] \<or> \<not> junk (last ls)"

lemma ini_entries_append: "entries g (xs @ ys) = entries g xs @ entries (last_group g xs) ys"
  by (induction g xs rule: entries.induct) (auto split: option.splits)

lemma last_group_append: "last_group g (xs @ ys) = last_group (last_group g xs) ys"
  by (induction g xs rule: last_group.induct) (auto split: option.splits)

lemma last_group_junk: "\<forall>l \<in> set ls. junk l \<Longrightarrow> last_group g ls = g"
  by (induction ls) auto

lemma split_last_entry: "\<exists>xs js. ls = xs @ js \<and> ends_entry xs \<and> (\<forall>l \<in> set js. junk l)"
proof (induction ls rule: rev_induct)
  case (snoc l ls)
  show ?case
  proof (cases "junk l")
    case True
    from snoc obtain xs js where "ls = xs @ js" "ends_entry xs" "\<forall>l \<in> set js. junk l" by blast
    with True show ?thesis by (intro exI [of _ xs] exI [of _ "js @ [l]"]) auto
  next
    case False
    then show ?thesis by (intro exI [of _ "ls @ [l]"] exI [of _ "[]"]) (simp add: ends_entry_def)
  qed
qed (simp add: ends_entry_def)

lemma file_lines_prefix: "file_lines (xs @ ys) \<Longrightarrow> file_lines xs"
proof (induction xs rule: file_lines.induct)
  case (2 l)
  then show ?case by (cases ys) auto
qed auto

text \<open>A piece of lines that ends with an entry, as \<^verbatim>\<open>inifile_read\<close> takes it apart.\<close>

lemma delivers_piece:
  assumes "xs \<noteq> []" "ends_entry xs" "delivers g (xs @ ys) used e rest"
  obtains x xs' where "e = Some x" "xs = used @ xs'" "rest = xs' @ ys" "ends_entry xs'"
    "entries g xs = x # entries (group (fst x)) xs'" "last_group g xs = last_group (group (fst x)) xs'"
proof -
  obtain js l xs' where xs: "xs = js @ l # xs'" "\<not> junk l" "\<forall>l \<in> set js. junk l"
    using assms(1,2) split_list_first_prop [of xs "\<lambda>l. \<not> junk l"] by (metis ends_entry_def last_in_set)
  then obtain x where x: "parse_line g l = Some x" by (metis not_None_eq parse_line_None_iff)
  have "delivers g (xs @ ys) (js @ [l]) (Some x) (xs' @ ys)"
    using delivers_entry [OF xs(3) x] by (simp add: xs(1))
  from delivers_unique [OF assms(3) this] have "used = js @ [l]" "e = Some x" "rest = xs' @ ys" by auto
  moreover have "ends_entry xs'" using assms(2) by (auto simp: xs(1) ends_entry_def)
  moreover have "entries g xs = x # entries (group (fst x)) xs'" "last_group g xs = last_group (group (fst x)) xs'"
    using xs x by (simp_all add: entries_skip last_group_append last_group_junk)
  ultimately show thesis using that xs(1) by simp
qed

context php_file
begin

lemma group_loop_ok:
  assumes "before pre (xs @ js @ tail) s" "file_lines (xs @ js @ tail)" "ends_entry xs"
    and "\<forall>e \<in> set (entries (group (key ln)) xs). \<not> stop (fst e)" "\<forall>l \<in> set js. junk l"
    and "tail \<noteq> [] \<Longrightarrow> \<exists>e. parse_line (last_group (group (key ln)) xs) (hd tail) = Some e \<and> stop (fst e)"
  shows "\<exists>s'. group_loop ops stop p ln s =
      Some (tail \<noteq> [], if xs = [] then p else length (concat (pre @ xs)), s') \<and>
    before (pre @ xs @ js @ take 1 tail) (drop 1 tail) s'"
  using assms
proof (induction "length xs" arbitrary: xs pre p ln s rule: less_induct)
  case less
  show ?case
  proof (cases "xs = []")
    case True
    show ?thesis
    proof (cases tail)
      case Nil
      have "delivers (group (key ln)) js js None []" by (rule delivers_end [OF less.prems(5)])
      from inifile_read_ok [OF _ _ this, of pre s] less.prems(1,2) True Nil show ?thesis
        by (subst group_loop.simps) auto
    next
      case (Cons l rest)
      then obtain e where e: "parse_line (group (key ln)) l = Some e" "stop (fst e)"
        using less.prems(6) True by auto
      from delivers_entry [OF less.prems(5) e(1), of rest]
      have "delivers (group (key ln)) (js @ l # rest) (js @ [l]) (Some e) rest" .
      from inifile_read_ok [OF _ _ this, of pre s] less.prems(1,2) True Cons obtain s1 where
        "inifile_read ops s ln = Some (True, \<lparr>key = fst e, val = snd e, lpos = length (concat (pre @ js @ [l]))\<rparr>, s1)"
        "before (pre @ js @ [l]) rest s1" by (auto simp: case_prod_beta)
      with e(2) True Cons show ?thesis by (subst group_loop.simps) auto
    qed
  next
    case False
    obtain used e rest where d: "delivers (group (key ln)) (xs @ js @ tail) used e rest" using delivers_ex by blast
    from delivers_piece [OF False less.prems(3) d] obtain x xs' where x: "e = Some x" "xs = used @ xs'"
      "rest = xs' @ js @ tail" "ends_entry xs'" "entries (group (key ln)) xs = x # entries (group (fst x)) xs'"
      "last_group (group (key ln)) xs = last_group (group (fst x)) xs'" by blast
    obtain s1 where s1: "inifile_read ops s ln =
        Some (True, \<lparr>key = fst x, val = snd x, lpos = length (concat (pre @ used))\<rparr>, s1)" "before (pre @ used) rest s1"
      using inifile_read_ok [OF less.prems(1,2) d] x(1) by (auto simp: case_prod_beta)
    have "used \<noteq> []" using delivers_less [OF d [unfolded x(1)]] x(2,3) by auto
    define ln1 where "ln1 = \<lparr>key = fst x, val = snd x, lpos = length (concat (pre @ used))\<rparr>"
    have "nat (stream_tell ops s1) = length (concat (pre @ used))" using s1(2) by (simp add: tell_off stands_def)
    then have "group_loop ops stop p ln s = group_loop ops stop (length (concat (pre @ used))) ln1 s1"
      using s1(1) less.prems(4) x(5) by (subst group_loop.simps) (simp add: ln1_def)
    moreover have "\<exists>s'. group_loop ops stop (length (concat (pre @ used))) ln1 s1 =
      Some (tail \<noteq> [], if xs' = [] then length (concat (pre @ used)) else length (concat ((pre @ used) @ xs')), s') \<and>
      before ((pre @ used) @ xs' @ js @ take 1 tail) (drop 1 tail) s'"
      by (rule less.hyps)
        (use \<open>used \<noteq> []\<close> x s1(2) less.prems(2,4,5,6) file_lines_suffix [of used] in \<open>auto simp: ln1_def\<close>)
    ultimately show ?thesis using False x(2) by (auto split: if_splits)
  qed
qed

end

section \<open>What stays of a group\<close>

text \<open>
  An entry equal to the key goes, with the lines before it that are not entries; so do such lines
  at the end.
\<close>

fun keep :: "key_type \<Rightarrow> string option \<Rightarrow> bytes list \<Rightarrow> bytes list \<Rightarrow> bytes list" where
  "keep k g js [] = []"
| "keep k g js (l # ls) =
     (case parse_line g l of
        None \<Rightarrow> keep k g (js @ [l]) ls
      | Some e \<Rightarrow> if inifile_key_cmp (fst e) k = 0 then keep k (group (fst e)) [] ls
                  else js @ l # keep k (group (fst e)) [] ls)"

lemma keep_junk: "\<forall>l \<in> set ls. junk l \<Longrightarrow> keep k g js ls = []"
  by (induction ls arbitrary: js) auto

lemma keep_skip: "\<forall>l \<in> set ys. junk l \<Longrightarrow> keep k g js (ys @ ls) = keep k g (js @ ys) ls"
  by (induction ys arbitrary: js) auto

lemma keep_entry:
  "\<forall>l \<in> set ys. junk l \<Longrightarrow> parse_line g l = Some e \<Longrightarrow> keep k g [] (ys @ l # ls) =
    (if inifile_key_cmp (fst e) k = 0 then [] else ys @ [l]) @ keep k (group (fst e)) [] ls"
  by (simp add: keep_skip)

text \<open>The line written for a value, and a new group's header.\<close>

abbreviation new_text :: "key_type \<Rightarrow> string option \<Rightarrow> bool \<Rightarrow> bytes" where
  "new_text k value new_group \<equiv>
     (case value of None \<Rightarrow> []
      | Some v \<Rightarrow> (if new_group \<and> the (group k) \<noteq> [] then CHR ''['' # the (group k) @ [CHR '']'', newline] else []) @
          the (name k) @ CHR ''='' # v @ [newline])"

context php_file
begin

lemma copy_pending_ok:
  assumes "contents (fs_from st) = concat (p0 @ ps @ rest)" "fs_start st = length (concat p0)"
    and "fs_next st = length (concat (p0 @ ps))" "offset (fs_to st) = length (contents (fs_to st))"
  shows "\<exists>f t. copy_pending ops st = st\<lparr>fs_from := f, fs_to := t\<rparr> \<and> contents f = contents (fs_from st) \<and>
    (ps = [] \<longrightarrow> f = fs_from st) \<and>
    contents t = contents (fs_to st) @ concat ps \<and> offset t = length (contents t)"
proof (cases "concat ps = []")
  case True
  then show ?thesis using assms by (intro exI [of _ "fs_from st"] exI [of _ "fs_to st"]) (simp add: copy_pending_def)
next
  case False
  obtain f1 where f1: "stream_seek ops (int (fs_start st)) SEEK_SET (fs_from st) = (0, f1)"
      "contents f1 = contents (fs_from st)" "offset f1 = fs_start st"
    using seek_set [of "int (fs_start st)" "fs_from st"] by auto
  have bs: "take (fs_next st - fs_start st) (drop (offset f1) (contents f1)) = concat ps"
    using assms(1-3) f1 by simp
  obtain f2 t2 where c: "stream_copy ops (Some (fs_next st - fs_start st)) f1 (fs_to st) = (True, f2, t2)"
      "contents f2 = contents f1" "contents t2 = write_at (contents (fs_to st)) (offset (fs_to st)) (concat ps)"
      "offset t2 = offset (fs_to st) + length (concat ps)"
    using copy_ok [of "Some (fs_next st - fs_start st)" f1 "fs_to st"] bs by (auto simp: Let_def)
  then show ?thesis using False assms f1
    by (intro exI [of _ f2] exI [of _ t2]) (auto simp: copy_pending_def Let_def)
qed

lemma filter_step_ok:
  assumes "before (p0 @ ps @ used) rest (fs_from st)" "fs_start st = length (concat p0)"
    and "fs_next st = length (concat (p0 @ ps))" "offset (fs_to st) = length (contents (fs_to st))"
    and "\<not> fs_failed st" "inifile_key_cmp (fst x) k < 2"
  shows "\<exists>ps1 p1. let st1 = filter_step ops (inifile_key_cmp (fst x) k) st in
    before (p1 @ ps1) rest (fs_from st1) \<and> fs_start st1 = length (concat p1) \<and> fs_next st1 = length (concat (p1 @ ps1)) \<and>
    offset (fs_to st1) = length (contents (fs_to st1)) \<and> \<not> fs_failed st1 \<and>
    fs_found st1 = (fs_found st \<or> inifile_key_cmp (fst x) k = 0) \<and>
    contents (fs_to st1) @ concat ps1 =
      contents (fs_to st) @ concat ps @ (if inifile_key_cmp (fst x) k = 0 then [] else concat used)"
proof -
  have tell: "nat (stream_tell ops (fs_from st)) = length (concat (p0 @ ps @ used))"
    using assms(1) by (simp add: tell_off stands_def)
  have src: "contents (fs_from st) = concat (p0 @ ps @ (used @ rest))" using assms(1) by (simp add: stands_def)
  consider "inifile_key_cmp (fst x) k = 0" | "inifile_key_cmp (fst x) k = 1" using assms(6) by linarith
  then show ?thesis
  proof cases
    case 1
    obtain f t where cp: "copy_pending ops st = st\<lparr>fs_from := f, fs_to := t\<rparr>" "contents f = contents (fs_from st)"
        "ps = [] \<longrightarrow> f = fs_from st" "contents t = contents (fs_to st) @ concat ps" "offset t = length (contents t)"
      using copy_pending_ok [OF src assms(2-4)] by blast
    obtain f2 where f2: "stream_seek ops (int (length (concat (p0 @ ps @ used)))) SEEK_SET f = (0, f2)"
        "contents f2 = contents f" "offset f2 = length (concat (p0 @ ps @ used))"
      using seek_set [of "int (length (concat (p0 @ ps @ used)))" f] by auto
    let ?f = "if fs_start st \<noteq> fs_next st then f2 else f"
    let ?p = "length (concat (p0 @ ps @ used))"
    have step: "filter_step ops 0 st = st\<lparr>fs_from := ?f, fs_to := t, fs_found := True, fs_next := ?p, fs_start := ?p\<rparr>"
      unfolding filter_step_def Let_def tell cp(1) using f2(1) by simp
    have "before (p0 @ ps @ used) rest ?f"
    proof (cases "fs_start st = fs_next st")
      case True
      then have "copy_pending ops st = st" by (simp add: copy_pending_def)
      then have "f = fs_from st" using cp(1) by (metis filter_state.select_convs(1) filter_state.surjective filter_state.update_convs(1) filter_state.update_convs(2))
      then show ?thesis using True assms(1) by simp
    next
      case False
      then show ?thesis using f2 cp(2) assms(1) by (simp add: stands_def)
    qed
    then show ?thesis using cp(4,5) assms(5) step
      by (intro exI [of _ "[]"] exI [of _ "p0 @ ps @ used"]) (simp add: 1 Let_def)
  next
    case 2
    have step: "filter_step ops 1 st = st\<lparr>fs_next := length (concat (p0 @ ps @ used))\<rparr>"
      unfolding filter_step_def tell by simp
    then show ?thesis using assms
      by (intro exI [of _ "ps @ used"] exI [of _ p0]) (simp add: 2 Let_def)
  qed
qed

lemma filter_loop_ok:
  assumes "before (p0 @ ps) ls (fs_from st)" "file_lines ls" "fs_start st = length (concat p0)"
    and "fs_next st = length (concat (p0 @ ps))" "offset (fs_to st) = length (contents (fs_to st))" "\<not> fs_failed st"
    and "\<forall>e \<in> set (entries (group (key ln)) ls). inifile_key_cmp (fst e) k < 2"
  shows "\<exists>st'. filter_loop ops k ln st = Some st' \<and> \<not> fs_failed (copy_pending ops st') \<and>
    fs_found (copy_pending ops st') = (fs_found st \<or> (\<exists>e \<in> set (entries (group (key ln)) ls). inifile_key_cmp (fst e) k = 0)) \<and>
    contents (fs_to (copy_pending ops st')) = contents (fs_to st) @ concat ps @ concat (keep k (group (key ln)) [] ls) \<and>
    offset (fs_to (copy_pending ops st')) = length (contents (fs_to (copy_pending ops st')))"
  using assms
proof (induction "length ls" arbitrary: ls p0 ps st ln rule: less_induct)
  case less
  obtain used e rest where d: "delivers (group (key ln)) ls used e rest" using delivers_ex by blast
  have split: "ls = used @ rest" by (rule delivers_split [OF d])
  obtain s1 where s1: "inifile_read ops (fs_from st) ln =
      Some (case e of None \<Rightarrow> (False, no_line, s1)
            | Some (k, v) \<Rightarrow> (True, \<lparr>key = k, val = v, lpos = length (concat ((p0 @ ps) @ used))\<rparr>, s1))"
      "before ((p0 @ ps) @ used) rest s1"
    using inifile_read_ok [OF less.prems(1,2) d] by blast
  let ?st = "st\<lparr>fs_from := s1\<rparr>"
  show ?case
  proof (cases e)
    case None
    then have "rest = []" "\<forall>l \<in> set ls. junk l" using d by (auto elim: delivers.cases)
    then have "entries (group (key ln)) ls = []" "keep k (group (key ln)) [] ls = []" "contents s1 = concat (p0 @ ps @ used)"
      using s1(2) by (auto simp: entries_junk keep_junk stands_def)
    moreover have "filter_loop ops k ln st = Some ?st" using s1(1) None by (subst filter_loop.simps) simp
    moreover from copy_pending_ok [of ?st p0 ps used] calculation(3) less.prems(3-5) obtain f t where
      "copy_pending ops ?st = ?st\<lparr>fs_from := f, fs_to := t\<rparr>" "contents t = contents (fs_to st) @ concat ps" "offset t = length (contents t)"
      by auto
    ultimately show ?thesis using less.prems(6) by simp
  next
    case (Some x)
    define ln1 where "ln1 = \<lparr>key = fst x, val = snd x, lpos = length (concat ((p0 @ ps) @ used))\<rparr>"
    have ent: "entries (group (key ln)) ls = x # entries (group (key ln1)) rest"
      using delivers_entries [OF d] Some by (simp add: ln1_def)
    have kp: "concat (keep k (group (key ln)) [] ls) =
        (if inifile_key_cmp (fst x) k = 0 then [] else concat used) @ concat (keep k (group (key ln1)) [] rest)"
      using d unfolding Some by cases (simp add: keep_entry ln1_def)
    have prems: "before (p0 @ ps @ used) rest (fs_from ?st)" "fs_start ?st = length (concat p0)"
        "fs_next ?st = length (concat (p0 @ ps))" "offset (fs_to ?st) = length (contents (fs_to ?st))" "\<not> fs_failed ?st"
        "inifile_key_cmp (fst x) k < 2"
      using s1(2) less.prems(3-7) ent by simp_all
    define st1 where "st1 = filter_step ops (inifile_key_cmp (fst x) k) ?st"
    obtain ps1 p1 where st1: "before (p1 @ ps1) rest (fs_from st1)"
        "fs_start st1 = length (concat p1)" "fs_next st1 = length (concat (p1 @ ps1))"
        "offset (fs_to st1) = length (contents (fs_to st1))" "\<not> fs_failed st1"
        "fs_found st1 = (fs_found ?st \<or> inifile_key_cmp (fst x) k = 0)"
        "contents (fs_to st1) @ concat ps1 =
           contents (fs_to ?st) @ concat ps @ (if inifile_key_cmp (fst x) k = 0 then [] else concat used)"
      using filter_step_ok [OF prems] unfolding Let_def st1_def [symmetric] by metis
    have rest: "length rest < length ls" "file_lines rest"
      using delivers_less d Some less.prems(2) split file_lines_suffix by blast+
    have small: "\<forall>e \<in> set (entries (group (key ln1)) rest). inifile_key_cmp (fst e) k < 2" using less.prems(7) ent by simp
    from less.hyps [OF rest(1) st1(1) rest(2) st1(2-5) small] obtain st' where st': "filter_loop ops k ln1 st1 = Some st'" "\<not> fs_failed (copy_pending ops st')"
      "fs_found (copy_pending ops st') = (fs_found st1 \<or> (\<exists>e \<in> set (entries (group (key ln1)) rest). inifile_key_cmp (fst e) k = 0))"
      "contents (fs_to (copy_pending ops st')) = contents (fs_to st1) @ concat ps1 @ concat (keep k (group (key ln1)) [] rest)"
      "offset (fs_to (copy_pending ops st')) = length (contents (fs_to (copy_pending ops st')))"
      by metis
    have "filter_loop ops k ln st = filter_loop ops k ln1 st1"
      using s1(1) Some by (subst filter_loop.simps) (simp add: ln1_def st1_def case_prod_beta)
    then show ?thesis using st' st1(6,7) ent kp by auto
  qed
qed

lemma inifile_filter_ok:
  assumes "contents src = concat G" "file_lines G" "\<forall>e \<in> set (entries None G). inifile_key_cmp (fst e) k < 2"
  shows "\<exists>t f. inifile_filter ops dst src k = Some (0, \<exists>e \<in> set (entries None G). inifile_key_cmp (fst e) k = 0, t, f) \<and>
    contents t = contents dst @ concat (keep k None [] G) \<and> offset t = length (contents t)"
proof -
  obtain f0 where f0: "stream_seek ops 0 SEEK_SET src = (0, f0)" "before [] G f0"
    using seek_set [of 0 src] assms(1) by (force simp: stands_def)
  obtain t0 where t0: "stream_seek ops 0 SEEK_END dst = (0, t0)" "contents t0 = contents dst" "offset t0 = length (contents dst)"
    using seek_end [of dst] by auto
  define st where "st = \<lparr>fs_from = f0, fs_to = t0, fs_start = 0, fs_next = 0, fs_found = False, fs_failed = False\<rparr>"
  have nl: "group (key no_line) = None" by (simp add: no_line_def no_key_def)
  have prems: "before ([] @ []) G (fs_from st)" "fs_start st = length (concat [])" "fs_next st = length (concat ([] @ []))"
      "offset (fs_to st) = length (contents (fs_to st))" "\<not> fs_failed st"
      "\<forall>e \<in> set (entries (group (key no_line)) G). inifile_key_cmp (fst e) k < 2"
    using f0(2) t0 assms(3) by (simp_all add: st_def nl)
  from filter_loop_ok [OF prems(1) assms(2) prems(2-6)] obtain st' where
    "filter_loop ops k no_line st = Some st'" "\<not> fs_failed (copy_pending ops st')"
    "fs_found (copy_pending ops st') = (fs_found st \<or> (\<exists>e \<in> set (entries (group (key no_line)) G). inifile_key_cmp (fst e) k = 0))"
    "contents (fs_to (copy_pending ops st')) = contents (fs_to st) @ concat [] @ concat (keep k (group (key no_line)) [] G)"
    "offset (fs_to (copy_pending ops st')) = length (contents (fs_to (copy_pending ops st')))"
    by blast
  then show ?thesis using f0(1) t0 by (simp add: inifile_filter_def st_def Let_def nl)
qed

lemma copy_to_ok:
  assumes "contents (ifp d) = concat (A @ G @ R)" "G \<noteq> []" "\<forall>l \<in> set G. l \<noteq> []"
  shows "\<exists>s t. inifile_copy_to ops d (length (concat A)) (length (concat (A @ G))) =
      (0, d\<lparr>ifp := s\<rparr>, Some \<lparr>ifp = t, readonly = True, curr = no_line, next_line = no_line\<rparr>) \<and>
    contents s = contents (ifp d) \<and> contents t = concat G"
proof -
  obtain t0 where t0: "stream_temp ops = Some t0" "contents t0 = []" "offset t0 = 0" using temp_new by auto
  obtain s1 where s1: "stream_seek ops (int (length (concat A))) SEEK_SET (ifp d) = (0, s1)" "contents s1 = contents (ifp d)"
      "offset s1 = length (concat A)"
    using seek_set [of "int (length (concat A))" "ifp d"] by auto
  have bs: "take (length (concat (A @ G)) - length (concat A)) (drop (offset s1) (contents s1)) = concat G"
    using assms(1) s1 by simp
  obtain s2 t2 where "stream_copy ops (Some (length (concat (A @ G)) - length (concat A))) s1 t0 = (True, s2, t2)"
      "contents s2 = contents s1" "contents t2 = write_at [] 0 (concat G)"
    using copy_ok [of "Some (length (concat (A @ G)) - length (concat A))" s1 t0] bs t0 by (auto simp: Let_def)
  moreover have "concat G \<noteq> []" using assms(2,3) by (cases G) auto
  moreover have "write_at [] 0 (concat G) = concat G" using write_at_end [of "[]"] by simp
  ultimately show ?thesis using t0(1) s1 by (auto simp: inifile_copy_to_def inifile_alloc_def)
qed

lemma save_remainder_ok:
  assumes "contents s = concat (A @ G @ R)"
  shows "\<exists>s' t. save_remainder ops (length (concat (A @ G))) s = (0, s', Some t) \<and> contents s' = contents s \<and>
    contents t = concat R \<and> offset t = length (concat R)"
proof -
  obtain t0 where t0: "stream_temp ops = Some t0" "contents t0 = []" "offset t0 = 0" using temp_new by auto
  obtain s1 where s1: "stream_seek ops 0 SEEK_END s = (0, s1)" "contents s1 = contents s" "offset s1 = length (contents s)"
    using seek_end [of s] by auto
  obtain s2 where s2: "stream_seek ops (int (length (concat (A @ G)))) SEEK_SET s1 = (0, s2)" "contents s2 = contents s"
      "offset s2 = length (concat (A @ G))"
    using seek_set [of "int (length (concat (A @ G)))" s1] s1(2) by auto
  have bs: "drop (offset s2) (contents s2) = concat R" and len: "length (contents s) - offset s2 = length (concat R)"
    using assms s2 by simp_all
  obtain s3 t3 where s3: "stream_copy ops None s2 t0 = (True, s3, t3)" "contents s3 = contents s"
      "contents t3 = write_at [] 0 (concat R)" "offset t3 = length (concat R)"
    using copy_ok [of None s2 t0] bs t0 s2(2) len by (auto simp: Let_def)
  show ?thesis
  proof (cases "concat R = []")
    case True
    then show ?thesis using s1 t0 assms by (simp add: save_remainder_def tell_off Let_def)
  next
    case False
    then show ?thesis using s1 s2 s3 t0(1) assms write_at_end [of "[]" "concat R"]
      by (simp add: save_remainder_def tell_off Let_def)
  qed
qed

lemma truncate_to_ok:
  assumes "contents s = P @ Q"
  shows "\<exists>s'. inifile_truncate ops (length P) s = (0, s') \<and> contents s' = P \<and> offset s' = length P"
proof -
  obtain s1 where s1: "stream_truncate ops (length P) s = (0, s1)" "contents s1 = P"
    using truncate_ok [of "length P" s] assms by auto
  obtain s2 where "stream_seek ops (int (length P)) SEEK_SET s1 = (0, s2)" "contents s2 = P" "offset s2 = length P"
    using seek_set [of "int (length P)" s1] s1(2) by auto
  with s1(1) show ?thesis by (simp add: inifile_truncate_def)
qed

lemma append_remainder_ok:
  assumes "contents t = bs" "offset t = length bs"
  shows "\<exists>s'. append_remainder ops (Some t) s = (True, s') \<and> contents s' = contents s @ bs"
proof (cases "bs = []")
  case True
  then show ?thesis using assms by (simp add: append_remainder_def tell_off)
next
  case False
  obtain t1 where t1: "stream_seek ops 0 SEEK_SET t = (0, t1)" "contents t1 = bs" "offset t1 = 0"
    using seek_set [of 0 t] assms(1) by auto
  obtain s1 where s1: "stream_seek ops 0 SEEK_END s = (0, s1)" "contents s1 = contents s" "offset s1 = length (contents s)"
    using seek_end [of s] by auto
  obtain t2 s2 where "stream_copy ops None t1 s1 = (True, t2, s2)" "contents s2 = write_at (contents s1) (offset s1) bs"
    using copy_ok [of None t1 s1] t1 by (auto simp: Let_def)
  then show ?thesis using False assms t1(1) s1 by (simp add: append_remainder_def tell_off Let_def)
qed

lemma write_end:
  assumes "offset s = length (contents s)"
  shows "\<exists>s'. snd (stream_write ops bs s) = s' \<and> contents s' = contents s @ bs \<and> offset s' = length (contents s')"
  using write_all [of bs s] assms by auto

lemma update_finish_ok: "\<exists>s'. snd (stream_seek ops 0 SEEK_SET (snd (stream_flush ops s))) = s' \<and> contents s' = contents s"
  using flush_ok [of s] seek_set [of 0 "snd (stream_flush ops s)"] by auto

lemma write_group_ok:
  assumes "contents s = P" "offset s = length P" "group k \<noteq> None" "file_lines G"
    and "\<forall>e \<in> set (entries None G). inifile_key_cmp (fst e) k < 2"
    and "case ini_tmp of None \<Rightarrow> app \<or> G = [] | Some tmp \<Rightarrow> \<not> app \<and> contents (ifp tmp) = concat G"
  shows "\<exists>s' t'. write_group ops k value app new_group ini_tmp s =
      Some (0, \<not> app \<and> (\<exists>e \<in> set (entries None G). inifile_key_cmp (fst e) k = 0), s', t') \<and>
    contents s' = P @ (if app then [] else concat (keep k None [] G)) @ new_text k value new_group"
proof -
  define found where "found = (\<not> app \<and> (\<exists>e \<in> set (entries None G). inifile_key_cmp (fst e) k = 0))"
  have "\<exists>s1 t1. (case (if \<not> app then ini_tmp else None) of
        None \<Rightarrow> Some (0, False, s, ini_tmp)
      | Some tmp \<Rightarrow> map_option (\<lambda>(r, found, s1, t1). (r, found, s1, Some (tmp\<lparr>ifp := t1\<rparr>))) (inifile_filter ops s (ifp tmp) k)) =
      Some (0, found, s1, t1) \<and> contents s1 = P @ (if app then [] else concat (keep k None [] G)) \<and> offset s1 = length (contents s1)"
  proof (cases ini_tmp)
    case None
    then show ?thesis using assms(1,2,6) by (auto simp: found_def)
  next
    case (Some tmp)
    then show ?thesis using inifile_filter_ok [OF _ assms(4,5), of "ifp tmp" s] assms(1,6) by (auto simp: found_def)
  qed
  then obtain s1 t1 where s1: "(case (if \<not> app then ini_tmp else None) of
        None \<Rightarrow> Some (0, False, s, ini_tmp)
      | Some tmp \<Rightarrow> map_option (\<lambda>(r, found, s1, t1). (r, found, s1, Some (tmp\<lparr>ifp := t1\<rparr>))) (inifile_filter ops s (ifp tmp) k)) =
      Some (0, found, s1, t1)" "contents s1 = P @ (if app then [] else concat (keep k None [] G))" "offset s1 = length (contents s1)"
    by blast
  define s2 where "s2 = (if new_group \<and> the (group k) \<noteq> []
      then snd (stream_write ops (CHR ''['' # the (group k) @ [CHR '']'', newline]) s1) else s1)"
  have s2: "contents s2 = contents s1 @ (if new_group \<and> the (group k) \<noteq> [] then CHR ''['' # the (group k) @ [CHR '']'', newline] else [])"
      "offset s2 = length (contents s2)"
    using write_end [OF s1(3), of "CHR ''['' # the (group k) @ [CHR '']'', newline]"] s1(3) by (auto simp: s2_def)
  have wg: "write_group ops k value app new_group ini_tmp s = Some (0, found, (case value of
      None \<Rightarrow> s1 | Some v \<Rightarrow> snd (stream_write ops (the (name k) @ CHR ''='' # v @ [newline]) s2)), t1)"
    unfolding write_group_def s1(1) using assms(3) by (simp add: s2_def Let_def split: option.split)
  show ?thesis
  proof (cases "value")
    case None
    then show ?thesis using wg s1(2) by (simp add: found_def)
  next
    case (Some v)
    then show ?thesis using wg write_end [OF s2(2), of "the (name k) @ CHR ''='' # v @ [newline]"] s2(1) s1(2)
      by (simp add: found_def)
  qed
qed

lemma delete_replace_append_ok:
  assumes "contents (ifp d) = concat (A @ G @ R)" "file_lines G" "\<forall>l \<in> set G. l \<noteq> []"
    and "\<forall>e \<in> set (entries None G). inifile_key_cmp (fst e) k < 2" "group k \<noteq> None" "has_name k"
    and "inifile_find_group ops d k 0 = Some (r1, length (concat A), d1)"
    and "inifile_next_group ops d1 k = Some (r2, length (concat (A @ G)), d2)" "contents (ifp d2) = contents (ifp d)"
  shows "\<exists>d'. inifile_delete_replace_append ops d k value app =
      Some (0, \<not> app \<and> (\<exists>e \<in> set (entries None G). inifile_key_cmp (fst e) k = 0), d') \<and>
    contents (ifp d') = concat A @ (if app then concat G else concat (keep k None [] G)) @ new_text k value (G = []) @ concat R"
proof -
  let ?g = "length (concat (A @ G))"
  have new: "(length (concat A) = ?g) = (G = [])" using assms(3) by (cases G) auto
  have "\<exists>d3 ini_tmp. (if app then (0, d2, None) else inifile_copy_to ops d2 (length (concat A)) ?g) = (0, d3, ini_tmp) \<and>
      contents (ifp d3) = concat (A @ G @ R) \<and>
      (case ini_tmp of None \<Rightarrow> app \<or> G = [] | Some tmp \<Rightarrow> \<not> app \<and> contents (ifp tmp) = concat G)"
  proof (cases "app \<or> G = []")
    case True
    then show ?thesis using assms(1,9) by (auto simp: inifile_copy_to_def)
  next
    case False
    then show ?thesis using copy_to_ok [of d2 A G R] assms(1,3,9) by auto
  qed
  then obtain d3 ini_tmp where d3: "(if app then (0, d2, None) else inifile_copy_to ops d2 (length (concat A)) ?g) = (0, d3, ini_tmp)"
      "contents (ifp d3) = concat (A @ G @ R)"
      "case ini_tmp of None \<Rightarrow> app \<or> G = [] | Some tmp \<Rightarrow> \<not> app \<and> contents (ifp tmp) = concat G" by blast
  obtain s4 t where s4: "save_remainder ops ?g (ifp d3) = (0, s4, Some t)" "contents s4 = concat (A @ G @ R)"
      "contents t = concat R" "offset t = length (concat R)"
    using save_remainder_ok [OF d3(2)] d3(2) by auto
  let ?P = "concat A @ (if app then concat G else [])"
  obtain s5 where s5: "inifile_truncate ops (if app then ?g else length (concat A)) s4 = (0, s5)" "contents s5 = ?P" "offset s5 = length ?P"
    using truncate_to_ok [of s4 ?P "(if app then [] else concat G) @ concat R"] s4(2) by (cases app) auto
  obtain s7 t7 where s7: "write_group ops k value app (G = []) ini_tmp s5 =
      Some (0, \<not> app \<and> (\<exists>e \<in> set (entries None G). inifile_key_cmp (fst e) k = 0), s7, t7)"
      "contents s7 = ?P @ (if app then [] else concat (keep k None [] G)) @ new_text k value (G = [])"
    using write_group_ok [OF s5(2,3) assms(5,2,4) d3(3)] by blast
  obtain s8 where s8: "append_remainder ops (Some t) s7 = (True, s8)" "contents s8 = contents s7 @ concat R"
    using append_remainder_ok [OF s4(3,4)] by blast
  obtain s9 where s9: "snd (stream_seek ops 0 SEEK_SET (snd (stream_flush ops s8))) = s9" "contents s9 = contents s8"
    using update_finish_ok by blast
  have "inifile_delete_replace_append ops d k value app =
      Some (0, \<not> app \<and> (\<exists>e \<in> set (entries None G). inifile_key_cmp (fst e) k = 0), d3\<lparr>ifp := s9\<rparr>)"
    unfolding inifile_delete_replace_append_def assms(7) bind.simps prod.case assms(8) d3(1) Let_def
    using assms(6) s4(1) s5(1) s7(1) s8(1) s9(1) new by simp
  then show ?thesis using s9(2) s8(2) s7(2) by simp
qed

end

section \<open>The group of a key\<close>

lemma parse_header: "parse_line g h = Some (k', None) \<Longrightarrow> parse_line g' h = Some (k', None)"
  by (auto simp: parse_line_def Let_def split: if_splits)

lemma parse_inherits: "parse_line g l = Some (k', Some v) \<Longrightarrow> g \<noteq> None \<Longrightarrow> group k' = g"
  by (auto simp: parse_line_def Let_def split: if_splits)

text \<open>
  The lines of a file around the group of a key: before it, the group with its header and what
  precedes the header, and after it; the entries without a group come first and have no header.
\<close>

definition ini_parts :: "key_type \<Rightarrow> bytes list \<Rightarrow> bytes list \<Rightarrow> bytes list \<Rightarrow> bool" where
  "ini_parts k A G R \<longleftrightarrow> file_lines (A @ G @ R) \<and> ends_entry A \<and> ends_entry G \<and>
     (\<forall>e \<in> set (entries None A). inifile_key_cmp (fst e) k = 2) \<and>
     (\<forall>e \<in> set (entries None G). inifile_key_cmp (fst e) k < 2) \<and>
     (\<forall>e es. entries (group k) R = e # es \<longrightarrow> inifile_key_cmp (fst e) k = 2) \<and>
     (if group k = Some [] then A = []
      else \<exists>J h X k'. G = J @ h # X \<and> (\<forall>l \<in> set J. junk l) \<and> parse_line None h = Some (k', None))"

lemma same_group_cmp: "group k' = group k \<Longrightarrow> inifile_key_cmp k' k < 2"
  by (simp add: inifile_key_cmp_def strcaseeq_def)

lemma entries_same_group:
  assumes "strcaseeq g1 g2" "\<forall>e \<in> set (entries (Some g1) X). inifile_key_cmp (fst e) k < 2"
  shows "\<forall>e \<in> set (entries (Some g2) X). inifile_key_cmp (fst e) k < 2"
  using assms
proof (induction X)
  case (Cons l ls)
  show ?case
  proof (cases "junk l")
    case True
    then show ?thesis using Cons by simp
  next
    case False
    then obtain k' v where x: "parse_line (Some g1) l = Some (k', v)" by (metis not_None_eq parse_line_None_iff surj_pair)
    show ?thesis
    proof (cases v)
      case None
      then show ?thesis using x Cons.prems(2) parse_header [of "Some g1" l k' "Some g2"] by auto
    next
      case (Some v')
      then have "parse_line (Some g2) l = Some (k'\<lparr>group := Some g2\<rparr>, v)" "group k' = Some g1"
        using x by (auto simp: parse_line_def Let_def split: if_splits)
      moreover have "inifile_key_cmp (k'\<lparr>group := Some g2\<rparr>) k = inifile_key_cmp k' k"
        using calculation(2) Cons.prems(1) by (simp add: inifile_key_cmp_def strcaseeq_def)
      ultimately show ?thesis using x Cons by auto
    qed
  qed
qed simp

lemma foreign_split:
  assumes "group k \<noteq> None" "\<forall>e es. entries (group k) R = e # es \<longrightarrow> inifile_key_cmp (fst e) k = 2"
  obtains js tail where "R = js @ tail" "\<forall>l \<in> set js. junk l"
    "tail \<noteq> [] \<Longrightarrow> \<exists>e. parse_line g (hd tail) = Some e \<and> inifile_key_cmp (fst e) k = 2"
proof -
  obtain used e rest where d: "delivers (group k) R used e rest" using delivers_ex by blast
  then show thesis
  proof cases
    case delivers_end
    then show ?thesis using that [of R "[]"] by simp
  next
    case (delivers_entry js l x)
    have two: "inifile_key_cmp (fst x) k = 2"
      using delivers_entries [OF d] delivers_entry assms(2) by simp
    then have "snd x = None"
      using parse_inherits [of "group k" l "fst x"] same_group_cmp [of "fst x" k] delivers_entry(5) assms(1)
      by (cases x; cases "snd x") auto
    then have "parse_line g l = Some x" using parse_header delivers_entry(5) by (metis prod.collapse)
    then show ?thesis using that [of js "l # rest"] delivers_entry two by auto
  qed
qed

context php_file
begin

lemma next_group_ok:
  assumes "before pre (X @ R) (ifp d)" "file_lines (X @ R)" "ends_entry X" "group k \<noteq> None"
    and "\<forall>e \<in> set (entries (group k) X). inifile_key_cmp (fst e) k < 2"
    and "\<forall>e es. entries (group k) R = e # es \<longrightarrow> inifile_key_cmp (fst e) k = 2"
  shows "\<exists>r d'. inifile_next_group ops d k = Some (r, length (concat (pre @ X)), d') \<and> contents (ifp d') = contents (ifp d)"
proof -
  define ln where "ln = no_line\<lparr>key := \<lparr>group = group k, name = None\<rparr>\<rparr>"
  obtain js tail where R: "R = js @ tail" "\<forall>l \<in> set js. junk l"
    "tail \<noteq> [] \<Longrightarrow> \<exists>e. parse_line (last_group (group (key ln)) X) (hd tail) = Some e \<and> inifile_key_cmp (fst e) k = 2"
    using foreign_split [OF assms(4,6)] by blast
  have t: "nat (stream_tell ops (ifp d)) = length (concat pre)" using assms(1) by (simp add: tell_off stands_def)
  have "\<exists>s'. group_loop ops (\<lambda>k1. inifile_key_cmp k1 k = 2) (length (concat pre)) ln (ifp d) =
      Some (tail \<noteq> [], if X = [] then length (concat pre) else length (concat (pre @ X)), s') \<and>
    before (pre @ X @ js @ take 1 tail) (drop 1 tail) s'"
    by (rule group_loop_ok) (use assms(1-3,5) R in \<open>auto simp: ln_def\<close>)
  then obtain s' where "group_loop ops (\<lambda>k1. inifile_key_cmp k1 k = 2) (length (concat pre)) ln (ifp d) =
      Some (tail \<noteq> [], length (concat (pre @ X)), s')" "contents s' = contents (ifp d)"
    using assms(1) R(1) by (cases tail) (auto simp: stands_def split: if_splits)
  then show ?thesis by (auto simp: inifile_next_group_def t ln_def)
qed

lemma find_group_named:
  assumes "contents (ifp d) = concat (A @ J @ h # X)" "file_lines (A @ J @ h # X)" "ends_entry A" "\<forall>l \<in> set J. junk l"
    and "\<forall>e \<in> set (entries None A). inifile_key_cmp (fst e) k = 2" "parse_line None h = Some (k', None)"
    and "inifile_key_cmp k' k < 2" "group k \<noteq> None" "group k \<noteq> Some []"
  shows "\<exists>d'. inifile_find_group ops d k 0 = Some (0, length (concat A), d') \<and> before (A @ J @ [h]) X (ifp d')"
proof -
  obtain s0 where s0: "stream_flush ops (ifp d) = (0, s0)" "contents s0 = contents (ifp d)"
    using flush_ok [of "ifp d"] by auto
  obtain s1 where s1: "stream_seek ops 0 SEEK_SET s0 = (0, s1)" "before [] (A @ J @ h # X) s1"
    using seek_set [of 0 s0] s0(2) assms(1) by (force simp: stands_def)
  have nl: "group (key no_line) = None" by (simp add: no_line_def no_key_def)
  have "\<exists>s'. group_loop ops (\<lambda>k1. inifile_key_cmp k1 k < 2) 0 no_line s1 =
      Some (h # X \<noteq> [], if A = [] then 0 else length (concat ([] @ A)), s') \<and>
    before ([] @ A @ J @ take 1 (h # X)) (drop 1 (h # X)) s'"
    by (rule group_loop_ok) (use s1(2) assms(2-5,7) parse_header [OF assms(6), of "last_group None A"] in \<open>auto simp: nl\<close>)
  then obtain s' where "group_loop ops (\<lambda>k1. inifile_key_cmp k1 k < 2) 0 no_line s1 = Some (True, length (concat A), s')"
      "before (A @ J @ [h]) X s'" by (auto split: if_splits)
  then show ?thesis using s0(1) s1(1) assms(8,9) by (auto simp: inifile_find_group_def Let_def)
qed

lemma positions_ok:
  assumes "ini_parts k A G R" "contents (ifp d) = concat (A @ G @ R)" "group k \<noteq> None"
  shows "\<exists>r1 d1 r2 d2. inifile_find_group ops d k 0 = Some (r1, length (concat A), d1) \<and>
    inifile_next_group ops d1 k = Some (r2, length (concat (A @ G)), d2) \<and> contents (ifp d2) = contents (ifp d)"
proof (cases "group k = Some []")
  case True
  then have A: "A = []" using assms(1) by (simp add: ini_parts_def)
  obtain s0 where s0: "stream_flush ops (ifp d) = (0, s0)" "contents s0 = contents (ifp d)"
    using flush_ok [of "ifp d"] by auto
  obtain s1 where s1: "stream_seek ops 0 SEEK_SET s0 = (0, s1)" "before [] (G @ R) s1"
    using seek_set [of 0 s0] s0(2) assms(2) A by (force simp: stands_def)
  define d1 where "d1 = d\<lparr>ifp := s1, curr := inifile_line_free (curr d), next_line := inifile_line_free (next_line d)\<rparr>"
  have "inifile_find_group ops d k 0 = Some (0, 0, d1)"
    using s0(1) s1(1) True by (simp add: inifile_find_group_def Let_def d1_def)
  moreover have "\<exists>r d'. inifile_next_group ops d1 k = Some (r, length (concat ([] @ G)), d') \<and> contents (ifp d') = contents (ifp d1)"
    by (rule next_group_ok) (use s1(2) assms(1,3) A True in \<open>auto simp: d1_def ini_parts_def entries_None_Some\<close>)
  moreover have "contents (ifp d1) = contents (ifp d)" using s1(2) assms(2) A by (simp add: d1_def stands_def)
  ultimately show ?thesis using A by auto
next
  case False
  then obtain J h X k' where G: "G = J @ h # X" "\<forall>l \<in> set J. junk l" "parse_line None h = Some (k', None)"
    using assms(1) by (auto simp: ini_parts_def)
  have ent: "entries None G = (k', None) # entries (group k') X" using G by (simp add: entries_skip)
  then have k': "inifile_key_cmp k' k < 2" using assms(1) by (simp add: ini_parts_def)
  have "group k' \<noteq> None" using entries_keys [of "(k', None)" None G] ent by auto
  with k' assms(3) have same: "strcaseeq (the (group k')) (the (group k))" by (auto simp: inifile_key_cmp_def split: if_splits)
  have X: "\<forall>e \<in> set (entries (group k) X). inifile_key_cmp (fst e) k < 2"
    using entries_same_group [OF same, of X k] assms(1,3) ent \<open>group k' \<noteq> None\<close> by (auto simp: ini_parts_def)
  obtain d1 where d1: "inifile_find_group ops d k 0 = Some (0, length (concat A), d1)" "before (A @ J @ [h]) (X @ R) (ifp d1)"
    using find_group_named [of d A J h "X @ R" k k'] assms G k' False by (auto simp: ini_parts_def)
  have "\<exists>r d'. inifile_next_group ops d1 k = Some (r, length (concat ((A @ J @ [h]) @ X)), d') \<and> contents (ifp d') = contents (ifp d1)"
    by (rule next_group_ok [OF d1(2) _ _ assms(3) X])
      (use assms(1) G file_lines_suffix [of "A @ J @ [h]"] in \<open>auto simp: ini_parts_def ends_entry_def\<close>)
  moreover have "contents (ifp d1) = contents (ifp d)" using d1(2) assms(2) G(1) by (simp add: stands_def)
  ultimately show ?thesis using d1(1) G(1) by auto
qed

lemma update_ok:
  assumes "ini_parts k A G R" "contents (ifp d) = concat (A @ G @ R)" "group k \<noteq> None" "has_name k"
  shows "\<exists>d'. inifile_delete_replace_append ops d k value app =
      Some (0, \<not> app \<and> (\<exists>e \<in> set (entries None G). inifile_key_cmp (fst e) k = 0), d') \<and>
    contents (ifp d') = concat A @ (if app then concat G else concat (keep k None [] G)) @ new_text k value (G = []) @ concat R"
proof -
  obtain r1 d1 r2 d2 where pos: "inifile_find_group ops d k 0 = Some (r1, length (concat A), d1)"
      "inifile_next_group ops d1 k = Some (r2, length (concat (A @ G)), d2)" "contents (ifp d2) = contents (ifp d)"
    using positions_ok [OF assms(1-3)] by blast
  have "file_lines (G @ R)" using assms(1) file_lines_suffix by (auto simp: ini_parts_def)
  then have G: "file_lines G" "\<forall>l \<in> set G. l \<noteq> []"
    using file_lines_prefix file_lines_nonempty by (auto dest: file_lines_prefix)
  show ?thesis
    by (rule delete_replace_append_ok [OF assms(2) G _ assms(3,4) pos]) (use assms(1) in \<open>simp add: ini_parts_def\<close>)
qed

lemma delete_group_ok:
  assumes "ini_parts k A G R" "contents (ifp d) = concat (A @ G @ R)" "group k \<noteq> None" "name k = Some []" "G \<noteq> []"
  shows "\<exists>d'. inifile_delete_replace_append ops d k None False = Some (0, False, d') \<and> contents (ifp d') = concat (A @ R)"
proof -
  let ?g = "length (concat (A @ G))"
  obtain r1 d1 r2 d2 where pos: "inifile_find_group ops d k 0 = Some (r1, length (concat A), d1)"
      "inifile_next_group ops d1 k = Some (r2, ?g, d2)" "contents (ifp d2) = contents (ifp d)"
    using positions_ok [OF assms(1-3)] by blast
  have "\<forall>l \<in> set G. l \<noteq> []" using assms(1) file_lines_nonempty [of "A @ G @ R"] by (auto simp: ini_parts_def)
  then obtain s3 tmp where d3: "inifile_copy_to ops d2 (length (concat A)) ?g = (0, d2\<lparr>ifp := s3\<rparr>, Some tmp)"
      "contents s3 = concat (A @ G @ R)"
    using copy_to_ok [of d2 A G R] pos(3) assms(2,5) by auto
  obtain s4 t where s4: "save_remainder ops ?g s3 = (0, s4, Some t)" "contents s4 = concat (A @ G @ R)"
      "contents t = concat R" "offset t = length (concat R)"
    using save_remainder_ok [OF d3(2)] d3(2) by auto
  obtain s5 where s5: "inifile_truncate ops (length (concat A)) s4 = (0, s5)" "contents s5 = concat A"
    using truncate_to_ok [of s4 "concat A" "concat G @ concat R"] s4(2) by auto
  obtain s8 where s8: "append_remainder ops (Some t) s5 = (True, s8)" "contents s8 = contents s5 @ concat R"
    using append_remainder_ok [OF s4(3,4)] by blast
  obtain s9 where s9: "snd (stream_seek ops 0 SEEK_SET (snd (stream_flush ops s8))) = s9" "contents s9 = contents s8"
    using update_finish_ok by blast
  have "inifile_delete_replace_append ops d k None False = Some (0, False, d2\<lparr>ifp := s9\<rparr>)"
    unfolding inifile_delete_replace_append_def pos(1) bind.simps prod.case pos(2) if_False d3(1) Let_def
    using assms(4) s4(1) s5(1) s8(1) s9(1) by (simp add: has_name_def)
  then show ?thesis using s9(2) s8(2) s5(2) by simp
qed

lemma new_group_ok:
  assumes "\<forall>e \<in> set (entries None (lines (contents (ifp d)))). inifile_key_cmp (fst e) k = 2"
    and "group k \<noteq> None" "group k \<noteq> Some []" "has_name k"
  shows "\<exists>d'. inifile_delete_replace_append ops d k value app = Some (0, False, d') \<and>
    contents (ifp d') = contents (ifp d) @ new_text k value True"
proof -
  let ?ls = "lines (contents (ifp d))"
  obtain s0 where s0: "stream_flush ops (ifp d) = (0, s0)" "contents s0 = contents (ifp d)"
    using flush_ok [of "ifp d"] by auto
  obtain s1 where s1: "stream_seek ops 0 SEEK_SET s0 = (0, s1)" "before [] ?ls s1"
    using seek_set [of 0 s0] s0(2) by (force simp: stands_def)
  have nl: "group (key no_line) = None" by (simp add: no_line_def no_key_def)
  obtain xs js where ls: "?ls = xs @ js" "ends_entry xs" "\<forall>l \<in> set js. junk l" using split_last_entry by blast
  have "\<exists>s'. group_loop ops (\<lambda>k1. inifile_key_cmp k1 k < 2) 0 no_line s1 =
      Some (([] :: bytes list) \<noteq> [], if xs = [] then 0 else length (concat ([] @ xs)), s') \<and>
    before ([] @ xs @ js @ take 1 []) (drop 1 []) s'"
    by (rule group_loop_ok)
      (use s1(2) ls lines_file_lines [of "contents (ifp d)"] assms(1) in \<open>auto simp: nl ini_entries_append entries_junk\<close>)
  then obtain p s' where s': "group_loop ops (\<lambda>k1. inifile_key_cmp k1 k < 2) 0 no_line s1 = Some (False, p, s')"
      "before ?ls [] s'" using ls(1) by auto
  define d1 where "d1 = d\<lparr>ifp := s', curr := inifile_line_free (curr d), next_line := inifile_line_free (next_line d)\<rparr>"
  have find: "inifile_find_group ops d k 0 = Some (-1, length (concat ?ls), d1)"
    using s0(1) s1(1) s' assms(2,3) by (auto simp: inifile_find_group_def Let_def d1_def tell_off stands_def)
  have b1: "before ?ls ([] @ []) (ifp d1)" using s'(2) by (simp add: d1_def)
  have "\<exists>r d'. inifile_next_group ops d1 k = Some (r, length (concat (?ls @ [])), d') \<and> contents (ifp d') = contents (ifp d1)"
    by (rule next_group_ok [OF b1 _ _ assms(2)]) (simp_all add: ends_entry_def)
  then obtain r2 d2 where nxt: "inifile_next_group ops d1 k = Some (r2, length (concat (?ls @ [])), d2)" "contents (ifp d2) = contents (ifp d)"
    using b1 by (auto simp: stands_def)
  from delete_replace_append_ok [where A = ?ls and G = "[]" and R = "[]", OF _ _ _ _ assms(2,4) find nxt, of "value" app]
  show ?thesis by (auto split: option.splits)
qed

end

section \<open>The entries of the new file\<close>

text \<open>Names and values that the format can represent.\<close>

definition ini_name_ok :: "string \<Rightarrow> bool" where
  "ini_name_ok n \<longleftrightarrow> n \<noteq> [] \<and> newline \<notin> set n \<and> CHR ''='' \<notin> set n \<and> nul \<notin> set n \<and> hd n \<noteq> CHR ''['' \<and> etrim n = n"

definition ini_value_ok :: "string \<Rightarrow> bool" where
  "ini_value_ok v \<longleftrightarrow> newline \<notin> set v \<and> nul \<notin> set v \<and> etrim v = v"

abbreviation entry_line :: "string \<Rightarrow> string \<Rightarrow> bytes" where
  "entry_line n v \<equiv> n @ CHR ''='' # v @ [newline]"

lemma split_at_first: "c \<notin> set a \<Longrightarrow> split_at c (a @ c # b) = Some (a, b)"
  by (induction a) auto

lemma etrim_newline: "etrim (v @ [newline]) = etrim v"
proof (cases "\<forall>c \<in> set v. trim_char c")
  case True
  moreover have "trim_char newline" by (simp add: trim_char_def)
  ultimately have "dropWhile trim_char v = []" "dropWhile trim_char (v @ [newline]) = []"
    by (simp_all only: dropWhile_eq_Nil_conv) auto
  then show ?thesis by (simp only: etrim_def)
next
  case False
  then have "dropWhile trim_char (v @ [newline]) = dropWhile trim_char v @ [newline]"
    by (meson dropWhile_append1)
  moreover have "trim_char newline" by (simp add: trim_char_def)
  ultimately show ?thesis by (simp add: etrim_def)
qed

lemma parse_entry_line:
  assumes "ini_name_ok n" "nul \<notin> set v"
  shows "parse_line g (n @ CHR ''='' # v) = Some (\<lparr>group = (if g = None then Some [] else g), name = Some n\<rparr>, Some (etrim v))"
proof -
  have "c_string (n @ CHR ''='' # v)" using assms by (auto simp: c_string_def ini_name_ok_def)
  then have c: "cstr (n @ CHR ''='' # v) = n @ CHR ''='' # v" by (rule cstr_id)
  show ?thesis unfolding parse_line_def c Let_def using assms by (simp add: ini_name_ok_def split_at_first)
qed

lemma parse_new_line:
  assumes "ini_name_ok n" "ini_value_ok v"
  shows "parse_line g (entry_line n v) = Some (\<lparr>group = (if g = None then Some [] else g), name = Some n\<rparr>, Some v)"
  using parse_entry_line [OF assms(1), of "v @ [newline]" g] assms(2) by (simp add: ini_value_ok_def etrim_newline)

lemma entry_line_is_line:
  assumes "ini_name_ok n" "ini_value_ok v"
  shows "is_line (entry_line n v)" "last (entry_line n v) = newline"
  using assms by (auto simp: is_line_def ini_name_ok_def ini_value_ok_def butlast_append)

lemma lines_unique: "file_lines ls \<Longrightarrow> lines (concat ls) = ls"
proof (induction ls rule: file_lines.induct)
  case (2 l)
  then have l: "l \<noteq> []" "newline \<notin> set (butlast l)" by (auto simp: is_line_def)
  show ?case
  proof (cases "last l = newline")
    case True
    then have "l = butlast l @ [newline]" using l(1) by (metis append_butlast_last_id)
    with lines_line [OF l(2), of "[]"] show ?thesis by simp
  next
    case False
    then have "newline \<notin> set l" using l by (metis append_butlast_last_id in_set_conv_decomp rotate1.simps(2) set_ConsD set_rotate1)
    with lines_alone l(1) show ?thesis by simp
  qed
next
  case (3 l m ls)
  then have l: "l \<noteq> []" "newline \<notin> set (butlast l)" "last l = newline" by (auto simp: is_line_def)
  then have "l = butlast l @ [newline]" by (metis append_butlast_last_id)
  with lines_line [OF l(2), of "concat (m # ls)"] 3 show ?case by (metis append.assoc append_Cons append_Nil concat.simps(2) file_lines.simps(3))
qed simp

lemma file_lines_terminated: "\<forall>l \<in> set ls. is_line l \<and> last l = newline \<Longrightarrow> file_lines ls"
  by (induction ls rule: file_lines.induct) auto

lemma file_lines_is_line: "file_lines ls \<Longrightarrow> l \<in> set ls \<Longrightarrow> is_line l"
  by (induction ls rule: file_lines.induct) auto

lemma keep_subset: "set (keep k g js ls) \<subseteq> set js \<union> set ls"
  by (induction k g js ls rule: keep.induct) (auto split: option.splits if_splits)

text \<open>Only entries without a header go, so the groups of the others do not change.\<close>

lemma keep_entries:
  assumes "has_name k" "\<forall>l \<in> set js. junk l"
  shows "entries g (keep k g js ls) = filter (\<lambda>e. inifile_key_cmp (fst e) k \<noteq> 0) (entries g ls)"
  using assms
proof (induction k g js ls rule: keep.induct)
  case (2 k g js l ls)
  show ?case
  proof (cases "parse_line g l")
    case None
    then show ?thesis using "2.IH"(1) [OF None] "2.prems" by (auto simp: parse_line_None_iff)
  next
    case (Some e)
    show ?thesis
    proof (cases "inifile_key_cmp (fst e) k = 0")
      case True
      then have "snd e \<noteq> None"
        using Some "2.prems"(1) by (auto simp: parse_line_def Let_def has_name_def inifile_key_cmp_def strcaseeq_def split: if_splits)
      then have "entries g xs = entries (group (fst e)) xs" for xs
        using Some entries_None_Some [of xs] by (auto simp: parse_line_def Let_def split: if_splits)
      then show ?thesis using "2.IH"(2) [OF Some True] "2.prems"(1) Some True by simp
    next
      case False
      then show ?thesis using "2.IH"(3) [OF Some False] "2.prems" Some by (simp add: entries_skip)
    qed
  qed
qed simp

text \<open>The group an entry after the piece would belong to.\<close>

definition in_group :: "key_type \<Rightarrow> string option \<Rightarrow> bool" where
  "in_group k g \<longleftrightarrow> strcaseeq (case g of None \<Rightarrow> [] | Some g1 \<Rightarrow> g1) (the (group k))"

lemma in_group_cmp: "group k' \<noteq> None \<Longrightarrow> inifile_key_cmp k' k < 2 \<longleftrightarrow> in_group k (group k')"
  by (auto simp: in_group_def inifile_key_cmp_def)

lemma last_group_same:
  assumes "\<forall>e \<in> set (entries g xs). inifile_key_cmp (fst e) k < 2" "in_group k g"
  shows "in_group k (last_group g xs)"
  using assms
proof (induction g xs rule: last_group.induct)
  case (2 g l ls)
  then show ?case using in_group_cmp parse_line_keys [of g l] by (auto split: option.splits)
qed simp

lemma header_first:
  assumes "\<forall>l \<in> set J. junk l" "parse_line None h = Some (k', None)"
  shows "entries g (J @ h # X) = (k', None) # entries (group k') X" "last_group g (J @ h # X) = last_group (group k') X"
  using assms parse_header [OF assms(2), of g] by (simp_all add: entries_skip last_group_append last_group_junk)

lemma foreign_entries:
  assumes "group k \<noteq> None" "\<forall>e es. entries (group k) R = e # es \<longrightarrow> inifile_key_cmp (fst e) k = 2"
  shows "entries g R = entries (group k) R"
proof -
  obtain used e rest where d: "delivers (group k) R used e rest" using delivers_ex by blast
  then show ?thesis
  proof cases
    case delivers_end
    then show ?thesis by (simp add: entries_junk)
  next
    case (delivers_entry js l x)
    have "inifile_key_cmp (fst x) k = 2" using delivers_entries [OF d] delivers_entry assms(2) by simp
    then have "snd x = None"
      using parse_inherits [of "group k" l "fst x"] same_group_cmp [of "fst x" k] delivers_entry(5) assms(1)
      by (cases x; cases "snd x") auto
    then have "parse_line (group k) l = Some (fst x, None)" using delivers_entry(5) by (cases x) simp
    then have "parse_line g l = Some (fst x, None)" by (rule parse_header)
    with delivers_entry show ?thesis by (simp add: entries_skip \<open>parse_line (group k) l = Some (fst x, None)\<close>)
  qed
qed

text \<open>A piece that is the group of a key, or what stays of it.\<close>

lemma group_piece:
  assumes "ini_parts k A G R" "group k \<noteq> None" "has_name k" "X = G \<or> X = keep k None [] G"
  shows "entries (last_group None A) X = entries None X" "in_group k (last_group None (A @ X))"
proof -
  have small: "\<forall>e \<in> set (entries None X). inifile_key_cmp (fst e) k < 2"
    using assms keep_entries [of k "[]" None G] by (auto simp: ini_parts_def)
  have "entries (last_group None A) X = entries None X \<and> in_group k (last_group None (A @ X))"
  proof (cases "group k = Some []")
    case True
    then have "A = []" using assms(1) by (simp add: ini_parts_def)
    moreover have "in_group k None" using True by (simp add: in_group_def strcaseeq_def)
    ultimately show ?thesis using last_group_same [OF small] by simp
  next
    case False
    then obtain J h Y k' where G: "G = J @ h # Y" "\<forall>l \<in> set J. junk l" "parse_line None h = Some (k', None)"
      using assms(1) by (auto simp: ini_parts_def)
    have k': "group k' \<noteq> None" "name k' = Some []"
      using G(3) by (auto simp: parse_line_def Let_def split: if_splits)
    then have "inifile_key_cmp k' k \<noteq> 0" using assms(3) by (auto simp: inifile_key_cmp_def has_name_def strcaseeq_def)
    then have "\<exists>Z. X = J @ h # Z" using assms(4) G keep_entry [OF G(2,3), of k] by auto
    then obtain Z where X: "X = J @ h # Z" by blast
    note hf = header_first [OF G(2,3), of _ Z]
    have "in_group k (group k')" "\<forall>e \<in> set (entries (group k') Z). inifile_key_cmp (fst e) k < 2"
      using small in_group_cmp [OF k'(1)] by (auto simp: X hf)
    then have "in_group k (last_group (group k') Z)" using last_group_same by blast
    then show ?thesis by (simp only: X hf last_group_append [of None A])
  qed
  then show "entries (last_group None A) X = entries None X" "in_group k (last_group None (A @ X))" by auto
qed

lemma parts_entries:
  assumes "ini_parts k A G R" "group k \<noteq> None" "has_name k" "X = G \<or> X = keep k None [] G"
  shows "entries None (A @ X @ R) = entries None A @ entries None X @ entries (group k) R"
proof -
  have "\<forall>e es. entries (group k) R = e # es \<longrightarrow> inifile_key_cmp (fst e) k = 2" using assms(1) by (simp add: ini_parts_def)
  from foreign_entries [OF assms(2) this] show ?thesis
    unfolding ini_entries_append group_piece(1) [OF assms] by metis
qed

lemma parts_new_entry:
  assumes "ini_parts k A G R" "group k \<noteq> None" "has_name k" "X = G \<or> X = keep k None [] G"
    and "ini_name_ok (the (name k))" "ini_value_ok v"
  shows "\<exists>g. strcaseeq g (the (group k)) \<and> entries None (A @ X @ [entry_line (the (name k)) v] @ R) =
    entries None A @ entries None X @ [(\<lparr>group = Some g, name = name k\<rparr>, Some v)] @ entries (group k) R"
proof -
  have "\<forall>e es. entries (group k) R = e # es \<longrightarrow> inifile_key_cmp (fst e) k = 2" using assms(1) by (simp add: ini_parts_def)
  note R = foreign_entries [OF assms(2) this]
  define g where "g = (case last_group None (A @ X) of None \<Rightarrow> [] | Some g1 \<Rightarrow> g1)"
  have "strcaseeq g (the (group k))" using group_piece(2) [OF assms(1-4)] by (simp add: in_group_def g_def)
  moreover have "parse_line (last_group None (A @ X)) (entry_line (the (name k)) v) = Some (\<lparr>group = Some g, name = name k\<rparr>, Some v)"
    using parse_new_line [OF assms(5,6), of "last_group None (A @ X)"] assms(3)
    by (auto simp: g_def has_name_def split: option.splits)
  moreover have "entries (last_group (last_group None A) X) ([entry_line (the (name k)) v] @ R) =
      (\<lparr>group = Some g, name = name k\<rparr>, Some v) # entries (group k) R"
    using calculation(2) R [of "Some g"] by (simp add: last_group_append)
  ultimately show ?thesis
    by (intro exI [of _ g]) (simp only: ini_entries_append [of None A] ini_entries_append [of _ X] group_piece(1) [OF assms(1-4)] append.simps)
qed

section \<open>Properties\<close>

lemma key_split_keys: "group (inifile_key_split s) \<noteq> None" "name (inifile_key_split s) \<noteq> None"
  by (auto simp: inifile_key_split_def split: list.splits option.splits)

lemma value_cstr: "ini_value_ok v \<Longrightarrow> cstr v = v"
  by (simp add: ini_value_ok_def c_string_def)

lemma parts_terminated:
  assumes "ini_parts k A G R" "\<forall>l \<in> set (A @ G @ R). last l = newline" "X = G \<or> X = keep k None [] G"
    and "\<forall>l \<in> set new. is_line l \<and> last l = newline"
  shows "lines (concat (A @ X @ new @ R)) = A @ X @ new @ R"
proof (rule lines_unique, rule file_lines_terminated)
  have "set X \<subseteq> set G" using assms(3) keep_subset [of k None "[]" G] by auto
  then have "l \<in> set (A @ X @ new @ R) \<Longrightarrow> l \<in> set (A @ G @ R) \<or> l \<in> set new" for l by auto
  moreover have "l \<in> set (A @ G @ R) \<Longrightarrow> is_line l \<and> last l = newline" for l
    using assms(1,2) file_lines_is_line unfolding ini_parts_def by blast
  ultimately show "\<forall>l \<in> set (A @ X @ new @ R). is_line l \<and> last l = newline" using assms(4) by blast
qed

lemma parts_keys:
  assumes "k = inifile_key_split (cstr kb)" "ini_name_ok (the (name k))"
  shows "group k \<noteq> None" "has_name k"
  using assms key_split_keys [of "cstr kb"] by (auto simp: has_name_def ini_name_ok_def)

lemma parts_new_text: "ini_parts k A G R \<Longrightarrow> new_text k (Some v) (G = []) = entry_line (the (name k)) v"
  by (auto simp: ini_parts_def split: if_splits)

lemma keep_group_entries: "has_name k \<Longrightarrow> entries None (keep k None [] G) = filter (\<lambda>e. inifile_key_cmp (fst e) k \<noteq> 0) (entries None G)"
  by (rule keep_entries) simp_all

lemma replace_entries:
  assumes "php_file ops contents offset" and "ini_parts k A G R" and "contents (ifp d) = concat (A @ G @ R)"
    and "\<forall>l \<in> set (A @ G @ R). last l = newline" and "k = inifile_key_split (cstr kb)"
    and "ini_name_ok (the (name k))" and "ini_value_ok v"
  shows "\<exists>d' g. dba_update_inifile ops d kb v False = Some (0, d') \<and> strcaseeq g (the (group k)) \<and>
      contents (ifp d') = concat (A @ keep k None [] G @ [entry_line (the (name k)) v] @ R) \<and>
      entries None (lines (contents (ifp d'))) = entries None A @
        filter (\<lambda>e. inifile_key_cmp (fst e) k \<noteq> 0) (entries None G) @
        [(\<lparr>group = Some g, name = name k\<rparr>, Some v)] @ entries (group k) R"
proof -
  note keys = parts_keys [OF assms(5,6)]
  obtain d1 where d1: "inifile_delete_replace_append ops d k (Some v) False =
        Some (0, \<not> False \<and> (\<exists>e \<in> set (entries None G). inifile_key_cmp (fst e) k = 0), d1)"
      "contents (ifp d1) = concat A @ (if False then concat G else concat (keep k None [] G)) @ new_text k (Some v) (G = []) @ concat R"
    using php_file.update_ok [OF assms(1-3) keys, of "Some v" False] by blast
  have 1: "dba_update_inifile ops d kb v False = Some (0, d1)" "contents (ifp d1) = concat (A @ keep k None [] G @ [entry_line (the (name k)) v] @ R)"
    using d1 parts_new_text [OF assms(2)] by (simp_all add: dba_update_inifile_def inifile_replace_def assms(5) [symmetric] value_cstr [OF assms(7)])
  have lines: "lines (concat (A @ keep k None [] G @ [entry_line (the (name k)) v] @ R)) = A @ keep k None [] G @ [entry_line (the (name k)) v] @ R"
    by (rule parts_terminated [OF assms(2,4)]; use entry_line_is_line [OF assms(6,7)] in simp)
  obtain g1 where g1: "strcaseeq g1 (the (group k))" "entries None (A @ keep k None [] G @ [entry_line (the (name k)) v] @ R) =
      entries None A @ entries None (keep k None [] G) @ [(\<lparr>group = Some g1, name = name k\<rparr>, Some v)] @ entries (group k) R"
    using parts_new_entry [OF assms(2) keys _ assms(6,7), of "keep k None [] G"] by blast
  show ?thesis by (intro exI [of _ d1] exI [of _ g1]) (simp only: 1 lines g1 keep_group_entries [OF keys(2)] simp_thms)
qed

lemma insert_entries:
  assumes "php_file ops contents offset" and "ini_parts k A G R" and "contents (ifp d) = concat (A @ G @ R)"
    and "\<forall>l \<in> set (A @ G @ R). last l = newline" and "k = inifile_key_split (cstr kb)"
    and "ini_name_ok (the (name k))" and "ini_value_ok v"
  shows "\<exists>d' g. dba_update_inifile ops d kb v True = Some (0, d') \<and> strcaseeq g (the (group k)) \<and>
      contents (ifp d') = concat (A @ G @ [entry_line (the (name k)) v] @ R) \<and>
      entries None (lines (contents (ifp d'))) = entries None A @ entries None G @
        [(\<lparr>group = Some g, name = name k\<rparr>, Some v)] @ entries (group k) R"
proof -
  note keys = parts_keys [OF assms(5,6)]
  obtain d2 where d2: "inifile_delete_replace_append ops d k (Some v) True =
        Some (0, \<not> True \<and> (\<exists>e \<in> set (entries None G). inifile_key_cmp (fst e) k = 0), d2)"
      "contents (ifp d2) = concat A @ (if True then concat G else concat (keep k None [] G)) @ new_text k (Some v) (G = []) @ concat R"
    using php_file.update_ok [OF assms(1-3) keys, of "Some v" True] by blast
  have 2: "dba_update_inifile ops d kb v True = Some (0, d2)" "contents (ifp d2) = concat (A @ G @ [entry_line (the (name k)) v] @ R)"
    using d2 parts_new_text [OF assms(2)] by (simp_all add: dba_update_inifile_def inifile_append_def assms(5) [symmetric] value_cstr [OF assms(7)])
  have lines: "lines (concat (A @ G @ [entry_line (the (name k)) v] @ R)) = A @ G @ [entry_line (the (name k)) v] @ R"
    by (rule parts_terminated [OF assms(2,4)]; use entry_line_is_line [OF assms(6,7)] in simp)
  obtain g2 where g2: "strcaseeq g2 (the (group k))" "entries None (A @ G @ [entry_line (the (name k)) v] @ R) =
      entries None A @ entries None G @ [(\<lparr>group = Some g2, name = name k\<rparr>, Some v)] @ entries (group k) R"
    using parts_new_entry [OF assms(2) keys _ assms(6,7), of G] by blast
  show ?thesis by (intro exI [of _ d2] exI [of _ g2]) (simp only: 2 lines g2 simp_thms)
qed

lemma delete_entries:
  assumes "php_file ops contents offset" and "ini_parts k A G R" and "contents (ifp d) = concat (A @ G @ R)"
    and "\<forall>l \<in> set (A @ G @ R). last l = newline" and "k = inifile_key_split (cstr kb)"
    and "ini_name_ok (the (name k))"
  shows "\<exists>d'. dba_delete_inifile ops d kb =
        Some (if \<exists>e \<in> set (entries None G). inifile_key_cmp (fst e) k = 0 then 0 else -1, d') \<and>
      contents (ifp d') = concat (A @ keep k None [] G @ R) \<and>
      entries None (lines (contents (ifp d'))) = entries None A @
        filter (\<lambda>e. inifile_key_cmp (fst e) k \<noteq> 0) (entries None G) @ entries (group k) R"
proof -
  note keys = parts_keys [OF assms(5,6)]
  obtain d3 where d3: "inifile_delete_replace_append ops d k None False =
        Some (0, \<not> False \<and> (\<exists>e \<in> set (entries None G). inifile_key_cmp (fst e) k = 0), d3)"
      "contents (ifp d3) = concat A @ (if False then concat G else concat (keep k None [] G)) @ new_text k None (G = []) @ concat R"
    using php_file.update_ok [OF assms(1-3) keys, of None False] by blast
  have 3: "dba_delete_inifile ops d kb = Some (if \<exists>e \<in> set (entries None G). inifile_key_cmp (fst e) k = 0 then 0 else -1, d3)"
      "contents (ifp d3) = concat (A @ keep k None [] G @ R)"
    using d3 by (simp_all add: dba_delete_inifile_def inifile_delete_ex_def assms(5) [symmetric])
  have lines: "lines (concat (A @ keep k None [] G @ [] @ R)) = A @ keep k None [] G @ [] @ R"
    by (rule parts_terminated [OF assms(2,4)]) simp_all
  have g3: "entries None (A @ keep k None [] G @ R) = entries None A @ entries None (keep k None [] G) @ entries (group k) R"
    using parts_entries [OF assms(2) keys, of "keep k None [] G"] by blast
  show ?thesis by (intro exI [of _ d3]) (simp only: 3 lines [unfolded append_Nil] g3 keep_group_entries [OF keys(2)] simp_thms)
qed

text \<open>
  C12: what the updates do to a text file in which the key's group is found, line by line and entry by
  entry: a replace removes the entries equal to the key (with the comment lines right before them)
  and puts the new one at the end of the group; an insert only adds it, even when the key exists; a
  delete only removes and succeeds exactly if there was one. All other lines, and so all other
  entries, stay as they are and in order.
\<close>

theorem inifile_update_entries:
  assumes "php_file ops contents offset" and "ini_parts k A G R" and "contents (ifp d) = concat (A @ G @ R)"
    and "\<forall>l \<in> set (A @ G @ R). last l = newline" and "k = inifile_key_split (cstr kb)"
    and "ini_name_ok (the (name k))" and "ini_value_ok v"
  shows "(\<exists>d' g. dba_update_inifile ops d kb v False = Some (0, d') \<and> strcaseeq g (the (group k)) \<and>
      contents (ifp d') = concat (A @ keep k None [] G @ [entry_line (the (name k)) v] @ R) \<and>
      entries None (lines (contents (ifp d'))) = entries None A @
        filter (\<lambda>e. inifile_key_cmp (fst e) k \<noteq> 0) (entries None G) @
        [(\<lparr>group = Some g, name = name k\<rparr>, Some v)] @ entries (group k) R) \<and>
    (\<exists>d' g. dba_update_inifile ops d kb v True = Some (0, d') \<and> strcaseeq g (the (group k)) \<and>
      contents (ifp d') = concat (A @ G @ [entry_line (the (name k)) v] @ R) \<and>
      entries None (lines (contents (ifp d'))) = entries None A @ entries None G @
        [(\<lparr>group = Some g, name = name k\<rparr>, Some v)] @ entries (group k) R) \<and>
    (\<exists>d'. dba_delete_inifile ops d kb =
        Some (if \<exists>e \<in> set (entries None G). inifile_key_cmp (fst e) k = 0 then 0 else -1, d') \<and>
      contents (ifp d') = concat (A @ keep k None [] G @ R) \<and>
      entries None (lines (contents (ifp d'))) = entries None A @
        filter (\<lambda>e. inifile_key_cmp (fst e) k \<noteq> 0) (entries None G) @ entries (group k) R)"
  using replace_entries [OF assms] insert_entries [OF assms] delete_entries [OF assms(1-6)] by (intro conjI)

text \<open>
  C13: a replaced key reads back: on a text file in which the key's group stands in one piece, after
  \<^verbatim>\<open>dba_replace\<close> a fetch gives the value, and there is exactly one.
\<close>

theorem inifile_replace_fetch:
  assumes "php_file ops contents offset" and "ini_parts k A G R" and "contents (ifp d) = concat (A @ G @ R)"
    and "\<forall>l \<in> set (A @ G @ R). last l = newline" and "k = inifile_key_split (cstr kb)"
    and "ini_name_ok (the (name k))" and "ini_value_ok v"
    and "\<forall>e \<in> set (entries (group k) R). inifile_key_cmp (fst e) k = 2"
  shows "\<exists>d' d1 d2. dba_update_inifile ops d kb v False = Some (0, d') \<and>
    dba_fetch_inifile ops d' kb 0 = Some (Some v, d1) \<and> dba_fetch_inifile ops d' kb 1 = Some (None, d2)"
proof -
  have keys: "group k \<noteq> None" "has_name k"
    using assms(5,6) key_split_keys [of "cstr kb"] by (auto simp: has_name_def ini_name_ok_def)
  have G: "G = [] \<Longrightarrow> the (group k) = []" using assms(2) by (auto simp: ini_parts_def split: if_splits)
  obtain d1 where d1: "inifile_delete_replace_append ops d k (Some v) False =
        Some (0, \<not> False \<and> (\<exists>e \<in> set (entries None G). inifile_key_cmp (fst e) k = 0), d1)"
      "contents (ifp d1) = concat A @ (if False then concat G else concat (keep k None [] G)) @ new_text k (Some v) (G = []) @ concat R"
    using php_file.update_ok [OF assms(1-3) keys] by blast
  have upd: "dba_update_inifile ops d kb v False = Some (0, d1)"
    using d1 by (simp add: dba_update_inifile_def inifile_replace_def assms(5) [symmetric] value_cstr [OF assms(7)])
  have "contents (ifp d1) = concat (A @ keep k None [] G @ [entry_line (the (name k)) v] @ R)" using d1(2) G by simp
  then have lines: "lines (contents (ifp d1)) = A @ keep k None [] G @ [entry_line (the (name k)) v] @ R"
    using parts_terminated [OF assms(2,4), of "keep k None [] G" "[entry_line (the (name k)) v]"] entry_line_is_line [OF assms(6,7)] by simp
  obtain g where g: "strcaseeq g (the (group k))" "entries None (A @ keep k None [] G @ [entry_line (the (name k)) v] @ R) =
      entries None A @ entries None (keep k None [] G) @ [(\<lparr>group = Some g, name = name k\<rparr>, Some v)] @ entries (group k) R"
    using parts_new_entry [OF assms(2) keys _ assms(6,7), of "keep k None [] G"] by blast
  define blk where "blk = filter (\<lambda>e. inifile_key_cmp (fst e) k \<noteq> 0) (entries None G) @ [(\<lparr>group = Some g, name = name k\<rparr>, Some v)]"
  have ent: "entries None (lines (contents (ifp d1))) = entries None A @ blk @ entries (group k) R"
    using keep_entries [OF keys(2), of "[]" None G] by (simp add: lines g(2) [simplified] blk_def)
  have hit: "inifile_key_cmp \<lparr>group = Some g, name = name k\<rparr> k = 0"
    using g(1) keys by (simp add: inifile_key_cmp_def strcaseeq_def)
  then have blk: "\<forall>e \<in> set blk. inifile_key_cmp (fst e) k < 2" and vals: "values_of k blk = [v]"
    using assms(2) by (auto simp: blk_def ini_parts_def values_of_def filter_empty_conv)
  have A: "\<forall>e \<in> set (entries None A). inifile_key_cmp (fst e) k = 2" using assms(2) by (simp add: ini_parts_def)
  have found: "entry_value (find_entry k i False (entries None (lines (contents (ifp d1))))) = (if i = 0 then Some v else None)" if "i = 0 \<or> i = 1" for i
    using find_entry_block [OF blk assms(8), of i False] that by (auto simp: ent find_entry_skip_group [OF A] vals)
  obtain d2 d3 where "dba_fetch_inifile ops d1 kb 0 = Some (Some v, d2)" "dba_fetch_inifile ops d1 kb 1 = Some (None, d3)"
    using php_file.inifile_fetch_ok [OF assms(1), of 0 d1 k] php_file.inifile_fetch_ok [OF assms(1), of 1 d1 k] found
    by (auto simp: dba_fetch_inifile_def assms(5) [symmetric])
  with upd show ?thesis by blast
qed

text \<open>
  Fetching returns on every file, whatever its bytes: when the key's group stands in one piece it
  gives the value with the number asked for among the entries equal to the key, in file order, and
  NULL beyond the last; the file is not changed.
\<close>

theorem inifile_fetch_value:
  assumes "php_file ops contents offset" and "k = inifile_key_split (cstr kb)" and "0 \<le> skip"
    and "entries None (lines (contents (ifp d))) = pre @ blk @ post"
    and "\<forall>e \<in> set (pre @ post). inifile_key_cmp (fst e) k = 2" and "\<forall>e \<in> set blk. inifile_key_cmp (fst e) k < 2"
  shows "\<exists>d'. dba_fetch_inifile ops d kb skip =
      Some (if nat skip < length (values_of k blk) then Some (values_of k blk ! nat skip) else None, d') \<and>
    contents (ifp d') = contents (ifp d)"
proof -
  have "find_entry k skip False (pre @ blk @ post) = find_entry k skip False (blk @ post)"
    using find_entry_skip_group assms(5) by simp
  with php_file.inifile_fetch_ok [OF assms(1,3), of d k] find_entry_block [OF assms(6) _ assms(3), of post False] assms(5)
  show ?thesis unfolding assms(4) dba_fetch_inifile_def assms(2) by auto
qed

text \<open>
  C24: walking over any file with \<^verbatim>\<open>dba_firstkey\<close> and \<^verbatim>\<open>dba_nextkey\<close> lists the keys of its entries, headers
  included, in file order and then ends; one call more than there are entries is enough.
\<close>

theorem inifile_walk:
  assumes "php_file ops contents offset" and "length (entries None (lines (contents (ifp d)))) < n"
  shows "walk (dba_nextkey_inifile ops) n (dba_firstkey_inifile ops d) =
    Some (map (\<lambda>e. the (inifile_key_string (fst e))) (entries None (lines (contents (ifp d)))))"
  using php_file.walk_all [OF assms] .

text \<open>
  Splitting a key and putting it together again are inverse, except for a key that begins with
  an empty pair of brackets, and for keys whose parts hold the bracket that separates them.
\<close>

theorem inifile_key_roundtrip:
  "(take 2 s \<noteq> ''[]'' \<longrightarrow> inifile_key_string (inifile_key_split s) = Some s) \<and>
   (CHR '']'' \<notin> set g \<and> (g \<noteq> [] \<or> take 1 n \<noteq> ''['') \<longrightarrow>
      inifile_key_split (the (inifile_key_string \<lparr>group = Some g, name = Some n\<rparr>)) = \<lparr>group = Some g, name = Some n\<rparr>)"
proof -
  have split: "split_at c r = Some (a, b) \<Longrightarrow> r = a @ c # b" for c r a b
    by (induction r arbitrary: a) (auto split: if_splits)
  have "inifile_key_string (inifile_key_split s) = Some s" if "take 2 s \<noteq> ''[]''"
  proof (cases s)
    case (Cons c r)
    then show ?thesis using that split [of "CHR '']''" r]
      by (cases "split_at (CHR '']'') r") (auto simp: inifile_key_split_def inifile_key_string_def)
  qed (simp add: inifile_key_split_def inifile_key_string_def)
  moreover have "inifile_key_split (the (inifile_key_string \<lparr>group = Some g, name = Some n\<rparr>)) = \<lparr>group = Some g, name = Some n\<rparr>"
    if "CHR '']'' \<notin> set g" "g \<noteq> [] \<or> take 1 n \<noteq> ''[''"
    using that split_at_first [of "CHR '']''" g n]
    by (cases "g = []"; cases n) (auto simp: inifile_key_split_def inifile_key_string_def)
  ultimately show ?thesis by blast
qed

text \<open>
  Inserting into a file whose last line lacks its newline glues the new entry to that line: the
  new key cannot be fetched, and the value of the last key is changed.
\<close>

theorem inifile_insert_unterminated:
  assumes "php_file ops contents offset" and "contents (ifp d) = n0 @ CHR ''='' # v0"
    and "ini_name_ok n0" and "ini_name_ok n" and "\<not> strcaseeq n0 n" and "newline \<notin> set v0" and "nul \<notin> set v0"
    and "ini_value_ok v"
  shows "\<exists>d' d1 d2. dba_update_inifile ops d n v True = Some (0, d') \<and>
    dba_fetch_inifile ops d' n 0 = Some (None, d1) \<and>
    dba_fetch_inifile ops d' n0 0 = Some (Some (etrim (v0 @ n @ CHR ''='' # v)), d2)"
proof -
  have key: "inifile_key_split (cstr m) = \<lparr>group = Some [], name = Some m\<rparr>" if "ini_name_ok m" for m
    using that by (cases m) (auto simp: ini_name_ok_def c_string_def inifile_key_split_def)
  let ?k = "\<lparr>group = Some [], name = Some n\<rparr>"
  let ?l = "n0 @ CHR ''='' # v0"
  have ent: "entries None [?l] = [(\<lparr>group = Some [], name = Some n0\<rparr>, Some (etrim v0))]"
    using parse_entry_line [OF assms(3,7), of None] by simp
  have "newline \<notin> set (n0 @ CHR ''='' # v0)" using assms(3,6) by (auto simp: ini_name_ok_def)
  then have "is_line ?l" by (metis append_is_Nil_conv in_set_butlastD is_line_def list.simps(3))
  then have parts: "ini_parts ?k [] [?l] []"
    using ent parse_not_junk [OF parse_entry_line [OF assms(3,7)]] same_group_cmp [of "\<lparr>group = Some [], name = Some n0\<rparr>" ?k]
    by (simp add: ini_parts_def ends_entry_def)
  have name: "has_name ?k" using assms(4) by (simp add: has_name_def ini_name_ok_def)
  obtain d' where d': "inifile_delete_replace_append ops d ?k (Some v) True =
        Some (0, \<not> True \<and> (\<exists>e \<in> set (entries None [?l]). inifile_key_cmp (fst e) ?k = 0), d')"
      "contents (ifp d') = concat [] @ (if True then concat [?l] else concat (keep ?k None [] [?l])) @ new_text ?k (Some v) ([?l] = []) @ concat []"
    using php_file.update_ok [OF assms(1) parts _ _ name, of d "Some v" True] assms(2) by auto
  let ?v = "v0 @ n @ CHR ''='' # v"
  have cont: "contents (ifp d') = (n0 @ CHR ''='' # ?v) @ [newline]" using d'(2) by simp
  have "newline \<notin> set (n0 @ CHR ''='' # ?v)" "nul \<notin> set ?v"
    using assms(3,4,6-8) by (auto simp: ini_name_ok_def ini_value_ok_def)
  then have ent': "entries None (lines (contents (ifp d'))) = [(\<lparr>group = Some [], name = Some n0\<rparr>, Some (etrim ?v))]"
    using lines_line [of "n0 @ CHR ''='' # ?v" "[]"] parse_entry_line [OF assms(3), of "?v @ [newline]" None]
    unfolding cont by (simp add: etrim_newline [of ?v, simplified])
  have upd: "dba_update_inifile ops d n v True = Some (0, d')"
    using d'(1) by (simp add: dba_update_inifile_def inifile_append_def key [OF assms(4)] value_cstr [OF assms(8)])
  have cmp: "inifile_key_cmp \<lparr>group = Some [], name = Some n0\<rparr> ?k = 1"
    "inifile_key_cmp \<lparr>group = Some [], name = Some n0\<rparr> \<lparr>group = Some [], name = Some n0\<rparr> = 0"
    using assms(5) by (auto simp: inifile_key_cmp_def strcaseeq_def)
  obtain d1 d2 where "dba_fetch_inifile ops d' n 0 = Some (None, d1)" "dba_fetch_inifile ops d' n0 0 = Some (Some (etrim ?v), d2)"
    using php_file.inifile_fetch_ok [OF assms(1), of 0 d' ?k] php_file.inifile_fetch_ok [OF assms(1), of 0 d' "\<lparr>group = Some [], name = Some n0\<rparr>"]
    by (auto simp: dba_fetch_inifile_def key [OF assms(3)] key [OF assms(4)] ent' cmp entry_value_def)
  with upd show ?thesis by blast
qed

text \<open>
  \<^verbatim>\<open>dba_delete\<close> with a group as the key, brackets and no name, removes the whole group from the file,
  with the comment lines before its header, and reports failure.
\<close>

theorem inifile_delete_group_fails:
  assumes "php_file ops contents offset" and "ini_parts k A G R" and "contents (ifp d) = concat (A @ G @ R)"
    and "k = inifile_key_split (cstr kb)" and "name k = Some []" and "G \<noteq> []"
  shows "\<exists>d'. dba_delete_inifile ops d kb = Some (-1, d') \<and> contents (ifp d') = concat (A @ R)"
proof -
  have keys: "group k \<noteq> None" using assms(4) key_split_keys by simp
  obtain d' where "inifile_delete_replace_append ops d k None False = Some (0, False, d')" "contents (ifp d') = concat (A @ R)"
    using php_file.delete_group_ok [OF assms(1-3) keys assms(5,6)] by blast
  then show ?thesis by (simp add: dba_delete_inifile_def inifile_delete_ex_def flip: assms(4))
qed

text \<open>
  A key whose group the file does not have yet is written at the end of the file, after a header
  for the group; nothing else changes.
\<close>

theorem inifile_new_group:
  assumes "php_file ops contents offset" and "k = inifile_key_split (cstr kb)"
    and "\<forall>e \<in> set (entries None (lines (contents (ifp d)))). inifile_key_cmp (fst e) k = 2"
    and "group k = Some g" and "g \<noteq> []" and "name k = Some n" and "n \<noteq> []"
  shows "\<exists>d'. dba_update_inifile ops d kb v mode = Some (0, d') \<and>
    contents (ifp d') = contents (ifp d) @ CHR ''['' # g @ CHR '']'' # newline # n @ CHR ''='' # cstr v @ [newline]"
proof -
  obtain d' where "inifile_delete_replace_append ops d k (Some (cstr v)) mode = Some (0, False, d')"
      "contents (ifp d') = contents (ifp d) @ new_text k (Some (cstr v)) True"
    using php_file.new_group_ok [OF assms(1,3), of "Some (cstr v)" mode] assms(4-7) by (auto simp: has_name_def)
  then show ?thesis using assms(4-6)
    by (cases mode) (auto simp: dba_update_inifile_def inifile_append_def inifile_replace_def simp flip: assms(2))
qed

section \<open>Instances\<close>

abbreviation nl :: "string \<Rightarrow> bytes" where "nl s \<equiv> s @ [newline]"

definition demo_before :: "bytes list" where "demo_before = [nl ''[x]'', nl ''a=1'']"
definition demo_group :: "bytes list" where "demo_group = [nl '';c'', nl ''[y]'', nl ''b=2'', nl ''d = 4 '']"
definition demo_after :: "bytes list" where "demo_after = [nl ''[z]'', nl ''q=3'']"
definition demo_ini :: "memfile inifile" where
  "demo_ini = the (inifile_alloc mem_ops \<lparr>mf_data = concat (demo_before @ demo_group @ demo_after), mf_pos = 0\<rparr> False)"

lemma demo_contents: "mf_data (ifp demo_ini) = concat (demo_before @ demo_group @ demo_after)"
  by (simp add: demo_ini_def inifile_alloc_def mem_ops_def)

lemma demo_lines: "\<forall>l \<in> set (demo_before @ demo_group @ demo_after). last l = newline"
  by code_simp

lemma demo_parts: "ini_parts (inifile_key_split (cstr ''[Y]b'')) demo_before demo_group demo_after"
proof -
  have 1: "file_lines (demo_before @ demo_group @ demo_after)" "ends_entry demo_before" "ends_entry demo_group"
    "\<forall>e \<in> set (entries None demo_before). inifile_key_cmp (fst e) (inifile_key_split (cstr ''[Y]b'')) = 2"
    "\<forall>e \<in> set (entries None demo_group). inifile_key_cmp (fst e) (inifile_key_split (cstr ''[Y]b'')) < 2"
    "inifile_key_cmp (fst (hd (entries (group (inifile_key_split (cstr ''[Y]b''))) demo_after))) (inifile_key_split (cstr ''[Y]b'')) = 2"
    "group (inifile_key_split (cstr ''[Y]b'')) = Some ''Y''"
    "parse_line None (nl ''[y]'') = Some (\<lparr>group = Some ''y'', name = Some []\<rparr>, None)" "junk (nl '';c'')"
    by code_simp+
  have "\<exists>J h X k'. demo_group = J @ h # X \<and> (\<forall>l \<in> set J. junk l) \<and> parse_line None h = Some (k', None)"
    using 1(8,9) by (intro exI [of _ "[nl '';c'']"] exI [of _ "nl ''[y]''"] exI [of _ "[nl ''b=2'', nl ''d = 4 '']"] exI) (simp add: demo_group_def)
  then show ?thesis using 1 unfolding ini_parts_def by (metis list.distinct(1) list.sel(1) option.inject)
qed

lemma demo_name: "ini_name_ok (the (name (inifile_key_split (cstr ''[Y]b''))))" "ini_value_ok ''5''"
  by code_simp+

theorem inifile_update_entries_witness:
  "\<exists>d' g. dba_update_inifile mem_ops demo_ini ''[Y]b'' ''5'' False = Some (0, d') \<and> strcaseeq g ''Y'' \<and>
    mf_data (ifp d') = concat [nl ''[x]'', nl ''a=1'', nl '';c'', nl ''[y]'', nl ''d = 4 '', nl ''b=5'', nl ''[z]'', nl ''q=3'']"
proof -
  have "the (group (inifile_key_split (cstr ''[Y]b''))) = ''Y''"
    "demo_before @ keep (inifile_key_split (cstr ''[Y]b'')) None [] demo_group @
       [entry_line (the (name (inifile_key_split (cstr ''[Y]b'')))) ''5''] @ demo_after =
     [nl ''[x]'', nl ''a=1'', nl '';c'', nl ''[y]'', nl ''d = 4 '', nl ''b=5'', nl ''[z]'', nl ''q=3'']"
    by code_simp+
  with inifile_update_entries [OF memory.php_file_axioms demo_parts demo_contents demo_lines refl demo_name]
  show ?thesis by metis
qed

theorem inifile_replace_fetch_witness:
  "\<exists>d' d1. dba_update_inifile mem_ops demo_ini ''[Y]b'' ''5'' False = Some (0, d') \<and>
    dba_fetch_inifile mem_ops d' ''[Y]b'' 0 = Some (Some ''5'', d1)"
proof -
  have "\<forall>e \<in> set (entries (group (inifile_key_split (cstr ''[Y]b''))) demo_after).
      inifile_key_cmp (fst e) (inifile_key_split (cstr ''[Y]b'')) = 2" by code_simp
  from inifile_replace_fetch [OF memory.php_file_axioms demo_parts demo_contents demo_lines refl demo_name this]
  show ?thesis by blast
qed

theorem inifile_fetch_value_witness:
  "\<exists>d'. dba_fetch_inifile mem_ops demo_ini ''[Y]D'' 0 = Some (Some ''4'', d')"
proof -
  let ?k = "inifile_key_split (cstr ''[Y]D'')"
  have "entries None (lines (mf_data (ifp demo_ini))) = entries None demo_before @ entries None demo_group @ entries None demo_after"
    "\<forall>e \<in> set (entries None demo_before @ entries None demo_after). inifile_key_cmp (fst e) ?k = 2"
    "\<forall>e \<in> set (entries None demo_group). inifile_key_cmp (fst e) ?k < 2" "values_of ?k (entries None demo_group) = [''4'']"
    unfolding demo_contents by code_simp+
  with inifile_fetch_value [OF memory.php_file_axioms refl order_refl this(1-3)] show ?thesis by auto
qed

theorem inifile_walk_witness:
  "walk (dba_nextkey_inifile mem_ops) 8 (dba_firstkey_inifile mem_ops demo_ini) =
    Some [''[x]'', ''[x]a'', ''[y]'', ''[y]b'', ''[y]d'', ''[z]'', ''[z]q'']"
proof -
  have "length (entries None (lines (mf_data (ifp demo_ini)))) < 8"
    "map (\<lambda>e. the (inifile_key_string (fst e))) (entries None (lines (mf_data (ifp demo_ini)))) =
      [''[x]'', ''[x]a'', ''[y]'', ''[y]b'', ''[y]d'', ''[z]'', ''[z]q'']"
    unfolding demo_contents by code_simp+
  with inifile_walk [OF memory.php_file_axioms this(1)] show ?thesis by simp
qed

theorem inifile_key_roundtrip_witness:
  "inifile_key_string (inifile_key_split ''[g]n'') = Some ''[g]n'' \<and>
   inifile_key_split (the (inifile_key_string \<lparr>group = Some ''g'', name = Some ''n''\<rparr>)) = \<lparr>group = Some ''g'', name = Some ''n''\<rparr>"
  using inifile_key_roundtrip [of "''[g]n''" "''g''" "''n''"] by simp

theorem inifile_insert_unterminated_witness:
  "\<exists>d' d1. dba_update_inifile mem_ops (the (inifile_alloc mem_ops \<lparr>mf_data = ''a=1'', mf_pos = 0\<rparr> False)) ''b'' ''2'' True = Some (0, d') \<and>
    dba_fetch_inifile mem_ops d' ''b'' 0 = Some (None, d1)"
proof -
  let ?d = "the (inifile_alloc mem_ops \<lparr>mf_data = ''a=1'', mf_pos = 0\<rparr> False)"
  have 1: "mf_data (ifp ?d) = ''a'' @ CHR ''='' # ''1''" by (simp add: inifile_alloc_def mem_ops_def)
  have "ini_name_ok ''a''" "ini_name_ok ''b''" "\<not> strcaseeq ''a'' ''b''" "newline \<notin> set ''1''" "nul \<notin> set ''1''" "ini_value_ok ''2''"
    by code_simp+
  from inifile_insert_unterminated [OF memory.php_file_axioms 1 this] show ?thesis by blast
qed

theorem inifile_new_group_witness:
  "\<exists>d'. dba_update_inifile mem_ops demo_ini ''[w]k'' ''v'' False = Some (0, d') \<and>
    mf_data (ifp d') = mf_data (ifp demo_ini) @ nl ''[w]'' @ nl ''k=v''"
proof -
  let ?k = "inifile_key_split (cstr ''[w]k'')"
  have 1: "\<forall>e \<in> set (entries None (lines (mf_data (ifp demo_ini)))). inifile_key_cmp (fst e) ?k = 2"
    unfolding demo_contents by code_simp
  have 2: "group ?k = Some ''w''" "name ?k = Some ''k''" "cstr ''v'' = ''v''" by code_simp+
  from inifile_new_group [OF memory.php_file_axioms refl 1 2(1) _ 2(2), of "''v''" False] 2(3) show ?thesis by simp
qed

theorem inifile_delete_group_fails_witness:
  "\<exists>d'. dba_delete_inifile mem_ops (the (inifile_alloc mem_ops \<lparr>mf_data = nl ''[x]'' @ nl ''a=1'', mf_pos = 0\<rparr> False)) ''[x]'' = Some (-1, d') \<and>
    mf_data (ifp d') = []"
proof -
  let ?d = "the (inifile_alloc mem_ops \<lparr>mf_data = nl ''[x]'' @ nl ''a=1'', mf_pos = 0\<rparr> False)"
  let ?k = "inifile_key_split (cstr ''[x]'')"
  let ?G = "[nl ''[x]'', nl ''a=1'']"
  have 1: "file_lines ?G" "ends_entry ?G" "\<forall>e \<in> set (entries None ?G). inifile_key_cmp (fst e) ?k < 2" "group ?k = Some ''x''" "name ?k = Some []"
    "parse_line None (nl ''[x]'') = Some (\<lparr>group = Some ''x'', name = Some []\<rparr>, None)"
    by code_simp+
  have "\<exists>J h X k'. ?G = J @ h # X \<and> (\<forall>l \<in> set J. junk l) \<and> parse_line None h = Some (k', None)"
    using 1(6) by (intro exI [of _ "[]"] exI [of _ "nl ''[x]''"] exI [of _ "[nl ''a=1'']"] exI) simp
  then have "ini_parts ?k [] ?G []" using 1 unfolding ini_parts_def by (simp add: ends_entry_def)
  moreover have "mf_data (ifp ?d) = concat ([] @ ?G @ [])" by (simp add: inifile_alloc_def mem_ops_def)
  ultimately show ?thesis using inifile_delete_group_fails [OF memory.php_file_axioms _ _ refl 1(5), of "[]" ?G "[]" ?d] by simp
qed

end
