(* ===== verification/DbaMode.thy ===== *)
theory DbaMode
  imports DbaCdb Flatfile InifileUpdate
begin

text \<open>
  The static part of the dba extension's dispatcher, \<^verbatim>\<open>compile/extensions/dba/dba.c\<close> and \<^verbatim>\<open>php_dba.h\<close>: the handler
  structure and the table of handlers, the mode string of \<^verbatim>\<open>dba_open\<close>, keys given as arrays and
  \<^verbatim>\<open>dba_key_split\<close>, and the treatment of the \<^verbatim>\<open>skip\<close> argument. The table holds the handlers that the
  build enables (\<^verbatim>\<open>cdb\<close>, \<^verbatim>\<open>cdb_make\<close>, \<^verbatim>\<open>inifile\<close>, \<^verbatim>\<open>flatfile\<close>), each made of the functions modelled in
  the handler theories; \<^verbatim>\<open>info->dbf\<close>, a \<^verbatim>\<open>void *\<close> that each handler casts to its own structure, is a
  datatype with one constructor per structure.
\<close>

section \<open>Flags\<close>

definition DBA_LOCK_READER :: u32 where "DBA_LOCK_READER = 1"
definition DBA_LOCK_WRITER :: u32 where "DBA_LOCK_WRITER = 2"
definition DBA_LOCK_CREAT :: u32 where "DBA_LOCK_CREAT = 4"
definition DBA_LOCK_TRUNC :: u32 where "DBA_LOCK_TRUNC = 8"
definition DBA_LOCK_ALL :: u32 where
  "DBA_LOCK_ALL = DBA_LOCK_READER OR DBA_LOCK_WRITER OR DBA_LOCK_CREAT OR DBA_LOCK_TRUNC"
definition DBA_STREAM_OPEN :: u32 where "DBA_STREAM_OPEN = 0x10"
definition DBA_PERSISTENT :: u32 where "DBA_PERSISTENT = 0x20"
definition DBA_CAST_AS_FD :: u32 where "DBA_CAST_AS_FD = 0x50"
definition DBA_NO_APPEND :: u32 where "DBA_NO_APPEND = 0xD0"

lemmas dba_flag_defs = DBA_LOCK_READER_def DBA_LOCK_WRITER_def DBA_LOCK_CREAT_def DBA_LOCK_TRUNC_def
  DBA_LOCK_ALL_def DBA_STREAM_OPEN_def DBA_PERSISTENT_def DBA_CAST_AS_FD_def DBA_NO_APPEND_def

text \<open>The operations of \<^verbatim>\<open>flock\<close>.\<close>

abbreviation (input) LOCK_SH :: u32 where "LOCK_SH \<equiv> 1"
abbreviation (input) LOCK_EX :: u32 where "LOCK_EX \<equiv> 2"
abbreviation (input) LOCK_NB :: u32 where "LOCK_NB \<equiv> 4"

section \<open>Handlers\<close>

text \<open>
  A call of a handler gives \<^const>\<open>None\<close> when it does not return, otherwise the result and the handler's
  private data. Opening gives the error text, if the handler sets one, or the private data.
\<close>

record ('s, 'd) dba_handler =
  h_name :: string
  h_flags :: u32
  h_open :: "dba_mode \<Rightarrow> 's \<Rightarrow> string option + 'd"
  h_close :: "'d \<Rightarrow> 's option"
  h_fetch :: "'d \<Rightarrow> bytes \<Rightarrow> int \<Rightarrow> (dba_value \<times> 'd) option"
  h_update :: "'d \<Rightarrow> bytes \<Rightarrow> bytes \<Rightarrow> bool \<Rightarrow> (int \<times> 'd) option"
  h_exists :: "'d \<Rightarrow> bytes \<Rightarrow> (int \<times> 'd) option"
  h_delete :: "'d \<Rightarrow> bytes \<Rightarrow> (int \<times> 'd) option"
  h_firstkey :: "'d \<Rightarrow> (dba_value \<times> 'd) option"
  h_nextkey :: "'d \<Rightarrow> (dba_value \<times> 'd) option"
  h_optimize :: "'d \<Rightarrow> int"
  h_sync :: "'d \<Rightarrow> int"
  h_info :: string

text \<open>The private data. Reading one handler's structure as another's is not defined: the call has no result.\<close>

datatype 's dbf = CdbD "'s dba_cdb" | IniD "'s inifile" | FlatD "'s flatfile"

definition on_cdb :: "('s dba_cdb \<Rightarrow> ('a \<times> 's dba_cdb) option) \<Rightarrow> 's dbf \<Rightarrow> ('a \<times> 's dbf) option" where
  "on_cdb f d = (case d of CdbD c \<Rightarrow> map_option (map_prod id CdbD) (f c) | _ \<Rightarrow> None)"

definition on_ini :: "('s inifile \<Rightarrow> ('a \<times> 's inifile) option) \<Rightarrow> 's dbf \<Rightarrow> ('a \<times> 's dbf) option" where
  "on_ini f d = (case d of IniD c \<Rightarrow> map_option (map_prod id IniD) (f c) | _ \<Rightarrow> None)"

definition on_flat :: "('s flatfile \<Rightarrow> ('a \<times> 's flatfile) option) \<Rightarrow> 's dbf \<Rightarrow> ('a \<times> 's dbf) option" where
  "on_flat f d = (case d of FlatD c \<Rightarrow> map_option (map_prod id FlatD) (f c) | _ \<Rightarrow> None)"

definition opt_value :: "bytes option \<Rightarrow> dba_value" where
  "opt_value v = (case v of None \<Rightarrow> NullVal | Some s \<Rightarrow> Val s)"

text \<open>A key of the cdb traversal whose bytes were never written is a string of undetermined bytes.\<close>

definition key_value :: "key_result \<Rightarrow> dba_value" where
  "key_value k = (case k of NoKey \<Rightarrow> NullVal | Key s \<Rightarrow> Val s | UninitKey n \<Rightarrow> Overrun)"

definition hnd_cdb :: "'s php_stream_ops \<Rightarrow> string \<Rightarrow> ('s, 's dbf) dba_handler" where
  "hnd_cdb ops nm =
     \<lparr>h_name = nm, h_flags = DBA_STREAM_OPEN OR DBA_LOCK_ALL,
      h_open = (\<lambda>m s. map_sum Some CdbD (dba_open_cdb ops m s)),
      h_close = (\<lambda>d. case d of CdbD c \<Rightarrow> dba_close_cdb ops c | _ \<Rightarrow> None),
      h_fetch = (\<lambda>d k skip. on_cdb (\<lambda>c. map_option (map_prod opt_value id) (dba_fetch_cdb ops c k (nat skip))) d),
      h_update = (\<lambda>d k v m. on_cdb (\<lambda>c. Some (dba_update_cdb ops c k v m)) d),
      h_exists = (\<lambda>d k. on_cdb (\<lambda>c. dba_exists_cdb ops c k) d),
      h_delete = (\<lambda>d k. on_cdb (\<lambda>c. Some (dba_delete_cdb c k, c)) d),
      h_firstkey = on_cdb (\<lambda>c. Some (map_prod key_value id (dba_firstkey_cdb ops c))),
      h_nextkey = on_cdb (\<lambda>c. Some (map_prod key_value id (dba_nextkey_cdb ops c))),
      h_optimize = (\<lambda>d. case d of CdbD c \<Rightarrow> dba_optimize_cdb c | _ \<Rightarrow> -1),
      h_sync = (\<lambda>d. case d of CdbD c \<Rightarrow> dba_sync_cdb c | _ \<Rightarrow> -1),
      h_info = dba_info_cdb nm\<rparr>"

definition hnd_inifile :: "'s php_stream_ops \<Rightarrow> ('s, 's dbf) dba_handler" where
  "hnd_inifile ops =
     \<lparr>h_name = ''inifile'', h_flags = DBA_STREAM_OPEN OR DBA_LOCK_ALL OR DBA_CAST_AS_FD,
      h_open = (\<lambda>m s. case dba_open_inifile ops (m = DBA_READER) s of None \<Rightarrow> Inl None | Some d \<Rightarrow> Inr (IniD d)),
      h_close = (\<lambda>d. case d of IniD c \<Rightarrow> Some (dba_close_inifile c) | _ \<Rightarrow> None),
      h_fetch = (\<lambda>d k skip. on_ini (\<lambda>c. map_option (map_prod opt_value id) (dba_fetch_inifile ops c k skip)) d),
      h_update = (\<lambda>d k v m. on_ini (\<lambda>c. dba_update_inifile ops c k v m) d),
      h_exists = (\<lambda>d k. on_ini (\<lambda>c. dba_exists_inifile ops c k) d),
      h_delete = (\<lambda>d k. on_ini (\<lambda>c. dba_delete_inifile ops c k) d),
      h_firstkey = on_ini (\<lambda>c. map_option (map_prod opt_value id) (dba_firstkey_inifile ops c)),
      h_nextkey = on_ini (\<lambda>c. map_option (map_prod opt_value id) (dba_nextkey_inifile ops c)),
      h_optimize = (\<lambda>d. case d of IniD c \<Rightarrow> dba_optimize_inifile c | _ \<Rightarrow> -1),
      h_sync = (\<lambda>d. case d of IniD c \<Rightarrow> dba_sync_inifile c | _ \<Rightarrow> -1),
      h_info = dba_info_inifile\<rparr>"

definition hnd_flatfile :: "'s php_stream_ops \<Rightarrow> ('s, 's dbf) dba_handler" where
  "hnd_flatfile ops =
     \<lparr>h_name = ''flatfile'', h_flags = DBA_STREAM_OPEN OR DBA_LOCK_ALL OR DBA_NO_APPEND,
      h_open = (\<lambda>m s. Inr (FlatD (dba_open_flatfile s))),
      h_close = (\<lambda>d. case d of FlatD c \<Rightarrow> Some (dba_close_flatfile c) | _ \<Rightarrow> None),
      h_fetch = (\<lambda>d k skip. on_flat (\<lambda>c. dba_fetch_flatfile ops c k) d),
      h_update = (\<lambda>d k v m. on_flat (\<lambda>c. dba_update_flatfile ops c k v m) d),
      h_exists = (\<lambda>d k. on_flat (\<lambda>c. dba_exists_flatfile ops c k) d),
      h_delete = (\<lambda>d k. on_flat (\<lambda>c. dba_delete_flatfile ops c k) d),
      h_firstkey = on_flat (dba_firstkey_flatfile ops),
      h_nextkey = on_flat (dba_nextkey_flatfile ops),
      h_optimize = (\<lambda>d. case d of FlatD c \<Rightarrow> dba_optimize_flatfile c | _ \<Rightarrow> -1),
      h_sync = (\<lambda>d. case d of FlatD c \<Rightarrow> dba_sync_flatfile c | _ \<Rightarrow> -1),
      h_info = dba_info_flatfile\<rparr>"

definition handler :: "'s php_stream_ops \<Rightarrow> ('s, 's dbf) dba_handler list" where
  "handler ops = [hnd_cdb ops ''cdb'', hnd_cdb ops ''cdb_make'', hnd_inifile ops, hnd_flatfile ops]"

definition DBA_DEFAULT :: string where
  "DBA_DEFAULT = ''flatfile''"

text \<open>The loop over the table with \<^verbatim>\<open>strcasecmp\<close>; the name searched for ends at its first NUL byte.\<close>

definition find_handler :: "('s, 'd) dba_handler list \<Rightarrow> string \<Rightarrow> ('s, 'd) dba_handler option" where
  "find_handler hs nm = find (\<lambda>h. strcaseeq (h_name h) (cstr nm)) hs"

section \<open>The mode string\<close>

text \<open>How \<^verbatim>\<open>dba_open\<close> gives up on its arguments: an exception, or a warning and the result false.\<close>

datatype refusal = Throws string | Returns_false string

record lock_choice =
  is_test_lock :: bool
  is_db_lock :: bool
  is_lock_ignored :: bool
  lock_flag :: u32
  lock_notice :: "string option"

definition mode_second :: "('s, 'd) dba_handler \<Rightarrow> string \<Rightarrow> refusal + lock_choice" where
  "mode_second hptr mode =
     (let lc = \<lparr>is_test_lock = (length mode = 3), is_db_lock = False, is_lock_ignored = False, lock_flag = 0, lock_notice = None\<rparr>;
          does_lock = (h_flags hptr AND DBA_LOCK_ALL \<noteq> 0);
          as_l = (\<lambda>lc. lc\<lparr>lock_flag := DBA_LOCK_ALL, lock_notice := (if does_lock then None
                       else Some (''Handler '' @ h_name hptr @ '' does locking internally''))\<rparr>)
      in if length mode > 3 then Inl (Throws ''must be at most 3 characters'')
         else if length mode = 3 \<and> mode ! 2 \<noteq> CHR ''t'' then Inl (Throws ''third character must be \"t\"'')
         else if length mode \<ge> 2
         then (if mode ! 1 = CHR ''t'' then Inr (lc\<lparr>is_test_lock := True\<rparr>)
               else if mode ! 1 = CHR ''-''
               then (if \<not> does_lock then Inl (Returns_false (''Locking cannot be disabled for handler '' @ h_name hptr))
                     else Inr (lc\<lparr>is_lock_ignored := True, lock_flag := 0\<rparr>))
               else if mode ! 1 = CHR ''d''
               then (if \<not> does_lock then Inr (lc\<lparr>is_db_lock := True, lock_flag := h_flags hptr AND DBA_LOCK_ALL\<rparr>)
                     else Inr (as_l (lc\<lparr>is_db_lock := True\<rparr>)))
               else if mode ! 1 = CHR ''l'' then Inr (as_l lc)
               else Inl (Throws ''second character must be one of \"d\", \"l\", \"-\", or \"t\"''))
         else Inr (lc\<lparr>lock_flag := h_flags hptr AND DBA_LOCK_ALL, is_db_lock := True\<rparr>))"

record open_mode =
  modenr :: dba_mode
  lock_mode :: u32
  file_mode :: string
  lock_file_mode :: string

text \<open>The first character; \<^verbatim>\<open>lock_file_mode\<close> is \<^verbatim>\<open>file_mode\<close> unless the branch sets it.\<close>

definition mode_first :: "lock_choice \<Rightarrow> char \<Rightarrow> refusal + open_mode" where
  "mode_first lc c =
     (if c = CHR ''r'' then
        Inr \<lparr>modenr = DBA_READER, lock_mode = (if lock_flag lc AND DBA_LOCK_READER \<noteq> 0 then LOCK_SH else 0),
             file_mode = ''r'', lock_file_mode = ''r''\<rparr>
      else if c = CHR ''w'' then
        Inr \<lparr>modenr = DBA_WRITER, lock_mode = (if lock_flag lc AND DBA_LOCK_WRITER \<noteq> 0 then LOCK_EX else 0),
             file_mode = ''r+b'', lock_file_mode = ''r+b''\<rparr>
      else if c = CHR ''c'' then
        (let lm = (if lock_flag lc AND DBA_LOCK_CREAT \<noteq> 0 then LOCK_EX else 0)
         in Inr (if lm \<noteq> 0
                 then (if is_db_lock lc
                       then \<lparr>modenr = DBA_CREAT, lock_mode = lm, file_mode = ''r+b'', lock_file_mode = ''a+b''\<rparr>
                       else \<lparr>modenr = DBA_CREAT, lock_mode = lm, file_mode = ''a+b'', lock_file_mode = ''w+b''\<rparr>)
                 else \<lparr>modenr = DBA_CREAT, lock_mode = lm, file_mode = ''a+b'', lock_file_mode = ''a+b''\<rparr>))
      else if c = CHR ''n'' then
        Inr \<lparr>modenr = DBA_TRUNC, lock_mode = (if lock_flag lc AND DBA_LOCK_TRUNC \<noteq> 0 then LOCK_EX else 0),
             file_mode = ''w+b'', lock_file_mode = ''w+b''\<rparr>
      else Inl (Throws ''first character must be one of \"r\", \"w\", \"c\", or \"n\"''))"

definition mode_test :: "('s, 'd) dba_handler \<Rightarrow> lock_choice \<Rightarrow> open_mode \<Rightarrow> refusal + open_mode" where
  "mode_test hptr lc om =
     (if \<not> is_test_lock lc then Inr om
      else if is_lock_ignored lc then Inl (Throws ''cannot combine mode \"-\" (no lock) and \"t\" (test lock)'')
      else if lock_mode om = 0
      then Inl (Returns_false (if h_flags hptr AND DBA_LOCK_ALL = 0
             then ''Handler '' @ h_name hptr @ '' uses its own locking which doesn't support mode modifier t (test lock)''
             else ''Handler '' @ h_name hptr @ '' doesn't uses locking for this mode which makes modifier t (test lock) obsolete''))
      else Inr (om\<lparr>lock_mode := lock_mode om OR LOCK_NB\<rparr>))"

definition parse_mode :: "('s, 'd) dba_handler \<Rightarrow> string \<Rightarrow> refusal + lock_choice \<times> open_mode" where
  "parse_mode hptr mode =
     rbind (mode_second hptr mode) (\<lambda>lc.
     rbind (mode_first lc (mode ! 0)) (\<lambda>om.
     rbind (mode_test hptr lc om) (\<lambda>om'. Inr (lc, om'))))"

section \<open>Keys\<close>

text \<open>
  A key argument is a string or an array; \<^const>\<open>None\<close> in an array stands for an element whose
  conversion to a string throws.
\<close>

datatype key_arg = KeyStr bytes | KeyArr "bytes option list"

definition php_dba_make_key :: "bytes option list \<Rightarrow> string + bytes" where
  "php_dba_make_key ht =
     (case ht of
        [g, n] \<Rightarrow>
          (case g of
             None \<Rightarrow> Inl ''conversion to string failed''
           | Some group_str \<Rightarrow>
               (case n of
                  None \<Rightarrow> Inl ''conversion to string failed''
                | Some name_str \<Rightarrow>
                    if length group_str = 0 then Inr name_str
                    else Inr (''['' @ cstr group_str @ '']'' @ cstr name_str)))
      | _ \<Rightarrow> Inl ''must have exactly two elements: \"key\" and \"name\"'')"

definition key_str :: "key_arg \<Rightarrow> string + bytes" where
  "key_str k = (case k of KeyStr s \<Rightarrow> Inr s | KeyArr ht \<Rightarrow> php_dba_make_key ht)"

text \<open>\<^verbatim>\<open>dba_key_split\<close> on a string; \<^const>\<open>None\<close> is the argument false or null, for which it returns false.\<close>

definition dba_key_split :: "bytes option \<Rightarrow> (bytes \<times> bytes) option" where
  "dba_key_split arg =
     (case arg of
        None \<Rightarrow> None
      | Some k \<Rightarrow>
          if cstr k \<noteq> [] \<and> hd k = CHR ''['' \<and> CHR '']'' \<in> set (cstr k)
          then (let n = length (takeWhile (\<lambda>c. c \<noteq> CHR '']'') k)
                in Some (drop 1 (take n k), drop (n + 1) k))
          else Some ([], k))"

text \<open>The \<^verbatim>\<open>skip\<close> argument: what the handler gets, and the notice.\<close>

definition fetch_skip :: "string \<Rightarrow> int \<Rightarrow> int \<times> string option" where
  "fetch_skip nm skip =
     (if skip = 0 then (skip, None)
      else if nm = ''cdb''
      then (if skip < 0 then (0, Some (''Handler '' @ nm @ '' accepts only skip values greater than or equal to zero, using skip=0'')) else (skip, None))
      else if nm = ''inifile''
      then (if skip < -1 then (0, Some (''Handler '' @ nm @ '' accepts only skip value -1 and greater, using skip=0'')) else (skip, None))
      else (0, Some (''Handler '' @ nm @ '' does not support optional skip parameter, the value will be ignored'')))"

section \<open>What the mode strings mean\<close>

text \<open>The handlers of the table leave all locking to the dispatcher.\<close>

definition locks_all :: "('s, 'd) dba_handler \<Rightarrow> bool" where
  "locks_all h \<longleftrightarrow> h_flags h AND DBA_LOCK_ALL = DBA_LOCK_ALL"

lemma DBA_LOCK_ALL_15: "DBA_LOCK_ALL = 15"
  by (simp add: dba_flag_defs)

lemma handler_flags:
  assumes "h \<in> set (handler ops)"
  shows "locks_all h" "h_flags h AND DBA_STREAM_OPEN = DBA_STREAM_OPEN" "h_flags h AND DBA_PERSISTENT = 0"
  using assms by (auto simp: handler_def hnd_cdb_def hnd_inifile_def hnd_flatfile_def locks_all_def dba_flag_defs)

text \<open>The accepted modes and what they stand for, written as a table.\<close>

definition first_char :: "char \<Rightarrow> dba_mode option" where
  "first_char c = (if c = CHR ''r'' then Some DBA_READER else if c = CHR ''w'' then Some DBA_WRITER
     else if c = CHR ''c'' then Some DBA_CREAT else if c = CHR ''n'' then Some DBA_TRUNC else None)"

definition lock_chars :: "string \<Rightarrow> (bool \<times> bool \<times> bool) option" where \<comment> \<open>locked, on the database file, without waiting\<close>
  "lock_chars r = map_of [([], True, True, False), (''d'', True, True, False), (''l'', True, False, False),
     (''-'', False, False, False), (''dt'', True, True, True), (''lt'', True, False, True)] r"

definition mode_table :: "string \<Rightarrow> (open_mode \<times> bool) option" where
  "mode_table mode =
     (case (first_char (hd mode), lock_chars (tl mode)) of
        (Some m, Some (locked, db, test)) \<Rightarrow>
          let fm = (case m of DBA_READER \<Rightarrow> ''r'' | DBA_WRITER \<Rightarrow> ''r+b'' | DBA_TRUNC \<Rightarrow> ''w+b''
                            | DBA_CREAT \<Rightarrow> if locked \<and> db then ''r+b'' else ''a+b'')
          in Some (\<lparr>modenr = m,
                    lock_mode = (if \<not> locked then 0 else (if m = DBA_READER then LOCK_SH else LOCK_EX) + (if test then LOCK_NB else 0)),
                    file_mode = fm,
                    lock_file_mode = (if m = DBA_CREAT then (if locked \<and> \<not> db then ''w+b'' else ''a+b'') else fm)\<rparr>, db)
      | _ \<Rightarrow> None)"

definition mode_meaning :: "refusal + lock_choice \<times> open_mode \<Rightarrow> (open_mode \<times> bool) option" where
  "mode_meaning r = (case r of Inl _ \<Rightarrow> None | Inr (lc, om) \<Rightarrow> Some (om, is_db_lock lc))"

lemmas mode_defs = parse_mode_def mode_second_def mode_first_def mode_test_def Let_def

lemma length_cases_3:
  assumes "xs \<noteq> []"
  obtains a where "xs = [a]" | a b where "xs = [a, b]" | a b c where "xs = [a, b, c]" | "3 < length xs"
proof -
  consider "length xs = Suc 0" | "length xs = Suc (Suc 0)" | "length xs = Suc (Suc (Suc 0))" | "3 < length xs"
    using assms by (metis length_0_conv less_Suc_eq linorder_cases not_less_zero numeral_3_eq_3)
  then show thesis using that by cases (auto simp: length_Suc_conv)
qed

lemma parse_mode_meaning:
  assumes "locks_all h" and "mode \<noteq> []"
  shows "mode_meaning (parse_mode h mode) = mode_table mode"
proof -
  have fl: "h_flags h AND 15 = 15" using assms(1) by (simp add: locks_all_def DBA_LOCK_ALL_15)
  note simps = mode_defs mode_meaning_def mode_table_def first_char_def lock_chars_def DBA_LOCK_ALL_15 fl
    DBA_LOCK_READER_def DBA_LOCK_WRITER_def DBA_LOCK_CREAT_def DBA_LOCK_TRUNC_def
  show ?thesis
    using assms(2)
  proof (cases rule: length_cases_3)
    case (1 a)
    then show ?thesis by (simp add: simps)
  next
    case (2 a b)
    then show ?thesis by (simp add: simps)
  next
    case (3 a b c)
    then show ?thesis by (simp add: simps)
  next
    case 4
    then have "tl mode \<notin> {[], ''d'', ''l'', ''-'', ''dt'', ''lt''}" using assms(2) by (cases mode) auto
    then have "lock_chars (tl mode) = None" by (simp add: lock_chars_def)
    then have "mode_table mode = None" by (simp add: mode_table_def split: option.splits)
    then show ?thesis using 4 by (simp add: mode_defs mode_meaning_def)
  qed
qed

section \<open>Properties\<close>



text \<open>
  The documented form \<^verbatim>\<open>[rwnc][dl-]?t?\<close> includes a test lock with the default kind of lock, \<open>Xt\<close>,
  but the second character \<open>t\<close> leaves \<^verbatim>\<open>lock_flag\<close> at zero: the lock mode is zero and the call always
  returns false with the warning that the handler does not lock.
\<close>

theorem parse_mode_test_alone_refused:
  assumes "h \<in> set (handler ops)" and "c \<in> {CHR ''r'', CHR ''w'', CHR ''c'', CHR ''n''}"
  shows "parse_mode h [c, CHR ''t''] =
    Inl (Returns_false (''Handler '' @ h_name h @ '' doesn't uses locking for this mode which makes modifier t (test lock) obsolete''))"
proof -
  have "h_flags h AND DBA_LOCK_ALL \<noteq> 0"
    using handler_flags(1) [OF assms(1)] by (simp add: locks_all_def DBA_LOCK_ALL_15)
  then show ?thesis using assms(2) by (auto simp: mode_defs)
qed

theorem parse_mode_test_alone_refused_witness:
  "parse_mode (hnd_cdb mem_ops ''cdb'') ''rt'' =
    Inl (Returns_false ''Handler cdb doesn't uses locking for this mode which makes modifier t (test lock) obsolete'')"
  using parse_mode_test_alone_refused [of "hnd_cdb mem_ops ''cdb''" mem_ops "CHR ''r''"]
  by (simp add: handler_def) (simp add: hnd_cdb_def)

text \<open>
  Keys of INI files. Splitting the key that an array with a group and a name makes gives back the
  group and the name, for C strings whose group holds no closing bracket and is not empty; with an
  empty group the name is the key itself, and it comes back whole when it does not look like a key
  with a group.
\<close>

theorem key_split_make_key:
  assumes "c_string g" "c_string n" "CHR '']'' \<notin> set g"
    and "g = [] \<longrightarrow> \<not> (\<exists>r. n = CHR ''['' # r \<and> CHR '']'' \<in> set r)"
  shows "\<exists>k. php_dba_make_key [Some g, Some n] = Inr k \<and> dba_key_split (Some k) = Some (g, n)"
proof (cases "g = []")
  case True
  then have "\<not> (n \<noteq> [] \<and> hd n = CHR ''['' \<and> CHR '']'' \<in> set n)" using assms(4) by (cases n) auto
  then show ?thesis using True assms(2) by (auto simp: php_dba_make_key_def dba_key_split_def)
next
  case False
  let ?k = "''['' @ g @ '']'' @ n"
  have "c_string ?k" using assms(1,2) by (simp add: c_string_def)
  moreover have "takeWhile (\<lambda>c. c \<noteq> CHR '']'') ?k = CHR ''['' # g"
    using assms(3) by (simp add: takeWhile_append takeWhile_eq_all_conv)
  ultimately show ?thesis using False assms(1,2) by (simp add: php_dba_make_key_def dba_key_split_def Let_def)
qed

theorem key_split_make_key_witness:
  "\<exists>k. php_dba_make_key [Some ''grp'', Some ''[x]''] = Inr k \<and> dba_key_split (Some k) = Some (''grp'', ''[x]'')"
  using key_split_make_key [of "''grp''" "''[x]''"] by (simp add: c_string_def)

end
