(* ===== verification/DbaDispatch.thy ===== *)
theory DbaDispatch
  imports DbaMode
begin

text \<open>
  The dispatcher of the dba extension, \<^verbatim>\<open>compile/extensions/dba/dba.c\<close>: connections as PHP objects, the table
  of open connections, persistent connections, locking, and the functions that scripts call.

  A \<^verbatim>\<open>dba_info\<close> is shared by every object of one persistent connection, so the structures live in a
  heap: pointers are numbers, and a freed structure is absent. Objects are numbered in order of
  creation. The PHP core is a parameter, the record \<open>dba_env\<close>: opening, closing and locking streams,
  the cast to a descriptor, and the registration of a persistent resource, all on an abstract world
  \<open>'w\<close> that holds the files and the open streams. The handlers work on a view \<open>'s\<close> of one stream together
  with the world; before a call the view kept in the handler's data is brought up to date with the world,
  and afterwards the world is taken from it.

  A function gives \<^const>\<open>None\<close> when it does not return (a handler may loop for ever) or reads a
  freed structure; warnings and notices are collected in the state. Allocation succeeds, and no exception is pending when
  a handler's open function returns.
\<close>

section \<open>The PHP core\<close>

record ('w, 's) dba_env =
  env_ops :: "'s php_stream_ops"
  env_attach :: "nat \<Rightarrow> 'w \<Rightarrow> 's" \<comment> \<open>the view of an open stream\<close>
  env_refresh :: "'w \<Rightarrow> 's \<Rightarrow> 's" \<comment> \<open>the same stream in another world\<close>
  env_world :: "'s \<Rightarrow> 'w"
  env_open :: "string \<Rightarrow> string \<Rightarrow> bool \<Rightarrow> bool \<Rightarrow> 'w \<Rightarrow> (nat \<times> string option) option \<times> 'w" \<comment> \<open>\<^verbatim>\<open>php_stream_open_wrapper\<close>: path, mode, report errors, persistent; the stream and the opened path\<close>
  env_close :: "bool \<Rightarrow> nat \<Rightarrow> 'w \<Rightarrow> 'w" \<comment> \<open>\<^verbatim>\<open>php_stream_pclose\<close> or \<^verbatim>\<open>php_stream_free\<close>\<close>
  env_supports_lock :: "nat \<Rightarrow> 'w \<Rightarrow> bool"
  env_lock :: "nat \<Rightarrow> u32 \<Rightarrow> 'w \<Rightarrow> int \<times> 'w"
  env_cast :: "nat \<Rightarrow> 'w \<Rightarrow> int option \<times> 'w" \<comment> \<open>\<^verbatim>\<open>php_stream_cast\<close> to a descriptor\<close>
  env_no_append :: "int \<Rightarrow> 'w \<Rightarrow> 'w" \<comment> \<open>\<^verbatim>\<open>fcntl(F_SETFL)\<close> without \<^verbatim>\<open>O_APPEND\<close>\<close>
  env_register :: "string \<Rightarrow> bool" \<comment> \<open>whether \<^verbatim>\<open>zend_register_persistent_resource_ex\<close> succeeds\<close>

section \<open>State\<close>

record 's dba_info =
  i_dbf :: "'s dbf option"
  i_path :: string
  i_mode :: dba_mode
  i_fp :: "nat option"
  i_fd :: int
  i_file_permission :: int
  i_map_size :: int
  i_driver_flags :: int
  i_flags :: u32
  i_hnd :: "('s, 's dbf) dba_handler option"
  i_lock_fp :: "nat option"
  i_lock_mode :: u32

record dba_connection =
  c_info :: "nat option"
  c_hash :: "string option"

text \<open>An entry of the engine's list of persistent resources: one of this extension, or of another type.\<close>

datatype plist_entry = PDba nat | POther

datatype diag = Warning string | Notice string

record ('w, 's) dba_state =
  world :: 'w
  infos :: "nat \<rightharpoonup> 's dba_info"
  next_info :: nat
  objects :: "nat \<rightharpoonup> dba_connection"
  next_object :: nat
  connections :: "(string \<times> nat) list"
  persistent_list :: "(string \<times> plist_entry) list"
  connection_counter :: u32
  default_handler :: string
  default_hptr :: "('s, 's dbf) dba_handler option"
  diags :: "diag list"

text \<open>What a script gets: \<open>Garbage\<close> is a string whose bytes are not determined.\<close>

datatype php_value = PFalse | PTrue | PNull | PStr bytes | PConn nat | PThrow string | Garbage

definition warn :: "string \<Rightarrow> ('w, 's) dba_state \<Rightarrow> ('w, 's) dba_state" where
  "warn m st = st\<lparr>diags := diags st @ [Warning m]\<rparr>"

definition notice :: "string option \<Rightarrow> ('w, 's) dba_state \<Rightarrow> ('w, 's) dba_state" where
  "notice m st = (case m of None \<Rightarrow> st | Some t \<Rightarrow> st\<lparr>diags := diags st @ [Notice t]\<rparr>)"

definition hash_del :: "string \<Rightarrow> (string \<times> 'a) list \<Rightarrow> (string \<times> 'a) list" where
  "hash_del k xs = filter (\<lambda>x. fst x \<noteq> k) xs"

definition put_info :: "nat \<Rightarrow> 's dba_info \<Rightarrow> ('w, 's) dba_state \<Rightarrow> ('w, 's) dba_state" where
  "put_info i info st = st\<lparr>infos := (infos st)(i \<mapsto> info)\<rparr>"

section \<open>Start of the module\<close>

definition dba_ginit :: "'w \<Rightarrow> ('w, 's) dba_state" where
  "dba_ginit w =
     \<lparr>world = w, infos = Map.empty, next_info = 0, objects = Map.empty, next_object = 0, connections = [],
      persistent_list = [], connection_counter = 0, default_handler = [], default_hptr = None, diags = []\<rparr>"

definition OnUpdateDefaultHandler :: "('w, 's) dba_env \<Rightarrow> string \<Rightarrow> ('w, 's) dba_state \<Rightarrow> bool \<times> ('w, 's) dba_state" where
  "OnUpdateDefaultHandler env new_value st =
     (if length new_value = 0 then (True, st\<lparr>default_hptr := None, default_handler := new_value\<rparr>)
      else case find_handler (handler (env_ops env)) new_value of
             None \<Rightarrow> (False, warn (''No such handler: '' @ cstr new_value) st)
           | Some hptr \<Rightarrow> (True, st\<lparr>default_hptr := Some hptr, default_handler := new_value\<rparr>))"

text \<open>After the module has started: its configuration entry has its default value.\<close>

definition dba_minit :: "('w, 's) dba_env \<Rightarrow> 'w \<Rightarrow> ('w, 's) dba_state" where
  "dba_minit env w = snd (OnUpdateDefaultHandler env DBA_DEFAULT (dba_ginit w))"

text \<open>The end of the module empties the table of connections; the rows of \<^verbatim>\<open>phpinfo\<close>.\<close>

definition dba_gshutdown :: "('w, 's) dba_state \<Rightarrow> ('w, 's) dba_state" where
  "dba_gshutdown st = st\<lparr>connections := []\<rparr>"

definition dba_minfo :: "('w, 's) dba_env \<Rightarrow> (string \<times> string) list" where
  "dba_minfo env =
     (let handlers = concat (map (\<lambda>hptr. h_name hptr @ '' '') (handler (env_ops env)))
      in [(''DBA support'', ''enabled''), (''Supported handlers'', if handlers = [] then ''none'' else handlers)])"

section \<open>Calling a handler\<close>

definition dbf_stream :: "'s dbf \<Rightarrow> 's" where
  "dbf_stream d = (case d of CdbD c \<Rightarrow> if dc_make c then mfp (dc_m c) else fp (dc_c c) | IniD c \<Rightarrow> ifp c | FlatD c \<Rightarrow> ff_fp c)"

definition set_stream :: "'s \<Rightarrow> 's dbf \<Rightarrow> 's dbf" where
  "set_stream s d =
     (case d of CdbD c \<Rightarrow> CdbD (if dc_make c then c\<lparr>dc_m := (dc_m c)\<lparr>mfp := s\<rparr>\<rparr> else c\<lparr>dc_c := (dc_c c)\<lparr>fp := s\<rparr>\<rparr>)
              | IniD c \<Rightarrow> IniD (c\<lparr>ifp := s\<rparr>) | FlatD c \<Rightarrow> FlatD (c\<lparr>ff_fp := s\<rparr>))"

definition current :: "('w, 's) dba_env \<Rightarrow> 'w \<Rightarrow> 's dbf \<Rightarrow> 's dbf" where
  "current env w d = set_stream (env_refresh env w (dbf_stream d)) d"

definition call :: "('w, 's) dba_env \<Rightarrow> nat \<Rightarrow> (('s, 's dbf) dba_handler \<Rightarrow> 's dbf \<Rightarrow> ('a \<times> 's dbf) option) \<Rightarrow>
    ('w, 's) dba_state \<Rightarrow> ('a \<times> ('w, 's) dba_state) option" where
  "call env i f st =
     (case infos st i of
        None \<Rightarrow> None
      | Some info \<Rightarrow>
          (case (i_hnd info, i_dbf info) of
             (Some h, Some d) \<Rightarrow>
               map_option (\<lambda>(r, d1). (r, put_info i (info\<lparr>i_dbf := Some d1\<rparr>) (st\<lparr>world := env_world env (dbf_stream d1)\<rparr>)))
                 (f h (current env (world st) d))
           | _ \<Rightarrow> None))"

section \<open>Closing\<close>

definition free_streams :: "('w, 's) dba_env \<Rightarrow> 's dba_info \<Rightarrow> 'w \<Rightarrow> 'w" where
  "free_streams env info w =
     (let pers = (i_flags info AND DBA_PERSISTENT \<noteq> 0);
          w1 = (case i_fp info of None \<Rightarrow> w | Some p \<Rightarrow> if i_lock_fp info \<noteq> Some p then env_close env pers p w else w)
      in case i_lock_fp info of None \<Rightarrow> w1 | Some p \<Rightarrow> env_close env pers p w1)"

definition dba_close_info :: "('w, 's) dba_env \<Rightarrow> nat \<Rightarrow> ('w, 's) dba_state \<Rightarrow> ('w, 's) dba_state option" where
  "dba_close_info env i st =
     (case infos st i of
        None \<Rightarrow> None
      | Some info \<Rightarrow>
          map_option (\<lambda>w. st\<lparr>world := free_streams env info w, infos := (infos st)(i := None)\<rparr>)
            (case i_hnd info of
               None \<Rightarrow> Some (world st)
             | Some h \<Rightarrow> (case i_dbf info of None \<Rightarrow> None
                         | Some d \<Rightarrow> map_option (env_world env) (h_close h (current env (world st) d)))))"

text \<open>The object gives up its structure and its place in the table.\<close>

definition forget :: "nat \<Rightarrow> dba_connection \<Rightarrow> ('w, 's) dba_state \<Rightarrow> ('w, 's) dba_state" where
  "forget ob c st = st\<lparr>objects := (objects st)(ob \<mapsto> \<lparr>c_info = None, c_hash = None\<rparr>),
     connections := (case c_hash c of None \<Rightarrow> connections st | Some h \<Rightarrow> hash_del h (connections st))\<rparr>"

definition dba_close_connection :: "('w, 's) dba_env \<Rightarrow> nat \<Rightarrow> ('w, 's) dba_state \<Rightarrow> ('w, 's) dba_state option" where
  "dba_close_connection env ob st =
     (case objects st ob of
        None \<Rightarrow> None
      | Some c \<Rightarrow>
          (case c_info c of
             None \<Rightarrow> None
           | Some i \<Rightarrow>
               (case infos st i of
                  None \<Rightarrow> None
                | Some info \<Rightarrow>
                    map_option (forget ob c)
                      (if i_flags info AND DBA_PERSISTENT = 0 then dba_close_info env i st else Some st))))"

text \<open>The engine frees an object that nothing refers to any more.\<close>

definition dba_connection_free_obj :: "('w, 's) dba_env \<Rightarrow> nat \<Rightarrow> ('w, 's) dba_state \<Rightarrow> ('w, 's) dba_state option" where
  "dba_connection_free_obj env ob st =
     (case objects st ob of
        None \<Rightarrow> None
      | Some c \<Rightarrow> map_option (\<lambda>st1. st1\<lparr>objects := (objects st1)(ob := None)\<rparr>)
                   (if c_info c = None then Some st else dba_close_connection env ob st))"

text \<open>The destructor of an entry of the persistent list, and the removal of the entries with a given pointer.\<close>

definition close_pconnection :: "('w, 's) dba_env \<Rightarrow> plist_entry \<Rightarrow> ('w, 's) dba_state \<Rightarrow> ('w, 's) dba_state option" where
  "close_pconnection env e st = (case e of PDba i \<Rightarrow> dba_close_info env i st | POther \<Rightarrow> Some st)"

definition remove_pconnection_from_list :: "nat option \<Rightarrow> plist_entry \<Rightarrow> bool" where
  "remove_pconnection_from_list p e = (case e of PDba i \<Rightarrow> p = Some i | POther \<Rightarrow> False)"

fun remove_pconnections :: "('w, 's) dba_env \<Rightarrow> nat option \<Rightarrow> (string \<times> plist_entry) list \<Rightarrow> ('w, 's) dba_state \<Rightarrow> ('w, 's) dba_state option" where
  "remove_pconnections env p [] st = Some st"
| "remove_pconnections env p ((k, e) # es) st =
     (if remove_pconnection_from_list p e
      then Option.bind (close_pconnection env e (st\<lparr>persistent_list := hash_del k (persistent_list st)\<rparr>)) (remove_pconnections env p es)
      else remove_pconnections env p es st)"

definition dba_close :: "('w, 's) dba_env \<Rightarrow> nat \<Rightarrow> ('w, 's) dba_state \<Rightarrow> (php_value \<times> ('w, 's) dba_state) option" where
  "dba_close env ob st =
     (case objects st ob of
        None \<Rightarrow> None
      | Some c \<Rightarrow>
          (case c_info c of
             None \<Rightarrow> Some (PThrow ''DBA connection has already been closed'', st)
           | Some i \<Rightarrow>
               (case infos st i of
                  None \<Rightarrow> None
                | Some info \<Rightarrow>
                    Option.bind (dba_close_connection env ob st) (\<lambda>st1.
                      if i_flags info AND DBA_PERSISTENT \<noteq> 0
                      then map_option (Pair PNull)
                             (remove_pconnections env (Option.bind (objects st1 ob) c_info) (persistent_list st1) st1)
                      else Some (PNull, st1)))))"

section \<open>Opening\<close>

record open_args =
  a_path :: string
  a_mode :: string
  a_handler :: "string option"
  a_permission :: int
  a_map_size :: int
  a_driver_flags :: "int option" \<comment> \<open>\<^const>\<open>None\<close> when null, then \<^verbatim>\<open>DBA_DEFAULT_DRIVER_FLAGS\<close>\<close>

definition check_args :: "open_args \<Rightarrow> string option" where
  "check_args a =
     (if a_path a = [] then Some ''Argument #1 must not be empty''
      else if a_mode a = [] then Some ''Argument #2 must not be empty''
      else if a_handler a = Some [] then Some ''Argument #3 must not be empty''
      else if a_map_size a < 0 then Some ''Argument #5 must be greater than or equal to 0''
      else if (case a_driver_flags a of None \<Rightarrow> False | Some f \<Rightarrow> f < 0) then Some ''Argument #6 must be greater than or equal to 0''
      else None)"

definition resource_key :: "bool \<Rightarrow> u32 \<Rightarrow> open_args \<Rightarrow> string" where
  "resource_key persistent n a =
     ''dba_'' @ dec_nat (if persistent then 1 else 0) @ ''_'' @ dec_nat (if persistent then 0 else unat n) @ ''_'' @
     cstr (a_path a) @ ''_'' @ cstr (a_mode a) @ ''_'' @ (case a_handler a of None \<Rightarrow> [] | Some h \<Rightarrow> cstr h)"

text \<open>A persistent connection that is already open gets a further object.\<close>

definition reuse_persistent :: "string \<Rightarrow> nat \<Rightarrow> ('w, 's) dba_state \<Rightarrow> php_value \<times> ('w, 's) dba_state" where
  "reuse_persistent rk i st =
     (let ob = next_object st
      in (PConn ob, st\<lparr>objects := (objects st)(ob \<mapsto> \<lparr>c_info = Some i, c_hash = Some rk\<rparr>), next_object := Suc ob,
                      connections := hash_del rk (connections st) @ [(rk, ob)]\<rparr>))"

definition choose_handler :: "('w, 's) dba_env \<Rightarrow> string option \<Rightarrow> ('w, 's) dba_state \<Rightarrow> refusal + ('s, 's dbf) dba_handler" where
  "choose_handler env handler_str st =
     (case handler_str of
        None \<Rightarrow> (case default_hptr st of None \<Rightarrow> Inl (Returns_false ''No default handler selected'') | Some h \<Rightarrow> Inr h)
      | Some nm \<Rightarrow>
          (case find_handler (handler (env_ops env)) nm of
             None \<Rightarrow> Inl (Returns_false (''Handler \"'' @ cstr nm @ ''\" is not available''))
           | Some h \<Rightarrow> Inr h))"

definition new_info :: "bool \<Rightarrow> ('s, 's dbf) dba_handler \<Rightarrow> open_args \<Rightarrow> lock_choice \<Rightarrow> open_mode \<Rightarrow> 's dba_info" where
  "new_info persistent hptr a lc om =
     \<lparr>i_dbf = None, i_path = a_path a, i_mode = modenr om, i_fp = None, i_fd = 0, i_file_permission = a_permission a,
      i_map_size = a_map_size a, i_driver_flags = (case a_driver_flags a of None \<Rightarrow> -1 | Some f \<Rightarrow> f),
      i_flags = (h_flags hptr AND NOT DBA_LOCK_ALL) OR (lock_flag lc AND DBA_LOCK_ALL) OR (if persistent then DBA_PERSISTENT else 0),
      i_hnd = None, i_lock_fp = None, i_lock_mode = lock_mode om\<rparr>"

text \<open>The object and structure to work on: new ones, unless the key is in the table.\<close>

definition connection_for :: "string \<Rightarrow> 's dba_info \<Rightarrow> ('w, 's) dba_state \<Rightarrow> (bool \<times> nat \<times> nat \<times> ('w, 's) dba_state) option" where
  "connection_for rk info st =
     (case map_of (connections st) rk of
        None \<Rightarrow>
          let ob = next_object st; i = next_info st
          in Some (True, ob, i, put_info i info (st\<lparr>objects := (objects st)(ob \<mapsto> \<lparr>c_info = Some i, c_hash = Some rk\<rparr>),
                 next_object := Suc ob, next_info := Suc i\<rparr>))
      | Some ob \<Rightarrow> map_option (\<lambda>i. (False, ob, i, st)) (Option.bind (objects st ob) c_info))"

definition php_dba_find :: "string \<Rightarrow> ('w, 's) dba_state \<Rightarrow> 's dba_info option" where
  "php_dba_find path st =
     find (\<lambda>info. i_path info = path)
       (List.map_filter (\<lambda>(k, ob). Option.bind (Option.bind (objects st ob) c_info) (infos st)) (connections st))"

definition locks_conflict :: "u32 \<Rightarrow> u32 \<Rightarrow> bool" where
  "locks_conflict a b \<longleftrightarrow> a AND LOCK_EX \<noteq> 0 \<and> b AND (LOCK_EX OR LOCK_SH) \<noteq> 0 \<or> b AND LOCK_EX \<noteq> 0 \<and> a AND (LOCK_EX OR LOCK_SH) \<noteq> 0"

definition already_open :: "('s, 's dbf) dba_handler \<Rightarrow> open_mode \<Rightarrow> string \<Rightarrow> ('w, 's) dba_state \<Rightarrow> string option" where
  "already_open hptr om path st =
     (if h_flags hptr AND DBA_LOCK_ALL \<noteq> 0
      then (case php_dba_find path st of
              None \<Rightarrow> None
            | Some other \<Rightarrow> if locks_conflict (lock_mode om) (i_lock_mode other)
                then Some ''Unable to establish lock (database file already open)'' else None)
      else None)"

text \<open>Where the function stands after a part: it goes on, with an error text or without, or jumps to \<^verbatim>\<open>fail\<close>.\<close>

datatype progress = Go "string option" | Goto_fail

definition take_lock :: "('w, 's) dba_env \<Rightarrow> open_mode \<Rightarrow> nat \<Rightarrow> 'w \<Rightarrow> progress \<times> 'w" where
  "take_lock env om p w =
     (if \<not> env_supports_lock env p w then (Go (Some ''Stream does not support locking''), w)
      else (case env_lock env p (lock_mode om) w of (r, w1) \<Rightarrow>
              (Go (if r \<noteq> 0 then Some ''Unable to establish lock'' else None), w1)))"

definition open_lock :: "('w, 's) dba_env \<Rightarrow> bool \<Rightarrow> string \<Rightarrow> lock_choice \<Rightarrow> open_mode \<Rightarrow> 's dba_info \<Rightarrow> 'w \<Rightarrow> progress \<times> 's dba_info \<times> 'w" where
  "open_lock env persistent path lc om info w =
     (if lock_mode om = 0 then (Go None, info, w)
      else let db = is_db_lock lc; lock_name = (if db then path else i_path info @ ''.lck'');
               (fp1, w1) = (if \<not> db \<and> file_mode om = ''r''
                            then (case env_open env lock_name ''rb'' False persistent w of (r, w1) \<Rightarrow> (map_option fst r, w1))
                            else (i_lock_fp info, w))
           in case fp1 of
                Some p \<Rightarrow> (case take_lock env om p w1 of (pr, w2) \<Rightarrow> (pr, info\<lparr>i_lock_fp := Some p\<rparr>, w2))
              | None \<Rightarrow>
                  (case env_open env lock_name (if db then lock_file_mode om else ''a+b'') True persistent w1 of
                     (None, w2) \<Rightarrow> (Goto_fail, info\<lparr>i_lock_fp := None\<rparr>, w2)
                   | (Some (p, opened_path), w2) \<Rightarrow>
                       let info1 = info\<lparr>i_lock_fp := Some p\<rparr>
                       in if db \<and> opened_path = None then (Go (Some ''Unable to determine path for locking''), info1, w2)
                          else let info2 = (if db then info1\<lparr>i_path := the opened_path\<rparr> else info1)
                               in case take_lock env om p w2 of (pr, w3) \<Rightarrow> (pr, info2, w3)))"

text \<open>The stream of the database. The last component is the warning of a failed cast.\<close>

definition open_stream :: "('w, 's) dba_env \<Rightarrow> bool \<Rightarrow> ('s, 's dbf) dba_handler \<Rightarrow> lock_choice \<Rightarrow> open_mode \<Rightarrow> 's dba_info \<Rightarrow> 'w \<Rightarrow>
    progress \<times> 's dba_info \<times> 'w \<times> string option" where
  "open_stream env persistent hptr lc om info w =
     (if h_flags hptr AND DBA_STREAM_OPEN \<noteq> DBA_STREAM_OPEN then (Go None, info, w, None)
      else let (fp1, w1) = (if i_lock_fp info \<noteq> None \<and> is_db_lock lc then (i_lock_fp info, w)
                            else (case env_open env (i_path info) (file_mode om) True persistent w of (r, w1) \<Rightarrow> (map_option fst r, w1)));
               info1 = info\<lparr>i_fp := fp1\<rparr>
           in case fp1 of
                None \<Rightarrow> (Goto_fail, info1, w1, None)
              | Some p \<Rightarrow>
                  if h_flags hptr AND (DBA_NO_APPEND OR DBA_CAST_AS_FD) \<noteq> 0
                  then (case env_cast env p w1 of
                          (None, w2) \<Rightarrow> (Goto_fail, info1, w2, Some ''Could not cast stream'')
                        | (Some fd, w2) \<Rightarrow> (Go None, info1\<lparr>i_fd := fd\<rparr>, if modenr om = DBA_CREAT then env_no_append env fd w2 else w2, None))
                  else (Go None, info1, w1, None))"

definition open_failed :: "('w, 's) dba_env \<Rightarrow> bool \<Rightarrow> nat \<Rightarrow> nat \<Rightarrow> ('w, 's) dba_state \<Rightarrow> (php_value \<times> ('w, 's) dba_state) option" where
  "open_failed env fresh ob i st =
     map_option (\<lambda>st1. (PFalse, st1\<lparr>objects := (objects st1)(ob :=
         if fresh then None else map_option (\<lambda>c. c\<lparr>c_info := None\<rparr>) (objects st1 ob))\<rparr>))
       (dba_close_info env i st)"

definition driver_failed :: "('s, 's dbf) dba_handler \<Rightarrow> string option \<Rightarrow> string" where
  "driver_failed hptr error =
     ''Driver initialization failed for handler: '' @ h_name hptr @ (case error of None \<Rightarrow> [] | Some e \<Rightarrow> '': '' @ e)"

text \<open>The end of \<^verbatim>\<open>php_dba_open\<close>, after the handler has opened the database.\<close>

definition open_register :: "('w, 's) dba_env \<Rightarrow> bool \<Rightarrow> bool \<Rightarrow> string \<Rightarrow> nat \<Rightarrow> nat \<Rightarrow> ('w, 's) dba_state \<Rightarrow> (php_value \<times> ('w, 's) dba_state) option" where
  "open_register env persistent fresh rk ob i st =
     (if persistent \<and> \<not> env_register env rk
      then map_option (\<lambda>st1. (PFalse, if fresh then st1\<lparr>objects := (objects st1)(ob := None)\<rparr> else st1))
             (dba_close_connection env ob (warn ''Could not register persistent resource'' st))
      else Some (PConn ob, st\<lparr>persistent_list := (if persistent then hash_del rk (persistent_list st) @ [(rk, PDba i)] else persistent_list st),
                             connections := connections st @ [(rk, ob)]\<rparr>))"

definition open_driver :: "('w, 's) dba_env \<Rightarrow> bool \<Rightarrow> bool \<Rightarrow> string \<Rightarrow> ('s, 's dbf) dba_handler \<Rightarrow> nat \<Rightarrow> nat \<Rightarrow> 's dba_info \<Rightarrow>
    ('w, 's) dba_state \<Rightarrow> (php_value \<times> ('w, 's) dba_state) option" where
  "open_driver env persistent fresh rk hptr ob i info st =
     (case i_fp info of
        None \<Rightarrow> None
      | Some p \<Rightarrow>
          (case h_open hptr (i_mode info) (env_attach env p (world st)) of
             Inl error \<Rightarrow> open_failed env fresh ob i (warn (driver_failed hptr error) (put_info i info st))
           | Inr d \<Rightarrow> open_register env persistent fresh rk ob i
                (put_info i (info\<lparr>i_dbf := Some d, i_hnd := Some hptr\<rparr>) (st\<lparr>world := env_world env (dbf_stream d)\<rparr>))))"

text \<open>The middle of \<^verbatim>\<open>php_dba_open\<close>: from the check for conflicts to the handler's open function.\<close>

definition open_connection :: "('w, 's) dba_env \<Rightarrow> bool \<Rightarrow> open_args \<Rightarrow> string \<Rightarrow> ('s, 's dbf) dba_handler \<Rightarrow> lock_choice \<Rightarrow> open_mode \<Rightarrow>
    bool \<Rightarrow> nat \<Rightarrow> nat \<Rightarrow> 's dba_info \<Rightarrow> ('w, 's) dba_state \<Rightarrow> (php_value \<times> ('w, 's) dba_state) option" where
  "open_connection env persistent a rk hptr lc om fresh ob i info st =
     (case already_open hptr om (i_path info) st of
        Some e \<Rightarrow> open_failed env fresh ob i (warn (driver_failed hptr (Some e)) st)
      | None \<Rightarrow>
          (case open_lock env persistent (a_path a) lc om info (world st) of (pr1, info1, w1) \<Rightarrow>
            (case pr1 of
               Goto_fail \<Rightarrow> open_failed env fresh ob i (put_info i info1 (st\<lparr>world := w1\<rparr>))
             | Go (Some e) \<Rightarrow> open_failed env fresh ob i (warn (driver_failed hptr (Some e)) (put_info i info1 (st\<lparr>world := w1\<rparr>)))
             | Go None \<Rightarrow>
                 (case open_stream env persistent hptr lc om info1 w1 of (pr2, info2, w2, msg) \<Rightarrow>
                   (case pr2 of
                      Goto_fail \<Rightarrow> open_failed env fresh ob i
                        ((case msg of None \<Rightarrow> id | Some m \<Rightarrow> warn m) (put_info i info2 (st\<lparr>world := w2\<rparr>)))
                    | Go _ \<Rightarrow> open_driver env persistent fresh rk hptr ob i info2 (st\<lparr>world := w2\<rparr>))))))"

definition refuse :: "refusal \<Rightarrow> ('w, 's) dba_state \<Rightarrow> php_value \<times> ('w, 's) dba_state" where
  "refuse r st = (case r of Throws m \<Rightarrow> (PThrow m, st) | Returns_false m \<Rightarrow> (PFalse, warn m st))"

definition open_new :: "('w, 's) dba_env \<Rightarrow> bool \<Rightarrow> open_args \<Rightarrow> string \<Rightarrow> ('w, 's) dba_state \<Rightarrow> (php_value \<times> ('w, 's) dba_state) option" where
  "open_new env persistent a rk st =
     (case choose_handler env (a_handler a) st of
        Inl r \<Rightarrow> Some (refuse r st)
      | Inr hptr \<Rightarrow>
          (case parse_mode hptr (a_mode a) of
             Inl r \<Rightarrow> Some (refuse r st)
           | Inr (lc, om) \<Rightarrow>
               Option.bind (connection_for rk (new_info persistent hptr a lc om) (notice (lock_notice lc) st)) (\<lambda>(fresh, ob, i, st1).
               Option.bind (infos st1 i) (\<lambda>info.
                 open_connection env persistent a rk hptr lc om fresh ob i info st1))))"

definition php_dba_open :: "('w, 's) dba_env \<Rightarrow> bool \<Rightarrow> open_args \<Rightarrow> ('w, 's) dba_state \<Rightarrow> (php_value \<times> ('w, 's) dba_state) option" where
  "php_dba_open env persistent a st =
     (case check_args a of
        Some m \<Rightarrow> Some (PThrow m, st)
      | None \<Rightarrow>
          let rk = resource_key persistent (connection_counter st) a;
              st1 = (if persistent then st else st\<lparr>connection_counter := connection_counter st + 1\<rparr>)
          in if persistent
             then (case map_of (persistent_list st1) rk of
                     Some (PDba i) \<Rightarrow> Some (reuse_persistent rk i st1)
                   | Some POther \<Rightarrow> Some (PFalse, st1)
                   | None \<Rightarrow> open_new env persistent a rk st1)
             else open_new env persistent a rk st1)"

definition dba_popen :: "('w, 's) dba_env \<Rightarrow> open_args \<Rightarrow> ('w, 's) dba_state \<Rightarrow> (php_value \<times> ('w, 's) dba_state) option" where
  "dba_popen env a st = php_dba_open env True a st"

definition dba_open :: "('w, 's) dba_env \<Rightarrow> open_args \<Rightarrow> ('w, 's) dba_state \<Rightarrow> (php_value \<times> ('w, 's) dba_state) option" where
  "dba_open env a st = php_dba_open env False a st"

section \<open>The functions on a connection\<close>

text \<open>\<^verbatim>\<open>CHECK_DBA_CONNECTION\<close>, then the rest with the structure; \<^verbatim>\<open>DBA_WRITE_CHECK\<close>; a key.\<close>

definition CHECK_DBA_CONNECTION :: "nat \<Rightarrow> ('w, 's) dba_state \<Rightarrow> (nat \<Rightarrow> 's dba_info \<Rightarrow> (php_value \<times> ('w, 's) dba_state) option) \<Rightarrow>
    (php_value \<times> ('w, 's) dba_state) option" where
  "CHECK_DBA_CONNECTION ob st f =
     (case objects st ob of
        None \<Rightarrow> None
      | Some c \<Rightarrow>
          (case c_info c of
             None \<Rightarrow> Some (PThrow ''DBA connection has already been closed'', st)
           | Some i \<Rightarrow> Option.bind (infos st i) (f i)))"

definition DBA_WRITE_CHECK :: "'s dba_info \<Rightarrow> ('w, 's) dba_state \<Rightarrow> (php_value \<times> ('w, 's) dba_state) option \<Rightarrow>
    (php_value \<times> ('w, 's) dba_state) option" where
  "DBA_WRITE_CHECK info st r =
     (if i_mode info \<noteq> DBA_WRITER \<and> i_mode info \<noteq> DBA_TRUNC \<and> i_mode info \<noteq> DBA_CREAT
      then Some (PFalse, warn ''Cannot perform a modification on a readonly database'' st) else r)"

definition with_key :: "key_arg \<Rightarrow> ('w, 's) dba_state \<Rightarrow> (bytes \<Rightarrow> (php_value \<times> ('w, 's) dba_state) option) \<Rightarrow>
    (php_value \<times> ('w, 's) dba_state) option" where
  "with_key ka st f = (case key_str ka of Inl m \<Rightarrow> Some (PThrow m, st) | Inr k \<Rightarrow> f k)"

definition bool_of_status :: "int \<Rightarrow> php_value" where
  "bool_of_status r = (if r = 0 then PTrue else PFalse)"

definition php_string :: "dba_value \<Rightarrow> php_value" where
  "php_string v = (case v of NullVal \<Rightarrow> PFalse | Val s \<Rightarrow> PStr s | Overrun \<Rightarrow> Garbage)"

definition php_dba_update :: "('w, 's) dba_env \<Rightarrow> key_arg \<Rightarrow> bytes \<Rightarrow> nat \<Rightarrow> bool \<Rightarrow> ('w, 's) dba_state \<Rightarrow> (php_value \<times> ('w, 's) dba_state) option" where
  "php_dba_update env ka v ob mode st =
     CHECK_DBA_CONNECTION ob st (\<lambda>i info. DBA_WRITE_CHECK info st (with_key ka st (\<lambda>k.
       map_option (map_prod bool_of_status id) (call env i (\<lambda>h d. h_update h d k v mode) st))))"

definition dba_insert :: "('w, 's) dba_env \<Rightarrow> key_arg \<Rightarrow> bytes \<Rightarrow> nat \<Rightarrow> ('w, 's) dba_state \<Rightarrow> (php_value \<times> ('w, 's) dba_state) option" where
  "dba_insert env ka v ob st = php_dba_update env ka v ob True st"

definition dba_replace :: "('w, 's) dba_env \<Rightarrow> key_arg \<Rightarrow> bytes \<Rightarrow> nat \<Rightarrow> ('w, 's) dba_state \<Rightarrow> (php_value \<times> ('w, 's) dba_state) option" where
  "dba_replace env ka v ob st = php_dba_update env ka v ob False st"

definition dba_exists :: "('w, 's) dba_env \<Rightarrow> key_arg \<Rightarrow> nat \<Rightarrow> ('w, 's) dba_state \<Rightarrow> (php_value \<times> ('w, 's) dba_state) option" where
  "dba_exists env ka ob st =
     CHECK_DBA_CONNECTION ob st (\<lambda>i info. with_key ka st (\<lambda>k.
       map_option (map_prod bool_of_status id) (call env i (\<lambda>h d. h_exists h d k) st)))"

text \<open>\<^verbatim>\<open>dba_fetch\<close>, after the arguments are sorted out.\<close>

definition dba_fetch :: "('w, 's) dba_env \<Rightarrow> key_arg \<Rightarrow> int \<Rightarrow> nat \<Rightarrow> ('w, 's) dba_state \<Rightarrow> (php_value \<times> ('w, 's) dba_state) option" where
  "dba_fetch env ka skip ob st =
     (if skip < - (2 ^ 31) \<or> 2 ^ 31 - 1 < skip then Some (PThrow ''must be between -2147483648 and 2147483647'', st)
      else CHECK_DBA_CONNECTION ob st (\<lambda>i info. with_key ka st (\<lambda>k.
        Option.bind (i_hnd info) (\<lambda>h.
          let (skip1, msg) = fetch_skip (h_name h) skip
          in map_option (map_prod php_string id) (call env i (\<lambda>h d. h_fetch h d k skip1) (notice msg st))))))"

definition dba_firstkey :: "('w, 's) dba_env \<Rightarrow> nat \<Rightarrow> ('w, 's) dba_state \<Rightarrow> (php_value \<times> ('w, 's) dba_state) option" where
  "dba_firstkey env ob st =
     CHECK_DBA_CONNECTION ob st (\<lambda>i info. map_option (map_prod php_string id) (call env i h_firstkey st))"

definition dba_nextkey :: "('w, 's) dba_env \<Rightarrow> nat \<Rightarrow> ('w, 's) dba_state \<Rightarrow> (php_value \<times> ('w, 's) dba_state) option" where
  "dba_nextkey env ob st =
     CHECK_DBA_CONNECTION ob st (\<lambda>i info. map_option (map_prod php_string id) (call env i h_nextkey st))"

definition dba_delete :: "('w, 's) dba_env \<Rightarrow> key_arg \<Rightarrow> nat \<Rightarrow> ('w, 's) dba_state \<Rightarrow> (php_value \<times> ('w, 's) dba_state) option" where
  "dba_delete env ka ob st =
     CHECK_DBA_CONNECTION ob st (\<lambda>i info. DBA_WRITE_CHECK info st (with_key ka st (\<lambda>k.
       map_option (map_prod bool_of_status id) (call env i (\<lambda>h d. h_delete h d k) st))))"

definition dba_optimize :: "('w, 's) dba_env \<Rightarrow> nat \<Rightarrow> ('w, 's) dba_state \<Rightarrow> (php_value \<times> ('w, 's) dba_state) option" where
  "dba_optimize env ob st =
     CHECK_DBA_CONNECTION ob st (\<lambda>i info. DBA_WRITE_CHECK info st (
       map_option (map_prod bool_of_status id) (call env i (\<lambda>h d. Some (h_optimize h d, d)) st)))"

definition dba_sync :: "('w, 's) dba_env \<Rightarrow> nat \<Rightarrow> ('w, 's) dba_state \<Rightarrow> (php_value \<times> ('w, 's) dba_state) option" where
  "dba_sync env ob st =
     CHECK_DBA_CONNECTION ob st (\<lambda>i info.
       map_option (map_prod bool_of_status id) (call env i (\<lambda>h d. Some (h_sync h d, d)) st))"

text \<open>\<^verbatim>\<open>dba_handlers(false)\<close>, \<^verbatim>\<open>dba_handlers(true)\<close> and \<^verbatim>\<open>dba_list\<close>: the arrays they return.\<close>

definition dba_handlers :: "('w, 's) dba_env \<Rightarrow> string list" where
  "dba_handlers env = map h_name (handler (env_ops env))"

definition dba_handlers_full :: "('w, 's) dba_env \<Rightarrow> (string \<times> string) list" where
  "dba_handlers_full env = map (\<lambda>h. (h_name h, h_info h)) (handler (env_ops env))"

definition dba_list :: "('w, 's) dba_state \<Rightarrow> (nat \<times> string) list" where
  "dba_list st =
     List.map_filter (\<lambda>(k, ob). map_option (\<lambda>info. (ob, i_path info)) (Option.bind (Option.bind (objects st ob) c_info) (infos st)))
       (connections st)"

end
