(* ===== verification/DbaInvariant.thy ===== *)
theory DbaInvariant
  imports DbaDispatch
begin

text \<open>
  What holds of the dispatcher's data at every moment a script can see: pointers lead to live
  structures, every structure has a handler of the table and private data of that handler's type,
  structures are shared only by objects of one persistent connection, and the table of connections holds
  one entry per key, each for an object that is open under that key. The functions are then the steps of a
  transition system, and the invariant holds in every reachable state.
\<close>

section \<open>The invariant\<close>

definition owns :: "('s, 's dbf) dba_handler \<Rightarrow> 's dbf \<Rightarrow> bool" where
  "owns h d = (case d of CdbD _ \<Rightarrow> h_name h \<in> {''cdb'', ''cdb_make''} | IniD _ \<Rightarrow> h_name h = ''inifile'' | FlatD _ \<Rightarrow> h_name h = ''flatfile'')"

definition info_ok :: "('w, 's) dba_env \<Rightarrow> 's dba_info \<Rightarrow> bool" where
  "info_ok env info \<longleftrightarrow> (\<exists>h d. i_hnd info = Some h \<and> h \<in> set (handler (env_ops env)) \<and> i_dbf info = Some d \<and> owns h d)"

definition is_persistent :: "'s dba_info \<Rightarrow> bool" where
  "is_persistent info \<longleftrightarrow> i_flags info AND DBA_PERSISTENT \<noteq> 0"

definition infos_ok :: "('w, 's) dba_env \<Rightarrow> ('w, 's) dba_state \<Rightarrow> bool" where
  "infos_ok env st \<longleftrightarrow> (\<forall>i info. infos st i = Some info \<longrightarrow> i < next_info st \<and> info_ok env info)"

definition objects_ok :: "('w, 's) dba_state \<Rightarrow> bool" where
  "objects_ok st \<longleftrightarrow> (\<forall>ob c. objects st ob = Some c \<longrightarrow> ob < next_object st \<and> (\<forall>i. c_info c = Some i \<longrightarrow> infos st i \<noteq> None))"

definition sharing_ok :: "('w, 's) dba_state \<Rightarrow> bool" where
  "sharing_ok st \<longleftrightarrow> (\<forall>ob ob' c c' i info. objects st ob = Some c \<longrightarrow> objects st ob' = Some c' \<longrightarrow> c_info c = Some i \<longrightarrow>
     c_info c' = Some i \<longrightarrow> infos st i = Some info \<longrightarrow> ob \<noteq> ob' \<longrightarrow> is_persistent info)"

definition connections_ok :: "('w, 's) dba_state \<Rightarrow> bool" where
  "connections_ok st \<longleftrightarrow> distinct (map fst (connections st)) \<and>
     (\<forall>k ob. (k, ob) \<in> set (connections st) \<longrightarrow> (\<exists>c. objects st ob = Some c \<and> c_hash c = Some k \<and> c_info c \<noteq> None))"

definition plist_ok :: "('w, 's) dba_state \<Rightarrow> bool" where
  "plist_ok st \<longleftrightarrow> (\<forall>k i. (k, PDba i) \<in> set (persistent_list st) \<longrightarrow> (\<exists>info. infos st i = Some info \<and> is_persistent info))"

definition known_key :: "('w, 's) dba_state \<Rightarrow> string \<Rightarrow> bool" where
  "known_key st k \<longleftrightarrow> k \<in> fst ` set (persistent_list st) \<and> (\<exists>n a. k = resource_key True n a) \<or>
     (\<exists>n a. n < unat (connection_counter st) \<and> k = resource_key False (word_of_nat n) a)"

definition keys_ok :: "('w, 's) dba_state \<Rightarrow> bool" where
  "keys_ok st \<longleftrightarrow> (\<forall>k \<in> fst ` set (connections st). known_key st k)"

definition default_ok :: "('w, 's) dba_env \<Rightarrow> ('w, 's) dba_state \<Rightarrow> bool" where
  "default_ok env st \<longleftrightarrow> (\<forall>h. default_hptr st = Some h \<longrightarrow> h \<in> set (handler (env_ops env)))"

definition dba_wf :: "('w, 's) dba_env \<Rightarrow> ('w, 's) dba_state \<Rightarrow> bool" where
  "dba_wf env st \<longleftrightarrow> infos_ok env st \<and> objects_ok st \<and> sharing_ok st \<and> connections_ok st \<and> plist_ok st \<and> keys_ok st \<and> default_ok env st"

lemmas wf_defs = dba_wf_def infos_ok_def objects_ok_def sharing_ok_def connections_ok_def plist_ok_def keys_ok_def default_ok_def

lemma wf_listed:
  "dba_wf env st \<Longrightarrow> (k, ob) \<in> set (connections st) \<Longrightarrow> \<exists>c. objects st ob = Some c \<and> c_hash c = Some k \<and> c_info c \<noteq> None"
  unfolding dba_wf_def connections_ok_def by blast

lemma wf_info: "dba_wf env st \<Longrightarrow> infos st i = Some info \<Longrightarrow> i < next_info st \<and> info_ok env info"
  unfolding dba_wf_def infos_ok_def by blast

lemma wf_plist:
  "dba_wf env st \<Longrightarrow> (k, PDba i) \<in> set (persistent_list st) \<Longrightarrow> \<exists>info. infos st i = Some info \<and> is_persistent info"
  unfolding dba_wf_def plist_ok_def by blast

lemma wf_object:
  "dba_wf env st \<Longrightarrow> objects st ob = Some c \<Longrightarrow> ob < next_object st \<and> (\<forall>i. c_info c = Some i \<longrightarrow> infos st i \<noteq> None)"
  unfolding dba_wf_def objects_ok_def by blast

lemma wf_key: "dba_wf env st \<Longrightarrow> k \<in> fst ` set (connections st) \<Longrightarrow> known_key st k"
  unfolding dba_wf_def keys_ok_def by blast

lemma known_key_simps [simp]:
  "known_key (st\<lparr>world := w\<rparr>) = known_key st" "known_key (st\<lparr>infos := f\<rparr>) = known_key st" "known_key (st\<lparr>objects := g\<rparr>) = known_key st"
  "known_key (st\<lparr>diags := ds\<rparr>) = known_key st" "known_key (st\<lparr>default_hptr := h\<rparr>) = known_key st"
  "known_key (st\<lparr>default_handler := nm\<rparr>) = known_key st"
  by (simp_all add: known_key_def fun_eq_iff)

lemma known_key_mono:
  "known_key st k \<Longrightarrow> fst ` set (persistent_list st) \<subseteq> fst ` set (persistent_list st') \<Longrightarrow>
     unat (connection_counter st) \<le> unat (connection_counter st') \<Longrightarrow> known_key st' k"
  unfolding known_key_def by (blast intro: order_less_le_trans)

section \<open>Handlers keep to their own data\<close>

lemma owns_set_stream [simp]: "owns h (set_stream s d) = owns h d"
  by (simp add: owns_def set_stream_def split: dbf.split)

lemma owns_current [simp]: "owns h (current env w d) = owns h d"
  by (simp add: current_def)

lemma owns_on:
  "on_cdb f d = Some (r, d') \<Longrightarrow> owns h d \<Longrightarrow> owns h d'"
  "on_ini g d = Some (r', d') \<Longrightarrow> owns h d \<Longrightarrow> owns h d'"
  "on_flat q d = Some (r'', d') \<Longrightarrow> owns h d \<Longrightarrow> owns h d'"
  by (auto simp: on_cdb_def on_ini_def on_flat_def owns_def split: dbf.splits)

lemmas handler_defs = handler_def hnd_cdb_def hnd_inifile_def hnd_flatfile_def

definition keeps_type :: "('w, 's) dba_env \<Rightarrow> (('s, 's dbf) dba_handler \<Rightarrow> 's dbf \<Rightarrow> ('a \<times> 's dbf) option) \<Rightarrow> bool" where
  "keeps_type env f \<longleftrightarrow> (\<forall>h d r d'. h \<in> set (handler (env_ops env)) \<longrightarrow> owns h d \<longrightarrow> f h d = Some (r, d') \<longrightarrow> owns h d')"

lemma keeps_type_ops:
  "keeps_type env (\<lambda>h d. h_update h d k v m)" "keeps_type env (\<lambda>h d. h_exists h d k)"
  "keeps_type env (\<lambda>h d. h_fetch h d k skip)" "keeps_type env (\<lambda>h d. h_delete h d k)"
  "keeps_type env h_firstkey" "keeps_type env h_nextkey"
  "keeps_type env (\<lambda>h d. Some (h_optimize h d, d))" "keeps_type env (\<lambda>h d. Some (h_sync h d, d))"
  by (auto simp: keeps_type_def handler_defs dest: owns_on)

lemma map_sum_eq_Inr: "map_sum f g x = Inr y \<longleftrightarrow> (\<exists>z. x = Inr z \<and> y = g z)"
  by (cases x) auto

lemma owns_open: "h \<in> set (handler ops) \<Longrightarrow> h_open h m s = Inr d \<Longrightarrow> owns h d"
  by (auto simp: handler_defs owns_def map_sum_eq_Inr split: option.splits)

section \<open>Changes that keep the invariant\<close>

lemma wf_simps [simp]:
  "dba_wf env (st\<lparr>world := w\<rparr>) = dba_wf env st" "dba_wf env (st\<lparr>diags := ds\<rparr>) = dba_wf env st"
  "dba_wf env (warn m st) = dba_wf env st" "dba_wf env (notice n st) = dba_wf env st"
  by (simp_all add: wf_defs warn_def notice_def split: option.split)

lemma notice_frame: "connections (notice n st) = connections st" "connection_counter (notice n st) = connection_counter st"
  by (simp_all add: notice_def split: option.split)

lemma wf_put_info:
  assumes "dba_wf env st" "infos st i = Some old" "info_ok env info" "i_flags info = i_flags old"
  shows "dba_wf env (put_info i info st)"
proof -
  let ?st = "put_info i info st"
  note wf = assms(1) [unfolded dba_wf_def]
  have pers: "is_persistent info = is_persistent old" using assms(4) by (simp add: is_persistent_def)
  have "infos_ok env ?st" using wf assms(2,3) by (auto simp: infos_ok_def put_info_def)
  moreover have "objects_ok ?st" using wf by (auto simp: objects_ok_def put_info_def)
  moreover have "sharing_ok ?st" using wf assms(2) pers unfolding sharing_ok_def put_info_def by (auto split: if_splits)
  moreover have "connections_ok ?st" "keys_ok ?st" "default_ok env ?st"
    using wf by (simp_all add: connections_ok_def keys_ok_def default_ok_def put_info_def)
  moreover have "plist_ok ?st" using wf assms(2) pers unfolding plist_ok_def put_info_def by fastforce
  ultimately show ?thesis by (simp add: dba_wf_def)
qed

lemma wf_call:
  assumes wf: "dba_wf env st" and c: "call env i f st = Some (r, st')" and f: "keeps_type env f"
  shows "dba_wf env st'"
proof -
  obtain info h d d1 where i: "infos st i = Some info" "i_hnd info = Some h" "i_dbf info = Some d"
      "f h (current env (world st) d) = Some (r, d1)"
      "st' = put_info i (info\<lparr>i_dbf := Some d1\<rparr>) (st\<lparr>world := env_world env (dbf_stream d1)\<rparr>)"
    using c by (auto simp: call_def split: option.splits)
  have "info_ok env info" using wf_info [OF wf i(1)] by simp
  then have h: "h \<in> set (handler (env_ops env))" "owns h d" using i(2,3) by (simp_all add: info_ok_def)
  have "owns h (current env (world st) d)" using h(2) by simp
  with f i(4) h(1) have "owns h d1" unfolding keeps_type_def by blast
  then have "info_ok env (info\<lparr>i_dbf := Some d1\<rparr>)" using h(1) i(2) by (simp add: info_ok_def)
  then show ?thesis unfolding i(5) using wf i(1) by (intro wf_put_info [where old = info]) auto
qed

lemma hash_del_facts [simp]:
  "fst ` set (hash_del k xs) = fst ` set xs - {k}" "set (hash_del k xs) \<subseteq> set xs"
  "distinct (map fst xs) \<Longrightarrow> distinct (map fst (hash_del k xs))"
  "(k', x) \<in> set (hash_del k xs) \<longleftrightarrow> k' \<noteq> k \<and> (k', x) \<in> set xs"
  by (auto simp: hash_del_def distinct_map_filter)

text \<open>What closing a connection does to the state.\<close>

lemma close_connection_form:
  assumes "dba_close_connection env ob st = Some st'"
  obtains cn i info w f where "objects st ob = Some cn" "c_info cn = Some i" "infos st i = Some info"
    "f = infos st \<or> \<not> is_persistent info \<and> f = (infos st)(i := None)"
    "st' = st\<lparr>world := w, infos := f, objects := (objects st)(ob \<mapsto> \<lparr>c_info = None, c_hash = None\<rparr>),
       connections := (case c_hash cn of None \<Rightarrow> connections st | Some h \<Rightarrow> hash_del h (connections st))\<rparr>"
proof -
  obtain cn i info where cn: "objects st ob = Some cn" "c_info cn = Some i" "infos st i = Some info"
    using assms by (auto simp: dba_close_connection_def split: option.splits)
  obtain st1 where st1: "(if i_flags info AND DBA_PERSISTENT = 0 then dba_close_info env i st else Some st) = Some st1"
      "st' = forget ob cn st1"
    using assms cn by (auto simp: dba_close_connection_def split: option.splits)
  have "\<exists>w f. st1 = st\<lparr>world := w, infos := f\<rparr> \<and> (f = infos st \<or> \<not> is_persistent info \<and> f = (infos st)(i := None))"
  proof (cases "is_persistent info")
    case True
    then show ?thesis using st1(1) by (intro exI [of _ "world st"] exI [of _ "infos st"]) (simp add: is_persistent_def)
  next
    case False
    then show ?thesis using st1(1) cn(3) by (auto simp: is_persistent_def dba_close_info_def)
  qed
  then obtain w f where "st1 = st\<lparr>world := w, infos := f\<rparr>" "f = infos st \<or> \<not> is_persistent info \<and> f = (infos st)(i := None)"
    by blast
  then show thesis using cn st1(2) by (intro that [of cn i info f w]) (simp_all add: forget_def split: option.split)
qed

lemma close_connection_table:
  assumes wf: "dba_wf env st" and c: "dba_close_connection env ob st = Some st'"
  shows "persistent_list st' = persistent_list st" "objects st' = (objects st)(ob \<mapsto> \<lparr>c_info = None, c_hash = None\<rparr>)"
    "set (connections st') \<subseteq> set (connections st)" "ob \<notin> snd ` set (connections st')" "distinct (map fst (connections st'))"
proof -
  obtain cn i info w f where cn: "objects st ob = Some cn"
    "st' = st\<lparr>world := w, infos := f, objects := (objects st)(ob \<mapsto> \<lparr>c_info = None, c_hash = None\<rparr>),
       connections := (case c_hash cn of None \<Rightarrow> connections st | Some h \<Rightarrow> hash_del h (connections st))\<rparr>"
    by (rule close_connection_form [OF c]) blast
  show "persistent_list st' = persistent_list st" "objects st' = (objects st)(ob \<mapsto> \<lparr>c_info = None, c_hash = None\<rparr>)"
    "set (connections st') \<subseteq> set (connections st)"
    unfolding cn(2) by (auto split: option.split)
  show "distinct (map fst (connections st'))"
    using wf unfolding cn(2) dba_wf_def connections_ok_def by (simp split: option.split)
  show "ob \<notin> snd ` set (connections st')"
  proof
    assume "ob \<in> snd ` set (connections st')"
    then obtain k where k: "(k, ob) \<in> set (connections st')" by auto
    then have "(k, ob) \<in> set (connections st)" unfolding cn(2) by (auto split: option.splits)
    then have "c_hash cn = Some k" using wf_listed [OF wf, of k ob] cn(1) by auto
    then show False using k unfolding cn(2) by simp
  qed
qed

lemma wf_close_connection:
  assumes wf: "dba_wf env st" and c: "dba_close_connection env ob st = Some st'"
  shows "dba_wf env st'"
proof -
  obtain cn i info w f where cn: "objects st ob = Some cn" "c_info cn = Some i" "infos st i = Some info"
    "f = infos st \<or> \<not> is_persistent info \<and> f = (infos st)(i := None)"
    "st' = st\<lparr>world := w, infos := f, objects := (objects st)(ob \<mapsto> \<lparr>c_info = None, c_hash = None\<rparr>),
       connections := (case c_hash cn of None \<Rightarrow> connections st | Some h \<Rightarrow> hash_del h (connections st))\<rparr>"
    by (rule close_connection_form [OF c]) blast
  note wf' = wf [unfolded dba_wf_def] and tab = close_connection_table [OF wf c]
  have inf: "infos st' = f" unfolding cn(5) by simp
  have frame: "next_info st' = next_info st" "next_object st' = next_object st" "connection_counter st' = connection_counter st"
      "default_hptr st' = default_hptr st" unfolding cn(5) by simp_all
  have oth: "f i' = infos st i'" if "objects st ob' = Some c'" "c_info c' = Some i'" "ob' \<noteq> ob" for ob' c' i'
    using wf' that cn(1-4) by (auto simp: sharing_ok_def)
  have sub: "f i' = Some x \<Longrightarrow> infos st i' = Some x" for i' x using cn(4) by (auto split: if_splits)
  have "infos_ok env st'" using wf_info [OF wf] sub frame by (auto simp: infos_ok_def inf)
  moreover have "objects_ok st'" using wf_object [OF wf] oth frame cn(1) by (auto simp: objects_ok_def tab(2) inf)
  moreover have "sharing_ok st'" using wf' sub unfolding sharing_ok_def tab(2) inf by (auto split: if_splits)
  moreover have "connections_ok st'"
  proof -
    have "\<exists>c. objects st' ob' = Some c \<and> c_hash c = Some k \<and> c_info c \<noteq> None" if "(k, ob') \<in> set (connections st')" for k ob'
    proof -
      have "ob' \<noteq> ob" using tab(4) that by force
      moreover have "(k, ob') \<in> set (connections st)" using that tab(3) by blast
      ultimately show ?thesis using wf_listed [OF wf, of k ob'] tab(2) by simp
    qed
    then show ?thesis using tab(5) by (simp add: connections_ok_def)
  qed
  moreover have "plist_ok st'" using wf_plist [OF wf] cn(3,4) unfolding plist_ok_def tab(1) inf by fastforce
  moreover have "keys_ok st'" unfolding keys_ok_def
    using image_mono [OF tab(3), of fst] tab(1) frame(3) by (auto intro!: known_key_mono [OF wf_key [OF wf]])
  moreover have "default_ok env st'" using wf' frame by (simp add: default_ok_def)
  ultimately show ?thesis by (simp add: dba_wf_def)
qed

text \<open>The rest of closing.\<close>

lemma wf_forget_object:
  assumes "dba_wf env st" "objects st ob = Some c" "ob \<notin> snd ` set (connections st)"
  shows "dba_wf env (st\<lparr>objects := (objects st)(ob := None)\<rparr>)"
  using assms unfolding wf_defs by (auto simp: image_iff)

lemma closed_not_listed: "dba_wf env st \<Longrightarrow> objects st ob = Some c \<Longrightarrow> c_info c = None \<Longrightarrow> ob \<notin> snd ` set (connections st)"
  by (auto dest: wf_listed)

lemma wf_free_obj:
  assumes wf: "dba_wf env st" and c: "dba_connection_free_obj env ob st = Some st'"
  shows "dba_wf env st'"
proof -
  obtain cn st1 where cn: "objects st ob = Some cn" "(if c_info cn = None then Some st else dba_close_connection env ob st) = Some st1"
      "st' = st1\<lparr>objects := (objects st1)(ob := None)\<rparr>"
    using c by (auto simp: dba_connection_free_obj_def split: option.splits)
  show ?thesis
  proof (cases "c_info cn = None")
    case True
    then show ?thesis using cn wf wf_forget_object closed_not_listed by fastforce
  next
    case False
    then have cl: "dba_close_connection env ob st = Some st1" using cn(2) by (simp only: if_False)
    note w = close_connection_table [OF wf cl]
    show ?thesis unfolding cn(3) using w(2,4) by (intro wf_forget_object [OF wf_close_connection [OF wf cl]]) auto
  qed
qed

text \<open>Because the pointer is cleared first, closing a persistent connection removes nothing from the list.\<close>

lemma remove_pconnections_None: "remove_pconnections env None es st = Some st"
  by (induction es) (auto simp: remove_pconnection_from_list_def split: plist_entry.split)

lemma dba_close_cases:
  assumes "dba_close env ob st = Some (r, st')"
  obtains c where "objects st ob = Some c" "c_info c = None" "st' = st" "r = PThrow ''DBA connection has already been closed''"
  | c i where "objects st ob = Some c" "c_info c = Some i" "dba_close_connection env ob st = Some st'" "r = PNull"
proof -
  obtain c where c: "objects st ob = Some c" using assms by (auto simp: dba_close_def split: option.splits)
  show thesis
  proof (cases "c_info c")
    case None
    then show ?thesis using assms c by (intro that(1) [of c]) (simp_all add: dba_close_def)
  next
    case (Some i)
    then obtain info st1 where i: "infos st i = Some info" "dba_close_connection env ob st = Some st1"
      using assms c by (auto simp: dba_close_def bind_eq_Some_conv split: option.splits)
    have "objects st1 ob = Some \<lparr>c_info = None, c_hash = None\<rparr>"
      using i c Some by (auto simp: dba_close_connection_def forget_def)
    then have "r = PNull \<and> st' = st1"
      using assms c Some i by (simp add: dba_close_def remove_pconnections_None split: if_splits)
    then show ?thesis using that(2) c Some i by simp
  qed
qed

lemma wf_dba_close: "dba_wf env st \<Longrightarrow> dba_close env ob st = Some (r, st') \<Longrightarrow> dba_wf env st'"
  by (erule dba_close_cases) (auto dest: wf_close_connection)

section \<open>Keys of the table\<close>

lemma dec_nat_sep:
  assumes "dec_nat n @ CHR ''_'' # r = dec_nat m @ CHR ''_'' # r'" shows "n = m"
proof -
  have "read_dec 0 (dec_nat n @ CHR ''_'' # r) = n" "read_dec 0 (dec_nat m @ CHR ''_'' # r') = m"
    by (simp_all add: read_dec_dec_nat digit_val_def)
  then show ?thesis using assms by simp
qed

lemma resource_key_counter: "resource_key False n a = resource_key False m b \<Longrightarrow> n = m"
  by (auto simp: resource_key_def dest!: dec_nat_sep intro: word_unat_eq_iff [THEN iffD2])

lemma resource_key_kind [simp]: "resource_key True n a \<noteq> resource_key False m b" "resource_key False m b \<noteq> resource_key True n a"
  using dec_nat_sep [of 1 _ 0] dec_nat_sep [of 0 _ 1] by (auto simp: resource_key_def)

section \<open>Opening\<close>

text \<open>What the parts of \<^verbatim>\<open>php_dba_open\<close> leave as it is in the new structure.\<close>

definition same_core :: "'s dba_info \<Rightarrow> 's dba_info \<Rightarrow> bool" where
  "same_core a b \<longleftrightarrow> i_flags a = i_flags b \<and> i_lock_mode a = i_lock_mode b \<and> i_mode a = i_mode b \<and> i_hnd a = i_hnd b \<and> i_dbf a = i_dbf b"

lemma open_lock_core: "open_lock env pers path lc om info w = (pr, info1, w1) \<Longrightarrow> same_core info1 info"
  by (auto simp: open_lock_def same_core_def Let_def split: if_splits prod.splits option.splits)

lemma open_stream_core: "open_stream env pers h lc om info w = (pr, info1, w1, m) \<Longrightarrow> same_core info1 info \<and> i_path info1 = i_path info"
  by (auto simp: open_stream_def same_core_def Let_def split: if_splits prod.splits option.splits)

lemma open_stream_no_error: "open_stream env pers h lc om info w = (Go e, info1, w1, m) \<Longrightarrow> e = None"
  by (auto simp: open_stream_def Let_def split: if_splits prod.splits option.splits)

text \<open>States that differ from one another in the world, the diagnostics and one structure.\<close>

definition touched :: "nat \<Rightarrow> ('w, 's) dba_state \<Rightarrow> ('w, 's) dba_state \<Rightarrow> bool" where
  "touched i st st1 \<longleftrightarrow> (\<exists>w ds x. st1 = st\<lparr>world := w, infos := (infos st)(i := x), diags := ds\<rparr>)"

lemma touchedI: "st1 = st\<lparr>world := w, infos := (infos st)(i := x), diags := ds\<rparr> \<Longrightarrow> touched i st st1"
  unfolding touched_def by blast

lemma touched_refl [intro, simp]: "touched i st st"
  by (rule touchedI [where w = "world st" and x = "infos st i" and ds = "diags st"]) simp

lemma touched_steps [intro, simp]:
  assumes "touched i st st1"
  shows "touched i st (st1\<lparr>world := w\<rparr>)" "touched i st (warn m st1)" "touched i st (put_info i info st1)"
proof -
  obtain w0 ds x where st1: "st1 = st\<lparr>world := w0, infos := (infos st)(i := x), diags := ds\<rparr>"
    using assms by (auto simp: touched_def)
  show "touched i st (st1\<lparr>world := w\<rparr>)" unfolding st1 by (rule touchedI [where w = w and x = x and ds = ds]) simp
  show "touched i st (warn m st1)" unfolding st1 by (rule touchedI [where w = w0 and x = x and ds = "ds @ [Warning m]"]) (simp add: warn_def)
  show "touched i st (put_info i info st1)" unfolding st1 by (rule touchedI [where w = w0 and x = "Some info" and ds = ds]) (simp add: put_info_def)
qed

lemma touched_frame:
  "touched i st st1 \<Longrightarrow> objects st1 = objects st \<and> connections st1 = connections st \<and> persistent_list st1 = persistent_list st \<and>
     next_info st1 = next_info st \<and> next_object st1 = next_object st \<and> connection_counter st1 = connection_counter st \<and>
     default_hptr st1 = default_hptr st \<and> (\<forall>j. j \<noteq> i \<longrightarrow> infos st1 j = infos st j)"
  by (auto simp: touched_def)

lemma touched_infos: "touched i st st1 \<Longrightarrow> infos st1 = (infos st)(i := infos st1 i)"
  by (auto simp: touched_def)

lemma infos_simps [simp]: "infos (warn m st) = infos st" "infos (put_info i info st) = (infos st)(i \<mapsto> info)"
  by (simp_all add: warn_def put_info_def)

text \<open>How the call ends: undone, registered in the table, or refused by the list of persistent resources.\<close>

definition undone :: "nat \<Rightarrow> nat \<Rightarrow> ('w, 's) dba_state \<Rightarrow> php_value \<times> ('w, 's) dba_state \<Rightarrow> bool" where
  "undone ob i st r \<longleftrightarrow> fst r = PFalse \<and> (\<exists>st1. touched i st st1 \<and> infos st1 i = None \<and> snd r = st1\<lparr>objects := (objects st1)(ob := None)\<rparr>)"

definition registered :: "bool \<Rightarrow> string \<Rightarrow> nat \<Rightarrow> nat \<Rightarrow> 's dba_info \<Rightarrow> ('w, 's) dba_state \<Rightarrow> php_value \<times> ('w, 's) dba_state \<Rightarrow> bool" where
  "registered pers rk ob i info st r \<longleftrightarrow> fst r = PConn ob \<and> (\<exists>st1. touched i st st1 \<and> infos st1 i = Some info \<and>
     snd r = st1\<lparr>persistent_list := (if pers then hash_del rk (persistent_list st) @ [(rk, PDba i)] else persistent_list st),
                 connections := connections st @ [(rk, ob)]\<rparr>)"

definition unregistered :: "('w, 's) dba_env \<Rightarrow> nat \<Rightarrow> nat \<Rightarrow> 's dba_info \<Rightarrow> ('w, 's) dba_state \<Rightarrow> php_value \<times> ('w, 's) dba_state \<Rightarrow> bool" where
  "unregistered env ob i info st r \<longleftrightarrow> fst r = PFalse \<and> (\<exists>st1 st2. touched i st st1 \<and> infos st1 i = Some info \<and>
     dba_close_connection env ob st1 = Some st2 \<and> snd r = st2\<lparr>objects := (objects st2)(ob := None)\<rparr>)"

lemma open_failed_undone:
  assumes "open_failed env True ob i st1 = Some r" "touched i st st1" "infos st1 i = Some info" "i_hnd info = None"
  shows "undone ob i st r"
proof -
  let ?st2 = "st1\<lparr>world := free_streams env info (world st1), infos := (infos st1)(i := None)\<rparr>"
  have r: "r = (PFalse, ?st2\<lparr>objects := (objects ?st2)(ob := None)\<rparr>)"
    using assms(1,3,4) by (auto simp: open_failed_def dba_close_info_def)
  obtain w0 ds x where st1: "st1 = st\<lparr>world := w0, infos := (infos st)(i := x), diags := ds\<rparr>"
    using assms(2) by (auto simp: touched_def)
  have "touched i st ?st2" unfolding st1
    by (rule touchedI [where w = "free_streams env info w0" and x = None and ds = ds]) simp
  then show ?thesis unfolding undone_def r by (intro conjI exI [of _ ?st2]) simp_all
qed

lemma open_driver_ends:
  assumes "open_driver env pers True rk h ob i info st1 = Some r" "touched i st st1" "i_hnd info = None"
    and "h \<in> set (handler (env_ops env))" "is_persistent info = pers"
  shows "undone ob i st r \<or> (\<exists>d. info_ok env (info\<lparr>i_dbf := Some d, i_hnd := Some h\<rparr>) \<and>
    (registered pers rk ob i (info\<lparr>i_dbf := Some d, i_hnd := Some h\<rparr>) st r \<or>
     pers \<and> unregistered env ob i (info\<lparr>i_dbf := Some d, i_hnd := Some h\<rparr>) st r))"
proof -
  obtain p where p: "i_fp info = Some p" using assms(1) by (auto simp: open_driver_def split: option.splits)
  show ?thesis
  proof (cases "h_open h (i_mode info) (env_attach env p (world st1))")
    case (Inl e)
    then have "open_failed env True ob i (warn (driver_failed h e) (put_info i info st1)) = Some r"
      using assms(1) p by (simp add: open_driver_def)
    then have "undone ob i st r"
      by (rule open_failed_undone [where info = info]) (use assms(2,3) in auto)
    then show ?thesis ..
  next
    case (Inr d)
    let ?info = "info\<lparr>i_dbf := Some d, i_hnd := Some h\<rparr>"
    let ?st = "put_info i ?info (st1\<lparr>world := env_world env (dbf_stream d)\<rparr>)"
    have reg: "open_register env pers True rk ob i ?st = Some r" using assms(1) p Inr by (simp add: open_driver_def)
    have ok: "info_ok env ?info" using owns_open [OF assms(4) Inr] assms(4) by (simp add: info_ok_def)
    have t: "touched i st ?st" "infos ?st i = Some ?info" using assms(2) by auto
    note fr = touched_frame [OF t(1)]
    have "registered pers rk ob i ?info st r \<or> pers \<and> unregistered env ob i ?info st r"
    proof (cases "pers \<and> \<not> env_register env rk")
      case True
      let ?warned = "warn ''Could not register persistent resource'' ?st"
      obtain st2 where "dba_close_connection env ob ?warned = Some st2" "r = (PFalse, st2\<lparr>objects := (objects st2)(ob := None)\<rparr>)"
        using reg True by (auto simp: open_register_def)
      then show ?thesis using t True unfolding unregistered_def by (intro disjI2 conjI exI [of _ ?warned] exI [of _ st2]) simp_all
    next
      case False
      then have "r = (PConn ob, ?st\<lparr>persistent_list := (if pers then hash_del rk (persistent_list ?st) @ [(rk, PDba i)] else persistent_list ?st),
          connections := connections ?st @ [(rk, ob)]\<rparr>)"
        using reg by (auto simp: open_register_def)
      then show ?thesis using t fr unfolding registered_def by (intro disjI1 conjI exI [of _ ?st]) simp_all
    qed
    then show ?thesis using ok by blast
  qed
qed

lemma open_connection_ends:
  assumes res: "open_connection env pers a rk h lc om True ob i info st = Some r"
    and st: "infos st i = Some info" "i_hnd info = None" and h: "h \<in> set (handler (env_ops env))" "is_persistent info = pers"
  obtains (undone) "undone ob i st r"
  | (kept) info1 info' w1 where "already_open h om (i_path info) st = None" "info_ok env info'"
      "open_lock env pers (a_path a) lc om info (world st) = (Go None, info1, w1)" "i_path info' = i_path info1"
      "i_flags info' = i_flags info" "i_lock_mode info' = i_lock_mode info" "i_mode info' = i_mode info"
      "registered pers rk ob i info' st r \<or> pers \<and> unregistered env ob i info' st r"
proof (cases "already_open h om (i_path info) st")
  case (Some e)
  then have "open_failed env True ob i (warn (driver_failed h (Some e)) st) = Some r" using res by (simp add: open_connection_def)
  then show ?thesis by (intro undone) (erule open_failed_undone [where info = info], use st in auto)
next
  case None
  obtain pr1 info1 w1 where lock: "open_lock env pers (a_path a) lc om info (world st) = (pr1, info1, w1)" by (rule prod_cases3)
  have core1: "same_core info1 info" using open_lock_core [OF lock] .
  then have hnd1: "i_hnd info1 = None" using st(2) by (simp add: same_core_def)
  have t1: "touched i st (put_info i info1 (st\<lparr>world := w1\<rparr>))" by simp
  show ?thesis
  proof (cases "pr1 = Go None")
    case False
    then have "open_failed env True ob i (put_info i info1 (st\<lparr>world := w1\<rparr>)) = Some r \<or>
        (\<exists>t. open_failed env True ob i (warn t (put_info i info1 (st\<lparr>world := w1\<rparr>))) = Some r)"
      using res None lock by (cases pr1) (auto simp: open_connection_def split: option.splits)
    then show ?thesis
      by (intro undone) (elim disjE exE; erule open_failed_undone [where info = info1], use t1 hnd1 in auto)
  next
    case True
    obtain pr2 info2 w2 msg where str: "open_stream env pers h lc om info1 w1 = (pr2, info2, w2, msg)" by (rule prod_cases4)
    have core2: "same_core info2 info" "i_path info2 = i_path info1"
      using open_stream_core [OF str] core1 by (simp_all add: same_core_def)
    then have hnd2: "i_hnd info2 = None" "is_persistent info2 = pers"
      using st(2) h(2) by (simp_all add: same_core_def is_persistent_def)
    show ?thesis
    proof (cases pr2)
      case Goto_fail
      then have "open_failed env True ob i (put_info i info2 (st\<lparr>world := w2\<rparr>)) = Some r \<or>
          (\<exists>t. open_failed env True ob i (warn t (put_info i info2 (st\<lparr>world := w2\<rparr>))) = Some r)"
        using res None lock True str by (cases msg) (auto simp: open_connection_def)
      then show ?thesis
        by (intro undone) (elim disjE exE; erule open_failed_undone [where info = info2], use hnd2 in auto)
    next
      case (Go e)
      then have "open_driver env pers True rk h ob i info2 (st\<lparr>world := w2\<rparr>) = Some r"
        using res None lock True str by (simp add: open_connection_def)
      from open_driver_ends [OF this _ hnd2(1) h(1) hnd2(2), of st]
      consider "undone ob i st r" | d where "info_ok env (info2\<lparr>i_dbf := Some d, i_hnd := Some h\<rparr>)"
          "registered pers rk ob i (info2\<lparr>i_dbf := Some d, i_hnd := Some h\<rparr>) st r \<or>
           pers \<and> unregistered env ob i (info2\<lparr>i_dbf := Some d, i_hnd := Some h\<rparr>) st r"
        by auto
      then show ?thesis
      proof cases
        case 1
        then show ?thesis by (rule undone)
      next
        case 2
        then show ?thesis
          using core2 by (intro kept [OF None 2(1) lock [unfolded True]]) (simp_all add: same_core_def)
      qed
    qed
  qed
qed

text \<open>The state before the rest of the call: a new structure and a new object for it.\<close>

definition allocated :: "string \<Rightarrow> 's dba_info \<Rightarrow> ('w, 's) dba_state \<Rightarrow> ('w, 's) dba_state" where
  "allocated rk info st = put_info (next_info st) info
     (st\<lparr>objects := (objects st)(next_object st \<mapsto> \<lparr>c_info = Some (next_info st), c_hash = Some rk\<rparr>),
         next_object := Suc (next_object st), next_info := Suc (next_info st)\<rparr>)"

lemma wf_fresh:
  assumes "dba_wf env st"
  shows "objects st (next_object st) = None" "infos st (next_info st) = None"
    "(k, PDba (next_info st)) \<notin> set (persistent_list st)" "(k, next_object st) \<notin> set (connections st)"
    "objects st ob = Some c \<Longrightarrow> c_info c \<noteq> Some (next_info st)"
proof -
  show "objects st (next_object st) = None" "infos st (next_info st) = None"
    using wf_object [OF assms] wf_info [OF assms] by (metis less_irrefl option.exhaust)+
  then show "(k, PDba (next_info st)) \<notin> set (persistent_list st)" "(k, next_object st) \<notin> set (connections st)"
    "objects st ob = Some c \<Longrightarrow> c_info c \<noteq> Some (next_info st)"
    using wf_plist [OF assms, of k "next_info st"] wf_listed [OF assms, of k "next_object st"] wf_object [OF assms, of ob c] by auto
qed

lemma wf_undone:
  assumes "dba_wf env st" "undone (next_object st) (next_info st) (allocated rk info st) r"
  shows "dba_wf env (snd r)"
proof -
  let ?i = "next_info st" and ?ob = "next_object st"
  obtain st1 where st1: "touched ?i (allocated rk info st) st1" "infos st1 ?i = None" "snd r = st1\<lparr>objects := (objects st1)(?ob := None)\<rparr>"
    using assms(2) by (auto simp: undone_def)
  note fr = touched_frame [OF st1(1)] touched_infos [OF st1(1)] and new = wf_fresh [OF assms(1)]
  have same: "infos (snd r) = infos st" "objects (snd r) = objects st" "connections (snd r) = connections st"
      "persistent_list (snd r) = persistent_list st" "connection_counter (snd r) = connection_counter st"
      "default_hptr (snd r) = default_hptr st" "next_info (snd r) = Suc ?i" "next_object (snd r) = Suc ?ob"
    using fr st1(2,3) new(1,2) by (simp_all add: allocated_def put_info_def fun_upd_idem)
  have "known_key (snd r) = known_key st" by (simp add: known_key_def same fun_eq_iff)
  with assms(1) show ?thesis unfolding wf_defs same by (auto simp: less_Suc_eq)
qed

lemma wf_allocated:
  assumes wf: "dba_wf env st" and ok: "info_ok env info'" "infos st1 (next_info st) = Some info'"
    and t: "touched (next_info st) (allocated rk info st) st1"
  shows "dba_wf env st1" "objects st1 (next_object st) = Some \<lparr>c_info = Some (next_info st), c_hash = Some rk\<rparr>"
    "connections st1 = connections st" "persistent_list st1 = persistent_list st" "connection_counter st1 = connection_counter st"
proof -
  let ?i = "next_info st" and ?ob = "next_object st"
  note fr = touched_frame [OF t] touched_infos [OF t] and new = wf_fresh [OF wf] and wf' = wf [unfolded dba_wf_def]
  have s: "infos st1 = (infos st)(?i \<mapsto> info')" "objects st1 = (objects st)(?ob \<mapsto> \<lparr>c_info = Some ?i, c_hash = Some rk\<rparr>)"
      "connections st1 = connections st" "persistent_list st1 = persistent_list st" "connection_counter st1 = connection_counter st"
      "default_hptr st1 = default_hptr st" "next_info st1 = Suc ?i" "next_object st1 = Suc ?ob"
    using fr ok(2) by (simp_all add: allocated_def put_info_def)
  have "infos_ok env st1" using wf' ok(1) unfolding infos_ok_def s by (auto simp: less_Suc_eq)
  moreover have "objects_ok st1" using wf' unfolding objects_ok_def s by (auto simp: less_Suc_eq)
  moreover have "sharing_ok st1" using wf' new(5) unfolding sharing_ok_def s by (auto split: if_splits)
  moreover have "connections_ok st1"
    using wf' new(4) wf_listed [OF wf] unfolding connections_ok_def s by auto
  moreover have "plist_ok st1" using wf' new(3) unfolding plist_ok_def s by fastforce
  moreover have "keys_ok st1" unfolding keys_ok_def s(3) using s(4,5) by (auto intro!: known_key_mono [OF wf_key [OF wf]])
  moreover have "default_ok env st1" using wf' unfolding default_ok_def s by simp
  ultimately show "dba_wf env st1" by (simp add: dba_wf_def)
  show "objects st1 ?ob = Some \<lparr>c_info = Some ?i, c_hash = Some rk\<rparr>" "connections st1 = connections st"
    "persistent_list st1 = persistent_list st" "connection_counter st1 = connection_counter st"
    by (simp_all add: s)
qed

text \<open>The key of a new entry belongs to this call.\<close>

definition new_key :: "bool \<Rightarrow> string \<Rightarrow> ('w, 's) dba_state \<Rightarrow> bool" where
  "new_key pers rk st \<longleftrightarrow> rk \<notin> fst ` set (connections st) \<and>
     (if pers then \<exists>n a. rk = resource_key True n a
      else \<exists>n a. n < unat (connection_counter st) \<and> rk = resource_key False (word_of_nat n) a)"

lemma wf_registered:
  assumes wf: "dba_wf env st" and ok: "info_ok env info'" "is_persistent info' = pers" and key: "new_key pers rk st"
    and reg: "registered pers rk (next_object st) (next_info st) info' (allocated rk info st) r"
  shows "dba_wf env (snd r)"
proof -
  obtain st1 where st1: "touched (next_info st) (allocated rk info st) st1" "infos st1 (next_info st) = Some info'"
      "snd r = st1\<lparr>persistent_list := (if pers then hash_del rk (persistent_list st) @ [(rk, PDba (next_info st))] else persistent_list st),
        connections := connections st @ [(rk, next_object st)]\<rparr>"
    using reg by (auto simp: registered_def allocated_def put_info_def)
  note al = wf_allocated [OF wf ok(1) st1(2,1)] and wf1 = wf_allocated(1) [OF wf ok(1) st1(2,1), unfolded dba_wf_def]
  have "infos_ok env (snd r)" "objects_ok (snd r)" "sharing_ok (snd r)" "default_ok env (snd r)"
    using wf1 unfolding st1(3) infos_ok_def objects_ok_def sharing_ok_def default_ok_def by simp_all
  moreover have "connections_ok (snd r)"
    using wf1 key al(2,3) unfolding st1(3) connections_ok_def new_key_def by auto
  moreover have "plist_ok (snd r)"
    using wf1 ok(2) st1(2) al(4) unfolding st1(3) plist_ok_def by auto
  moreover have "keys_ok (snd r)"
  proof -
    have "known_key (snd r) rk" using key al(5) unfolding st1(3) new_key_def known_key_def by (cases pers) auto
    moreover have "known_key (snd r) k" if "k \<in> fst ` set (connections st)" for k
      by (rule known_key_mono [OF wf_key [OF wf that]]) (use al(5) in \<open>auto simp: st1(3)\<close>)
    ultimately show ?thesis unfolding keys_ok_def st1(3) by simp
  qed
  ultimately show ?thesis by (simp add: dba_wf_def)
qed

lemma wf_unregistered:
  assumes wf: "dba_wf env st" and ok: "info_ok env info'"
    and un: "unregistered env (next_object st) (next_info st) info' (allocated rk info st) r"
  shows "dba_wf env (snd r)"
proof -
  obtain st1 st2 where st1: "touched (next_info st) (allocated rk info st) st1" "infos st1 (next_info st) = Some info'"
      "dba_close_connection env (next_object st) st1 = Some st2" "snd r = st2\<lparr>objects := (objects st2)(next_object st := None)\<rparr>"
    using un by (auto simp: unregistered_def)
  note wf1 = wf_allocated(1) [OF wf ok st1(2,1)]
  note cl = close_connection_table [OF wf1 st1(3)]
  show ?thesis unfolding st1(4) using cl(2,4) by (intro wf_forget_object [OF wf_close_connection [OF wf1 st1(3)]]) auto
qed

text \<open>How a call that opens a new connection ends.\<close>

lemma open_new_ends:
  assumes wf: "dba_wf env st" and key: "new_key pers rk st" and res: "open_new env pers a rk st = Some r"
  obtains (refused) x where "r = refuse x st"
  | (undone) n info where "undone (next_object (notice n st)) (next_info (notice n st)) (allocated rk info (notice n st)) r"
  | (kept) h lc om n info info1 w1 info' where "h \<in> set (handler (env_ops env))" "parse_mode h (a_mode a) = Inr (lc, om)"
      "info = new_info pers h a lc om" "already_open h om (a_path a) (allocated rk info (notice n st)) = None"
      "open_lock env pers (a_path a) lc om info (world st) = (Go None, info1, w1)" "i_path info' = i_path info1"
      "info_ok env info'" "is_persistent info' = pers" "i_lock_mode info' = lock_mode om" "i_mode info' = modenr om"
      "registered pers rk (next_object (notice n st)) (next_info (notice n st)) info' (allocated rk info (notice n st)) r \<or>
       pers \<and> unregistered env (next_object (notice n st)) (next_info (notice n st)) info' (allocated rk info (notice n st)) r"
proof (cases "choose_handler env (a_handler a) st")
  case (Inl x)
  then show ?thesis using res by (intro refused [of x]) (simp add: open_new_def)
next
  case (Inr h)
  have h: "h \<in> set (handler (env_ops env))"
    using Inr wf by (auto simp: choose_handler_def find_handler_def dba_wf_def default_ok_def find_Some_iff split: option.splits)
  show ?thesis
  proof (cases "parse_mode h (a_mode a)")
    case Inl': (Inl x)
    then show ?thesis using res Inr by (intro refused [of x]) (simp add: open_new_def)
  next
    case Inr': (Inr lo)
    obtain lc om where lo: "lo = (lc, om)" by (cases lo)
    define st0 where "st0 = notice (lock_notice lc) st"
    define info :: "'b dba_info" where "info = new_info pers h a lc om"
    have pers: "is_persistent info = pers" using handler_flags(3) [OF h]
      by (simp add: is_persistent_def info_def new_info_def dba_flag_defs bit.conj_disj_distrib2 and.assoc)
    have "map_of (connections st0) rk = None"
      using key unfolding new_key_def st0_def notice_frame map_of_eq_None_iff by blast
    then have oc: "open_connection env pers a rk h lc om True (next_object st0) (next_info st0) info (allocated rk info st0) = Some r"
      using res Inr Inr' lo by (simp add: open_new_def connection_for_def st0_def info_def allocated_def Let_def)
    have al: "infos (allocated rk info st0) (next_info st0) = Some info" "i_hnd info = None" "i_path info = a_path a"
        "i_lock_mode info = lock_mode om" "i_mode info = modenr om" "world (allocated rk info st0) = world st"
      by (simp_all add: allocated_def info_def new_info_def put_info_def st0_def notice_def split: option.split)
    show ?thesis
    proof (cases rule: open_connection_ends [OF oc al(1,2) h pers])
      case 1
      then show ?thesis unfolding st0_def by (rule undone)
    next
      case (2 info1 info' w1)
      show ?thesis
        by (rule kept [of h lc om info "lock_notice lc" info1 w1 info'])
          (use h Inr' lo 2 al pers in \<open>simp_all add: info_def [symmetric] st0_def is_persistent_def\<close>)
    qed
  qed
qed

lemma wf_open_new:
  assumes wf: "dba_wf env st" and key: "new_key pers rk st" and res: "open_new env pers a rk st = Some r"
  shows "dba_wf env (snd r)"
  using assms
proof (cases rule: open_new_ends)
  case (refused x)
  then show ?thesis using wf by (cases x) (simp_all add: refuse_def)
next
  case (undone n info)
  then show ?thesis using wf_undone wf by (metis wf_simps(4))
next
  case (kept h lc om n info info1 w1 info')
  have "new_key pers rk (notice n st)" using key unfolding new_key_def notice_frame .
  then show ?thesis using kept(7,8,11) wf wf_registered wf_unregistered by (metis wf_simps(4))
qed

lemma wf_reuse_persistent:
  assumes wf: "dba_wf env st" and i: "(resource_key True n a, PDba i) \<in> set (persistent_list st)"
  shows "dba_wf env (snd (reuse_persistent (resource_key True n a) i st))"
proof -
  let ?st = "snd (reuse_persistent (resource_key True n a) i st)" and ?rk = "resource_key True n a"
  obtain info where info: "infos st i = Some info" "is_persistent info" using wf_plist [OF wf i] by blast
  note wf' = wf [unfolded dba_wf_def] and new = wf_fresh [OF wf]
  have s: "infos ?st = infos st" "objects ?st = (objects st)(next_object st \<mapsto> \<lparr>c_info = Some i, c_hash = Some ?rk\<rparr>)"
      "connections ?st = hash_del ?rk (connections st) @ [(?rk, next_object st)]" "persistent_list ?st = persistent_list st"
      "connection_counter ?st = connection_counter st" "default_hptr ?st = default_hptr st" "next_info ?st = next_info st"
      "next_object ?st = Suc (next_object st)"
    by (simp_all add: reuse_persistent_def Let_def)
  have "infos_ok env ?st" "default_ok env ?st" "plist_ok ?st"
    using wf' unfolding infos_ok_def default_ok_def plist_ok_def s by simp_all
  moreover have "objects_ok ?st" using wf_object [OF wf] info unfolding objects_ok_def s by (auto simp: less_Suc_eq)
  moreover have "sharing_ok ?st" using wf' info unfolding sharing_ok_def s by (auto split: if_splits)
  moreover have "connections_ok ?st"
    using wf' new(4) wf_listed [OF wf] unfolding connections_ok_def s by auto
  moreover have "keys_ok ?st"
  proof -
    have rk: "known_key ?st ?rk" using i unfolding known_key_def s(4) by force
    have old: "known_key ?st k" if "k \<in> fst ` set (connections st)" for k
      by (rule known_key_mono [OF wf_key [OF wf that]]) (simp_all add: s)
    show ?thesis unfolding keys_ok_def
    proof
      fix k assume "k \<in> fst ` set (connections ?st)"
      then have "k = ?rk \<or> k \<in> fst ` set (connections st)" unfolding s by (auto simp: hash_del_def)
      then show "known_key ?st k" using rk old by metis
    qed
  qed
  ultimately show ?thesis by (simp add: dba_wf_def)
qed

lemma unat_Suc_u32: "(c :: u32) + 1 \<noteq> 0 \<Longrightarrow> unat (c + 1) = Suc (unat c)"
proof -
  assume "c + 1 \<noteq> 0"
  then have "unat (c + 1) \<noteq> 0" by (simp add: unat_eq_0)
  moreover have "unat (c + 1) = Suc (unat c) mod 4294967296" by (simp add: unat_word_ariths)
  ultimately show ?thesis using unat_u32_less [of c] by (cases "Suc (unat c) = 4294967296") simp_all
qed

text \<open>The counter of connections must not have gone round: then keys are new.\<close>

lemma open_key_new:
  assumes wf: "dba_wf env st" and c: "connection_counter st + 1 \<noteq> 0"
  defines "st1 \<equiv> st\<lparr>connection_counter := connection_counter st + 1\<rparr>"
  shows "dba_wf env st1" "new_key False (resource_key False (connection_counter st) a) st1"
proof -
  let ?c = "connection_counter st"
  let ?rk = "resource_key False ?c a"
  have c: "unat (?c + 1) = Suc (unat ?c)" using c by (rule unat_Suc_u32)
  have "keys_ok st1" unfolding keys_ok_def st1_def using c by (auto intro!: known_key_mono [OF wf_key [OF wf]])
  then show "dba_wf env st1" using wf unfolding wf_defs st1_def by simp
  have "?rk \<noteq> resource_key False (word_of_nat n) b" if "n < unat ?c" for n b
  proof
    assume "?rk = resource_key False (word_of_nat n) b"
    then have "?c = word_of_nat n" using resource_key_counter by simp
    moreover have "unat (word_of_nat n :: u32) = n" using that unat_u32_less [of ?c] by (intro unat_of_nat_u32) linarith
    ultimately show False using that by simp
  qed
  then have "\<not> known_key st ?rk" by (auto simp: known_key_def)
  then have "?rk \<notin> fst ` set (connections st1)" using wf_key [OF wf, of ?rk] unfolding st1_def by auto
  moreover have "unat ?c < unat (connection_counter st1)" "?rk = resource_key False (word_of_nat (unat ?c)) a"
    using c by (simp_all add: st1_def)
  ultimately show "new_key False ?rk st1" unfolding new_key_def if_False by blast
qed

lemma php_dba_open_cases:
  assumes "php_dba_open env pers a st = Some r"
  obtains (thrown) m where "r = (PThrow m, st)"
  | (new) "\<not> pers" "open_new env False a (resource_key False (connection_counter st) a) (st\<lparr>connection_counter := connection_counter st + 1\<rparr>) = Some r"
      "a_mode a \<noteq> []"
  | (shared) n i where "pers" "(resource_key True n a, PDba i) \<in> set (persistent_list st)" "r = reuse_persistent (resource_key True n a) i st"
  | (foreign) "pers" "r = (PFalse, st)"
  | (new_persistent) n where "pers" "resource_key True n a \<notin> fst ` set (persistent_list st)" "open_new env True a (resource_key True n a) st = Some r"
proof (cases "check_args a")
  case (Some m)
  then show ?thesis using assms by (intro thrown [of m]) (simp add: php_dba_open_def)
next
  case None
  then have mode: "a_mode a \<noteq> []" by (auto simp: check_args_def split: if_splits)
  show ?thesis
  proof (cases pers)
    case False
    then show ?thesis using assms None mode by (intro new) (simp_all add: php_dba_open_def Let_def)
  next
    case True
    let ?rk = "resource_key True (connection_counter st) a"
    show ?thesis
    proof (cases "map_of (persistent_list st) ?rk")
      case none: None
      then have "?rk \<notin> fst ` set (persistent_list st)" by (simp add: map_of_eq_None_iff)
      then show ?thesis using assms None True none
        by (intro new_persistent [of "connection_counter st"]) (simp_all add: php_dba_open_def Let_def)
    next
      case (Some e)
      then show ?thesis using assms None True map_of_SomeD [OF Some] shared [of "connection_counter st"] foreign
        by (cases e) (auto simp: php_dba_open_def Let_def)
    qed
  qed
qed

lemma wf_open:
  assumes wf: "dba_wf env st" and res: "php_dba_open env pers a st = Some r"
    and fresh: "pers \<or> connection_counter st + 1 \<noteq> 0"
  shows "dba_wf env (snd r)"
  using res
proof (cases rule: php_dba_open_cases)
  case new
  then show ?thesis using wf_open_new [OF open_key_new [OF wf]] fresh by blast
next
  case (shared n i)
  then show ?thesis using wf_reuse_persistent [OF wf] by simp
next
  case (new_persistent n)
  have "new_key True (resource_key True n a) st"
    using wf_key [OF wf, of "resource_key True n a"] new_persistent(2) unfolding new_key_def known_key_def by auto
  from wf_open_new [OF wf this new_persistent(3)] show ?thesis .
qed (use wf in simp_all)

section \<open>The other functions\<close>

lemma wf_check:
  assumes "CHECK_DBA_CONNECTION ob st f = Some r" "dba_wf env st"
    and "\<And>i info r. infos st i = Some info \<Longrightarrow> f i info = Some r \<Longrightarrow> dba_wf env (snd r)"
  shows "dba_wf env (snd r)"
  using assms(1,2) by (auto simp: CHECK_DBA_CONNECTION_def bind_eq_Some_conv split: option.splits intro: assms(3))

lemma wf_write_check:
  "DBA_WRITE_CHECK info st x = Some r \<Longrightarrow> dba_wf env st \<Longrightarrow> (\<And>r. x = Some r \<Longrightarrow> dba_wf env (snd r)) \<Longrightarrow> dba_wf env (snd r)"
  by (auto simp: DBA_WRITE_CHECK_def split: if_splits)

lemma wf_with_key:
  "with_key ka st f = Some r \<Longrightarrow> dba_wf env st \<Longrightarrow> (\<And>k r. f k = Some r \<Longrightarrow> dba_wf env (snd r)) \<Longrightarrow> dba_wf env (snd r)"
  by (auto simp: with_key_def split: sum.splits)

lemma wf_mapped_call:
  "map_option (map_prod g id) (call env i f st) = Some r \<Longrightarrow> dba_wf env st \<Longrightarrow> keeps_type env f \<Longrightarrow> dba_wf env (snd r)"
  by (auto dest: wf_call)

lemmas wf_parts = wf_check wf_write_check wf_with_key wf_mapped_call

lemma wf_functions:
  assumes "dba_wf env st"
  shows "php_dba_update env ka v ob m st = Some r \<Longrightarrow> dba_wf env (snd r)" "dba_exists env ka ob st = Some r \<Longrightarrow> dba_wf env (snd r)"
    "dba_delete env ka ob st = Some r \<Longrightarrow> dba_wf env (snd r)" "dba_firstkey env ob st = Some r \<Longrightarrow> dba_wf env (snd r)"
    "dba_nextkey env ob st = Some r \<Longrightarrow> dba_wf env (snd r)" "dba_optimize env ob st = Some r \<Longrightarrow> dba_wf env (snd r)"
    "dba_sync env ob st = Some r \<Longrightarrow> dba_wf env (snd r)"
  unfolding php_dba_update_def dba_exists_def dba_delete_def dba_firstkey_def dba_nextkey_def dba_optimize_def dba_sync_def
  by (erule wf_parts [OF _ assms] wf_mapped_call [OF _ assms keeps_type_ops(1)] wf_mapped_call [OF _ assms keeps_type_ops(2)]
      wf_mapped_call [OF _ assms keeps_type_ops(4)] wf_mapped_call [OF _ assms keeps_type_ops(5)] wf_mapped_call [OF _ assms keeps_type_ops(6)]
      wf_mapped_call [OF _ assms keeps_type_ops(7)] wf_mapped_call [OF _ assms keeps_type_ops(8)])+

lemma wf_fetch:
  assumes "dba_wf env st" "dba_fetch env ka skip ob st = Some r" shows "dba_wf env (snd r)"
proof (cases "skip < - (2 ^ 31) \<or> 2 ^ 31 - 1 < skip")
  case True
  then show ?thesis using assms by (auto simp: dba_fetch_def)
next
  case False
  have inner: "dba_wf env (snd r)" if res: "Option.bind (i_hnd info) (\<lambda>h. let (skip1, msg) = fetch_skip (h_name h) skip
      in map_option (map_prod php_string id) (call env i (\<lambda>h d. h_fetch h d k skip1) (notice msg st))) = Some r" for i info k r
  proof -
    obtain h where "i_hnd info = Some h" "(case fetch_skip (h_name h) skip of (skip1, msg) \<Rightarrow>
        map_option (map_prod php_string id) (call env i (\<lambda>h d. h_fetch h d k skip1) (notice msg st))) = Some r"
      using res unfolding bind_eq_Some_conv Let_def by blast
    then show ?thesis
      by (cases "fetch_skip (h_name h) skip") (simp only: prod.case wf_mapped_call [OF _ _ keeps_type_ops(3)] wf_simps assms(1))
  qed
  show ?thesis using assms(2) unfolding dba_fetch_def if_not_P [OF False]
    by (elim wf_check [OF _ assms(1)] wf_with_key [OF _ assms(1)] inner)
qed

lemma wf_ini: "dba_wf env st \<Longrightarrow> dba_wf env (snd (OnUpdateDefaultHandler env nm st))"
  by (auto simp: OnUpdateDefaultHandler_def find_handler_def find_Some_iff wf_defs warn_def split: option.splits)

lemma wf_start: "dba_wf env (dba_minit env w)"
proof -
  have "dba_wf env (dba_ginit w)" by (simp add: wf_defs dba_ginit_def)
  then show ?thesis by (simp add: dba_minit_def wf_ini)
qed

end
