(* ===== verification/DbaLocks.thy ===== *)
theory DbaLocks
  imports DbaInvariant
begin

text \<open>
  The dispatcher as a transition system: a script calls its functions in any order, the engine frees
  objects, and other code changes files and the list of persistent resources. Every reachable state
  satisfies the invariant. The second part is about the check for conflicting locks: what it achieves
  for connections that lock, and how connections that do not, or that persist, get round it.
\<close>

section \<open>Calls and reachable states\<close>

datatype dba_call =
    Open bool open_args | Close nat | Free nat | Update key_arg bytes nat bool | Exists key_arg nat | FetchKey key_arg int nat
  | FirstKey nat | NextKey nat | DeleteKey key_arg nat | Optimize nat | Sync nat | SetDefault string

definition run_call :: "('w, 's) dba_env \<Rightarrow> dba_call \<Rightarrow> ('w, 's) dba_state \<Rightarrow> (php_value \<times> ('w, 's) dba_state) option" where
  "run_call env c st =
     (case c of
        Open pers a \<Rightarrow> if pers then dba_popen env a st else dba_open env a st
      | Close ob \<Rightarrow> dba_close env ob st
      | Free ob \<Rightarrow> map_option (Pair PNull) (dba_connection_free_obj env ob st)
      | Update ka v ob ins \<Rightarrow> if ins then dba_insert env ka v ob st else dba_replace env ka v ob st
      | Exists ka ob \<Rightarrow> dba_exists env ka ob st
      | FetchKey ka skip ob \<Rightarrow> dba_fetch env ka skip ob st
      | FirstKey ob \<Rightarrow> dba_firstkey env ob st
      | NextKey ob \<Rightarrow> dba_nextkey env ob st
      | DeleteKey ka ob \<Rightarrow> dba_delete env ka ob st
      | Optimize ob \<Rightarrow> dba_optimize env ob st
      | Sync ob \<Rightarrow> dba_sync env ob st
      | SetDefault nm \<Rightarrow> (case OnUpdateDefaultHandler env nm st of (ok, st1) \<Rightarrow> Some (if ok then PTrue else PFalse, st1)))"

text \<open>The counter of connections has 32 bits; calls are followed until it would go round.\<close>

inductive dba_step :: "('w, 's) dba_env \<Rightarrow> ('w, 's) dba_state \<Rightarrow> ('w, 's) dba_state \<Rightarrow> bool" for env where
  call_step: "run_call env c st = Some (v, st') \<Longrightarrow> connection_counter st + 1 \<noteq> 0 \<Longrightarrow> dba_step env st st'"
| world_step: "dba_step env st (st\<lparr>world := w\<rparr>)"
| other_step: "k \<notin> fst ` set (persistent_list st) \<Longrightarrow> dba_step env st (st\<lparr>persistent_list := persistent_list st @ [(k, POther)]\<rparr>)"

inductive dba_reachable :: "('w, 's) dba_env \<Rightarrow> ('w, 's) dba_state \<Rightarrow> bool" for env where
  start: "dba_reachable env (dba_minit env w)"
| step: "dba_reachable env st \<Longrightarrow> dba_step env st st' \<Longrightarrow> dba_reachable env st'"

lemma wf_run_call:
  assumes "dba_wf env st" "run_call env c st = Some r" "connection_counter st + 1 \<noteq> 0"
  shows "dba_wf env (snd r)"
proof (cases c)
  case (Open pers a)
  then show ?thesis using assms wf_open [OF assms(1), of pers a r]
    by (simp add: run_call_def dba_popen_def dba_open_def split: if_splits)
next
  case (Close ob)
  then show ?thesis using assms wf_dba_close [OF assms(1), of ob] by (cases r) (simp add: run_call_def)
next
  case (Free ob)
  then show ?thesis using assms wf_free_obj [OF assms(1), of ob] by (auto simp: run_call_def)
next
  case (Update ka v ob ins)
  then show ?thesis using assms wf_functions(1) [OF assms(1), of ka v ob ins r]
    by (simp add: run_call_def dba_insert_def dba_replace_def split: if_splits)
next
  case (FetchKey ka skip ob)
  then show ?thesis using assms wf_fetch [OF assms(1), of ka skip ob r] by (simp add: run_call_def)
next
  case (SetDefault nm)
  then show ?thesis using assms wf_ini [OF assms(1), of nm] by (auto simp: run_call_def split: prod.splits)
qed (use assms wf_functions [OF assms(1)] in \<open>auto simp: run_call_def\<close>)

lemma reachable_wf: "dba_reachable env st \<Longrightarrow> dba_wf env st"
proof (induction rule: dba_reachable.induct)
  case (start w)
  then show ?case by (rule wf_start)
next
  case (step st st')
  from step(2) show ?case
  proof cases
    case (call_step c v)
    then show ?thesis using wf_run_call [OF step.IH] by fastforce
  next
    case (world_step w)
    then show ?thesis using step.IH by simp
  next
    case (other_step k)
    have "known_key st' k'" if "k' \<in> fst ` set (connections st)" for k'
      by (rule known_key_mono [OF wf_key [OF step.IH that]]) (auto simp: other_step)
    then show ?thesis using step.IH unfolding wf_defs other_step(1) by auto
  qed
qed

section \<open>Locks\<close>

text \<open>The connections in the table: structure, path and lock.\<close>

definition lock_view :: "('w, 's) dba_state \<Rightarrow> (nat \<times> string \<times> u32) set" where
  "lock_view st = {(i, i_path info, i_lock_mode info) |k ob c i info.
     (k, ob) \<in> set (connections st) \<and> objects st ob = Some c \<and> c_info c = Some i \<and> infos st i = Some info}"

definition exclusive :: "(nat \<times> string \<times> u32) set \<Rightarrow> bool" where
  "exclusive V \<longleftrightarrow> (\<forall>(i, p, m) \<in> V. m AND (LOCK_EX OR LOCK_SH) \<noteq> 0) \<and>
     (\<forall>(i, p, m) \<in> V. \<forall>(j, q, n) \<in> V. i \<noteq> j \<longrightarrow> p = q \<longrightarrow> \<not> locks_conflict m n)"

lemma lock_view_info: "(i, p, m) \<in> lock_view st \<Longrightarrow> \<exists>info. infos st i = Some info \<and> i_path info = p \<and> i_lock_mode info = m"
  by (auto simp: lock_view_def)

lemma exclusiveD:
  "exclusive V \<Longrightarrow> (i, p, m) \<in> V \<Longrightarrow> m AND (LOCK_EX OR LOCK_SH) \<noteq> 0"
  "exclusive V \<Longrightarrow> (i, p, m) \<in> V \<Longrightarrow> (j, p, n) \<in> V \<Longrightarrow> i \<noteq> j \<Longrightarrow> \<not> locks_conflict m n"
  unfolding exclusive_def by (fastforce simp del: or_numerals)+

lemma exclusive_mono: "exclusive V \<Longrightarrow> V' \<subseteq> V \<Longrightarrow> exclusive V'"
  unfolding exclusive_def by blast

lemma lock_view_cong:
  "set (connections st') \<subseteq> set (connections st) \<Longrightarrow> (\<And>k ob. (k, ob) \<in> set (connections st') \<Longrightarrow> objects st' ob = objects st ob) \<Longrightarrow>
     (\<And>i info'. infos st' i = Some info' \<Longrightarrow> \<exists>info. infos st i = Some info \<and> i_path info = i_path info' \<and> i_lock_mode info = i_lock_mode info') \<Longrightarrow>
     lock_view st' \<subseteq> lock_view st"
  unfolding lock_view_def by (clarsimp simp: subset_iff) metis

text \<open>Every call but opening leaves the locks of the connections in the table as they are, or takes some away.\<close>

lemma call_lock_view: "call env i f st = Some (r, st') \<Longrightarrow> lock_view st' \<subseteq> lock_view st"
  by (rule lock_view_cong) (auto simp: call_def put_info_def split: option.splits if_splits)

lemma notice_lock_view [simp]: "lock_view (notice m st) = lock_view st" "lock_view (warn m' st) = lock_view st"
  by (simp_all add: lock_view_def notice_def warn_def split: option.split)

lemma close_lock_view:
  assumes wf: "dba_wf env st" and c: "dba_close_connection env ob st = Some st'"
  shows "lock_view st' \<subseteq> lock_view st"
proof (rule lock_view_cong)
  note tab = close_connection_table [OF wf c]
  show "set (connections st') \<subseteq> set (connections st)" by (rule tab(3))
  show "objects st' ob' = objects st ob'" if "(k, ob') \<in> set (connections st')" for k ob'
  proof -
    have "ob' \<noteq> ob" using tab(4) that by force
    then show ?thesis using tab(2) by simp
  qed
  show "\<exists>info. infos st i = Some info \<and> i_path info = i_path info' \<and> i_lock_mode info = i_lock_mode info'" if "infos st' i = Some info'" for i info'
    using that by (rule_tac close_connection_form [OF c]) (auto split: if_splits)
qed

lemma free_lock_view:
  assumes wf: "dba_wf env st" and c: "dba_connection_free_obj env ob st = Some st'"
  shows "lock_view st' \<subseteq> lock_view st"
proof -
  obtain cn st1 where cn: "objects st ob = Some cn" "(if c_info cn = None then Some st else dba_close_connection env ob st) = Some st1"
      "st' = st1\<lparr>objects := (objects st1)(ob := None)\<rparr>"
    using c by (auto simp: dba_connection_free_obj_def split: option.splits)
  have "lock_view st1 \<subseteq> lock_view st" using cn(2) close_lock_view [OF wf] by (auto split: if_splits)
  moreover have "lock_view st' \<subseteq> lock_view st1" unfolding cn(3) lock_view_def by (clarsimp split: if_splits) blast
  ultimately show ?thesis by (rule order_trans [rotated])
qed

lemma check_lock_view:
  assumes "CHECK_DBA_CONNECTION ob st f = Some r"
    and "\<And>i info r. infos st i = Some info \<Longrightarrow> f i info = Some r \<Longrightarrow> lock_view (snd r) \<subseteq> lock_view st"
  shows "lock_view (snd r) \<subseteq> lock_view st"
  using assms(1) by (auto simp: CHECK_DBA_CONNECTION_def bind_eq_Some_conv split: option.splits dest!: assms(2))

lemma other_lock_view:
  "DBA_WRITE_CHECK info st x = Some r \<Longrightarrow> (\<And>r. x = Some r \<Longrightarrow> lock_view (snd r) \<subseteq> lock_view st) \<Longrightarrow> lock_view (snd r) \<subseteq> lock_view st"
  "with_key ka st g = Some r \<Longrightarrow> (\<And>k r. g k = Some r \<Longrightarrow> lock_view (snd r) \<subseteq> lock_view st) \<Longrightarrow> lock_view (snd r) \<subseteq> lock_view st"
  "map_option (map_prod e id) (call env i f (notice m st)) = Some r \<Longrightarrow> lock_view (snd r) \<subseteq> lock_view st"
  "map_option (map_prod e id) (call env i f st) = Some r \<Longrightarrow> lock_view (snd r) \<subseteq> lock_view st"
  using call_lock_view [of env i f "notice m st"] call_lock_view [of env i f st]
  by (auto simp: DBA_WRITE_CHECK_def with_key_def split: if_splits sum.splits)

lemma function_lock_view:
  "php_dba_update env ka v ob m st = Some r \<Longrightarrow> lock_view (snd r) \<subseteq> lock_view st" "dba_exists env ka ob st = Some r \<Longrightarrow> lock_view (snd r) \<subseteq> lock_view st"
  "dba_delete env ka ob st = Some r \<Longrightarrow> lock_view (snd r) \<subseteq> lock_view st" "dba_firstkey env ob st = Some r \<Longrightarrow> lock_view (snd r) \<subseteq> lock_view st"
  "dba_nextkey env ob st = Some r \<Longrightarrow> lock_view (snd r) \<subseteq> lock_view st" "dba_optimize env ob st = Some r \<Longrightarrow> lock_view (snd r) \<subseteq> lock_view st"
  "dba_sync env ob st = Some r \<Longrightarrow> lock_view (snd r) \<subseteq> lock_view st"
  unfolding php_dba_update_def dba_exists_def dba_delete_def dba_firstkey_def dba_nextkey_def dba_optimize_def dba_sync_def
  by (erule check_lock_view other_lock_view)+

lemma fetch_lock_view:
  assumes "dba_fetch env ka skip ob st = Some r" shows "lock_view (snd r) \<subseteq> lock_view st"
proof (cases "skip < - (2 ^ 31) \<or> 2 ^ 31 - 1 < skip")
  case True
  then show ?thesis using assms by (auto simp: dba_fetch_def)
next
  case False
  have inner: "lock_view (snd r) \<subseteq> lock_view st" if res: "Option.bind (i_hnd info) (\<lambda>h. let (skip1, msg) = fetch_skip (h_name h) skip
      in map_option (map_prod php_string id) (call env i (\<lambda>h d. h_fetch h d k skip1) (notice msg st))) = Some r" for i info k r
  proof -
    obtain h where "i_hnd info = Some h" "(case fetch_skip (h_name h) skip of (skip1, msg) \<Rightarrow>
        map_option (map_prod php_string id) (call env i (\<lambda>h d. h_fetch h d k skip1) (notice msg st))) = Some r"
      using res unfolding bind_eq_Some_conv Let_def by blast
    then show ?thesis by (cases "fetch_skip (h_name h) skip") (simp only: prod.case other_lock_view(3))
  qed
  show ?thesis using assms unfolding dba_fetch_def if_not_P [OF False]
    by (elim check_lock_view other_lock_view(2) inner)
qed

text \<open>Opening. The check looks at the first connection with the path; when every connection holds a lock, that is enough.\<close>

lemma find_first:
  assumes "php_dba_find p st = None" "(i, p, m) \<in> lock_view st" shows False
proof -
  obtain k ob c info where "(k, ob) \<in> set (connections st)" "objects st ob = Some c" "c_info c = Some i" "infos st i = Some info" "i_path info = p"
    using assms(2) by (auto simp: lock_view_def)
  then have "info \<in> set (List.map_filter (\<lambda>(k, ob). Option.bind (Option.bind (objects st ob) c_info) (infos st)) (connections st))"
    by (auto simp: List.map_filter_def intro!: image_eqI [of _ _ "(k, ob)"])
  then show False using assms(1) \<open>i_path info = p\<close> by (auto simp: php_dba_find_def find_None_iff)
qed

lemma find_listed:
  assumes "php_dba_find p st = Some info" shows "i_path info = p \<and> (\<exists>i. (i, p, i_lock_mode info) \<in> lock_view st)"
proof -
  have f: "i_path info = p" "info \<in> set (List.map_filter (\<lambda>(k, ob). Option.bind (Option.bind (objects st ob) c_info) (infos st)) (connections st))"
    using assms by (auto simp: php_dba_find_def find_Some_iff)
  from f(2) obtain k ob where k: "(k, ob) \<in> set (connections st)" "Option.bind (Option.bind (objects st ob) c_info) (infos st) = Some info"
    by (auto simp: List.map_filter_def)
  then obtain c i where "objects st ob = Some c" "c_info c = Some i" "infos st i = Some info" by (auto simp: bind_eq_Some_conv)
  then show ?thesis using k(1) f(1) unfolding lock_view_def by blast
qed

lemma no_conflict:
  assumes V: "exclusive (lock_view st)" and h: "locks_all h" and none: "already_open h om p st = None" and x: "(i, p, m) \<in> lock_view st"
    and locked: "lock_mode om AND (LOCK_EX OR LOCK_SH) \<noteq> 0"
  shows "\<not> locks_conflict (lock_mode om) m"
proof -
  obtain other where other: "php_dba_find p st = Some other" using find_first [OF _ x] by (cases "php_dba_find p st") auto
  then obtain j where j: "(j, p, i_lock_mode other) \<in> lock_view st" using find_listed by blast
  have nc: "\<not> locks_conflict (lock_mode om) (i_lock_mode other)"
    using none other h by (simp add: already_open_def locks_all_def DBA_LOCK_ALL_15 split: if_splits)
  have "i_lock_mode other AND (LOCK_EX OR LOCK_SH) \<noteq> 0" using exclusiveD(1) [OF V j] .
  moreover have "i \<noteq> j \<Longrightarrow> \<not> locks_conflict (i_lock_mode other) m" using exclusiveD(2) [OF V j x] by simp
  moreover have "i = j \<Longrightarrow> m = i_lock_mode other" using lock_view_info [OF x] lock_view_info [OF j] by auto
  ultimately show ?thesis using nc locked by (cases "i = j") (auto simp: locks_conflict_def)
qed

lemma locks_conflict_sym: "locks_conflict a b = locks_conflict b a"
  by (auto simp: locks_conflict_def)

lemma exclusive_insert:
  assumes "exclusive V" "m AND (LOCK_EX OR LOCK_SH) \<noteq> 0" "\<And>j n. (j, p, n) \<in> V \<Longrightarrow> \<not> locks_conflict m n"
  shows "exclusive (insert (i, p, m) V)"
  using assms locks_conflict_sym [of m] unfolding exclusive_def by auto

text \<open>The path that a lock on the database file leaves in the structure, when streams report the path they were opened with.\<close>

definition plain_paths :: "('w, 's) dba_env \<Rightarrow> bool" where
  "plain_paths env \<longleftrightarrow> (\<forall>p m rep pers w s q w'. env_open env p m rep pers w = (Some (s, Some q), w') \<longrightarrow> q = p)"

lemma open_lock_path:
  assumes "open_lock env pers path lc om info w = (Go None, info1, w1)" "plain_paths env" "i_path info = path"
  shows "i_path info1 = path"
proof -
  have "q = p" if "env_open env p m rep pers w = (Some (s, Some q), w')" for p m rep pers w s q w'
    using assms(2) that unfolding plain_paths_def by blast
  then show ?thesis
    using assms(1,3) by (auto simp: open_lock_def Let_def take_lock_def split: if_splits prod.splits option.splits)
qed

text \<open>A mode without \<open>-\<close> makes a lock.\<close>

lemma parse_mode_locks:
  assumes "locks_all h" "mode \<noteq> []" "CHR ''-'' \<notin> set mode" "parse_mode h mode = Inr (lc, om)"
  shows "lock_mode om AND (LOCK_EX OR LOCK_SH) \<noteq> 0"
proof -
  obtain c r where m: "mode = c # r" using assms(2) by (cases mode) auto
  have "mode_table mode = Some (om, is_db_lock lc)"
    using parse_mode_meaning [OF assms(1,2)] assms(4) by (simp add: mode_meaning_def)
  then show ?thesis
    using assms(3) unfolding m mode_table_def lock_chars_def first_char_def by (auto simp: Let_def split: option.splits if_splits)
qed

text \<open>What the allocation and the ends of the call do to the view.\<close>

lemma view_old:
  assumes wf: "dba_wf env st" and con: "(k, ob) \<in> set (connections st)" and t: "touched (next_info st) (allocated rk info st) st1"
  shows "objects st1 ob = objects st ob" "objects st ob = Some c \<Longrightarrow> c_info c = Some i \<Longrightarrow> infos st1 i = infos st i"
proof -
  note fr = touched_frame [OF t]
  have "ob \<noteq> next_object st" using wf_fresh(4) [OF wf] con by blast
  then show ob: "objects st1 ob = objects st ob" using fr by (simp add: allocated_def put_info_def)
  assume "objects st ob = Some c" "c_info c = Some i"
  then have "i \<noteq> next_info st" using wf_fresh(5) [OF wf] by auto
  then show "infos st1 i = infos st i" using fr by (simp add: allocated_def)
qed

lemma view_touched:
  assumes wf: "dba_wf env st" and t: "touched (next_info st) (allocated rk info st) st1"
  shows "lock_view st1 = lock_view st"
proof -
  have con: "connections st1 = connections st" using touched_frame [OF t] by (simp add: allocated_def put_info_def)
  have "objects st1 ob = Some c \<and> c_info c = Some i \<and> infos st1 i = Some x \<longleftrightarrow>
      objects st ob = Some c \<and> c_info c = Some i \<and> infos st i = Some x" if "(k, ob) \<in> set (connections st)" for k ob c i x
    using view_old [OF wf that t] by auto
  then show ?thesis unfolding lock_view_def con by blast
qed

lemma view_undone:
  assumes wf: "dba_wf env st" and un: "undone (next_object st) (next_info st) (allocated rk info st) r"
  shows "lock_view (snd r) \<subseteq> lock_view st"
proof -
  obtain st1 where st1: "touched (next_info st) (allocated rk info st) st1" "snd r = st1\<lparr>objects := (objects st1)(next_object st := None)\<rparr>"
    using un by (auto simp: undone_def)
  have "lock_view (snd r) \<subseteq> lock_view st1" unfolding st1(2) by (rule lock_view_cong) (use wf_fresh(4) [OF wf] touched_frame [OF st1(1)] in \<open>auto simp: allocated_def put_info_def\<close>)
  then show ?thesis using view_touched [OF wf st1(1)] by simp
qed

lemma view_registered:
  assumes wf: "dba_wf env st" and reg: "registered pers rk (next_object st) (next_info st) info' (allocated rk info st) r"
  shows "lock_view (snd r) \<subseteq> insert (next_info st, i_path info', i_lock_mode info') (lock_view st)"
proof -
  obtain st1 where st1: "touched (next_info st) (allocated rk info st) st1" "infos st1 (next_info st) = Some info'"
      "connections (snd r) = connections (allocated rk info st) @ [(rk, next_object st)]" "objects (snd r) = objects st1" "infos (snd r) = infos st1"
    using reg by (auto simp: registered_def)
  note fr = touched_frame [OF st1(1)]
  have con: "connections (snd r) = connections st1 @ [(rk, next_object st)]" using st1(3) fr by simp
  have ob: "objects st1 (next_object st) = Some \<lparr>c_info = Some (next_info st), c_hash = Some rk\<rparr>"
    using fr by (simp add: allocated_def put_info_def)
  have "lock_view (snd r) \<subseteq> insert (next_info st, i_path info', i_lock_mode info') (lock_view st1)"
    unfolding lock_view_def con st1(4,5) using ob st1(2) by (auto simp: Ball_def)
  then show ?thesis using view_touched [OF wf st1(1)] by simp
qed

lemma exclusive_open:
  assumes wf: "dba_wf env st" and V: "exclusive (lock_view st)" and env: "plain_paths env" and mode: "CHR ''-'' \<notin> set (a_mode a)"
    and c: "connection_counter st + 1 \<noteq> 0" and res: "php_dba_open env False a st = Some r"
  shows "exclusive (lock_view (snd r))"
  using res
proof (cases rule: php_dba_open_cases)
  case new
  let ?st = "st\<lparr>connection_counter := connection_counter st + 1\<rparr>"
  note key = open_key_new [OF wf c]
  have V1: "exclusive (lock_view ?st)" using V by (simp add: lock_view_def)
  from key(1,2) new(2) show ?thesis
  proof (cases rule: open_new_ends)
    case (refused x)
    then show ?thesis using V1 by (cases x) (simp_all add: refuse_def)
  next
    case (undone n info)
    have "dba_wf env (notice n ?st)" using key(1) by simp
    from view_undone [OF this undone] show ?thesis using V1 by (auto intro: exclusive_mono)
  next
    case (kept h lc om n info info1 w1 info')
    let ?sn = "notice n ?st"
    have wf0: "dba_wf env ?sn" using key(1) by simp
    have h: "locks_all h" using handler_flags(1) [OF kept(1)] .
    have locked: "lock_mode om AND (LOCK_EX OR LOCK_SH) \<noteq> 0" using parse_mode_locks [OF h new(3) mode kept(2)] .
    have path: "i_path info' = a_path a" using open_lock_path [OF kept(5) env] kept(3,6) by (simp add: new_info_def)
    have al: "lock_view (allocated rk info ?sn) = lock_view ?st" for rk using view_touched [OF wf0 touched_refl] by simp
    have nc: "\<not> locks_conflict (lock_mode om) m" if "(j, a_path a, m) \<in> lock_view ?st" for j m
      using no_conflict [OF _ h kept(4) _ locked] that V1 al by simp
    have "exclusive (insert (next_info ?sn, a_path a, lock_mode om) (lock_view ?st))"
      by (rule exclusive_insert [OF V1 locked nc])
    moreover have "lock_view (snd r) \<subseteq> insert (next_info ?sn, a_path a, lock_mode om) (lock_view ?st)"
      using view_registered [OF wf0] kept(9,11) path by (metis notice_lock_view(1))
    ultimately show ?thesis by (rule exclusive_mono)
  qed
qed (use V in simp_all)

text \<open>Calls that lock: connections are opened with \<^verbatim>\<open>dba_open\<close>, in a mode without \<open>-\<close>.\<close>

fun locking :: "dba_call \<Rightarrow> bool" where
  "locking (Open pers a) = (\<not> pers \<and> CHR ''-'' \<notin> set (a_mode a))"
| "locking c = True"

inductive locking_reachable :: "('w, 's) dba_env \<Rightarrow> ('w, 's) dba_state \<Rightarrow> bool" for env where
  start: "locking_reachable env (dba_minit env w)"
| call: "locking_reachable env st \<Longrightarrow> locking c \<Longrightarrow> connection_counter st + 1 \<noteq> 0 \<Longrightarrow> run_call env c st = Some (v, st') \<Longrightarrow>
    locking_reachable env st'"
| world: "locking_reachable env st \<Longrightarrow> locking_reachable env (st\<lparr>world := w\<rparr>)"

lemma exclusive_run_call:
  assumes "dba_wf env st" "exclusive (lock_view st)" "plain_paths env" "locking c" "connection_counter st + 1 \<noteq> 0" "run_call env c st = Some r"
  shows "exclusive (lock_view (snd r))"
proof (cases "\<exists>a. c = Open False a")
  case True
  then obtain a where "c = Open False a" by blast
  then show ?thesis using assms exclusive_open [of env st a r] by (simp add: run_call_def dba_open_def)
next
  case False
  have "lock_view (snd r) \<subseteq> lock_view st"
  proof (cases c)
    case (Open pers a)
    then show ?thesis using False assms(4) by simp
  next
    case (Close ob)
    then have "dba_close env ob st = Some (fst r, snd r)" using assms(6) by (simp add: run_call_def)
    then show ?thesis using close_lock_view [OF assms(1)] by (cases rule: dba_close_cases) auto
  next
    case (Free ob)
    then obtain z where "dba_connection_free_obj env ob st = Some z" "r = (PNull, z)" using assms(6) by (auto simp: run_call_def)
    then show ?thesis using free_lock_view [OF assms(1)] by simp
  next
    case (Update ka v ob ins)
    then show ?thesis using assms(6) function_lock_view(1) [of env ka v ob ins st r]
      by (simp add: run_call_def dba_insert_def dba_replace_def split: if_splits)
  next
    case (FetchKey ka skip ob)
    then show ?thesis using assms(6) fetch_lock_view [of env ka skip ob st r] by (simp add: run_call_def)
  next
    case (SetDefault nm)
    have "lock_view (snd (OnUpdateDefaultHandler env nm st)) = lock_view st"
      by (simp add: OnUpdateDefaultHandler_def lock_view_def warn_def split: option.split)
    moreover have "snd r = snd (OnUpdateDefaultHandler env nm st)" using assms(6) SetDefault by (auto simp: run_call_def split: prod.splits)
    ultimately show ?thesis by simp
  qed (use assms(6) function_lock_view in \<open>simp_all add: run_call_def\<close>)
  then show ?thesis using exclusive_mono assms(2) by blast
qed

lemma locking_reachable_ok:
  assumes "locking_reachable env st" "plain_paths env"
  shows "dba_wf env st \<and> exclusive (lock_view st)"
  using assms(1)
proof (induction rule: locking_reachable.induct)
  case (start w)
  have "connections (dba_minit env w) = []"
    by (simp add: dba_minit_def OnUpdateDefaultHandler_def dba_ginit_def warn_def split: option.split)
  then show ?case using wf_start by (simp add: lock_view_def exclusive_def)
next
  case (call st c v st')
  then show ?case using wf_run_call [of env st c] exclusive_run_call [of env st c] assms(2) by fastforce
next
  case (world st w)
  then show ?case by (simp add: lock_view_def)
qed

end
