(* ===== verification/DbaFiles.thy ===== *)
theory DbaFiles
  imports DbaDispatch
begin

text \<open>
  What the dispatcher relies on in the PHP core, and a small core that provides it. The locale
  \<open>dba_core\<close> extends the contract of plain files: a stream that was opened on a path shows the file with that
  path in the world it is seen in, operations do not turn a stream into another one, and opening, locking
  and closing leave the other files alone. The instance is a file system with streams that hold a path and an offset.
\<close>

section \<open>The contract\<close>

locale dba_core =
  php_file "env_ops env" contents offset for env :: "('w, 's) dba_env" and contents :: "'s \<Rightarrow> bytes" and offset :: "'s \<Rightarrow> nat" +
  fixes disk :: "'w \<Rightarrow> string \<Rightarrow> bytes"
    and stream_path :: "'s \<Rightarrow> string option"
    and accessible :: "string \<Rightarrow> bool"
  assumes refresh_same: "env_refresh env (env_world env s) s = s"
    and file_contents: "stream_path s = Some p \<Longrightarrow> disk (env_world env s) p = contents s"
    and path_seek: "stream_path (snd (stream_seek (env_ops env) n wh s)) = stream_path s"
    and path_read: "stream_path (snd (stream_read (env_ops env) k s)) = stream_path s"
    and path_write: "stream_path (snd (stream_write (env_ops env) bs s)) = stream_path s"
    and path_flush: "stream_path (snd (stream_flush (env_ops env) s)) = stream_path s"
    and path_gets: "stream_path (snd (stream_gets (env_ops env) cap s)) = stream_path s"
    and open_file: "accessible p \<Longrightarrow> m \<in> {''r'', ''w+b''} \<Longrightarrow> \<exists>i w'. env_open env p m rep pers w = (Some (i, Some p), w') \<and>
      disk w' p = (if m = ''r'' then disk w p else []) \<and> stream_path (env_attach env i w') = Some p"
    and attach_world: "env_world env (env_attach env i w) = w"
    and attach_path: "env_lock env i l w = (r, w') \<Longrightarrow> stream_path (env_attach env i w') = stream_path (env_attach env i w)"
      "env_cast env i w = (fd, w') \<Longrightarrow> stream_path (env_attach env i w') = stream_path (env_attach env i w)"
    and lock_ok: "stream_path (env_attach env i w) = Some p \<Longrightarrow> accessible p \<Longrightarrow> env_supports_lock env i w \<and>
      (\<exists>w'. env_lock env i l w = (0, w') \<and> disk w' = disk w)"
    and cast_ok: "\<exists>fd w'. env_cast env i w = (Some fd, w') \<and> disk w' = disk w"
    and close_file: "disk (env_close env pers i w) = disk w"

section \<open>A file system\<close>

record fs =
  fs_files :: "string \<Rightarrow> bytes"
  fs_streams :: "nat \<Rightarrow> string \<times> nat" \<comment> \<open>path and offset\<close>
  fs_next :: nat

datatype fs_stream = FsFile fs nat | FsTemp fs memfile

definition fs_view :: "fs_stream \<Rightarrow> memfile" where
  "fs_view s = (case s of FsFile w i \<Rightarrow> \<lparr>mf_data = fs_files w (fst (fs_streams w i)), mf_pos = snd (fs_streams w i)\<rparr> | FsTemp w m \<Rightarrow> m)"

definition fs_update :: "memfile \<Rightarrow> fs_stream \<Rightarrow> fs_stream" where
  "fs_update m s = (case s of
       FsFile w i \<Rightarrow> let p = fst (fs_streams w i)
         in FsFile (w\<lparr>fs_files := (fs_files w)(p := mf_data m), fs_streams := (fs_streams w)(i := (p, mf_pos m))\<rparr>) i
     | FsTemp w _ \<Rightarrow> FsTemp w m)"

definition fs_lift :: "(memfile \<Rightarrow> 'a \<times> memfile) \<Rightarrow> fs_stream \<Rightarrow> 'a \<times> fs_stream" where
  "fs_lift f s = (case f (fs_view s) of (r, m) \<Rightarrow> (r, fs_update m s))"

definition fs_empty :: fs where
  "fs_empty = \<lparr>fs_files = (\<lambda>_. []), fs_streams = (\<lambda>_. ([], 0)), fs_next = 0\<rparr>"

definition fs_ops :: "fs_stream php_stream_ops" where
  "fs_ops =
    \<lparr>stream_seek = (\<lambda>n w. fs_lift (stream_seek mem_ops n w)), stream_tell = (\<lambda>s. stream_tell mem_ops (fs_view s)),
     stream_read = (\<lambda>k. fs_lift (stream_read mem_ops k)), stream_write = (\<lambda>bs. fs_lift (stream_write mem_ops bs)),
     stream_flush = fs_lift (stream_flush mem_ops), stream_eof = (\<lambda>s. stream_eof mem_ops (fs_view s)),
     stream_gets = (\<lambda>c. fs_lift (stream_gets mem_ops c)), stream_truncate_supported = (\<lambda>s. True),
     stream_truncate = (\<lambda>n. fs_lift (stream_truncate mem_ops n)),
     stream_temp = Some (FsTemp fs_empty \<lparr>mf_data = [], mf_pos = 0\<rparr>),
     stream_copy = (\<lambda>n s t. case stream_copy mem_ops n (fs_view s) (fs_view t) of (r, m1, m2) \<Rightarrow> (r, fs_update m1 s, fs_update m2 t))\<rparr>"

text \<open>Opening for writing from the start empties the file; locks are always granted.\<close>

definition fs_env :: "(fs, fs_stream) dba_env" where
  "fs_env =
    \<lparr>env_ops = fs_ops, env_attach = (\<lambda>i w. FsFile w i),
     env_refresh = (\<lambda>w s. case s of FsFile _ i \<Rightarrow> FsFile w i | FsTemp _ m \<Rightarrow> FsTemp w m),
     env_world = (\<lambda>s. case s of FsFile w _ \<Rightarrow> w | FsTemp w _ \<Rightarrow> w),
     env_open = (\<lambda>p m rep pers w. (Some (fs_next w, Some p),
        w\<lparr>fs_files := (if m = ''w+b'' then (fs_files w)(p := []) else fs_files w),
          fs_streams := (fs_streams w)(fs_next w := (p, 0)), fs_next := Suc (fs_next w)\<rparr>)),
     env_close = (\<lambda>pers i w. w), env_supports_lock = (\<lambda>i w. True), env_lock = (\<lambda>i l w. (0, w)),
     env_cast = (\<lambda>i w. (Some (int i), w)), env_no_append = (\<lambda>fd w. w), env_register = (\<lambda>k. True)\<rparr>"

definition fs_path :: "fs_stream \<Rightarrow> string option" where
  "fs_path s = (case s of FsFile w i \<Rightarrow> Some (fst (fs_streams w i)) | FsTemp _ _ \<Rightarrow> None)"

lemma fs_view_temp [simp]: "fs_view (FsTemp w m) = m"
  by (simp add: fs_view_def)

lemma fs_view_update [simp]: "fs_view (fs_update m s) = m"
  by (cases s) (simp_all add: fs_view_def fs_update_def Let_def)

lemma fs_path_update [simp]: "fs_path (fs_update m s) = fs_path s"
  by (cases s) (simp_all add: fs_path_def fs_update_def Let_def)

lemma fs_path_simps [simp]: "fs_path (FsFile w i) = Some (fst (fs_streams w i))" "fs_path (FsTemp w m) = None"
  by (simp_all add: fs_path_def)

lemma fs_path_lift [simp]: "fs_path (snd (fs_lift f s)) = fs_path s"
  by (simp add: fs_lift_def split: prod.split)

lemma fs_lift_law:
  assumes "\<exists>m'. f (fs_view s) = (r, m') \<and> Q m'" shows "\<exists>s'. fs_lift f s = (r, s') \<and> Q (fs_view s')"
  using assms by (auto simp: fs_lift_def)

interpretation fs: php_file fs_ops "\<lambda>s. mf_data (fs_view s)" "\<lambda>s. mf_pos (fs_view s)"
proof (unfold_locales, goal_cases)
  case (1 n s)
  then show ?case using memory.seek_set [of n "fs_view s"] fs_lift_law [of _ s 0] by (simp add: fs_ops_def)
next
  case (2 s)
  then show ?case using memory.tell_off by (simp add: fs_ops_def)
next
  case (3 k s)
  then show ?case using memory.read_some [of k "fs_view s"] by (auto simp: fs_ops_def fs_lift_def)
qed (auto simp: fs_ops_def fs_lift_def mem_ops_def mem_write_def Let_def min_def split: option.splits prod.splits)

lemma fs_file_contents: "fs_path s = Some p \<Longrightarrow> fs_files (env_world fs_env s) p = mf_data (fs_view s)"
  by (cases s) (simp_all add: fs_env_def fs_view_def)

lemma fs_refresh: "env_refresh fs_env (env_world fs_env s) s = s"
  by (cases s) (simp_all add: fs_env_def)

lemma fs_env_ops [simp]: "env_ops fs_env = fs_ops"
  by (simp add: fs_env_def)

interpretation fs_core: dba_core fs_env "\<lambda>s. mf_data (fs_view s)" "\<lambda>s. mf_pos (fs_view s)" fs_files fs_path "\<lambda>_. True"
proof -
  have base: "php_file (env_ops fs_env) (\<lambda>s. mf_data (fs_view s)) (\<lambda>s. mf_pos (fs_view s))"
    using fs.php_file_axioms by simp
  show "dba_core fs_env (\<lambda>s. mf_data (fs_view s)) (\<lambda>s. mf_pos (fs_view s)) fs_files fs_path (\<lambda>_. True)"
    by (intro dba_core.intro base dba_core_axioms.intro)
      (simp_all add: fs_file_contents fs_refresh, auto simp: fs_env_def fs_ops_def)
qed

end
