(* ===== verification/DbaSafety.thy ===== *)
theory DbaSafety
  imports DbaLocks DbaFiles
begin

text \<open>
  Properties of the dispatcher that hold for every handler and every script: types and ownership in
  reachable states, the guards of the functions, what the locking check excludes, and two ways round it.
\<close>

text \<open>Several calls, one after the other, with their results.\<close>

fun run_calls :: "('w, 's) dba_env \<Rightarrow> dba_call list \<Rightarrow> ('w, 's) dba_state \<Rightarrow> (php_value list \<times> ('w, 's) dba_state) option" where
  "run_calls env [] st = Some ([], st)"
| "run_calls env (c # cs) st =
     Option.bind (run_call env c st) (\<lambda>(v, st1). map_option (\<lambda>(vs, st2). (v # vs, st2)) (run_calls env cs st1))"

definition args :: "string \<Rightarrow> string \<Rightarrow> string \<Rightarrow> open_args" where
  "args p m h = \<lparr>a_path = p, a_mode = m, a_handler = Some h, a_permission = 420, a_map_size = 0, a_driver_flags = None\<rparr>"

definition start_state :: "(fs, fs_stream) dba_state" where
  "start_state = dba_minit fs_env fs_empty"

text \<open>The view of the locks as a list, to evaluate it.\<close>

definition lock_list :: "('w, 's) dba_state \<Rightarrow> (nat \<times> string \<times> u32) list" where
  "lock_list st = List.map_filter (\<lambda>(k, ob). Option.bind (Option.bind (objects st ob) c_info)
     (\<lambda>i. map_option (\<lambda>info. (i, i_path info, i_lock_mode info)) (infos st i))) (connections st)"

lemma set_map_filter_eq: "set (List.map_filter f xs) = {y. \<exists>x \<in> set xs. f x = Some y}"
  by (induction xs) (auto simp: map_filter_simps split: option.splits)

lemma set_lock_list: "set (lock_list st) = lock_view st"
proof
  show "set (lock_list st) \<subseteq> lock_view st"
    unfolding lock_list_def lock_view_def set_map_filter_eq by (auto simp: bind_eq_Some_conv) blast
  show "lock_view st \<subseteq> set (lock_list st)"
  proof
    fix x assume "x \<in> lock_view st"
    then obtain k ob c i info where "(k, ob) \<in> set (connections st)" "objects st ob = Some c" "c_info c = Some i" "infos st i = Some info"
        "x = (i, i_path info, i_lock_mode info)" unfolding lock_view_def by blast
    then show "x \<in> set (lock_list st)"
      unfolding lock_list_def set_map_filter_eq by (intro CollectI bexI [of _ "(k, ob)"]) simp_all
  qed
qed

text \<open>The object a call works on, once its arguments are accepted, and the calls that modify the database.\<close>

fun call_object :: "dba_call \<Rightarrow> nat option" where
  "call_object (Close ob) = Some ob" | "call_object (Update ka v ob ins) = Some ob" | "call_object (Exists ka ob) = Some ob"
| "call_object (FetchKey ka skip ob) = (if - (2 ^ 31) \<le> skip \<and> skip < 2 ^ 31 then Some ob else None)"
| "call_object (FirstKey ob) = Some ob" | "call_object (NextKey ob) = Some ob" | "call_object (DeleteKey ka ob) = Some ob"
| "call_object (Optimize ob) = Some ob" | "call_object (Sync ob) = Some ob" | "call_object c = None"

fun modifies :: "dba_call \<Rightarrow> bool" where
  "modifies (Update ka v ob ins) = True" | "modifies (DeleteKey ka ob) = True" | "modifies (Optimize ob) = True" | "modifies c = False"

section \<open>Properties\<close>

text \<open>
  C5: types. In every state that a script can reach, an object that has not been closed points to
  a live structure; the handler of that structure is one of the table, and the private data, a \<^verbatim>\<open>void *\<close>
  in the source, is of the type that this handler casts it to. (Up to \<open>2^32 - 1\<close> calls of \<^verbatim>\<open>dba_open\<close>.)
\<close>

theorem reachable_well_typed:
  assumes "dba_reachable env st" and "objects st ob = Some c" and "c_info c = Some i"
  shows "\<exists>info h d. infos st i = Some info \<and> i_hnd info = Some h \<and> h \<in> set (handler (env_ops env)) \<and> i_dbf info = Some d \<and> owns h d"
proof -
  have wf: "dba_wf env st" using reachable_wf [OF assms(1)] .
  obtain info where "infos st i = Some info" using wf_object [OF wf assms(2)] assms(3) by auto
  with wf_info [OF wf this] show ?thesis by (auto simp: info_ok_def)
qed

text \<open>
  C6: ownership. In every reachable state the table of connections has one entry per key, each
  entry is for an object that is open and carries that key, every entry of the persistent list that
  belongs to this extension points to a live structure of a persistent connection, and a structure that two objects
  point to belongs to a persistent connection: so closing a connection, which frees the structure
  of a connection that is not persistent, leaves no dangling pointer.
\<close>

theorem reachable_ownership:
  assumes "dba_reachable env st"
  shows "distinct (map fst (connections st)) \<and>
    (\<forall>(k, ob) \<in> set (connections st). \<exists>c. objects st ob = Some c \<and> c_hash c = Some k \<and> c_info c \<noteq> None) \<and>
    (\<forall>(k, e) \<in> set (persistent_list st). \<forall>i. e = PDba i \<longrightarrow> (\<exists>info. infos st i = Some info \<and> is_persistent info)) \<and>
    (\<forall>ob ob' c c' i. objects st ob = Some c \<longrightarrow> objects st ob' = Some c' \<longrightarrow> c_info c = Some i \<longrightarrow> c_info c' = Some i \<longrightarrow> ob \<noteq> ob' \<longrightarrow>
       (\<exists>info. infos st i = Some info \<and> is_persistent info))"
proof (intro conjI)
  have wf: "dba_wf env st" using reachable_wf [OF assms] .
  show "distinct (map fst (connections st))" using wf by (simp add: dba_wf_def connections_ok_def)
  show "\<forall>(k, ob) \<in> set (connections st). \<exists>c. objects st ob = Some c \<and> c_hash c = Some k \<and> c_info c \<noteq> None"
    using wf_listed [OF wf] by blast
  show "\<forall>(k, e) \<in> set (persistent_list st). \<forall>i. e = PDba i \<longrightarrow> (\<exists>info. infos st i = Some info \<and> is_persistent info)"
    using wf_plist [OF wf] by blast
  show "\<forall>ob ob' c c' i. objects st ob = Some c \<longrightarrow> objects st ob' = Some c' \<longrightarrow> c_info c = Some i \<longrightarrow> c_info c' = Some i \<longrightarrow> ob \<noteq> ob' \<longrightarrow>
       (\<exists>info. infos st i = Some info \<and> is_persistent info)"
    using wf wf_object [OF wf] unfolding dba_wf_def sharing_ok_def by (metis option.exhaust)
qed

text \<open>
  C36: guards. Every function called on a closed connection throws and changes nothing, and every
  function that modifies, called on a connection opened for reading, returns false with a warning and touches neither the
  database nor any other connection.
\<close>

theorem dba_guards:
  assumes "objects st ob = Some c" and "call_object x = Some ob"
  shows "(c_info c = None \<longrightarrow> run_call env x st = Some (PThrow ''DBA connection has already been closed'', st)) \<and>
    (\<forall>i info. c_info c = Some i \<longrightarrow> infos st i = Some info \<longrightarrow> i_mode info = DBA_READER \<longrightarrow> modifies x \<longrightarrow>
       run_call env x st = Some (PFalse, warn ''Cannot perform a modification on a readonly database'' st))"
  using assms
  by (cases x) (auto simp: run_call_def dba_close_def dba_insert_def dba_replace_def php_dba_update_def dba_exists_def dba_fetch_def
      dba_firstkey_def dba_nextkey_def dba_delete_def dba_optimize_def dba_sync_def CHECK_DBA_CONNECTION_def DBA_WRITE_CHECK_def
      split: if_splits)


text \<open>
  Closing a persistent connection does not close it. \<^verbatim>\<open>dba_close\<close> clears the pointer of the object and
  then asks for the removal of the entries of the persistent list that hold this pointer, by then
  null: nothing is removed, the structure stays allocated, the database stays open and its lock
  held, although the connection has left the table in which the locking check looks.
\<close>

theorem dba_close_keeps_persistent:
  assumes "objects st ob = Some c" and "c_info c = Some i" and "infos st i = Some info" and "is_persistent info"
  shows "\<exists>st'. dba_close env ob st = Some (PNull, st') \<and> persistent_list st' = persistent_list st \<and> infos st' = infos st \<and>
    world st' = world st \<and> (c_hash c = Some k \<longrightarrow> k \<notin> fst ` set (connections st'))"
proof -
  have cl: "dba_close_connection env ob st = Some (forget ob c st)"
    using assms by (simp add: dba_close_connection_def is_persistent_def)
  have "dba_close env ob st = Some (PNull, forget ob c st)"
    using assms cl by (simp add: dba_close_def is_persistent_def remove_pconnections_None forget_def)
  then show ?thesis by (intro exI [of _ "forget ob c st"]) (simp add: forget_def)
qed

text \<open>
  Two writers. The locking check looks only at the first connection to a path. When that one does
  not lock, it hides the others: after an unlocked reader, two connections take an exclusive lock on the same
  database, one after the other, in the same process.
\<close>

theorem unlocked_reader_hides_writers:
  "\<exists>st. run_calls fs_env [Open False (args ''p'' ''r-'' ''flatfile''), Open False (args ''p'' ''wl'' ''flatfile''),
      Open False (args ''p'' ''wl'' ''flatfile'')] start_state = Some ([PConn 0, PConn 1, PConn 2], st) \<and>
    (1, ''p'', LOCK_EX) \<in> lock_view st \<and> (2, ''p'', LOCK_EX) \<in> lock_view st"
proof -
  let ?r = "run_calls fs_env [Open False (args ''p'' ''r-'' ''flatfile''), Open False (args ''p'' ''wl'' ''flatfile''),
      Open False (args ''p'' ''wl'' ''flatfile'')] start_state"
  have "map_option (\<lambda>(vs, st). (vs, lock_list st)) ?r = Some ([PConn 0, PConn 1, PConn 2], [(0, ''p'', 0), (1, ''p'', 2), (2, ''p'', 2)])"
    by code_simp
  then obtain st where "?r = Some ([PConn 0, PConn 1, PConn 2], st)" "lock_list st = [(0, ''p'', 0), (1, ''p'', 2), (2, ''p'', 2)]"
    by (auto simp: map_option_eq_Some split: prod.splits)
  then show ?thesis by (intro exI [of _ st]) (simp flip: set_lock_list)
qed

section \<open>Instances\<close>

text \<open>A writer, a reader, two readers with lock files and a persistent connection on the file system of the instance.\<close>

definition opened :: "bool \<Rightarrow> string \<Rightarrow> (fs, fs_stream) dba_state" where
  "opened pers m = snd (the (run_call fs_env (Open pers (args ''p'' m ''flatfile'')) start_state))"

definition two_readers :: "(fs, fs_stream) dba_state" where
  "two_readers = snd (the (run_call fs_env (Open False (args ''p'' ''rl'' ''flatfile'')) (opened False ''rl'')))"

lemma state_of: "map_option fst r = Some v \<Longrightarrow> r = Some (v, snd (the r))"
  by (cases r) auto

lemma opened_runs:
  "run_call fs_env (Open False (args ''p'' ''w'' ''flatfile'')) start_state = Some (PConn 0, opened False ''w'')"
  "run_call fs_env (Open False (args ''p'' ''rl'' ''flatfile'')) start_state = Some (PConn 0, opened False ''rl'')"
  "run_call fs_env (Open False (args ''p'' ''rl'' ''flatfile'')) (opened False ''rl'') = Some (PConn 1, two_readers)"
  unfolding opened_def two_readers_def by (rule state_of, code_simp)+

lemma opened_facts:
  "objects (opened False ''w'') 0 = Some \<lparr>c_info = Some 0, c_hash = Some ''dba_0_0_p_w_flatfile''\<rparr>"
  "objects (opened False ''rl'') 0 = Some \<lparr>c_info = Some 0, c_hash = Some ''dba_0_0_p_rl_flatfile''\<rparr>"
  "map_option i_mode (infos (opened False ''rl'') 0) = Some DBA_READER"
  "connection_counter start_state + 1 \<noteq> 0" "connection_counter (opened False ''rl'') + 1 \<noteq> 0"
  "lock_list two_readers = [(0, ''p'', 1), (1, ''p'', 1)]"
  "objects (opened True ''w'') 0 = Some \<lparr>c_info = Some 0, c_hash = Some ''dba_1_0_p_w_flatfile''\<rparr>"
  "map_option is_persistent (infos (opened True ''w'') 0) = Some True" "persistent_list (opened True ''w'') = [(''dba_1_0_p_w_flatfile'', PDba 0)]"
  by code_simp+

lemma opened_reachable: "dba_reachable fs_env (opened False ''w'')"
  using dba_reachable.step [OF dba_reachable.start [of fs_env fs_empty] call_step [OF opened_runs(1) [unfolded start_state_def] opened_facts(4) [unfolded start_state_def]]] .

lemma plain_paths_fs: "plain_paths fs_env"
  by (simp add: plain_paths_def fs_env_def)

lemma two_readers_reachable: "locking_reachable fs_env two_readers"
proof -
  have "locking_reachable fs_env start_state" unfolding start_state_def by (rule locking_reachable.start)
  then have "locking_reachable fs_env (opened False ''rl'')"
    by (rule locking_reachable.call [OF _ _ opened_facts(4) opened_runs(2)]) (simp add: args_def)
  then show ?thesis by (rule locking_reachable.call [OF _ _ opened_facts(5) opened_runs(3)]) (simp add: args_def)
qed

theorem reachable_well_typed_witness:
  "dba_reachable fs_env (opened False ''w'') \<and> (\<exists>info h d. infos (opened False ''w'') 0 = Some info \<and> i_hnd info = Some h \<and>
    h \<in> set (handler fs_ops) \<and> i_dbf info = Some d \<and> owns h d)"
  using reachable_well_typed [OF opened_reachable opened_facts(1)] opened_reachable by simp

theorem reachable_ownership_witness:
  "dba_reachable fs_env (opened False ''w'') \<and> distinct (map fst (connections (opened False ''w'')))"
  using reachable_ownership [OF opened_reachable] opened_reachable by simp

theorem dba_guards_witness:
  "run_call fs_env (DeleteKey (KeyStr ''k'') 0) (opened False ''rl'') =
    Some (PFalse, warn ''Cannot perform a modification on a readonly database'' (opened False ''rl''))"
  using dba_guards [OF opened_facts(2), of "DeleteKey (KeyStr ''k'') 0" fs_env] opened_facts(3) by auto


theorem dba_close_keeps_persistent_witness:
  "\<exists>st'. dba_close fs_env 0 (opened True ''w'') = Some (PNull, st') \<and> persistent_list st' = [(''dba_1_0_p_w_flatfile'', PDba 0)]"
proof -
  obtain info where "infos (opened True ''w'') 0 = Some info" "is_persistent info" using opened_facts(8) by auto
  from dba_close_keeps_persistent [OF opened_facts(7) _ this, of fs_env] opened_facts(9) show ?thesis by auto
qed

end
