(* ===== verification/DbaSession.thy ===== *)
theory DbaSession
  imports DbaSafety
begin

text \<open>
  Whole scripts: a flat file database is opened, used and closed through the dispatcher, and opened again. This
  puts together the parts below: the mode string and the locking of \<^verbatim>\<open>php_dba_open\<close>, the streams of the
  PHP core by their contract \<open>dba_core\<close>, the flat file library with its own contract, and the table of connections.
\<close>

section \<open>Scripts and maps\<close>

fun call_of :: "nat \<Rightarrow> dba_op \<Rightarrow> dba_call" where
  "call_of ob (Fetch k) = FetchKey (KeyStr k) 0 ob"
| "call_of ob (Replace k v) = Update (KeyStr k) v ob False"
| "call_of ob (Insert k v) = Update (KeyStr k) v ob True"
| "call_of ob (Delete k) = DeleteKey (KeyStr k) ob"

fun php_of :: "dba_result \<Rightarrow> php_value" where
  "php_of (Value None) = PFalse"
| "php_of (Value (Some v)) = PStr v"
| "php_of (Status b) = (if b then PTrue else PFalse)"

fun map_after :: "dba_op list \<Rightarrow> (bytes \<rightharpoonup> bytes) \<Rightarrow> (bytes \<rightharpoonup> bytes)" where
  "map_after [] m = m"
| "map_after (Fetch k # xs) m = map_after xs m"
| "map_after (Replace k v # xs) m = map_after xs (m(k \<mapsto> v))"
| "map_after (Insert k v # xs) m = map_after xs (if m k = None then m(k \<mapsto> v) else m)"
| "map_after (Delete k # xs) m = map_after xs (m(k := None))"

lemma run_calls_append:
  "run_calls env cs st = Some (vs, st1) \<Longrightarrow> run_calls env cs' st1 = Some (vs', st2) \<Longrightarrow> run_calls env (cs @ cs') st = Some (vs @ vs', st2)"
  by (induction cs arbitrary: st vs) (auto simp: bind_eq_Some_conv split: prod.splits)

section \<open>Streams keep their path\<close>

context dba_core
begin

abbreviation (input) "ops \<equiv> env_ops env"

lemmas path_ops = path_seek path_read path_write path_flush path_gets

lemma path_read_length: "read_length ops buf sz s = (r, s') \<Longrightarrow> stream_path s' = stream_path s"
  using path_gets [of "Some 15" s] by (auto simp: read_length_def Let_def split: prod.splits option.splits)

lemma path_read_data: "read_data ops n buf s = (r, s') \<Longrightarrow> stream_path s' = stream_path s"
  using path_read [of "unat n" s] by (auto simp: read_data_def split: prod.splits read_result.splits)

lemma path_findkey_loop: "findkey_loop ops ky buf sz s = Some r \<Longrightarrow> stream_path (snd r) = stream_path s"
proof (rule findkey_loop.raw_induct [of "\<lambda>o' ky buf sz s r. o' = ops \<longrightarrow> stream_path (snd r) = stream_path s" ops ky buf sz s r, THEN mp], goal_cases)
  case (1 f o' ky buf sz s r)
  from 1(3) show ?case
    by (auto split: if_splits prod.splits option.splits dest!: path_read_length path_read_data 1(2))
qed simp_all

lemma path_delete_loop: "delete_loop ops ky buf sz s = Some r \<Longrightarrow> stream_path (snd r) = stream_path s"
proof (rule delete_loop.raw_induct [of "\<lambda>o' ky buf sz s r. o' = ops \<longrightarrow> stream_path (snd r) = stream_path s" ops ky buf sz s r, THEN mp], goal_cases)
  case (1 f o' ky buf sz s r)
  from 1(3) show ?case
    by (auto simp: Let_def path_ops split: if_splits prod.splits option.splits dest!: path_read_length path_read_data 1(2))
qed simp_all

lemma path_findkey: "flatfile_findkey ops s k = Some (b, s') \<Longrightarrow> stream_path s' = stream_path s"
  by (auto simp: flatfile_findkey_def path_ops dest!: path_findkey_loop)

lemma path_delete: "flatfile_delete ops s k = Some (b, s') \<Longrightarrow> stream_path s' = stream_path s"
  by (auto simp: flatfile_delete_def path_ops dest!: path_delete_loop)

lemma path_append: "append_record ops b k v s = (r, s') \<Longrightarrow> stream_path s' = stream_path s"
  using path_write path_flush
  by (auto simp: append_record_def Let_def split: if_splits prod.splits) (metis snd_conv)+

lemma path_gets_eq: "stream_gets ops c s = (r, s') \<Longrightarrow> stream_path s' = stream_path s"
  using path_gets [of c s] by simp

lemma path_read_eq: "stream_read ops n s = (r, s') \<Longrightarrow> stream_path s' = stream_path s"
  using path_read [of n s] by simp

lemma path_flatfile:
  "dba_fetch_flatfile ops d k = Some (r, d') \<Longrightarrow> stream_path (ff_fp d') = stream_path (ff_fp d)"
  "dba_update_flatfile ops d k v m = Some (n, d') \<Longrightarrow> stream_path (ff_fp d') = stream_path (ff_fp d)"
  "dba_delete_flatfile ops d k = Some (n, d') \<Longrightarrow> stream_path (ff_fp d') = stream_path (ff_fp d)"
proof -
  show "dba_fetch_flatfile ops d k = Some (r, d') \<Longrightarrow> stream_path (ff_fp d') = stream_path (ff_fp d)"
    by (auto simp: dba_fetch_flatfile_def flatfile_fetch_def split: option.splits prod.splits if_splits read_result.splits
        dest!: path_findkey path_gets_eq path_read_eq)
  have "flatfile_store ops s k v m = Some (x, s') \<Longrightarrow> stream_path s' = stream_path s" for s x s'
    by (auto simp: flatfile_store_def path_seek split: option.splits prod.splits if_splits dest!: path_findkey path_delete path_append)
  then show "dba_update_flatfile ops d k v m = Some (n, d') \<Longrightarrow> stream_path (ff_fp d') = stream_path (ff_fp d)"
    by (auto simp: dba_update_flatfile_def)
  show "dba_delete_flatfile ops d k = Some (n, d') \<Longrightarrow> stream_path (ff_fp d') = stream_path (ff_fp d)"
    by (auto simp: dba_delete_flatfile_def dest!: path_delete)
qed

text \<open>The operations of the handler return, with the results of a map.\<close>

lemma ff_returns:
  assumes d: "ff_represents contents d m" and k: "ff_key_ok k" and v: "small v"
  shows "\<exists>d'. dba_fetch_flatfile ops d k = Some (opt_value (m k), d') \<and> ff_represents contents d' m"
    "\<exists>d'. dba_update_flatfile ops d k v False = Some (0, d') \<and> ff_represents contents d' (m(k \<mapsto> v))"
    "\<exists>d'. dba_update_flatfile ops d k v True = Some (if m k = None then 0 else -1, d') \<and>
      ff_represents contents d' (if m k = None then m(k \<mapsto> v) else m)"
    "\<exists>d'. dba_delete_flatfile ops d k = Some (if m k = None then -1 else 0, d') \<and> ff_represents contents d' (m(k := None))"
proof -
  obtain rs where rs: "contents (ff_fp d) = ff_file rs" "small_records rs" using d by (auto simp: ff_represents_def)
  have sk: "small k" "k \<noteq> []" using k by (auto simp: ff_key_ok_def)
  obtain x d1 where f: "dba_fetch_flatfile ops d k = Some (x, d1)" "x \<noteq> Overrun"
    using ff_fetch_ok [OF rs sk(1)] by (auto split: option.splits)
  then show "\<exists>d'. dba_fetch_flatfile ops d k = Some (opt_value (m k), d') \<and> ff_represents contents d' m"
    using ff.get_law [OF d k] by (cases x) (auto simp: ff_get_def opt_value_def split: option.splits dest: sym)
  obtain d2 where "dba_update_flatfile ops d k v False = Some (0, d2)" using ff_update_ok(1) [OF rs k v] by auto
  then show "\<exists>d'. dba_update_flatfile ops d k v False = Some (0, d') \<and> ff_represents contents d' (m(k \<mapsto> v))"
    using ff.put_law [OF d k v] by (auto simp: ff_put_def)
  obtain n d3 where "dba_update_flatfile ops d k v True = Some (n, d3)" "n = 0 \<or> n = -1"
    using ff_update_ok(2) [OF rs k v] by (auto split: if_splits)
  then show "\<exists>d'. dba_update_flatfile ops d k v True = Some (if m k = None then 0 else -1, d') \<and>
      ff_represents contents d' (if m k = None then m(k \<mapsto> v) else m)"
    using ff.add_law [OF d k v] by (auto simp: ff_put_def)
  obtain n' d4 where "dba_delete_flatfile ops d k = Some (n', d4)" "n' = 0 \<or> n' = -1"
    using delete_ok [OF rs sk] by (auto simp: dba_delete_flatfile_def split: if_splits)
  then show "\<exists>d'. dba_delete_flatfile ops d k = Some (if m k = None then -1 else 0, d') \<and> ff_represents contents d' (m(k := None))"
    using ff.del_law [OF d k] by (auto simp: ff_del_def)
qed

end

section \<open>A session\<close>

text \<open>
  While a script works with a flat file connection: the connection is the only one to its path, its stream is on
  that path, and the handler's view of the world is the current one.
\<close>

definition session ::
    "('w, 's) dba_env \<Rightarrow> ('s \<Rightarrow> string option) \<Rightarrow> nat \<Rightarrow> string \<Rightarrow> dba_mode \<Rightarrow> u32 \<Rightarrow> 's flatfile \<Rightarrow> ('w, 's) dba_state \<Rightarrow> bool" where
  "session env sp ob p mode n d st \<longleftrightarrow> dba_wf env st \<and> connection_counter st = n \<and>
     (\<exists>c i info. objects st ob = Some c \<and> c_info c = Some i \<and> infos st i = Some info \<and> i_hnd info = Some (hnd_flatfile (env_ops env)) \<and>
        i_dbf info = Some (FlatD d) \<and> i_mode info = mode \<and> \<not> is_persistent info \<and> (\<forall>j m. (j, p, m) \<in> lock_view st \<longrightarrow> j = i)) \<and>
     world st = env_world env (ff_fp d) \<and> sp (ff_fp d) = Some p"

context dba_core
begin

lemma session_call:
  assumes s: "session env stream_path ob p mode n d st" and f: "f (hnd_flatfile ops) (FlatD d) = Some (r, FlatD d')"
    and kt: "keeps_type env f" and sp: "stream_path (ff_fp d') = Some p" and i: "Option.bind (objects st ob) c_info = Some i"
  shows "\<exists>st'. call env i f st = Some (r, st') \<and> session env stream_path ob p mode n d' st'"
proof -
  obtain c info where c: "objects st ob = Some c" "c_info c = Some i" "infos st i = Some info" "i_hnd info = Some (hnd_flatfile ops)"
      "i_dbf info = Some (FlatD d)" "i_mode info = mode" "\<not> is_persistent info" "\<forall>j m. (j, p, m) \<in> lock_view st \<longrightarrow> j = i"
    and w: "dba_wf env st" "connection_counter st = n" "world st = env_world env (ff_fp d)"
    using s i by (auto simp: session_def bind_eq_Some_conv)
  let ?st = "put_info i (info\<lparr>i_dbf := Some (FlatD d')\<rparr>) (st\<lparr>world := env_world env (ff_fp d')\<rparr>)"
  have "current env (world st) (FlatD d) = FlatD d"
    using w(3) refresh_same [of "ff_fp d"] by (simp add: current_def set_stream_def dbf_stream_def)
  then have ca: "call env i f st = Some (r, ?st)" using c f by (simp add: call_def dbf_stream_def)
  have "dba_wf env ?st" by (rule wf_call [OF w(1) ca kt])
  moreover have "lock_view ?st \<subseteq> lock_view st" by (rule call_lock_view [OF ca])
  ultimately have "session env stream_path ob p mode n d' ?st"
    using c w sp unfolding session_def by (auto simp: put_info_def is_persistent_def)
  then show ?thesis using ca by blast
qed

lemma session_object:
  assumes "session env stream_path ob p mode n d st"
  obtains c i info where "objects st ob = Some c" "c_info c = Some i" "infos st i = Some info" "i_hnd info = Some (hnd_flatfile ops)"
    "i_mode info = mode" "Option.bind (objects st ob) c_info = Some i"
  using assms by (auto simp: session_def)

lemma session_op:
  assumes s: "session env stream_path ob p mode n d st" and mode: "mode \<noteq> DBA_READER \<or> (\<exists>k. x = Fetch k)"
    and d: "ff_represents contents d m" and op: "op_ok ff_key_ok small x"
  shows "\<exists>st' d'. run_call env (call_of ob x) st = Some (php_of (hd (map_ops [x] m)), st') \<and>
    session env stream_path ob p mode n d' st' \<and> ff_represents contents d' (map_after [x] m)"
proof -
  obtain c i info where ob: "objects st ob = Some c" "c_info c = Some i" "infos st i = Some info" "i_hnd info = Some (hnd_flatfile ops)"
      "i_mode info = mode" "Option.bind (objects st ob) c_info = Some i"
    by (rule session_object [OF s])
  have sp: "stream_path (ff_fp d) = Some p" using s by (simp add: session_def)
  have sc: "\<exists>st'. call env i f st = Some (r, st') \<and> session env stream_path ob p mode n d' st'"
    if "f (hnd_flatfile ops) (FlatD d) = Some (r, FlatD d')" "keeps_type env f" "stream_path (ff_fp d') = Some p" for f r d'
    using session_call [OF s that ob(6)] .
  note defs = run_call_def dba_insert_def dba_replace_def php_dba_update_def dba_delete_def dba_fetch_def CHECK_DBA_CONNECTION_def
    DBA_WRITE_CHECK_def with_key_def key_str_def fetch_skip_def notice_def hnd_flatfile_def on_flat_def
  show ?thesis
  proof (cases x)
    case (Fetch k)
    then obtain d' where d': "dba_fetch_flatfile ops d k = Some (opt_value (m k), d')" "ff_represents contents d' m"
      using ff_returns(1) [OF d, of k "[]"] op by (auto simp: small_def)
    have "stream_path (ff_fp d') = Some p" using path_flatfile(1) [OF d'(1)] sp by simp
    from sc [OF _ keeps_type_ops(3) this, of k 0 "opt_value (m k)"] d'(1) obtain st' where
      "call env i (\<lambda>h d. h_fetch h d k 0) st = Some (opt_value (m k), st')" "session env stream_path ob p mode n d' st'"
      by (auto simp: hnd_flatfile_def on_flat_def)
    then show ?thesis using ob Fetch d'(2)
      by (intro exI [of _ st'] exI [of _ d']) (simp add: defs opt_value_def php_string_def split: option.split)
  next
    case (Replace k v)
    then obtain d' where d': "dba_update_flatfile ops d k v False = Some (0, d')" "ff_represents contents d' (m(k \<mapsto> v))"
      using ff_returns(2) [OF d, of k v] op by auto
    have "stream_path (ff_fp d') = Some p" using path_flatfile(2) [OF d'(1)] sp by simp
    from sc [OF _ keeps_type_ops(1) this, of k v False 0] d'(1) obtain st' where
      "call env i (\<lambda>h d. h_update h d k v False) st = Some (0, st')" "session env stream_path ob p mode n d' st'"
      by (auto simp: hnd_flatfile_def on_flat_def)
    then show ?thesis using ob mode Replace d'(2)
      by (intro exI [of _ st'] exI [of _ d']) (cases mode; simp add: defs bool_of_status_def)
  next
    case (Insert k v)
    let ?r = "if m k = None then 0 else -1 :: int"
    obtain d' where d': "dba_update_flatfile ops d k v True = Some (?r, d')" "ff_represents contents d' (if m k = None then m(k \<mapsto> v) else m)"
      using ff_returns(3) [OF d, of k v] op Insert by auto
    have "stream_path (ff_fp d') = Some p" using path_flatfile(2) [OF d'(1)] sp by simp
    from sc [OF _ keeps_type_ops(1) this, of k v True ?r] d'(1) obtain st' where
      "call env i (\<lambda>h d. h_update h d k v True) st = Some (?r, st')" "session env stream_path ob p mode n d' st'"
      by (auto simp: hnd_flatfile_def on_flat_def)
    then show ?thesis using ob mode Insert d'(2)
      by (intro exI [of _ st'] exI [of _ d']) (cases mode; simp add: defs bool_of_status_def)
  next
    case (Delete k)
    let ?r = "if m k = None then -1 else 0 :: int"
    obtain d' where d': "dba_delete_flatfile ops d k = Some (?r, d')" "ff_represents contents d' (m(k := None))"
      using ff_returns(4) [OF d, of k "[]"] op Delete by (auto simp: small_def)
    have "stream_path (ff_fp d') = Some p" using path_flatfile(3) [OF d'(1)] sp by simp
    from sc [OF _ keeps_type_ops(4) this, of k ?r] d'(1) obtain st' where
      "call env i (\<lambda>h d. h_delete h d k) st = Some (?r, st')" "session env stream_path ob p mode n d' st'"
      by (auto simp: hnd_flatfile_def on_flat_def)
    then show ?thesis using ob mode Delete d'(2)
      by (intro exI [of _ st'] exI [of _ d']) (cases mode; simp add: defs bool_of_status_def)
  qed
qed

lemma map_ops_Cons: "map_ops (x # xs) m = hd (map_ops [x] m) # map_ops xs (map_after [x] m)" "map_after (x # xs) m = map_after xs (map_after [x] m)"
  by (cases x; simp)+

lemma session_run:
  assumes "session env stream_path ob p mode n d st" "mode \<noteq> DBA_READER" "ff_represents contents d m" "\<forall>x \<in> set xs. op_ok ff_key_ok small x"
  shows "\<exists>st' d'. run_calls env (map (call_of ob) xs) st = Some (map php_of (map_ops xs m), st') \<and>
    session env stream_path ob p mode n d' st' \<and> ff_represents contents d' (map_after xs m)"
  using assms
proof (induction xs arbitrary: st d m)
  case (Cons x xs)
  obtain st1 d1 where 1: "run_call env (call_of ob x) st = Some (php_of (hd (map_ops [x] m)), st1)"
      "session env stream_path ob p mode n d1 st1" "ff_represents contents d1 (map_after [x] m)"
    using session_op [OF Cons.prems(1) _ Cons.prems(3), of x] Cons.prems(2,4) by auto
  from Cons.IH [OF 1(2) Cons.prems(2) 1(3)] Cons.prems(4) obtain st2 d2
    where "run_calls env (map (call_of ob) xs) st1 = Some (map php_of (map_ops xs (map_after [x] m)), st2)"
      "session env stream_path ob p mode n d2 st2" "ff_represents contents d2 (map_after xs (map_after [x] m))" by auto
  then show ?case using 1(1) by (subst (1 2) map_ops_Cons) auto
qed auto

lemma disk_free_streams: "disk (free_streams env info w) = disk w"
  by (simp add: free_streams_def Let_def close_file split: option.split)

lemma session_close:
  assumes s: "session env stream_path ob p mode n d st"
  shows "\<exists>st'. dba_close env ob st = Some (PNull, st') \<and> dba_wf env st' \<and> connection_counter st' = n \<and>
    disk (world st') p = contents (ff_fp d) \<and> (\<forall>j m. (j, p, m) \<notin> lock_view st')"
proof -
  obtain c i info where c: "objects st ob = Some c" "c_info c = Some i" "infos st i = Some info" "i_hnd info = Some (hnd_flatfile ops)"
      "i_dbf info = Some (FlatD d)" "\<not> is_persistent info" "\<forall>j m. (j, p, m) \<in> lock_view st \<longrightarrow> j = i"
    and w: "dba_wf env st" "connection_counter st = n" "world st = env_world env (ff_fp d)" "stream_path (ff_fp d) = Some p"
    using s by (auto simp: session_def)
  let ?st = "forget ob c (st\<lparr>world := free_streams env info (world st), infos := (infos st)(i := None)\<rparr>)"
  have "current env (world st) (FlatD d) = FlatD d"
    using w(3) refresh_same [of "ff_fp d"] by (simp add: current_def set_stream_def dbf_stream_def)
  then have "dba_close_info env i st = Some (st\<lparr>world := free_streams env info (world st), infos := (infos st)(i := None)\<rparr>)"
    using c w(3) by (simp add: dba_close_info_def hnd_flatfile_def dba_close_flatfile_def)
  then have cl: "dba_close_connection env ob st = Some ?st" using c by (simp add: dba_close_connection_def is_persistent_def)
  then have "dba_close env ob st = Some (PNull, ?st)" using c by (simp add: dba_close_def is_persistent_def)
  moreover have "dba_wf env ?st" by (rule wf_close_connection [OF w(1) cl])
  moreover have "disk (world ?st) p = contents (ff_fp d)"
    using file_contents [OF w(4)] w(3) by (simp add: forget_def disk_free_streams)
  moreover have "(j, p, m) \<notin> lock_view ?st" for j m
  proof
    assume v: "(j, p, m) \<in> lock_view ?st"
    then have "j = i" using close_lock_view [OF w(1) cl] c(7) by blast
    then show False using lock_view_info [OF v] by (simp add: forget_def)
  qed
  ultimately show ?thesis using w(2) by (intro exI [of _ ?st]) (simp add: forget_def)
qed

end

text \<open>Opening. The two modes of the scripts below: truncate, and read.\<close>

definition mode_of :: "string \<Rightarrow> open_mode" where
  "mode_of m = (if m = ''r'' then \<lparr>modenr = DBA_READER, lock_mode = LOCK_SH, file_mode = ''r'', lock_file_mode = ''r''\<rparr>
     else \<lparr>modenr = DBA_TRUNC, lock_mode = LOCK_EX, file_mode = ''w+b'', lock_file_mode = ''w+b''\<rparr>)"

definition default_lock :: lock_choice where
  "default_lock = \<lparr>is_test_lock = False, is_db_lock = True, is_lock_ignored = False, lock_flag = DBA_LOCK_ALL, lock_notice = None\<rparr>"

lemma parse_default: "m \<in> {''n'', ''r''} \<Longrightarrow> parse_mode (hnd_flatfile o') m = Inr (default_lock, mode_of m)"
  by (auto simp: mode_defs hnd_flatfile_def dba_flag_defs default_lock_def mode_of_def)

lemma find_flatfile: "find_handler (handler o') ''flatfile'' = Some (hnd_flatfile o')"
proof -
  have "strcaseeq ''cdb'' ''flatfile'' = False" "strcaseeq ''cdb_make'' ''flatfile'' = False" "strcaseeq ''inifile'' ''flatfile'' = False"
      "strcaseeq ''flatfile'' ''flatfile'' = True" by code_simp+
  then show ?thesis by (simp add: find_handler_def handler_defs c_string_def)
qed

lemma args_simps [simp]: "a_path (args p m h) = p" "a_mode (args p m h) = m" "a_handler (args p m h) = Some h"
  "p \<noteq> [] \<Longrightarrow> m \<noteq> [] \<Longrightarrow> h \<noteq> [] \<Longrightarrow> check_args (args p m h) = None"
  by (simp_all add: args_def check_args_def)

lemma find_None_view: "(\<forall>j l. (j, p, l) \<notin> lock_view st) \<Longrightarrow> php_dba_find p st = None"
  using find_listed by (cases "php_dba_find p st") blast+

lemma session_registered:
  assumes wf: "dba_wf env s1" and reg: "registered False rk (next_object s1) (next_info s1) info' (allocated rk info s1) (PConn (next_object s1), s3)"
    and wf3: "dba_wf env s3" "world s3 = env_world env (ff_fp d)" and none: "\<forall>j l. (j, p, l) \<notin> lock_view s1"
    and info': "i_hnd info' = Some (hnd_flatfile (env_ops env))" "i_dbf info' = Some (FlatD d)" "i_mode info' = mode" "\<not> is_persistent info'"
    and sp: "sp (ff_fp d) = Some p"
  shows "session env sp (next_object s1) p mode (connection_counter s1) d s3"
proof -
  obtain s2 where s2: "touched (next_info s1) (allocated rk info s1) s2" "infos s2 (next_info s1) = Some info'" "objects s3 = objects s2"
      "infos s3 = infos s2" "connection_counter s3 = connection_counter s2"
    using reg by (auto simp: registered_def)
  have ob: "objects s3 (next_object s1) = Some \<lparr>c_info = Some (next_info s1), c_hash = Some rk\<rparr>" "connection_counter s3 = connection_counter s1"
    using touched_frame [OF s2(1)] s2(3,5) by (simp_all add: allocated_def put_info_def)
  have "\<forall>k l. (k, p, l) \<in> lock_view s3 \<longrightarrow> k = next_info s1"
    using view_registered [OF wf reg] none by auto
  then show ?thesis unfolding session_def using ob s2(2,4) wf3 info' sp by auto
qed

context dba_core
begin

text \<open>The streams that \<^verbatim>\<open>php_dba_open\<close> asks for.\<close>

lemma open_streams:
  assumes acc: "accessible p" and m: "m \<in> {''n'', ''r''}" and info: "i_path info = p" "i_lock_fp info = None"
  shows "\<exists>i fd w' info1 w1. open_lock env False p default_lock (mode_of m) info w = (Go None, info1, w1) \<and>
    open_stream env False (hnd_flatfile ops) default_lock (mode_of m) info1 w1 = (Go None, info1\<lparr>i_fp := Some i, i_fd := fd\<rparr>, w', None) \<and>
    info1 = info\<lparr>i_lock_fp := Some i\<rparr> \<and> stream_path (env_attach env i w') = Some p \<and>
    contents (env_attach env i w') = (if m = ''r'' then disk w p else [])"
proof -
  let ?fm = "lock_file_mode (mode_of m)"
  have fm: "?fm \<in> {''r'', ''w+b''}" "?fm = ''r'' \<longleftrightarrow> m = ''r''" using m by (auto simp: mode_of_def)
  obtain i w1 where o: "env_open env p ?fm True False w = (Some (i, Some p), w1)" "disk w1 p = (if m = ''r'' then disk w p else [])"
      "stream_path (env_attach env i w1) = Some p"
    using open_file [OF acc fm(1)] fm(2) by metis
  obtain w2 where l: "env_supports_lock env i w1" "env_lock env i (lock_mode (mode_of m)) w1 = (0, w2)" "disk w2 = disk w1"
    using lock_ok [OF o(3) acc] by blast
  obtain fd w3 where c: "env_cast env i w2 = (Some fd, w3)" "disk w3 = disk w2" using cast_ok by blast
  have path: "stream_path (env_attach env i w3) = Some p" using attach_path(1) [OF l(2)] attach_path(2) [OF c(1)] o(3) by simp
  then have cont: "contents (env_attach env i w3) = disk w3 p" using file_contents attach_world by metis
  have "lock_mode (mode_of m) \<noteq> 0" by (simp add: mode_of_def)
  then have "open_lock env False p default_lock (mode_of m) info w = (Go None, info\<lparr>i_lock_fp := Some i\<rparr>, w2)"
    using o(1) l(1,2) info by (cases info) (simp add: open_lock_def default_lock_def Let_def take_lock_def)
  moreover have "open_stream env False (hnd_flatfile ops) default_lock (mode_of m) (info\<lparr>i_lock_fp := Some i\<rparr>) w2 =
      (Go None, info\<lparr>i_lock_fp := Some i\<rparr>\<lparr>i_fp := Some i, i_fd := fd\<rparr>, w3, None)"
    using c(1) by (auto simp: open_stream_def default_lock_def Let_def hnd_flatfile_def dba_flag_defs mode_of_def)
  ultimately show ?thesis using path cont o(2) l(3) c(2) by metis
qed

lemma session_open:
  assumes wf: "dba_wf env st" and c: "connection_counter st + 1 \<noteq> 0" and acc: "accessible p" "p \<noteq> []" and m: "m \<in> {''n'', ''r''}"
    and none: "\<forall>j l. (j, p, l) \<notin> lock_view st"
  shows "\<exists>ob st' d. run_call env (Open False (args p m ''flatfile'')) st = Some (PConn ob, st') \<and>
    session env stream_path ob p (modenr (mode_of m)) (connection_counter st + 1) d st' \<and>
    contents (ff_fp d) = (if m = ''r'' then disk (world st) p else [])"
proof -
  let ?a = "args p m ''flatfile''" and ?h = "hnd_flatfile ops" and ?ob = "next_object st" and ?i = "next_info st"
  define s1 where "s1 = st\<lparr>connection_counter := connection_counter st + 1\<rparr>"
  define rk where "rk = resource_key False (connection_counter st) ?a"
  define info :: "'s dba_info" where "info = new_info False ?h ?a default_lock (mode_of m)"
  define al where "al = allocated rk info s1"
  have key: "dba_wf env s1" "new_key False rk s1" using open_key_new [OF wf c] unfolding s1_def rk_def by auto
  have view: "lock_view s1 = lock_view st" "lock_view al = lock_view st"
    using view_touched [OF key(1) touched_refl] by (simp_all add: al_def s1_def lock_view_def)
  have nf: "notice None s1 = s1" by (simp add: notice_def)
  have new: "map_of (connections s1) rk = None" using key(2) unfolding new_key_def map_of_eq_None_iff by blast
  have info: "i_path info = p" "i_lock_fp info = None" "i_mode info = modenr (mode_of m)" by (simp_all add: info_def new_info_def)
  obtain j fd w' info1 w1 where str: "open_lock env False p default_lock (mode_of m) info (world st) = (Go None, info1, w1)"
      "open_stream env False ?h default_lock (mode_of m) info1 w1 = (Go None, info1\<lparr>i_fp := Some j, i_fd := fd\<rparr>, w', None)"
      "info1 = info\<lparr>i_lock_fp := Some j\<rparr>" "stream_path (env_attach env j w') = Some p"
      "contents (env_attach env j w') = (if m = ''r'' then disk (world st) p else [])"
    using open_streams [OF acc(1) m info(1,2)] by blast
  define d where "d = dba_open_flatfile (env_attach env j w')"
  define info' where "info' = info1\<lparr>i_fp := Some j, i_fd := fd, i_dbf := Some (FlatD d), i_hnd := Some ?h\<rparr>"
  define s2 where "s2 = put_info ?i info' (al\<lparr>world := w'\<rparr>)"
  define s3 where "s3 = s2\<lparr>persistent_list := persistent_list al, connections := connections al @ [(rk, ?ob)]\<rparr>"
  have fp: "ff_fp d = env_attach env j w'" by (simp add: d_def dba_open_flatfile_def)
  have fd: "php_dba_find p al = None" using none view by (intro find_None_view) simp
  have ao: "already_open ?h (mode_of m) p al = None" by (simp add: already_open_def fd)
  have wal: "world al = world st" by (simp add: al_def allocated_def put_info_def s1_def)
  have "h_open ?h (i_mode info1) (env_attach env j w') = Inr (FlatD d)" by (simp add: hnd_flatfile_def d_def)
  moreover have "env_world env (dbf_stream (FlatD d)) = w'" by (simp add: dbf_stream_def fp attach_world)
  ultimately have "open_driver env False True rk ?h ?ob ?i (info1\<lparr>i_fp := Some j, i_fd := fd\<rparr>) (al\<lparr>world := w'\<rparr>) = Some (PConn ?ob, s3)"
    by (simp add: open_driver_def open_register_def s3_def s2_def info'_def put_info_def)
  then have "open_connection env False ?a rk ?h default_lock (mode_of m) True ?ob ?i info al = Some (PConn ?ob, s3)"
    using str(1,2) by (simp add: open_connection_def info(1) ao wal)
  then have on: "open_new env False ?a rk s1 = Some (PConn ?ob, s3)"
    using parse_default [OF m, of ops] find_flatfile [of ops] new nf
    by (simp add: open_new_def choose_handler_def connection_for_def al_def allocated_def Let_def info_def default_lock_def [THEN arg_cong [of _ _ lock_notice]])
      (simp add: s1_def put_info_def)
  have res: "run_call env (Open False ?a) st = Some (PConn ?ob, s3)"
    using on m acc(2) by (auto simp: run_call_def dba_open_def php_dba_open_def s1_def rk_def Let_def)
  have t: "registered False rk ?ob ?i info' (allocated rk info s1) (PConn ?ob, s3)"
    unfolding registered_def s3_def al_def [symmetric] s2_def
    by (intro conjI exI [of _ "put_info ?i info' (al\<lparr>world := w'\<rparr>)"]) (simp_all)
  have "dba_wf env s3" using wf_run_call [OF wf res c] by simp
  moreover have "\<not> is_persistent info'"
    by (simp add: is_persistent_def info'_def str(3) info_def new_info_def hnd_flatfile_def default_lock_def dba_flag_defs)
  moreover have "world s3 = env_world env (ff_fp d)" by (simp add: s3_def s2_def put_info_def fp attach_world)
  ultimately have "session env stream_path ?ob p (modenr (mode_of m)) (connection_counter s1) d s3"
    using session_registered [where ?s1.0 = s1 and info = info and info' = info' and mode = "modenr (mode_of m)" and sp = stream_path,
        OF key(1) _ _ _ none [folded view(1)]] t str(4) fp info(3)
    by (simp add: s1_def info'_def str(3))
  then show ?thesis using res str(5) fp by (auto simp: s1_def)
qed

lemma script_persists:
  assumes wf: "dba_wf env st" and c: "unat (connection_counter st) < 2 ^ 32 - 2" and acc: "accessible p" "p \<noteq> []"
    and none: "\<forall>j l. (j, p, l) \<notin> lock_view st" and xs: "\<forall>x \<in> set xs. op_ok ff_key_ok small x" and k: "ff_key_ok k"
  shows "\<exists>ob ob' st'. run_calls env (Open False (args p ''n'' ''flatfile'') # map (call_of ob) xs @
      [Close ob, Open False (args p ''r'' ''flatfile''), FetchKey (KeyStr k) 0 ob']) st =
    Some (PConn ob # map php_of (map_ops xs Map.empty) @ [PNull, PConn ob', php_of (Value (map_after xs Map.empty k))], st')"
proof -
  let ?c = "connection_counter st"
  have c1: "unat (?c + 1) = Suc (unat ?c)" "unat (?c + 1 + 1) = Suc (Suc (unat ?c))"
    using c by (simp_all add: unat_word_ariths)
  then have c0: "?c + 1 \<noteq> 0" "?c + 1 + 1 \<noteq> 0" by auto
  obtain ob s1 d1 where 1: "run_call env (Open False (args p ''n'' ''flatfile'')) st = Some (PConn ob, s1)"
      "session env stream_path ob p (modenr (mode_of ''n'')) (?c + 1) d1 s1" "contents (ff_fp d1) = []"
    using session_open [OF wf c0(1) acc _ none, of "''n''"] by auto
  have "ff_represents contents d1 Map.empty" using 1(3) by (auto simp: ff_represents_def small_records_def intro!: exI [of _ "[]"])
  with 1(2) obtain s2 d2 where 2: "run_calls env (map (call_of ob) xs) s1 = Some (map php_of (map_ops xs Map.empty), s2)"
      "session env stream_path ob p (modenr (mode_of ''n'')) (?c + 1) d2 s2" "ff_represents contents d2 (map_after xs Map.empty)"
    using session_run [OF _ _ _ xs] by (fastforce simp: mode_of_def)
  obtain s3 where 3: "dba_close env ob s2 = Some (PNull, s3)" "dba_wf env s3" "connection_counter s3 = ?c + 1"
      "disk (world s3) p = contents (ff_fp d2)" "\<forall>j m. (j, p, m) \<notin> lock_view s3"
    using session_close [OF 2(2)] by blast
  obtain ob' s4 d4 where 4: "run_call env (Open False (args p ''r'' ''flatfile'')) s3 = Some (PConn ob', s4)"
      "session env stream_path ob' p (modenr (mode_of ''r'')) (?c + 1 + 1) d4 s4" "contents (ff_fp d4) = contents (ff_fp d2)"
    using session_open [OF 3(2) _ acc _ 3(5), of "''r''"] 3(3,4) c0(2) by auto
  have "ff_represents contents d4 (map_after xs Map.empty)" using 2(3) 4(3) by (simp add: ff_represents_def)
  then obtain s5 where 5: "run_call env (FetchKey (KeyStr k) 0 ob') s4 = Some (php_of (Value (map_after xs Map.empty k)), s5)"
    using session_op [OF 4(2), of "Fetch k" "map_after xs Map.empty"] k by auto
  have "run_call env (Close ob) s2 = Some (PNull, s3)" using 3(1) by (simp add: run_call_def)
  then have "run_calls env [Close ob, Open False (args p ''r'' ''flatfile''), FetchKey (KeyStr k) 0 ob'] s2 =
      Some ([PNull, PConn ob', php_of (Value (map_after xs Map.empty k))], s5)"
    using 4(1) 5 by simp
  from run_calls_append [OF 2(1) this] 1(1) show ?thesis by auto
qed

end

lemma dba_list_view: "(i, p, m) \<in> lock_view st \<Longrightarrow> p \<in> snd ` set (dba_list st)"
  unfolding lock_view_def dba_list_def set_map_filter_eq by (force simp: bind_eq_Some_conv)

section \<open>Properties\<close>

text \<open>
  C4: databases persist. On a PHP core that meets its contract, in any reachable state in which the path is not
  open: a script that opens a new flat file database, runs any sequence of fetches,
  replacements, insertions and deletions on it, closes it and opens it again for reading gets every
  result that a finite map gives, and a fetch through the second connection finds the
  value that the map has at the end. Every call returns. (Keys and values as in the contract of the flat file handler, and
  fewer than \<open>2^32 - 2\<close> connections opened before.)
\<close>

theorem dba_session_persists:
  assumes "dba_core env contents offset disk stream_path accessible" and "dba_reachable env st"
    and "accessible p" and "p \<noteq> []" and "p \<notin> snd ` set (dba_list st)" and "unat (connection_counter st) < 2 ^ 32 - 2"
    and "\<forall>x \<in> set xs. op_ok ff_key_ok small x" and "ff_key_ok k"
  shows "\<exists>ob ob' st'. run_calls env (Open False (args p ''n'' ''flatfile'') # map (call_of ob) xs @
      [Close ob, Open False (args p ''r'' ''flatfile''), FetchKey (KeyStr k) 0 ob']) st =
    Some (PConn ob # map php_of (map_ops xs Map.empty) @ [PNull, PConn ob', php_of (Value (map_after xs Map.empty k))], st')"
proof -
  have "\<forall>j l. (j, p, l) \<notin> lock_view st" using dba_list_view assms(5) by blast
  from dba_core.script_persists [OF assms(1) reachable_wf [OF assms(2)] assms(6,3,4) this assms(7,8)] show ?thesis .
qed

theorem dba_session_persists_witness:
  "\<exists>ob ob' st'. run_calls fs_env [Open False (args ''p'' ''n'' ''flatfile''), Update (KeyStr ''a'') ''1'' ob False, Update (KeyStr ''a'') ''2'' ob True,
      DeleteKey (KeyStr ''b'') ob, Close ob, Open False (args ''p'' ''r'' ''flatfile''), FetchKey (KeyStr ''a'') 0 ob'] start_state =
    Some ([PConn ob, PTrue, PFalse, PFalse, PNull, PConn ob', PStr ''1''], st')"
proof -
  have "dba_reachable fs_env start_state" unfolding start_state_def by (rule dba_reachable.start)
  moreover have "dba_list start_state = []" "connection_counter start_state = 0" by code_simp+
  ultimately show ?thesis
    using dba_session_persists [OF fs_core.dba_core_axioms, of start_state "''p''"
        "[Replace ''a'' ''1'', Insert ''a'' ''2'', Delete ''b'']" "''a''"]
    by (simp add: ff_key_ok_def small_def)
qed

end
