(* ===== verification/MemoryStorage.thy ===== *)
theory MemoryStorage
  imports Prelude
begin

text \<open>
  The memory storage extension, \<^verbatim>\<open>compile/php-wasm-memory-storage/wasm_memory_storage.c\<close>: the two callbacks through
  which the Zend memory manager gets its chunks, and their registration in its heap. The memory is
  a map from addresses to bytes with the list of the chunks in use; \<^verbatim>\<open>posix_memalign\<close> and \<^verbatim>\<open>free\<close> of the C
  library are parameters, and the locale \<open>aligned_allocator\<close> states what they promise.
\<close>

section \<open>Memory\<close>

record c_memory =
  cells :: "nat \<Rightarrow> char"
  chunks :: "(nat \<times> nat) list" \<comment> \<open>address and size\<close>

definition memset :: "nat \<Rightarrow> char \<Rightarrow> nat \<Rightarrow> c_memory \<Rightarrow> c_memory" where
  "memset p c n m = m\<lparr>cells := (\<lambda>a. if p \<le> a \<and> a < p + n then c else cells m a)\<rparr>"

definition apart :: "nat \<times> nat \<Rightarrow> nat \<times> nat \<Rightarrow> bool" where
  "apart x y \<longleftrightarrow> fst x + snd x \<le> fst y \<or> fst y + snd y \<le> fst x"

definition contents_of :: "c_memory \<Rightarrow> nat \<times> nat \<Rightarrow> bytes" where
  "contents_of m x = map (cells m) [fst x..<fst x + snd x]"

section \<open>The callbacks\<close>

text \<open>\<^verbatim>\<open>posix_memalign\<close> gives the address, or \<^const>\<open>None\<close> for any status but zero.\<close>

type_synonym memalign = "nat \<Rightarrow> nat \<Rightarrow> c_memory \<Rightarrow> nat option \<times> c_memory"

definition wasm_memory_storage_chunk_alloc :: "memalign \<Rightarrow> nat \<Rightarrow> nat \<Rightarrow> c_memory \<Rightarrow> nat option \<times> c_memory" where
  "wasm_memory_storage_chunk_alloc posix_memalign sz alignment m =
     (case posix_memalign alignment sz m of
        (Some p, m1) \<Rightarrow> (Some p, memset p nul sz m1)
      | (None, m1) \<Rightarrow> (None, m1))"

definition wasm_memory_storage_chunk_free :: "(nat \<Rightarrow> c_memory \<Rightarrow> c_memory) \<Rightarrow> nat \<Rightarrow> nat \<Rightarrow> c_memory \<Rightarrow> c_memory" where
  "wasm_memory_storage_chunk_free c_free p sz m = c_free p m"

record zend_mm_storage =
  chunk_alloc :: "nat \<Rightarrow> nat \<Rightarrow> c_memory \<Rightarrow> nat option \<times> c_memory"
  chunk_free :: "nat \<Rightarrow> nat \<Rightarrow> c_memory \<Rightarrow> c_memory"
  chunk_truncate :: "(nat \<Rightarrow> nat \<Rightarrow> nat \<Rightarrow> c_memory \<Rightarrow> bool \<times> c_memory) option"
  chunk_extend :: "(nat \<Rightarrow> nat \<Rightarrow> nat \<Rightarrow> c_memory \<Rightarrow> bool \<times> c_memory) option"

definition wasm_memory_storage_struct :: "memalign \<Rightarrow> (nat \<Rightarrow> c_memory \<Rightarrow> c_memory) \<Rightarrow> zend_mm_storage" where
  "wasm_memory_storage_struct posix_memalign c_free =
     \<lparr>chunk_alloc = wasm_memory_storage_chunk_alloc posix_memalign, chunk_free = wasm_memory_storage_chunk_free c_free,
      chunk_truncate = None, chunk_extend = None\<rparr>"

text \<open>The start of the structure of the Zend heap, as far as the extension declares it.\<close>

record wasm_memory_storage_heap =
  custom :: int
  storage :: "zend_mm_storage option"

definition wasm_memory_storage_minit :: "zend_mm_storage \<Rightarrow> wasm_memory_storage_heap \<Rightarrow> wasm_memory_storage_heap" where
  "wasm_memory_storage_minit s heap = heap\<lparr>storage := Some s\<rparr>"

definition wasm_memory_storage_mshutdown :: "wasm_memory_storage_heap \<Rightarrow> wasm_memory_storage_heap" where
  "wasm_memory_storage_mshutdown heap = heap\<lparr>storage := None\<rparr>"

section \<open>The contract of the C library\<close>

definition memory_ok :: "c_memory \<Rightarrow> bool" where
  "memory_ok m \<longleftrightarrow> sorted_wrt apart (chunks m) \<and> distinct (map fst (chunks m)) \<and> (\<forall>x \<in> set (chunks m). 0 < snd x)"

locale aligned_allocator =
  fixes posix_memalign :: memalign
    and c_free :: "nat \<Rightarrow> c_memory \<Rightarrow> c_memory"
    and alignment_ok :: "nat \<Rightarrow> bool"
  assumes memalign_some: "memory_ok m \<Longrightarrow> alignment_ok al \<Longrightarrow> 0 < n \<Longrightarrow> posix_memalign al n m = (Some p, m1) \<Longrightarrow>
      al dvd p \<and> chunks m1 = (p, n) # chunks m \<and> memory_ok m1 \<and> (\<forall>x \<in> set (chunks m). contents_of m1 x = contents_of m x)"
    and memalign_none: "posix_memalign al n m = (None, m1) \<Longrightarrow> chunks m1 = chunks m \<and> cells m1 = cells m"
    and free_chunk: "memory_ok m \<Longrightarrow> (p, n) \<in> set (chunks m) \<Longrightarrow>
      chunks (c_free p m) = filter (\<lambda>x. fst x \<noteq> p) (chunks m) \<and>
      (\<forall>x \<in> set (chunks (c_free p m)). contents_of (c_free p m) x = contents_of m x)"

lemma chunks_memset [simp]: "chunks (memset p c n m) = chunks m"
  by (simp add: memset_def)

lemma contents_memset_same: "contents_of (memset p c n m) (p, n) = replicate n c"
  by (rule nth_equalityI) (simp_all add: contents_of_def memset_def)

lemma contents_memset_apart: "apart (p, n) x \<Longrightarrow> contents_of (memset p c n m) x = contents_of m x"
  by (auto simp: contents_of_def memset_def apart_def)

lemma memory_ok_memset [simp]: "memory_ok (memset p c n m) = memory_ok m"
  by (simp add: memory_ok_def)

text \<open>The manager's requests: chunks it asks for and chunks it gives back.\<close>

datatype request = Alloc nat nat | Free nat

fun serve :: "zend_mm_storage \<Rightarrow> request \<Rightarrow> c_memory \<Rightarrow> nat option \<times> c_memory" where
  "serve s (Alloc sz al) m = chunk_alloc s sz al m"
| "serve s (Free p) m = (None, case map_of (chunks m) p of None \<Rightarrow> m | Some n \<Rightarrow> chunk_free s p n m)"

fun request_ok :: "(nat \<Rightarrow> bool) \<Rightarrow> c_memory \<Rightarrow> request \<Rightarrow> bool" where
  "request_ok al_ok m (Alloc sz al) \<longleftrightarrow> 0 < sz \<and> al_ok al"
| "request_ok al_ok m (Free p) \<longleftrightarrow> p \<in> fst ` set (chunks m)"

context aligned_allocator
begin

lemma alloc_chunk:
  assumes "memory_ok m" "alignment_ok al" "0 < n" "wasm_memory_storage_chunk_alloc posix_memalign n al m = (Some p, m')"
  shows "al dvd p" "chunks m' = (p, n) # chunks m" "memory_ok m'" "contents_of m' (p, n) = replicate n nul"
    "x \<in> set (chunks m) \<Longrightarrow> apart (p, n) x \<and> contents_of m' x = contents_of m x"
proof -
  obtain m1 where m1: "posix_memalign al n m = (Some p, m1)" and m': "m' = memset p nul n m1"
    using assms(4) by (auto simp: wasm_memory_storage_chunk_alloc_def split: prod.splits option.splits)
  note p = memalign_some [OF assms(1-3) m1]
  show "al dvd p" "chunks m' = (p, n) # chunks m" "memory_ok m'" using p m' by auto
  show "contents_of m' (p, n) = replicate n nul" using m' contents_memset_same by simp
  assume x: "x \<in> set (chunks m)"
  then have "apart (p, n) x" using p by (auto simp: memory_ok_def)
  then show "apart (p, n) x \<and> contents_of m' x = contents_of m x" using p m' x by (simp add: contents_memset_apart)
qed

lemma alloc_fails:
  "wasm_memory_storage_chunk_alloc posix_memalign n al m = (None, m') \<Longrightarrow> chunks m' = chunks m \<and> cells m' = cells m"
  by (auto simp: wasm_memory_storage_chunk_alloc_def dest!: memalign_none split: prod.splits option.splits)

lemma memory_ok_filter:
  assumes "memory_ok m" "chunks m' = filter P (chunks m)" shows "memory_ok m'"
  using assms by (auto simp: memory_ok_def sorted_wrt_filter distinct_map_filter)

lemma serve_keeps:
  assumes "memory_ok m" "request_ok alignment_ok m r" "serve (wasm_memory_storage_struct posix_memalign c_free) r m = (q, m')"
  shows "memory_ok m' \<and> (\<forall>x \<in> set (chunks m') \<inter> set (chunks m). contents_of m' x = contents_of m x)"
proof (cases r)
  case (Alloc n al)
  have ok: "alignment_ok al" "0 < n" and s: "wasm_memory_storage_chunk_alloc posix_memalign n al m = (q, m')"
    using assms Alloc by (auto simp: wasm_memory_storage_struct_def)
  show ?thesis
  proof (cases q)
    case None
    then show ?thesis using alloc_fails s assms(1) by (force simp: memory_ok_def contents_of_def)
  next
    case (Some p)
    then show ?thesis using alloc_chunk [OF assms(1) ok, of p m'] s by auto
  qed
next
  case (Free p)
  then obtain n where n: "map_of (chunks m) p = Some n" using assms(2) by (metis map_of_eq_None_iff not_Some_eq request_ok.simps(2))
  then have "m' = c_free p m" using assms(3) Free by (simp add: wasm_memory_storage_struct_def wasm_memory_storage_chunk_free_def)
  then show ?thesis
    using free_chunk [OF assms(1) map_of_SomeD [OF n]] memory_ok_filter [OF assms(1)] by auto
qed

end

section \<open>An allocator that meets the contract\<close>

text \<open>Each chunk is placed behind all others, at the next multiple of the alignment; there is a limit to the memory.\<close>

definition top_addr :: "c_memory \<Rightarrow> nat" where
  "top_addr m = foldr (\<lambda>x t. max (fst x + snd x) t) (chunks m) 0"

definition bump_memalign :: "nat \<Rightarrow> memalign" where
  "bump_memalign limit al n m =
     (let p = (top_addr m + al - 1) div al * al
      in if p + n \<le> limit then (Some p, m\<lparr>chunks := (p, n) # chunks m\<rparr>) else (None, m))"

definition bump_free :: "nat \<Rightarrow> c_memory \<Rightarrow> c_memory" where
  "bump_free p m = m\<lparr>chunks := filter (\<lambda>x. fst x \<noteq> p) (chunks m)\<rparr>"

lemma top_above: "x \<in> set (chunks m) \<Longrightarrow> fst x + snd x \<le> top_addr m"
proof -
  have "x \<in> set xs \<Longrightarrow> fst x + snd x \<le> foldr (\<lambda>x t. max (fst x + snd x) t) xs 0" for xs
    by (induction xs) (auto simp: le_max_iff_disj)
  then show "x \<in> set (chunks m) \<Longrightarrow> fst x + snd x \<le> top_addr m" by (simp add: top_addr_def)
qed

lemma round_up_ge: "0 < al \<Longrightarrow> (t :: nat) \<le> (t + al - 1) div al * al"
  using div_mult_mod_eq [of "t + al - 1" al] mod_less_divisor [of al "t + al - 1"] by linarith

lemma bump_behind:
  assumes "memory_ok m" "0 < al" "x \<in> set (chunks m)"
  shows "apart ((top_addr m + al - 1) div al * al, n) x" "(top_addr m + al - 1) div al * al \<noteq> fst x"
  using top_above [OF assms(3)] round_up_ge [OF assms(2), of "top_addr m"] assms(1,3) by (fastforce simp: apart_def memory_ok_def)+

interpretation bump: aligned_allocator "bump_memalign limit" bump_free "\<lambda>al. 0 < al"
proof unfold_locales
  fix m al n p m1
  assume m: "memory_ok m" and al: "0 < al" and n: "0 < n" and p: "bump_memalign limit al n m = (Some p, m1)"
  then have *: "p = (top_addr m + al - 1) div al * al" "m1 = m\<lparr>chunks := (p, n) # chunks m\<rparr>"
    by (auto simp: bump_memalign_def Let_def split: if_splits)
  have "memory_ok m1" using m n bump_behind(1) [OF m al, of _ n] bump_behind(2) [OF m al] * by (fastforce simp: memory_ok_def)
  then show "al dvd p \<and> chunks m1 = (p, n) # chunks m \<and> memory_ok m1 \<and> (\<forall>x \<in> set (chunks m). contents_of m1 x = contents_of m x)"
    using * by (simp add: contents_of_def)
next
  fix m al n m1
  assume "bump_memalign limit al n m = (None, m1)"
  then show "chunks m1 = chunks m \<and> cells m1 = cells m" by (auto simp: bump_memalign_def Let_def split: if_splits)
next
  fix m p n
  show "chunks (bump_free p m) = filter (\<lambda>x. fst x \<noteq> p) (chunks m) \<and>
    (\<forall>x \<in> set (chunks (bump_free p m)). contents_of (bump_free p m) x = contents_of m x)"
    by (simp add: bump_free_def contents_of_def)
qed

section \<open>Properties\<close>

text \<open>
  C34: chunks. Registered in the heap of the memory manager, the storage gives it, on a C library that
  keeps its promises, chunks that are aligned as asked, filled with zeros and disjoint from all
  chunks in use, whose contents stay; a failed request changes nothing; and any request, a
  release included, keeps the contents of the chunks that remain.
\<close>

theorem storage_chunks:
  assumes "aligned_allocator posix_memalign c_free alignment_ok" and "memory_ok m" and "request_ok alignment_ok m r"
    and "storage (wasm_memory_storage_minit (wasm_memory_storage_struct posix_memalign c_free) heap) = Some s"
    and "serve s r m = (q, m')"
  shows "memory_ok m' \<and> (\<forall>x \<in> set (chunks m') \<inter> set (chunks m). contents_of m' x = contents_of m x) \<and>
    (\<forall>n al p. r = Alloc n al \<longrightarrow> q = Some p \<longrightarrow>
       al dvd p \<and> contents_of m' (p, n) = replicate n nul \<and> chunks m' = (p, n) # chunks m \<and> (\<forall>x \<in> set (chunks m). apart (p, n) x)) \<and>
    (\<forall>n al. r = Alloc n al \<longrightarrow> q = None \<longrightarrow> chunks m' = chunks m \<and> cells m' = cells m) \<and>
    (\<forall>p. r = Free p \<longrightarrow> chunks m' = filter (\<lambda>x. fst x \<noteq> p) (chunks m))"
proof -
  have s: "s = wasm_memory_storage_struct posix_memalign c_free" using assms(4) by (simp add: wasm_memory_storage_minit_def)
  note keep = aligned_allocator.serve_keeps [OF assms(1,2,3) assms(5) [unfolded s]]
  have al: "wasm_memory_storage_chunk_alloc posix_memalign n al m = (q, m')" "0 < n" "alignment_ok al" if "r = Alloc n al" for n al
    using that assms(3,5) by (auto simp: s wasm_memory_storage_struct_def)
  have fr: "chunks m' = filter (\<lambda>x. fst x \<noteq> p) (chunks m)" if r: "r = Free p" for p
  proof -
    obtain n where n: "map_of (chunks m) p = Some n" using assms(3) r by (metis map_of_eq_None_iff not_Some_eq request_ok.simps(2))
    then have "m' = c_free p m"
      using assms(5) r by (simp add: s wasm_memory_storage_struct_def wasm_memory_storage_chunk_free_def)
    then show ?thesis using aligned_allocator.free_chunk [OF assms(1,2) map_of_SomeD [OF n]] by simp
  qed
  have some: "al dvd p \<and> contents_of m' (p, n) = replicate n nul \<and> chunks m' = (p, n) # chunks m \<and> (\<forall>x \<in> set (chunks m). apart (p, n) x)"
    if "r = Alloc n al" "q = Some p" for n al p
    using aligned_allocator.alloc_chunk [OF assms(1,2) al(3,2) [OF that(1)] al(1) [OF that(1), unfolded that(2)]] by simp
  have none: "chunks m' = chunks m \<and> cells m' = cells m" if "r = Alloc n al" "q = None" for n al
    using aligned_allocator.alloc_fails [OF assms(1) al(1) [OF that(1), unfolded that(2)]] .
  show ?thesis using keep some none fr by simp
qed

theorem storage_chunks_witness:
  "\<exists>m'. serve (wasm_memory_storage_struct (bump_memalign 4096) bump_free) (Alloc 32 16) \<lparr>cells = (\<lambda>_. CHR ''x''), chunks = [(0, 5)]\<rparr> = (Some 16, m') \<and>
    contents_of m' (16, 32) = replicate 32 nul \<and> contents_of m' (0, 5) = ''xxxxx''"
proof -
  let ?m = "\<lparr>cells = (\<lambda>_ :: nat. CHR ''x''), chunks = [(0, 5)]\<rparr> :: c_memory"
  let ?s = "wasm_memory_storage_struct (bump_memalign 4096) bump_free"
  have 1: "serve ?s (Alloc 32 16) ?m = (Some 16, memset 16 nul 32 (?m\<lparr>chunks := [(16, 32), (0, 5)]\<rparr>))"
    by (simp add: wasm_memory_storage_struct_def wasm_memory_storage_chunk_alloc_def bump_memalign_def top_addr_def Let_def)
  have 2: "memory_ok ?m" by (simp add: memory_ok_def)
  have 3: "contents_of ?m (0, 5) = ''xxxxx''" by (simp add: contents_of_def numeral_eq_Suc)
  show ?thesis
    using storage_chunks [OF bump.aligned_allocator_axioms 2 _ _ 1, where heap = "\<lparr>custom = 0, storage = None\<rparr>"] 1 3
    by (auto simp: wasm_memory_storage_minit_def)
qed

end
