(* ===== verification/Shims.thy ===== *)
theory Shims
  imports CHeap
begin

text \<open>
  The remaining functions of the interface to JavaScript: the shims of \<^verbatim>\<open>compile/php/php_wasm.c\<close> that hand a call of the
  C library on, the release of a process handle in \<^verbatim>\<open>compile/php/proc_open.c\<close>, its stubs for PHP 5, and the functions of the
  DNS extension \<^verbatim>\<open>compile/php-wasm-dns-polyfill/dns_polyfill.c\<close>, which answer without a network. The functions of JavaScript and of the C library
  are parameters.
\<close>

section \<open>Shims\<close>

type_synonym 'w sockopt = "int \<Rightarrow> int \<Rightarrow> int \<Rightarrow> bytes \<Rightarrow> 'w \<Rightarrow> int \<times> 'w"

definition syscall_setsockopt :: "'w sockopt \<Rightarrow> int \<Rightarrow> int \<Rightarrow> int \<Rightarrow> bytes \<Rightarrow> int \<Rightarrow> 'w \<Rightarrow> int \<times> 'w" where
  "syscall_setsockopt js_setsockopt sockfd level optname optval dummy w = js_setsockopt sockfd level optname optval w"

text \<open>\<^verbatim>\<open>setsockopt\<close> of the C library makes the system call and turns a negative result into -1 and \<^verbatim>\<open>errno\<close>.\<close>

definition libc_setsockopt :: "'w sockopt \<Rightarrow> int \<Rightarrow> int \<Rightarrow> int \<Rightarrow> bytes \<Rightarrow> 'w \<Rightarrow> (int \<times> int option) \<times> 'w" where
  "libc_setsockopt js_setsockopt sockfd level optname optval w =
     (case syscall_setsockopt js_setsockopt sockfd level optname optval 0 w of
        (r, w1) \<Rightarrow> (if r < 0 then (-1, Some (- r)) else (r, None), w1))"

definition wasm_setsockopt :: "'w sockopt \<Rightarrow> int \<Rightarrow> int \<Rightarrow> int \<Rightarrow> bytes \<Rightarrow> 'w \<Rightarrow> (int \<times> int option) \<times> 'w" where
  "wasm_setsockopt js_setsockopt sockfd level optname optval w = libc_setsockopt js_setsockopt sockfd level optname optval w"

definition wasm_free :: "ptr \<Rightarrow> cheap \<Rightarrow> fault + cheap" where
  "wasm_free p h = free_if p h"

text \<open>\<^verbatim>\<open>fstat\<close> gives the size of the file, an \<^verbatim>\<open>off_t\<close> of 64 bits, or fails.\<close>

definition wasm_get_end_offset :: "(int \<Rightarrow> 64 word option) \<Rightarrow> int \<Rightarrow> 64 word" where
  "wasm_get_end_offset fstat fd =
     (case fstat fd of None \<Rightarrow> -1 | Some eof_offset \<Rightarrow> if eof_offset <s 0 then -1 else eof_offset)"

definition wrap_getpid :: "int \<Rightarrow> int" where
  "wrap_getpid js_getpid = js_getpid"

definition flock :: "(int \<Rightarrow> int \<Rightarrow> 'w \<Rightarrow> int \<times> 'w) \<Rightarrow> int \<Rightarrow> int \<Rightarrow> 'w \<Rightarrow> int \<times> 'w" where
  "flock js_flock fd operation w = js_flock fd operation w"

text \<open>
  \<^verbatim>\<open>wasm_trace\<close> formats into \<^verbatim>\<open>buf\<close> and passes the other array, \<^verbatim>\<open>traceBuf\<close>, which is never written: its
  bytes are those the stack happens to hold.
\<close>

definition wasm_trace :: "('f \<Rightarrow> 'a \<Rightarrow> string) \<Rightarrow> (bytes \<Rightarrow> 'w \<Rightarrow> 'w) \<Rightarrow> 'f \<Rightarrow> 'a \<Rightarrow> bytes \<Rightarrow> 'w \<Rightarrow> bytes \<times> 'w" where
  "wasm_trace format js_wasm_trace fmt args traceBuf w =
     (let buf = take 1023 (format fmt args) @ [nul] in (buf, js_wasm_trace traceBuf w))"

definition initgroups :: "string \<Rightarrow> int \<Rightarrow> int" where
  "initgroups user grp = 0"

lemma end_offset_nonnegative:
  "wasm_get_end_offset fstat fd = -1 \<or> (\<exists>s. fstat fd = Some s \<and> 0 \<le>s s \<and> wasm_get_end_offset fstat fd = s)"
  by (auto simp: wasm_get_end_offset_def not_le word_sless_alt word_sle_eq split: option.splits)

lemma setsockopt_error:
  assumes "js_setsockopt fd level optname v w = (- e, w1)" and "0 < e"
  shows "wasm_setsockopt js_setsockopt fd level optname v w = ((-1, Some e), w1)"
  using assms by (simp add: wasm_setsockopt_def libc_setsockopt_def syscall_setsockopt_def)

text \<open>What JavaScript receives does not depend on the message.\<close>

lemma trace_ignores_message:
  "snd (wasm_trace format js_wasm_trace fmt args traceBuf w) = snd (wasm_trace format js_wasm_trace fmt' args' traceBuf w)"
  by (simp add: wasm_trace_def)

section \<open>The release of a process handle\<close>

record process_blocks =
  pb_envarray :: ptr
  pb_envp :: ptr
  pb_pipes :: ptr
  pb_command :: ptr

definition php_free_envp :: "process_blocks \<Rightarrow> cheap \<Rightarrow> fault + cheap" where
  "php_free_envp env h = rbind (free_if (pb_envarray env) h) (free_if (pb_envp env))"

text \<open>The end of \<^verbatim>\<open>proc_open_rsrc_dtor\<close>, for PHP 7 and later; and the destructor for PHP 5, where the resource may be null.\<close>

definition release_process :: "addr \<Rightarrow> process_blocks \<Rightarrow> cheap \<Rightarrow> fault + cheap" where
  "release_process proc b h =
     rbind (php_free_envp b h) (\<lambda>h1. rbind (free_if (pb_pipes b) h1) (\<lambda>h2. rbind (free_if (pb_command b) h2) (free proc)))"

definition proc_open_rsrc_dtor_legacy :: "(addr \<times> process_blocks) option \<Rightarrow> cheap \<Rightarrow> fault + cheap" where
  "proc_open_rsrc_dtor_legacy rsrc h =
     (case rsrc of
        None \<Rightarrow> Inr h
      | Some (proc, b) \<Rightarrow>
          rbind (free_if (pb_pipes b) h) (\<lambda>h1. rbind (free_if (pb_command b) h1) (\<lambda>h2.
          rbind (free_if (pb_envarray b) h2) (\<lambda>h3. rbind (free_if (pb_envp b) h3) (free proc)))))"

definition owned_blocks :: "addr \<Rightarrow> process_blocks \<Rightarrow> addr list" where
  "owned_blocks proc b = concat (map (\<lambda>p. case p of None \<Rightarrow> [] | Some a \<Rightarrow> [a]) [pb_envarray b, pb_envp b, pb_pipes b, pb_command b]) @ [proc]"

definition free_list :: "addr list \<Rightarrow> cheap \<Rightarrow> fault + cheap" where
  "free_list as h = free_all free as h"

lemma free_if_list: "free_if p = free_list (case p of None \<Rightarrow> [] | Some a \<Rightarrow> [a])"
  by (rule ext) (auto simp: free_list_def free_if_def rbind_def split: option.splits sum.splits)

lemma free_single: "free a = free_list [a]"
  by (rule ext) (auto simp: free_list_def rbind_def split: sum.splits)

lemma rbind_free_list: "rbind (free_list xs h) (free_list ys) = free_list (xs @ ys) h"
  unfolding free_list_def [abs_def] by (simp add: free_all_append)

lemmas frees = free_if_list free_single rbind_free_list

lemma release_process_all: "release_process proc b h = free_list (owned_blocks proc b) h"
  unfolding release_process_def php_free_envp_def frees by (simp add: owned_blocks_def)

lemma legacy_dtor_all:
  "proc_open_rsrc_dtor_legacy (Some (proc, b)) h =
     free_list (owned_blocks proc \<lparr>pb_envarray = pb_pipes b, pb_envp = pb_command b, pb_pipes = pb_envarray b, pb_command = pb_envp b\<rparr>) h"
  unfolding proc_open_rsrc_dtor_legacy_def option.case prod.case frees by (simp add: owned_blocks_def)

text \<open>
  Both destructors free each block of the handle exactly once and no other block, whichever of the
  optional blocks are present.
\<close>

theorem process_handle_released:
  assumes "heap_ok h" and "distinct (owned_blocks proc b)" and "\<And>a. a \<in> set (owned_blocks proc b) \<Longrightarrow> block_at h a \<noteq> None"
  shows "\<exists>h1 h2. release_process proc b h = Inr h1 \<and> proc_open_rsrc_dtor_legacy (Some (proc, b)) h = Inr h2 \<and>
    (\<forall>x. block_at h1 x = (if x \<in> set (owned_blocks proc b) then None else block_at h x) \<and> block_at h2 x = block_at h1 x)"
proof -
  let ?c = "\<lparr>pb_envarray = pb_pipes b, pb_envp = pb_command b, pb_pipes = pb_envarray b, pb_command = pb_envp b\<rparr>"
  have same: "set (owned_blocks proc ?c) = set (owned_blocks proc b)" "distinct (owned_blocks proc ?c) = distinct (owned_blocks proc b)"
    by (auto simp: owned_blocks_def split: option.splits)
  from heap.dispose_all [OF assms] heap.dispose_all [OF assms(1), of "owned_blocks proc ?c"] assms(2,3) same
  show ?thesis unfolding release_process_all legacy_dtor_all free_list_def by force
qed

section \<open>The stubs for PHP 5\<close>

datatype stub_value = SFalse | SLong int | SStatus "(string \<times> string) list" "(string \<times> int) list" "(string \<times> bool) list" | SEmptyArray

definition proc_terminate_5 :: "stub_value \<times> string" where
  "proc_terminate_5 = (SFalse, ''proc_terminate is not supported in this WASM build'')"

definition proc_close_5 :: "stub_value \<times> string" where
  "proc_close_5 = (SLong (-1), ''proc_close is not supported in this WASM build'')"

definition proc_get_status_5 :: "stub_value \<times> string" where
  "proc_get_status_5 =
     (SStatus [(''command'', '''')] [(''pid'', 0), (''exitcode'', -1), (''termsig'', 0), (''stopsig'', 0)]
        [(''running'', False), (''signaled'', False), (''stopped'', False)],
      ''proc_get_status is not supported in this WASM build'')"

definition proc_open_5 :: "stub_value \<times> string" where
  "proc_open_5 = (SFalse, ''proc_open is not fully supported in this WASM build'')"

section \<open>DNS\<close>

text \<open>
  The variables of the caller, and the slots of the call. An argument passed by reference is, from PHP 7 on, a
  slot that points to the caller's variable; \<^verbatim>\<open>array_init\<close> on the slot itself overwrites the
  pointer. In PHP 5 the argument is the caller's variable.
\<close>

datatype 'v php_var = Var_value 'v | Empty_array

datatype 'v slot = Points_to nat | Slot_value "'v php_var"

record 'v call_frame =
  slots :: "'v slot list"
  vars :: "nat \<Rightarrow> 'v php_var"
  warnings :: "string list"

definition array_init :: "bool \<Rightarrow> nat \<Rightarrow> 'v call_frame \<Rightarrow> 'v call_frame" where
  "array_init php7 i f =
     (case slots f ! i of
        Points_to n \<Rightarrow> if php7 then f\<lparr>slots := (slots f)[i := Slot_value Empty_array]\<rparr> else f\<lparr>vars := (vars f)(n := Empty_array)\<rparr>
      | Slot_value v \<Rightarrow> f\<lparr>slots := (slots f)[i := Slot_value Empty_array]\<rparr>)"

definition init_if_given :: "bool \<Rightarrow> nat option \<Rightarrow> 'v call_frame \<Rightarrow> 'v call_frame" where
  "init_if_given php7 arg f = (case arg of None \<Rightarrow> f | Some i \<Rightarrow> array_init php7 i f)"

definition php_warn :: "string \<Rightarrow> 'v call_frame \<Rightarrow> 'v call_frame" where
  "php_warn m f = f\<lparr>warnings := warnings f @ [m]\<rparr>"

definition dns_check_record :: "string \<Rightarrow> 'v call_frame \<Rightarrow> stub_value \<times> 'v call_frame" where
  "dns_check_record hostname f =
     (if length hostname = 0 then (SFalse, php_warn ''Host cannot be empty'' f)
      else (SFalse, php_warn ''dns_check_record() always returns false in PHP.wasm.'' f))"

text \<open>The optional arguments are the positions of their slots; the pointers tested after \<^verbatim>\<open>array_init\<close> are never null.\<close>

definition dns_get_record :: "bool \<Rightarrow> nat option \<Rightarrow> nat option \<Rightarrow> 'v call_frame \<Rightarrow> stub_value \<times> 'v call_frame" where
  "dns_get_record php7 authns addtl f =
     (SEmptyArray, php_warn ''dns_get_record() always returns an empty array in PHP.wasm.''
        (init_if_given php7 addtl (init_if_given php7 authns f)))"

definition dns_get_mx :: "bool \<Rightarrow> nat \<Rightarrow> nat option \<Rightarrow> 'v call_frame \<Rightarrow> stub_value \<times> 'v call_frame" where
  "dns_get_mx php7 mx_list weight_list f =
     (SFalse, php_warn ''dns_get_mx() always returns an empty array in PHP.wasm.''
        (init_if_given php7 weight_list (array_init php7 mx_list f)))"

lemma array_init_vars:
  "vars (array_init True i f) = vars f"
  "slots f ! i = Points_to n \<Longrightarrow> vars (array_init False i f) = (vars f)(n := Empty_array)"
  by (auto simp: array_init_def split: slot.splits)

text \<open>
  From PHP 7 on the variables passed for the results keep their values, in PHP 5 they become empty arrays; and
  \<^verbatim>\<open>dns_get_mx\<close> returns false where its warning announces an array.
\<close>

theorem dns_results_not_delivered:
  "vars (snd (dns_get_record True authns addtl f)) = vars f \<and> vars (snd (dns_get_mx True mx_list weight_list f)) = vars f \<and>
   fst (dns_get_mx True mx_list weight_list f) = SFalse \<and>
   (slots f ! mx_list = Points_to n \<longrightarrow> vars (snd (dns_get_mx False mx_list None f)) n = Empty_array)"
  by (auto simp: dns_get_record_def dns_get_mx_def init_if_given_def php_warn_def array_init_vars split: option.splits)

end
