(* ===== verification/MysqlndCharset.thy ===== *)
theory MysqlndCharset
  imports Prelude
begin

text \<open>
  The character sets of the MySQL client library, \<^verbatim>\<open>compile/extensions/mysqlnd/mysqlnd_charset.c\<close>: the functions that recognise a
  multi-byte character and that judge a byte by itself, the table of character sets, and the two
  functions that escape a string for use between quotes in a statement.

  A pair of pointers into the string is the list of the bytes between them. A byte behind the end is read as NUL, which is right
  for the byte right behind a PHP string. \<^verbatim>\<open>char\<close> is signed, so a byte passed as an \<^verbatim>\<open>unsigned int\<close> is sign extended.
\<close>

section \<open>Bytes\<close>

abbreviation (input) uc :: "char \<Rightarrow> nat" where
  "uc c \<equiv> of_char c"

definition at :: "bytes \<Rightarrow> nat \<Rightarrow> nat" where
  "at s i = (if i < length s then uc (s ! i) else 0)"

definition as_unsigned :: "char \<Rightarrow> u32" where
  "as_unsigned c = (if uc c < 0x80 then of_nat (uc c) else of_nat (uc c) + 0xFFFFFF00)"

definition uchar :: "u32 \<Rightarrow> nat" where
  "uchar c = unat (c AND 0xFF)"

section \<open>Characters of several bytes\<close>

definition LOWEST_MB_BIG5 :: nat where "LOWEST_MB_BIG5 = 0xA1"
definition LOWEST_MB_UJIS :: nat where "LOWEST_MB_UJIS = 0x80"
definition LOWEST_MB_SJIS :: nat where "LOWEST_MB_SJIS = 0x80"
definition LOWEST_MB_EUCKR :: nat where "LOWEST_MB_EUCKR = 0x80"
definition LOWEST_MB_GB2312 :: nat where "LOWEST_MB_GB2312 = 0xA1"
definition LOWEST_MB_GBK :: nat where "LOWEST_MB_GBK = 0x80"
definition LOWEST_MB_UTF8MB3 :: nat where "LOWEST_MB_UTF8MB3 = 0x80"
definition LOWEST_MB_UCS2 :: nat where "LOWEST_MB_UCS2 = 0x00"
definition LOWEST_MB_EUCJPMS :: nat where "LOWEST_MB_EUCJPMS = 0x80"
definition LOWEST_MB_UTF8 :: nat where "LOWEST_MB_UTF8 = 0x80"
definition LOWEST_MB_UTF16 :: nat where "LOWEST_MB_UTF16 = 0x00"
definition LOWEST_MB_UTF32 :: nat where "LOWEST_MB_UTF32 = 0x00"
definition LOWEST_MB_CP932 :: nat where "LOWEST_MB_CP932 = 0x80"
definition LOWEST_MB_GB18030 :: nat where "LOWEST_MB_GB18030 = 0x00"

lemmas lowest_defs = LOWEST_MB_BIG5_def LOWEST_MB_UJIS_def LOWEST_MB_SJIS_def LOWEST_MB_EUCKR_def LOWEST_MB_GB2312_def
  LOWEST_MB_GBK_def LOWEST_MB_UTF8MB3_def LOWEST_MB_UCS2_def LOWEST_MB_EUCJPMS_def LOWEST_MB_UTF8_def LOWEST_MB_UTF16_def
  LOWEST_MB_UTF32_def LOWEST_MB_CP932_def LOWEST_MB_GB18030_def

datatype mysqlnd_encoding_charlen =
    mysqlnd_mbcharlen_null_id | mysqlnd_mbcharlen_big5_id | mysqlnd_mbcharlen_ujis_id | mysqlnd_mbcharlen_sjis_id
  | mysqlnd_mbcharlen_euckr_id | mysqlnd_mbcharlen_gb2312_id | mysqlnd_mbcharlen_gbk_id | mysqlnd_mbcharlen_utf8mb3_id
  | mysqlnd_mbcharlen_ucs2_id | mysqlnd_mbcharlen_eucjpms_id | mysqlnd_mbcharlen_utf8_id | mysqlnd_mbcharlen_utf16_id
  | mysqlnd_mbcharlen_utf32_id | mysqlnd_mbcharlen_cp932_id | mysqlnd_mbcharlen_gb18030_id

datatype mysqlnd_encoding_valid =
    check_null_id | check_mb_big5_id | check_mb_ujis_id | check_mb_sjis_id | check_mb_euckr_id | check_mb_gb2312_id
  | check_mb_gbk_id | check_mb_utf8mb3_valid_id | check_mb_ucs2_id | check_mb_eucjpms_id | check_mb_utf8_valid_id
  | check_mb_utf16_id | check_mb_utf32_id | check_mb_cp932_id | my_ismbchar_gb18030_id

subsection \<open>UTF-8\<close>

definition continuation :: "nat \<Rightarrow> bool" where
  "continuation b \<longleftrightarrow> (of_nat b :: u32) XOR 0x80 < 0x40"

definition check_mb_utf8mb3_sequence :: "bytes \<Rightarrow> nat" where
  "check_mb_utf8mb3_sequence s =
     (if s = [] then 0
      else let c = at s 0 in
           if c < 0x80 then 1
           else if c < 0xC2 then 0
           else if c < 0xE0 then (if 2 > length s then 0 else if \<not> continuation (at s 1) then 0 else 2)
           else if c < 0xF0 then
             (if 3 > length s then 0
              else if \<not> (continuation (at s 1) \<and> continuation (at s 2) \<and> (c \<ge> 0xE1 \<or> at s 1 \<ge> 0xA0)) then 0 else 3)
           else 0)"

definition check_mb_utf8_sequence :: "bytes \<Rightarrow> nat" where
  "check_mb_utf8_sequence s =
     (if s = [] then 0
      else let c = at s 0 in
           if c < 0x80 then 1
           else if c < 0xC2 then 0
           else if c < 0xE0 then (if 2 > length s then 0 else if \<not> continuation (at s 1) then 0 else 2)
           else if c < 0xF0 then
             (if 3 > length s then 0
              else if \<not> (continuation (at s 1) \<and> continuation (at s 2) \<and> (c \<ge> 0xE1 \<or> at s 1 \<ge> 0xA0)) then 0 else 3)
           else if c < 0xF5 then
             (if 4 > length s then 0
              else if \<not> (continuation (at s 1) \<and> continuation (at s 2) \<and> continuation (at s 3) \<and>
                        (c \<ge> 0xF1 \<or> at s 1 \<ge> 0x90) \<and> (c \<le> 0xF3 \<or> at s 1 \<le> 0x8F)) then 0 else 4)
           else 0)"

definition check_mb_utf8mb3_valid :: "bytes \<Rightarrow> nat" where
  "check_mb_utf8mb3_valid s = (let len = check_mb_utf8mb3_sequence s in if len > 1 then len else 0)"

definition check_mb_utf8_valid :: "bytes \<Rightarrow> nat" where
  "check_mb_utf8_valid s = (let len = check_mb_utf8_sequence s in if len > 1 then len else 0)"

definition mysqlnd_mbcharlen_utf8mb3 :: "u32 \<Rightarrow> nat" where
  "mysqlnd_mbcharlen_utf8mb3 utf8 =
     (if utf8 < 0x80 then 1 else if utf8 < 0xC2 then 0 else if utf8 < 0xE0 then 2 else if utf8 < 0xF0 then 3 else 0)"

definition mysqlnd_mbcharlen_utf8 :: "u32 \<Rightarrow> nat" where
  "mysqlnd_mbcharlen_utf8 utf8 =
     (if utf8 < 0x80 then 1 else if utf8 < 0xC2 then 0 else if utf8 < 0xE0 then 2 else if utf8 < 0xF0 then 3
      else if utf8 < 0xF8 then 4 else 0)"

subsection \<open>Chinese, Japanese and Korean\<close>

definition valid_big5head :: "nat \<Rightarrow> bool" where "valid_big5head c \<longleftrightarrow> 0xA1 \<le> c \<and> c \<le> 0xF9"
definition valid_big5tail :: "nat \<Rightarrow> bool" where "valid_big5tail c \<longleftrightarrow> 0x40 \<le> c \<and> c \<le> 0x7E \<or> 0xA1 \<le> c \<and> c \<le> 0xFE"

definition check_mb_big5 :: "bytes \<Rightarrow> nat" where
  "check_mb_big5 s = (if valid_big5head (at s 0) \<and> length s > 1 \<and> valid_big5tail (at s 1) then 2 else 0)"

definition mysqlnd_mbcharlen_big5 :: "u32 \<Rightarrow> nat" where
  "mysqlnd_mbcharlen_big5 big5 = (if valid_big5head (uchar big5) then 2 else 1)"

definition valid_cp932head :: "nat \<Rightarrow> bool" where "valid_cp932head c \<longleftrightarrow> 0x81 \<le> c \<and> c \<le> 0x9F \<or> 0xE0 \<le> c \<and> c \<le> 0xFC"
definition valid_cp932tail :: "nat \<Rightarrow> bool" where "valid_cp932tail c \<longleftrightarrow> 0x40 \<le> c \<and> c \<le> 0x7E \<or> 0x80 \<le> c \<and> c \<le> 0xFC"

definition check_mb_cp932 :: "bytes \<Rightarrow> nat" where
  "check_mb_cp932 s = (if valid_cp932head (at s 0) \<and> length s > 1 \<and> valid_cp932tail (at s 1) then 2 else 0)"

definition mysqlnd_mbcharlen_cp932 :: "u32 \<Rightarrow> nat" where
  "mysqlnd_mbcharlen_cp932 cp932 = (if valid_cp932head (uchar cp932) then 2 else 1)"

definition valid_euckr :: "nat \<Rightarrow> bool" where "valid_euckr c \<longleftrightarrow> 0xA1 \<le> c \<and> c \<le> 0xFE"

definition check_mb_euckr :: "bytes \<Rightarrow> nat" where
  "check_mb_euckr s = (if length s \<le> 1 then 0 else if at s 0 < 0x80 then 0 else if valid_euckr (at s 1) then 2 else 0)"

definition mysqlnd_mbcharlen_euckr :: "u32 \<Rightarrow> nat" where
  "mysqlnd_mbcharlen_euckr kr = (if valid_euckr (uchar kr) then 2 else 1)"

definition valid_eucjpms :: "nat \<Rightarrow> bool" where "valid_eucjpms c \<longleftrightarrow> c \<ge> 0xA1 \<and> c \<le> 0xFE"
definition valid_eucjpms_kata :: "nat \<Rightarrow> bool" where "valid_eucjpms_kata c \<longleftrightarrow> c \<ge> 0xA1 \<and> c \<le> 0xDF"
definition valid_eucjpms_ss2 :: "nat \<Rightarrow> bool" where "valid_eucjpms_ss2 c \<longleftrightarrow> c = 0x8E"
definition valid_eucjpms_ss3 :: "nat \<Rightarrow> bool" where "valid_eucjpms_ss3 c \<longleftrightarrow> c = 0x8F"

definition check_mb_eucjpms :: "bytes \<Rightarrow> nat" where
  "check_mb_eucjpms s =
     (if at s 0 < 0x80 then 0
      else if valid_eucjpms (at s 0) \<and> length s > 1 \<and> valid_eucjpms (at s 1) then 2
      else if valid_eucjpms_ss2 (at s 0) \<and> length s > 1 \<and> valid_eucjpms_kata (at s 1) then 2
      else if valid_eucjpms_ss3 (at s 0) \<and> length s > 2 \<and> valid_eucjpms (at s 1) \<and> valid_eucjpms (at s 2) then 3
      else 0)"

definition mysqlnd_mbcharlen_eucjpms :: "u32 \<Rightarrow> nat" where
  "mysqlnd_mbcharlen_eucjpms jpms =
     (if valid_eucjpms (uchar jpms) \<or> valid_eucjpms_ss2 (uchar jpms) then 2 else if valid_eucjpms_ss3 (uchar jpms) then 3 else 1)"

definition valid_gb2312_head :: "nat \<Rightarrow> bool" where "valid_gb2312_head c \<longleftrightarrow> 0xA1 \<le> c \<and> c \<le> 0xF7"
definition valid_gb2312_tail :: "nat \<Rightarrow> bool" where "valid_gb2312_tail c \<longleftrightarrow> 0xA1 \<le> c \<and> c \<le> 0xFE"

definition check_mb_gb2312 :: "bytes \<Rightarrow> nat" where
  "check_mb_gb2312 s = (if valid_gb2312_head (at s 0) \<and> length s > 1 \<and> valid_gb2312_tail (at s 1) then 2 else 0)"

definition mysqlnd_mbcharlen_gb2312 :: "u32 \<Rightarrow> nat" where
  "mysqlnd_mbcharlen_gb2312 gb = (if valid_gb2312_head (uchar gb) then 2 else 1)"

definition valid_gbk_head :: "nat \<Rightarrow> bool" where "valid_gbk_head c \<longleftrightarrow> 0x81 \<le> c \<and> c \<le> 0xFE"
definition valid_gbk_tail :: "nat \<Rightarrow> bool" where "valid_gbk_tail c \<longleftrightarrow> 0x40 \<le> c \<and> c \<le> 0x7E \<or> 0x80 \<le> c \<and> c \<le> 0xFE"

definition check_mb_gbk :: "bytes \<Rightarrow> nat" where
  "check_mb_gbk s = (if valid_gbk_head (at s 0) \<and> length s > 1 \<and> valid_gbk_tail (at s 1) then 2 else 0)"

definition mysqlnd_mbcharlen_gbk :: "u32 \<Rightarrow> nat" where
  "mysqlnd_mbcharlen_gbk gbk = (if valid_gbk_head (uchar gbk) then 2 else 1)"

definition valid_sjis_head :: "nat \<Rightarrow> bool" where "valid_sjis_head c \<longleftrightarrow> 0x81 \<le> c \<and> c \<le> 0x9F \<or> 0xE0 \<le> c \<and> c \<le> 0xFC"
definition valid_sjis_tail :: "nat \<Rightarrow> bool" where "valid_sjis_tail c \<longleftrightarrow> 0x40 \<le> c \<and> c \<le> 0x7E \<or> 0x80 \<le> c \<and> c \<le> 0xFC"

definition check_mb_sjis :: "bytes \<Rightarrow> nat" where
  "check_mb_sjis s = (if valid_sjis_head (at s 0) \<and> length s > 1 \<and> valid_sjis_tail (at s 1) then 2 else 0)"

definition mysqlnd_mbcharlen_sjis :: "u32 \<Rightarrow> nat" where
  "mysqlnd_mbcharlen_sjis sjis = (if valid_sjis_head (uchar sjis) then 2 else 1)"

definition valid_ujis :: "nat \<Rightarrow> bool" where "valid_ujis c \<longleftrightarrow> 0xA1 \<le> c \<and> c \<le> 0xFE"
definition valid_ujis_kata :: "nat \<Rightarrow> bool" where "valid_ujis_kata c \<longleftrightarrow> 0xA1 \<le> c \<and> c \<le> 0xDF"
definition valid_ujis_ss2 :: "nat \<Rightarrow> bool" where "valid_ujis_ss2 c \<longleftrightarrow> c = 0x8E"
definition valid_ujis_ss3 :: "nat \<Rightarrow> bool" where "valid_ujis_ss3 c \<longleftrightarrow> c = 0x8F"

text \<open>The second byte is read without a look at the end.\<close>

definition check_mb_ujis :: "bytes \<Rightarrow> nat" where
  "check_mb_ujis s =
     (if at s 0 < 0x80 then 0
      else if valid_ujis (at s 0) \<and> valid_ujis (at s 1) then 2
      else if valid_ujis_ss2 (at s 0) \<and> valid_ujis_kata (at s 1) then 2
      else if valid_ujis_ss3 (at s 0) \<and> length s > 2 \<and> valid_ujis (at s 1) \<and> valid_ujis (at s 2) then 3
      else 0)"

definition mysqlnd_mbcharlen_ujis :: "u32 \<Rightarrow> nat" where
  "mysqlnd_mbcharlen_ujis ujis =
     (if valid_ujis (uchar ujis) then 2 else if valid_ujis_ss2 (uchar ujis) then 2 else if valid_ujis_ss3 (uchar ujis) then 3 else 1)"

definition is_gb18030_odd :: "nat \<Rightarrow> bool" where "is_gb18030_odd c \<longleftrightarrow> 0x81 \<le> c \<and> c \<le> 0xFE"
definition is_gb18030_even_2 :: "nat \<Rightarrow> bool" where "is_gb18030_even_2 c \<longleftrightarrow> 0x40 \<le> c \<and> c \<le> 0x7E \<or> 0x80 \<le> c \<and> c \<le> 0xFE"
definition is_gb18030_even_4 :: "nat \<Rightarrow> bool" where "is_gb18030_even_4 c \<longleftrightarrow> 0x30 \<le> c \<and> c \<le> 0x39"

definition mysqlnd_mbcharlen_gb18030 :: "u32 \<Rightarrow> nat" where
  "mysqlnd_mbcharlen_gb18030 c =
     (if c \<le> 0xFF then (if is_gb18030_odd (uchar c) then 0 else 1)
      else if c > 0xFFFF \<or> \<not> is_gb18030_odd (uchar (drop_bit 8 c)) then 0
      else if is_gb18030_even_2 (uchar c) then 2
      else if is_gb18030_even_4 (uchar c) then 4
      else 0)"

definition my_ismbchar_gb18030 :: "bytes \<Rightarrow> nat" where
  "my_ismbchar_gb18030 s =
     (if length s \<le> 1 \<or> \<not> is_gb18030_odd (at s 0) then 0
      else if is_gb18030_even_2 (at s 1) then 2
      else if length s > 3 \<and> is_gb18030_even_4 (at s 1) \<and> is_gb18030_odd (at s 2) \<and> is_gb18030_even_4 (at s 3) then 4
      else 0)"

subsection \<open>Fixed and double width\<close>

definition check_mb_ucs2 :: "bytes \<Rightarrow> nat" where "check_mb_ucs2 s = 2"
definition mysqlnd_mbcharlen_ucs2 :: "u32 \<Rightarrow> nat" where "mysqlnd_mbcharlen_ucs2 ucs2 = 2"

definition UTF16_HIGH_HEAD :: "u32 \<Rightarrow> bool" where "UTF16_HIGH_HEAD x \<longleftrightarrow> of_nat (uchar x) AND (0xFC :: u32) = 0xD8"
definition UTF16_LOW_HEAD :: "u32 \<Rightarrow> bool" where "UTF16_LOW_HEAD x \<longleftrightarrow> of_nat (uchar x) AND (0xFC :: u32) = 0xDC"

definition check_mb_utf16 :: "bytes \<Rightarrow> nat" where
  "check_mb_utf16 s =
     (if 2 > length s then 0
      else if UTF16_HIGH_HEAD (of_nat (at s 0)) then (if 4 \<le> length s \<and> UTF16_LOW_HEAD (of_nat (at s 2)) then 4 else 0)
      else if UTF16_LOW_HEAD (of_nat (at s 0)) then 0
      else 2)"

definition mysqlnd_mbcharlen_utf16 :: "u32 \<Rightarrow> nat" where
  "mysqlnd_mbcharlen_utf16 utf16 = (if UTF16_HIGH_HEAD utf16 then 4 else 2)"

definition check_mb_utf32 :: "bytes \<Rightarrow> nat" where "check_mb_utf32 s = 4"
definition mysqlnd_mbcharlen_utf32 :: "u32 \<Rightarrow> nat" where "mysqlnd_mbcharlen_utf32 utf32 = 4"

subsection \<open>Dispatch\<close>

text \<open>The functions of the single-byte sets are marked unreachable; they would return zero.\<close>

definition mysqlnd_mbcharlen_dispatch :: "mysqlnd_encoding_charlen \<Rightarrow> u32 \<Rightarrow> nat" where
  "mysqlnd_mbcharlen_dispatch encoding c =
     (case encoding of
        mysqlnd_mbcharlen_null_id \<Rightarrow> 0
      | mysqlnd_mbcharlen_big5_id \<Rightarrow> mysqlnd_mbcharlen_big5 c
      | mysqlnd_mbcharlen_ujis_id \<Rightarrow> mysqlnd_mbcharlen_ujis c
      | mysqlnd_mbcharlen_sjis_id \<Rightarrow> mysqlnd_mbcharlen_sjis c
      | mysqlnd_mbcharlen_euckr_id \<Rightarrow> mysqlnd_mbcharlen_euckr c
      | mysqlnd_mbcharlen_gb2312_id \<Rightarrow> mysqlnd_mbcharlen_gb2312 c
      | mysqlnd_mbcharlen_gbk_id \<Rightarrow> mysqlnd_mbcharlen_gbk c
      | mysqlnd_mbcharlen_utf8mb3_id \<Rightarrow> mysqlnd_mbcharlen_utf8mb3 c
      | mysqlnd_mbcharlen_ucs2_id \<Rightarrow> mysqlnd_mbcharlen_ucs2 c
      | mysqlnd_mbcharlen_eucjpms_id \<Rightarrow> mysqlnd_mbcharlen_eucjpms c
      | mysqlnd_mbcharlen_utf8_id \<Rightarrow> mysqlnd_mbcharlen_utf8 c
      | mysqlnd_mbcharlen_utf16_id \<Rightarrow> mysqlnd_mbcharlen_utf16 c
      | mysqlnd_mbcharlen_utf32_id \<Rightarrow> mysqlnd_mbcharlen_utf32 c
      | mysqlnd_mbcharlen_cp932_id \<Rightarrow> mysqlnd_mbcharlen_cp932 c
      | mysqlnd_mbcharlen_gb18030_id \<Rightarrow> mysqlnd_mbcharlen_gb18030 c)"

definition mysqlnd_mbvalid_dispatch :: "mysqlnd_encoding_valid \<Rightarrow> bytes \<Rightarrow> nat" where
  "mysqlnd_mbvalid_dispatch encoding s =
     (case encoding of
        check_null_id \<Rightarrow> 0
      | check_mb_big5_id \<Rightarrow> check_mb_big5 s
      | check_mb_ujis_id \<Rightarrow> check_mb_ujis s
      | check_mb_sjis_id \<Rightarrow> check_mb_sjis s
      | check_mb_euckr_id \<Rightarrow> check_mb_euckr s
      | check_mb_gb2312_id \<Rightarrow> check_mb_gb2312 s
      | check_mb_gbk_id \<Rightarrow> check_mb_gbk s
      | check_mb_utf8mb3_valid_id \<Rightarrow> check_mb_utf8mb3_valid s
      | check_mb_ucs2_id \<Rightarrow> check_mb_ucs2 s
      | check_mb_eucjpms_id \<Rightarrow> check_mb_eucjpms s
      | check_mb_utf8_valid_id \<Rightarrow> check_mb_utf8_valid s
      | check_mb_utf16_id \<Rightarrow> check_mb_utf16 s
      | check_mb_utf32_id \<Rightarrow> check_mb_utf32 s
      | check_mb_cp932_id \<Rightarrow> check_mb_cp932 s
      | my_ismbchar_gb18030_id \<Rightarrow> my_ismbchar_gb18030 s)"

section \<open>The table\<close>

record mysqlnd_charset =
  nr :: nat
  cs_name :: string
  collation :: string
  char_minlen :: nat
  char_maxlen :: nat
  cs_comment :: string
  mb_charlen :: mysqlnd_encoding_charlen
  mb_valid :: mysqlnd_encoding_valid
  lowest_mb_byte :: nat

definition charset :: "nat \<Rightarrow> string \<Rightarrow> string \<Rightarrow> nat \<Rightarrow> nat \<Rightarrow> string \<Rightarrow> mysqlnd_encoding_charlen \<Rightarrow> mysqlnd_encoding_valid \<Rightarrow> nat \<Rightarrow> mysqlnd_charset" where
  "charset n nm col mn mx cm cl va lo =
     \<lparr>nr = n, cs_name = nm, collation = col, char_minlen = mn, char_maxlen = mx, cs_comment = cm, mb_charlen = cl, mb_valid = va,
      lowest_mb_byte = lo\<rparr>"

definition mysqlnd_charsets_1 :: "mysqlnd_charset list" where
  "mysqlnd_charsets_1 =
    [charset 1 ''big5'' ''big5_chinese_ci'' 1 2 '''' mysqlnd_mbcharlen_big5_id check_mb_big5_id LOWEST_MB_BIG5,
     charset 3 ''dec8'' ''dec8_swedish_ci'' 1 1 '''' mysqlnd_mbcharlen_null_id check_null_id 0x100,
     charset 4 ''cp850'' ''cp850_general_ci'' 1 1 '''' mysqlnd_mbcharlen_null_id check_null_id 0x100,
     charset 6 ''hp8'' ''hp8_english_ci'' 1 1 '''' mysqlnd_mbcharlen_null_id check_null_id 0x100,
     charset 7 ''koi8r'' ''koi8r_general_ci'' 1 1 '''' mysqlnd_mbcharlen_null_id check_null_id 0x100,
     charset 8 ''latin1'' ''latin1_swedish_ci'' 1 1 '''' mysqlnd_mbcharlen_null_id check_null_id 0x100,
     charset 5 ''latin1'' ''latin1_german1_ci'' 1 1 '''' mysqlnd_mbcharlen_null_id check_null_id 0x100,
     charset 9 ''latin2'' ''latin2_general_ci'' 1 1 '''' mysqlnd_mbcharlen_null_id check_null_id 0x100,
     charset 2 ''latin2'' ''latin2_czech_cs'' 1 1 '''' mysqlnd_mbcharlen_null_id check_null_id 0x100,
     charset 10 ''swe7'' ''swe7_swedish_ci'' 1 1 '''' mysqlnd_mbcharlen_null_id check_null_id 0x100,
     charset 11 ''ascii'' ''ascii_general_ci'' 1 1 '''' mysqlnd_mbcharlen_null_id check_null_id 0x100,
     charset 12 ''ujis'' ''ujis_japanese_ci'' 1 3 '''' mysqlnd_mbcharlen_ujis_id check_mb_ujis_id LOWEST_MB_UJIS,
     charset 13 ''sjis'' ''sjis_japanese_ci'' 1 2 '''' mysqlnd_mbcharlen_sjis_id check_mb_sjis_id LOWEST_MB_SJIS,
     charset 16 ''hebrew'' ''hebrew_general_ci'' 1 1 '''' mysqlnd_mbcharlen_null_id check_null_id 0x100,
     charset 17 ''filename'' ''filename'' 1 5 '''' mysqlnd_mbcharlen_null_id check_null_id 0x100,
     charset 18 ''tis620'' ''tis620_thai_ci'' 1 1 '''' mysqlnd_mbcharlen_null_id check_null_id 0x100,
     charset 19 ''euckr'' ''euckr_korean_ci'' 1 2 '''' mysqlnd_mbcharlen_euckr_id check_mb_euckr_id LOWEST_MB_EUCKR,
     charset 21 ''latin2'' ''latin2_hungarian_ci'' 1 1 '''' mysqlnd_mbcharlen_null_id check_null_id 0x100,
     charset 27 ''latin2'' ''latin2_croatian_ci'' 1 1 '''' mysqlnd_mbcharlen_null_id check_null_id 0x100,
     charset 22 ''koi8u'' ''koi8u_general_ci'' 1 1 '''' mysqlnd_mbcharlen_null_id check_null_id 0x100,
     charset 24 ''gb2312'' ''gb2312_chinese_ci'' 1 2 '''' mysqlnd_mbcharlen_gb2312_id check_mb_gb2312_id LOWEST_MB_GB2312,
     charset 25 ''greek'' ''greek_general_ci'' 1 1 '''' mysqlnd_mbcharlen_null_id check_null_id 0x100,
     charset 26 ''cp1250'' ''cp1250_general_ci'' 1 1 '''' mysqlnd_mbcharlen_null_id check_null_id 0x100,
     charset 28 ''gbk'' ''gbk_chinese_ci'' 1 2 '''' mysqlnd_mbcharlen_gbk_id check_mb_gbk_id LOWEST_MB_GBK,
     charset 30 ''latin5'' ''latin5_turkish_ci'' 1 1 '''' mysqlnd_mbcharlen_null_id check_null_id 0x100,
     charset 31 ''latin1'' ''latin1_german2_ci'' 1 1 '''' mysqlnd_mbcharlen_null_id check_null_id 0x100,
     charset 15 ''latin1'' ''latin1_danish_ci'' 1 1 '''' mysqlnd_mbcharlen_null_id check_null_id 0x100,
     charset 32 ''armscii8'' ''armscii8_general_ci'' 1 1 '''' mysqlnd_mbcharlen_null_id check_null_id 0x100,
     charset 33 ''utf8'' ''utf8_general_ci'' 1 3 ''UTF-8 Unicode'' mysqlnd_mbcharlen_utf8mb3_id check_mb_utf8mb3_valid_id LOWEST_MB_UTF8MB3,
     charset 35 ''ucs2'' ''ucs2_general_ci'' 2 2 ''UCS-2 Unicode'' mysqlnd_mbcharlen_ucs2_id check_mb_ucs2_id LOWEST_MB_UCS2,
     charset 36 ''cp866'' ''cp866_general_ci'' 1 1 '''' mysqlnd_mbcharlen_null_id check_null_id 0x100,
     charset 37 ''keybcs2'' ''keybcs2_general_ci'' 1 1 '''' mysqlnd_mbcharlen_null_id check_null_id 0x100,
     charset 38 ''macce'' ''macce_general_ci'' 1 1 '''' mysqlnd_mbcharlen_null_id check_null_id 0x100,
     charset 39 ''macroman'' ''macroman_general_ci'' 1 1 '''' mysqlnd_mbcharlen_null_id check_null_id 0x100,
     charset 40 ''cp852'' ''cp852_general_ci'' 1 1 '''' mysqlnd_mbcharlen_null_id check_null_id 0x100,
     charset 41 ''latin7'' ''latin7_general_ci'' 1 1 '''' mysqlnd_mbcharlen_null_id check_null_id 0x100,
     charset 20 ''latin7'' ''latin7_estonian_cs'' 1 1 '''' mysqlnd_mbcharlen_null_id check_null_id 0x100,
     charset 57 ''cp1256'' ''cp1256_general_ci'' 1 1 '''' mysqlnd_mbcharlen_null_id check_null_id 0x100,
     charset 59 ''cp1257'' ''cp1257_general_ci'' 1 1 '''' mysqlnd_mbcharlen_null_id check_null_id 0x100,
     charset 63 ''binary'' ''binary'' 1 1 '''' mysqlnd_mbcharlen_null_id check_null_id 0x100,
     charset 97 ''eucjpms'' ''eucjpms_japanese_ci'' 1 3 '''' mysqlnd_mbcharlen_eucjpms_id check_mb_eucjpms_id LOWEST_MB_EUCJPMS,
     charset 29 ''cp1257'' ''cp1257_lithuanian_ci'' 1 1 '''' mysqlnd_mbcharlen_null_id check_null_id 0x100,
     charset 31 ''latin1'' ''latin1_german2_ci'' 1 1 '''' mysqlnd_mbcharlen_null_id check_null_id 0x100,
     charset 34 ''cp1250'' ''cp1250_czech_cs'' 1 1 '''' mysqlnd_mbcharlen_null_id check_null_id 0x100,
     charset 42 ''latin7'' ''latin7_general_cs'' 1 1 '''' mysqlnd_mbcharlen_null_id check_null_id 0x100,
     charset 43 ''macce'' ''macce_bin'' 1 1 '''' mysqlnd_mbcharlen_null_id check_null_id 0x100,
     charset 44 ''cp1250'' ''cp1250_croatian_ci'' 1 1 '''' mysqlnd_mbcharlen_null_id check_null_id 0x100,
     charset 45 ''utf8mb4'' ''utf8mb4_general_ci'' 1 4 ''UTF-8 Unicode'' mysqlnd_mbcharlen_utf8_id check_mb_utf8_valid_id LOWEST_MB_UTF8,
     charset 46 ''utf8mb4'' ''utf8mb4_bin'' 1 4 ''UTF-8 Unicode'' mysqlnd_mbcharlen_utf8_id check_mb_utf8_valid_id LOWEST_MB_UTF8,
     charset 47 ''latin1'' ''latin1_bin'' 1 1 '''' mysqlnd_mbcharlen_null_id check_null_id 0x100,
     charset 48 ''latin1'' ''latin1_general_ci'' 1 1 '''' mysqlnd_mbcharlen_null_id check_null_id 0x100,
     charset 49 ''latin1'' ''latin1_general_cs'' 1 1 '''' mysqlnd_mbcharlen_null_id check_null_id 0x100,
     charset 51 ''cp1251'' ''cp1251_general_ci'' 1 1 '''' mysqlnd_mbcharlen_null_id check_null_id 0x100,
     charset 14 ''cp1251'' ''cp1251_bulgarian_ci'' 1 1 '''' mysqlnd_mbcharlen_null_id check_null_id 0x100,
     charset 23 ''cp1251'' ''cp1251_ukrainian_ci'' 1 1 '''' mysqlnd_mbcharlen_null_id check_null_id 0x100,
     charset 50 ''cp1251'' ''cp1251_bin'' 1 1 '''' mysqlnd_mbcharlen_null_id check_null_id 0x100,
     charset 52 ''cp1251'' ''cp1251_general_cs'' 1 1 '''' mysqlnd_mbcharlen_null_id check_null_id 0x100,
     charset 53 ''macroman'' ''macroman_bin'' 1 1 '''' mysqlnd_mbcharlen_null_id check_null_id 0x100,
     charset 54 ''utf16'' ''utf16_general_ci'' 2 4 ''UTF-16 Unicode'' mysqlnd_mbcharlen_utf16_id check_mb_utf16_id LOWEST_MB_UTF16,
     charset 55 ''utf16'' ''utf16_bin'' 2 4 ''UTF-16 Unicode'' mysqlnd_mbcharlen_utf16_id check_mb_utf16_id LOWEST_MB_UTF16,
     charset 56 ''utf16le'' ''utf16le_general_ci'' 2 4 ''UTF-16LE Unicode'' mysqlnd_mbcharlen_utf16_id check_mb_utf16_id LOWEST_MB_UTF16,
     charset 58 ''cp1257'' ''cp1257_bin'' 1 1 '''' mysqlnd_mbcharlen_null_id check_null_id 0x100,
     charset 60 ''utf32'' ''utf32_general_ci'' 4 4 ''UTF-32 Unicode'' mysqlnd_mbcharlen_utf32_id check_mb_utf32_id LOWEST_MB_UTF32,
     charset 61 ''utf32'' ''utf32_bin'' 4 4 ''UTF-32 Unicode'' mysqlnd_mbcharlen_utf32_id check_mb_utf32_id LOWEST_MB_UTF32,
     charset 62 ''utf16le'' ''utf16le_bin'' 2 4 ''UTF-16LE Unicode'' mysqlnd_mbcharlen_utf16_id check_mb_utf16_id LOWEST_MB_UTF16,
     charset 64 ''armscii8'' ''armscii8_bin'' 1 1 '''' mysqlnd_mbcharlen_null_id check_null_id 0x100,
     charset 65 ''ascii'' ''ascii_bin'' 1 1 '''' mysqlnd_mbcharlen_null_id check_null_id 0x100,
     charset 66 ''cp1250'' ''cp1250_bin'' 1 1 '''' mysqlnd_mbcharlen_null_id check_null_id 0x100,
     charset 67 ''cp1256'' ''cp1256_bin'' 1 1 '''' mysqlnd_mbcharlen_null_id check_null_id 0x100,
     charset 68 ''cp866'' ''cp866_bin'' 1 1 '''' mysqlnd_mbcharlen_null_id check_null_id 0x100,
     charset 69 ''dec8'' ''dec8_bin'' 1 1 '''' mysqlnd_mbcharlen_null_id check_null_id 0x100,
     charset 70 ''greek'' ''greek_bin'' 1 1 '''' mysqlnd_mbcharlen_null_id check_null_id 0x100,
     charset 71 ''hebrew'' ''hebrew_bin'' 1 1 '''' mysqlnd_mbcharlen_null_id check_null_id 0x100,
     charset 72 ''hp8'' ''hp8_bin'' 1 1 '''' mysqlnd_mbcharlen_null_id check_null_id 0x100,
     charset 73 ''keybcs2'' ''keybcs2_bin'' 1 1 '''' mysqlnd_mbcharlen_null_id check_null_id 0x100,
     charset 74 ''koi8r'' ''koi8r_bin'' 1 1 '''' mysqlnd_mbcharlen_null_id check_null_id 0x100,
     charset 75 ''koi8u'' ''koi8u_bin'' 1 1 '''' mysqlnd_mbcharlen_null_id check_null_id 0x100,
     charset 77 ''latin2'' ''latin2_bin'' 1 1 '''' mysqlnd_mbcharlen_null_id check_null_id 0x100,
     charset 78 ''latin5'' ''latin5_bin'' 1 1 '''' mysqlnd_mbcharlen_null_id check_null_id 0x100,
     charset 79 ''latin7'' ''latin7_bin'' 1 1 '''' mysqlnd_mbcharlen_null_id check_null_id 0x100,
     charset 80 ''cp850'' ''cp850_bin'' 1 1 '''' mysqlnd_mbcharlen_null_id check_null_id 0x100,
     charset 81 ''cp852'' ''cp852_bin'' 1 1 '''' mysqlnd_mbcharlen_null_id check_null_id 0x100,
     charset 82 ''swe7'' ''swe7_bin'' 1 1 '''' mysqlnd_mbcharlen_null_id check_null_id 0x100,
     charset 83 ''utf8'' ''utf8_bin'' 1 3 ''UTF-8 Unicode'' mysqlnd_mbcharlen_utf8mb3_id check_mb_utf8mb3_valid_id LOWEST_MB_UTF8MB3,
     charset 84 ''big5'' ''big5_bin'' 1 2 '''' mysqlnd_mbcharlen_big5_id check_mb_big5_id LOWEST_MB_BIG5,
     charset 85 ''euckr'' ''euckr_bin'' 1 2 '''' mysqlnd_mbcharlen_euckr_id check_mb_euckr_id LOWEST_MB_EUCKR,
     charset 86 ''gb2312'' ''gb2312_bin'' 1 2 '''' mysqlnd_mbcharlen_gb2312_id check_mb_gb2312_id LOWEST_MB_GB2312,
     charset 87 ''gbk'' ''gbk_bin'' 1 2 '''' mysqlnd_mbcharlen_gbk_id check_mb_gbk_id LOWEST_MB_GBK,
     charset 88 ''sjis'' ''sjis_bin'' 1 2 '''' mysqlnd_mbcharlen_sjis_id check_mb_sjis_id LOWEST_MB_SJIS,
     charset 89 ''tis620'' ''tis620_bin'' 1 1 '''' mysqlnd_mbcharlen_null_id check_null_id 0x100,
     charset 90 ''ucs2'' ''ucs2_bin'' 2 2 ''UCS-2 Unicode'' mysqlnd_mbcharlen_ucs2_id check_mb_ucs2_id LOWEST_MB_UCS2,
     charset 91 ''ujis'' ''ujis_bin'' 1 3 '''' mysqlnd_mbcharlen_ujis_id check_mb_ujis_id LOWEST_MB_UJIS,
     charset 92 ''geostd8'' ''geostd8_general_ci'' 1 1 '''' mysqlnd_mbcharlen_null_id check_null_id 0x100,
     charset 93 ''geostd8'' ''geostd8_bin'' 1 1 '''' mysqlnd_mbcharlen_null_id check_null_id 0x100,
     charset 94 ''latin1'' ''latin1_spanish_ci'' 1 1 '''' mysqlnd_mbcharlen_null_id check_null_id 0x100,
     charset 95 ''cp932'' ''cp932_japanese_ci'' 1 2 '''' mysqlnd_mbcharlen_cp932_id check_mb_cp932_id LOWEST_MB_CP932,
     charset 96 ''cp932'' ''cp932_bin'' 1 2 '''' mysqlnd_mbcharlen_cp932_id check_mb_cp932_id LOWEST_MB_CP932,
     charset 97 ''eucjpms'' ''eucjpms_japanese_ci'' 1 3 '''' mysqlnd_mbcharlen_eucjpms_id check_mb_eucjpms_id LOWEST_MB_EUCJPMS,
     charset 98 ''eucjpms'' ''eucjpms_bin'' 1 3 '''' mysqlnd_mbcharlen_eucjpms_id check_mb_eucjpms_id LOWEST_MB_EUCJPMS,
     charset 99 ''cp1250'' ''cp1250_polish_ci'' 1 1 '''' mysqlnd_mbcharlen_null_id check_null_id 0x100,
     charset 128 ''ucs2'' ''ucs2_unicode_ci'' 2 2 '''' mysqlnd_mbcharlen_ucs2_id check_mb_ucs2_id LOWEST_MB_UCS2,
     charset 129 ''ucs2'' ''ucs2_icelandic_ci'' 2 2 '''' mysqlnd_mbcharlen_ucs2_id check_mb_ucs2_id LOWEST_MB_UCS2,
     charset 130 ''ucs2'' ''ucs2_latvian_ci'' 2 2 '''' mysqlnd_mbcharlen_ucs2_id check_mb_ucs2_id LOWEST_MB_UCS2,
     charset 131 ''ucs2'' ''ucs2_romanian_ci'' 2 2 '''' mysqlnd_mbcharlen_ucs2_id check_mb_ucs2_id LOWEST_MB_UCS2,
     charset 132 ''ucs2'' ''ucs2_slovenian_ci'' 2 2 '''' mysqlnd_mbcharlen_ucs2_id check_mb_ucs2_id LOWEST_MB_UCS2,
     charset 133 ''ucs2'' ''ucs2_polish_ci'' 2 2 '''' mysqlnd_mbcharlen_ucs2_id check_mb_ucs2_id LOWEST_MB_UCS2,
     charset 134 ''ucs2'' ''ucs2_estonian_ci'' 2 2 '''' mysqlnd_mbcharlen_ucs2_id check_mb_ucs2_id LOWEST_MB_UCS2,
     charset 135 ''ucs2'' ''ucs2_spanish_ci'' 2 2 '''' mysqlnd_mbcharlen_ucs2_id check_mb_ucs2_id LOWEST_MB_UCS2,
     charset 136 ''ucs2'' ''ucs2_swedish_ci'' 2 2 '''' mysqlnd_mbcharlen_ucs2_id check_mb_ucs2_id LOWEST_MB_UCS2,
     charset 137 ''ucs2'' ''ucs2_turkish_ci'' 2 2 '''' mysqlnd_mbcharlen_ucs2_id check_mb_ucs2_id LOWEST_MB_UCS2,
     charset 138 ''ucs2'' ''ucs2_czech_ci'' 2 2 '''' mysqlnd_mbcharlen_ucs2_id check_mb_ucs2_id LOWEST_MB_UCS2,
     charset 139 ''ucs2'' ''ucs2_danish_ci'' 2 2 '''' mysqlnd_mbcharlen_ucs2_id check_mb_ucs2_id LOWEST_MB_UCS2,
     charset 140 ''ucs2'' ''ucs2_lithuanian_ci'' 2 2 '''' mysqlnd_mbcharlen_ucs2_id check_mb_ucs2_id LOWEST_MB_UCS2,
     charset 141 ''ucs2'' ''ucs2_slovak_ci'' 2 2 '''' mysqlnd_mbcharlen_ucs2_id check_mb_ucs2_id LOWEST_MB_UCS2,
     charset 142 ''ucs2'' ''ucs2_spanish2_ci'' 2 2 '''' mysqlnd_mbcharlen_ucs2_id check_mb_ucs2_id LOWEST_MB_UCS2,
     charset 143 ''ucs2'' ''ucs2_roman_ci'' 2 2 '''' mysqlnd_mbcharlen_ucs2_id check_mb_ucs2_id LOWEST_MB_UCS2,
     charset 144 ''ucs2'' ''ucs2_persian_ci'' 2 2 '''' mysqlnd_mbcharlen_ucs2_id check_mb_ucs2_id LOWEST_MB_UCS2,
     charset 145 ''ucs2'' ''ucs2_esperanto_ci'' 2 2 '''' mysqlnd_mbcharlen_ucs2_id check_mb_ucs2_id LOWEST_MB_UCS2,
     charset 146 ''ucs2'' ''ucs2_hungarian_ci'' 2 2 '''' mysqlnd_mbcharlen_ucs2_id check_mb_ucs2_id LOWEST_MB_UCS2,
     charset 147 ''ucs2'' ''ucs2_sinhala_ci'' 2 2 '''' mysqlnd_mbcharlen_ucs2_id check_mb_ucs2_id LOWEST_MB_UCS2,
     charset 148 ''ucs2'' ''ucs2_german2_ci'' 2 2 '''' mysqlnd_mbcharlen_ucs2_id check_mb_ucs2_id LOWEST_MB_UCS2,
     charset 149 ''ucs2'' ''ucs2_croatian_ci'' 2 2 '''' mysqlnd_mbcharlen_ucs2_id check_mb_ucs2_id LOWEST_MB_UCS2,
     charset 150 ''ucs2'' ''ucs2_unicode_520_ci'' 2 2 '''' mysqlnd_mbcharlen_ucs2_id check_mb_ucs2_id LOWEST_MB_UCS2,
     charset 151 ''ucs2'' ''ucs2_vietnamese_ci'' 2 2 '''' mysqlnd_mbcharlen_ucs2_id check_mb_ucs2_id LOWEST_MB_UCS2,
     charset 160 ''utf32'' ''utf32_unicode_ci'' 4 4 ''UTF-32 Unicode'' mysqlnd_mbcharlen_utf32_id check_mb_utf32_id LOWEST_MB_UTF32]"

definition mysqlnd_charsets_2 :: "mysqlnd_charset list" where
  "mysqlnd_charsets_2 =
    [charset 161 ''utf32'' ''utf32_icelandic_ci'' 4 4 ''UTF-32 Unicode'' mysqlnd_mbcharlen_utf32_id check_mb_utf32_id LOWEST_MB_UTF32,
     charset 162 ''utf32'' ''utf32_latvian_ci'' 4 4 ''UTF-32 Unicode'' mysqlnd_mbcharlen_utf32_id check_mb_utf32_id LOWEST_MB_UTF32,
     charset 163 ''utf32'' ''utf32_romanian_ci'' 4 4 ''UTF-32 Unicode'' mysqlnd_mbcharlen_utf32_id check_mb_utf32_id LOWEST_MB_UTF32,
     charset 164 ''utf32'' ''utf32_slovenian_ci'' 4 4 ''UTF-32 Unicode'' mysqlnd_mbcharlen_utf32_id check_mb_utf32_id LOWEST_MB_UTF32,
     charset 165 ''utf32'' ''utf32_polish_ci'' 4 4 ''UTF-32 Unicode'' mysqlnd_mbcharlen_utf32_id check_mb_utf32_id LOWEST_MB_UTF32,
     charset 166 ''utf32'' ''utf32_estonian_ci'' 4 4 ''UTF-32 Unicode'' mysqlnd_mbcharlen_utf32_id check_mb_utf32_id LOWEST_MB_UTF32,
     charset 167 ''utf32'' ''utf32_spanish_ci'' 4 4 ''UTF-32 Unicode'' mysqlnd_mbcharlen_utf32_id check_mb_utf32_id LOWEST_MB_UTF32,
     charset 168 ''utf32'' ''utf32_swedish_ci'' 4 4 ''UTF-32 Unicode'' mysqlnd_mbcharlen_utf32_id check_mb_utf32_id LOWEST_MB_UTF32,
     charset 169 ''utf32'' ''utf32_turkish_ci'' 4 4 ''UTF-32 Unicode'' mysqlnd_mbcharlen_utf32_id check_mb_utf32_id LOWEST_MB_UTF32,
     charset 170 ''utf32'' ''utf32_czech_ci'' 4 4 ''UTF-32 Unicode'' mysqlnd_mbcharlen_utf32_id check_mb_utf32_id LOWEST_MB_UTF32,
     charset 171 ''utf32'' ''utf32_danish_ci'' 4 4 ''UTF-32 Unicode'' mysqlnd_mbcharlen_utf32_id check_mb_utf32_id LOWEST_MB_UTF32,
     charset 172 ''utf32'' ''utf32_lithuanian_ci'' 4 4 ''UTF-32 Unicode'' mysqlnd_mbcharlen_utf32_id check_mb_utf32_id LOWEST_MB_UTF32,
     charset 173 ''utf32'' ''utf32_slovak_ci'' 4 4 ''UTF-32 Unicode'' mysqlnd_mbcharlen_utf32_id check_mb_utf32_id LOWEST_MB_UTF32,
     charset 174 ''utf32'' ''utf32_spanish2_ci'' 4 4 ''UTF-32 Unicode'' mysqlnd_mbcharlen_utf32_id check_mb_utf32_id LOWEST_MB_UTF32,
     charset 175 ''utf32'' ''utf32_roman_ci'' 4 4 ''UTF-32 Unicode'' mysqlnd_mbcharlen_utf32_id check_mb_utf32_id LOWEST_MB_UTF32,
     charset 176 ''utf32'' ''utf32_persian_ci'' 4 4 ''UTF-32 Unicode'' mysqlnd_mbcharlen_utf32_id check_mb_utf32_id LOWEST_MB_UTF32,
     charset 177 ''utf32'' ''utf32_esperanto_ci'' 4 4 ''UTF-32 Unicode'' mysqlnd_mbcharlen_utf32_id check_mb_utf32_id LOWEST_MB_UTF32,
     charset 178 ''utf32'' ''utf32_hungarian_ci'' 4 4 ''UTF-32 Unicode'' mysqlnd_mbcharlen_utf32_id check_mb_utf32_id LOWEST_MB_UTF32,
     charset 179 ''utf32'' ''utf32_sinhala_ci'' 4 4 ''UTF-32 Unicode'' mysqlnd_mbcharlen_utf32_id check_mb_utf32_id LOWEST_MB_UTF32,
     charset 180 ''utf32'' ''utf32_german2_ci'' 4 4 ''UTF-32 Unicode'' mysqlnd_mbcharlen_utf32_id check_mb_utf32_id LOWEST_MB_UTF32,
     charset 181 ''utf32'' ''utf32_croatian_ci'' 4 4 ''UTF-32 Unicode'' mysqlnd_mbcharlen_utf32_id check_mb_utf32_id LOWEST_MB_UTF32,
     charset 182 ''utf32'' ''utf32_unicode_520_ci'' 4 4 ''UTF-32 Unicode'' mysqlnd_mbcharlen_utf32_id check_mb_utf32_id LOWEST_MB_UTF32,
     charset 183 ''utf32'' ''utf32_vietnamese_ci'' 4 4 ''UTF-32 Unicode'' mysqlnd_mbcharlen_utf32_id check_mb_utf32_id LOWEST_MB_UTF32,
     charset 192 ''utf8'' ''utf8_unicode_ci'' 1 3 '''' mysqlnd_mbcharlen_utf8mb3_id check_mb_utf8mb3_valid_id LOWEST_MB_UTF8MB3,
     charset 193 ''utf8'' ''utf8_icelandic_ci'' 1 3 '''' mysqlnd_mbcharlen_utf8mb3_id check_mb_utf8mb3_valid_id LOWEST_MB_UTF8MB3,
     charset 194 ''utf8'' ''utf8_latvian_ci'' 1 3 '''' mysqlnd_mbcharlen_utf8mb3_id check_mb_utf8mb3_valid_id LOWEST_MB_UTF8MB3,
     charset 195 ''utf8'' ''utf8_romanian_ci'' 1 3 '''' mysqlnd_mbcharlen_utf8mb3_id check_mb_utf8mb3_valid_id LOWEST_MB_UTF8MB3,
     charset 196 ''utf8'' ''utf8_slovenian_ci'' 1 3 '''' mysqlnd_mbcharlen_utf8mb3_id check_mb_utf8mb3_valid_id LOWEST_MB_UTF8MB3,
     charset 197 ''utf8'' ''utf8_polish_ci'' 1 3 '''' mysqlnd_mbcharlen_utf8mb3_id check_mb_utf8mb3_valid_id LOWEST_MB_UTF8MB3,
     charset 198 ''utf8'' ''utf8_estonian_ci'' 1 3 '''' mysqlnd_mbcharlen_utf8mb3_id check_mb_utf8mb3_valid_id LOWEST_MB_UTF8MB3,
     charset 199 ''utf8'' ''utf8_spanish_ci'' 1 3 '''' mysqlnd_mbcharlen_utf8mb3_id check_mb_utf8mb3_valid_id LOWEST_MB_UTF8MB3,
     charset 200 ''utf8'' ''utf8_swedish_ci'' 1 3 '''' mysqlnd_mbcharlen_utf8mb3_id check_mb_utf8mb3_valid_id LOWEST_MB_UTF8MB3,
     charset 201 ''utf8'' ''utf8_turkish_ci'' 1 3 '''' mysqlnd_mbcharlen_utf8mb3_id check_mb_utf8mb3_valid_id LOWEST_MB_UTF8MB3,
     charset 202 ''utf8'' ''utf8_czech_ci'' 1 3 '''' mysqlnd_mbcharlen_utf8mb3_id check_mb_utf8mb3_valid_id LOWEST_MB_UTF8MB3,
     charset 203 ''utf8'' ''utf8_danish_ci'' 1 3 '''' mysqlnd_mbcharlen_utf8mb3_id check_mb_utf8mb3_valid_id LOWEST_MB_UTF8MB3,
     charset 204 ''utf8'' ''utf8_lithuanian_ci'' 1 3 '''' mysqlnd_mbcharlen_utf8mb3_id check_mb_utf8mb3_valid_id LOWEST_MB_UTF8MB3,
     charset 205 ''utf8'' ''utf8_slovak_ci'' 1 3 '''' mysqlnd_mbcharlen_utf8mb3_id check_mb_utf8mb3_valid_id LOWEST_MB_UTF8MB3,
     charset 206 ''utf8'' ''utf8_spanish2_ci'' 1 3 '''' mysqlnd_mbcharlen_utf8mb3_id check_mb_utf8mb3_valid_id LOWEST_MB_UTF8MB3,
     charset 207 ''utf8'' ''utf8_roman_ci'' 1 3 '''' mysqlnd_mbcharlen_utf8mb3_id check_mb_utf8mb3_valid_id LOWEST_MB_UTF8MB3,
     charset 208 ''utf8'' ''utf8_persian_ci'' 1 3 '''' mysqlnd_mbcharlen_utf8mb3_id check_mb_utf8mb3_valid_id LOWEST_MB_UTF8MB3,
     charset 209 ''utf8'' ''utf8_esperanto_ci'' 1 3 '''' mysqlnd_mbcharlen_utf8mb3_id check_mb_utf8mb3_valid_id LOWEST_MB_UTF8MB3,
     charset 210 ''utf8'' ''utf8_hungarian_ci'' 1 3 '''' mysqlnd_mbcharlen_utf8mb3_id check_mb_utf8mb3_valid_id LOWEST_MB_UTF8MB3,
     charset 211 ''utf8'' ''utf8_sinhala_ci'' 1 3 '''' mysqlnd_mbcharlen_utf8mb3_id check_mb_utf8mb3_valid_id LOWEST_MB_UTF8MB3,
     charset 212 ''utf8'' ''utf8_german2_ci'' 1 3 '''' mysqlnd_mbcharlen_utf8mb3_id check_mb_utf8mb3_valid_id LOWEST_MB_UTF8MB3,
     charset 213 ''utf8'' ''utf8_croatian_ci'' 1 3 '''' mysqlnd_mbcharlen_utf8mb3_id check_mb_utf8mb3_valid_id LOWEST_MB_UTF8MB3,
     charset 214 ''utf8'' ''utf8_unicode_520_ci'' 1 3 '''' mysqlnd_mbcharlen_utf8mb3_id check_mb_utf8mb3_valid_id LOWEST_MB_UTF8MB3,
     charset 215 ''utf8'' ''utf8_vietnamese_ci'' 1 3 '''' mysqlnd_mbcharlen_utf8mb3_id check_mb_utf8mb3_valid_id LOWEST_MB_UTF8MB3,
     charset 224 ''utf8mb4'' ''utf8mb4_unicode_ci'' 1 4 '''' mysqlnd_mbcharlen_utf8_id check_mb_utf8_valid_id LOWEST_MB_UTF8,
     charset 225 ''utf8mb4'' ''utf8mb4_icelandic_ci'' 1 4 '''' mysqlnd_mbcharlen_utf8_id check_mb_utf8_valid_id LOWEST_MB_UTF8,
     charset 226 ''utf8mb4'' ''utf8mb4_latvian_ci'' 1 4 '''' mysqlnd_mbcharlen_utf8_id check_mb_utf8_valid_id LOWEST_MB_UTF8,
     charset 227 ''utf8mb4'' ''utf8mb4_romanian_ci'' 1 4 '''' mysqlnd_mbcharlen_utf8_id check_mb_utf8_valid_id LOWEST_MB_UTF8,
     charset 228 ''utf8mb4'' ''utf8mb4_slovenian_ci'' 1 4 '''' mysqlnd_mbcharlen_utf8_id check_mb_utf8_valid_id LOWEST_MB_UTF8,
     charset 229 ''utf8mb4'' ''utf8mb4_polish_ci'' 1 4 '''' mysqlnd_mbcharlen_utf8_id check_mb_utf8_valid_id LOWEST_MB_UTF8,
     charset 230 ''utf8mb4'' ''utf8mb4_estonian_ci'' 1 4 '''' mysqlnd_mbcharlen_utf8_id check_mb_utf8_valid_id LOWEST_MB_UTF8,
     charset 231 ''utf8mb4'' ''utf8mb4_spanish_ci'' 1 4 '''' mysqlnd_mbcharlen_utf8_id check_mb_utf8_valid_id LOWEST_MB_UTF8,
     charset 232 ''utf8mb4'' ''utf8mb4_swedish_ci'' 1 4 '''' mysqlnd_mbcharlen_utf8_id check_mb_utf8_valid_id LOWEST_MB_UTF8,
     charset 233 ''utf8mb4'' ''utf8mb4_turkish_ci'' 1 4 '''' mysqlnd_mbcharlen_utf8_id check_mb_utf8_valid_id LOWEST_MB_UTF8,
     charset 234 ''utf8mb4'' ''utf8mb4_czech_ci'' 1 4 '''' mysqlnd_mbcharlen_utf8_id check_mb_utf8_valid_id LOWEST_MB_UTF8,
     charset 235 ''utf8mb4'' ''utf8mb4_danish_ci'' 1 4 '''' mysqlnd_mbcharlen_utf8_id check_mb_utf8_valid_id LOWEST_MB_UTF8,
     charset 236 ''utf8mb4'' ''utf8mb4_lithuanian_ci'' 1 4 '''' mysqlnd_mbcharlen_utf8_id check_mb_utf8_valid_id LOWEST_MB_UTF8,
     charset 237 ''utf8mb4'' ''utf8mb4_slovak_ci'' 1 4 '''' mysqlnd_mbcharlen_utf8_id check_mb_utf8_valid_id LOWEST_MB_UTF8,
     charset 238 ''utf8mb4'' ''utf8mb4_spanish2_ci'' 1 4 '''' mysqlnd_mbcharlen_utf8_id check_mb_utf8_valid_id LOWEST_MB_UTF8,
     charset 239 ''utf8mb4'' ''utf8mb4_roman_ci'' 1 4 '''' mysqlnd_mbcharlen_utf8_id check_mb_utf8_valid_id LOWEST_MB_UTF8,
     charset 240 ''utf8mb4'' ''utf8mb4_persian_ci'' 1 4 '''' mysqlnd_mbcharlen_utf8_id check_mb_utf8_valid_id LOWEST_MB_UTF8,
     charset 241 ''utf8mb4'' ''utf8mb4_esperanto_ci'' 1 4 '''' mysqlnd_mbcharlen_utf8_id check_mb_utf8_valid_id LOWEST_MB_UTF8,
     charset 242 ''utf8mb4'' ''utf8mb4_hungarian_ci'' 1 4 '''' mysqlnd_mbcharlen_utf8_id check_mb_utf8_valid_id LOWEST_MB_UTF8,
     charset 243 ''utf8mb4'' ''utf8mb4_sinhala_ci'' 1 4 '''' mysqlnd_mbcharlen_utf8_id check_mb_utf8_valid_id LOWEST_MB_UTF8,
     charset 244 ''utf8mb4'' ''utf8mb4_german2_ci'' 1 4 '''' mysqlnd_mbcharlen_utf8_id check_mb_utf8_valid_id LOWEST_MB_UTF8,
     charset 245 ''utf8mb4'' ''utf8mb4_croatian_ci'' 1 4 '''' mysqlnd_mbcharlen_utf8_id check_mb_utf8_valid_id LOWEST_MB_UTF8,
     charset 246 ''utf8mb4'' ''utf8mb4_unicode_520_ci'' 1 4 '''' mysqlnd_mbcharlen_utf8_id check_mb_utf8_valid_id LOWEST_MB_UTF8,
     charset 247 ''utf8mb4'' ''utf8mb4_vietnamese_ci'' 1 4 '''' mysqlnd_mbcharlen_utf8_id check_mb_utf8_valid_id LOWEST_MB_UTF8,
     charset 248 ''gb18030'' ''gb18030_chinese_ci'' 1 4 '''' mysqlnd_mbcharlen_gb18030_id my_ismbchar_gb18030_id LOWEST_MB_GB18030,
     charset 249 ''gb18030'' ''gb18030_bin'' 1 4 '''' mysqlnd_mbcharlen_gb18030_id my_ismbchar_gb18030_id LOWEST_MB_GB18030,
     charset 254 ''utf8'' ''utf8_general_cs'' 1 3 '''' mysqlnd_mbcharlen_utf8_id check_mb_utf8_valid_id LOWEST_MB_UTF8,
     charset 255 ''utf8mb4'' ''utf8mb4_0900_ai_ci'' 1 4 '''' mysqlnd_mbcharlen_utf8_id check_mb_utf8_valid_id LOWEST_MB_UTF8,
     charset 256 ''utf8mb4'' ''utf8mb4_de_pb_0900_ai_ci'' 1 4 '''' mysqlnd_mbcharlen_utf8_id check_mb_utf8_valid_id LOWEST_MB_UTF8,
     charset 257 ''utf8mb4'' ''utf8mb4_is_0900_ai_ci'' 1 4 '''' mysqlnd_mbcharlen_utf8_id check_mb_utf8_valid_id LOWEST_MB_UTF8,
     charset 258 ''utf8mb4'' ''utf8mb4_lv_0900_ai_ci'' 1 4 '''' mysqlnd_mbcharlen_utf8_id check_mb_utf8_valid_id LOWEST_MB_UTF8,
     charset 259 ''utf8mb4'' ''utf8mb4_ro_0900_ai_ci'' 1 4 '''' mysqlnd_mbcharlen_utf8_id check_mb_utf8_valid_id LOWEST_MB_UTF8,
     charset 260 ''utf8mb4'' ''utf8mb4_sl_0900_ai_ci'' 1 4 '''' mysqlnd_mbcharlen_utf8_id check_mb_utf8_valid_id LOWEST_MB_UTF8,
     charset 261 ''utf8mb4'' ''utf8mb4_pl_0900_ai_ci'' 1 4 '''' mysqlnd_mbcharlen_utf8_id check_mb_utf8_valid_id LOWEST_MB_UTF8,
     charset 262 ''utf8mb4'' ''utf8mb4_et_0900_ai_ci'' 1 4 '''' mysqlnd_mbcharlen_utf8_id check_mb_utf8_valid_id LOWEST_MB_UTF8,
     charset 263 ''utf8mb4'' ''utf8mb4_es_0900_ai_ci'' 1 4 '''' mysqlnd_mbcharlen_utf8_id check_mb_utf8_valid_id LOWEST_MB_UTF8,
     charset 264 ''utf8mb4'' ''utf8mb4_sv_0900_ai_ci'' 1 4 '''' mysqlnd_mbcharlen_utf8_id check_mb_utf8_valid_id LOWEST_MB_UTF8,
     charset 265 ''utf8mb4'' ''utf8mb4_tr_0900_ai_ci'' 1 4 '''' mysqlnd_mbcharlen_utf8_id check_mb_utf8_valid_id LOWEST_MB_UTF8,
     charset 266 ''utf8mb4'' ''utf8mb4_cs_0900_ai_ci'' 1 4 '''' mysqlnd_mbcharlen_utf8_id check_mb_utf8_valid_id LOWEST_MB_UTF8,
     charset 267 ''utf8mb4'' ''utf8mb4_da_0900_ai_ci'' 1 4 '''' mysqlnd_mbcharlen_utf8_id check_mb_utf8_valid_id LOWEST_MB_UTF8,
     charset 268 ''utf8mb4'' ''utf8mb4_lt_0900_ai_ci'' 1 4 '''' mysqlnd_mbcharlen_utf8_id check_mb_utf8_valid_id LOWEST_MB_UTF8,
     charset 269 ''utf8mb4'' ''utf8mb4_sk_0900_ai_ci'' 1 4 '''' mysqlnd_mbcharlen_utf8_id check_mb_utf8_valid_id LOWEST_MB_UTF8,
     charset 270 ''utf8mb4'' ''utf8mb4_es_trad_0900_ai_ci'' 1 4 '''' mysqlnd_mbcharlen_utf8_id check_mb_utf8_valid_id LOWEST_MB_UTF8,
     charset 271 ''utf8mb4'' ''utf8mb4_la_0900_ai_ci'' 1 4 '''' mysqlnd_mbcharlen_utf8_id check_mb_utf8_valid_id LOWEST_MB_UTF8,
     charset 272 ''utf8mb4'' ''utf8mb4_fa_0900_ai_ci'' 1 4 '''' mysqlnd_mbcharlen_utf8_id check_mb_utf8_valid_id LOWEST_MB_UTF8,
     charset 273 ''utf8mb4'' ''utf8mb4_eo_0900_ai_ci'' 1 4 '''' mysqlnd_mbcharlen_utf8_id check_mb_utf8_valid_id LOWEST_MB_UTF8,
     charset 274 ''utf8mb4'' ''utf8mb4_hu_0900_ai_ci'' 1 4 '''' mysqlnd_mbcharlen_utf8_id check_mb_utf8_valid_id LOWEST_MB_UTF8,
     charset 275 ''utf8mb4'' ''utf8mb4_hr_0900_ai_ci'' 1 4 '''' mysqlnd_mbcharlen_utf8_id check_mb_utf8_valid_id LOWEST_MB_UTF8,
     charset 276 ''utf8mb4'' ''utf8mb4_si_0900_ai_ci'' 1 4 '''' mysqlnd_mbcharlen_utf8_id check_mb_utf8_valid_id LOWEST_MB_UTF8,
     charset 277 ''utf8mb4'' ''utf8mb4_vi_0900_ai_ci'' 1 4 '''' mysqlnd_mbcharlen_utf8_id check_mb_utf8_valid_id LOWEST_MB_UTF8,
     charset 278 ''utf8mb4'' ''utf8mb4_0900_as_cs'' 1 4 '''' mysqlnd_mbcharlen_utf8_id check_mb_utf8_valid_id LOWEST_MB_UTF8,
     charset 279 ''utf8mb4'' ''utf8mb4_de_pb_0900_as_cs'' 1 4 '''' mysqlnd_mbcharlen_utf8_id check_mb_utf8_valid_id LOWEST_MB_UTF8,
     charset 280 ''utf8mb4'' ''utf8mb4_is_0900_as_cs'' 1 4 '''' mysqlnd_mbcharlen_utf8_id check_mb_utf8_valid_id LOWEST_MB_UTF8,
     charset 281 ''utf8mb4'' ''utf8mb4_lv_0900_as_cs'' 1 4 '''' mysqlnd_mbcharlen_utf8_id check_mb_utf8_valid_id LOWEST_MB_UTF8,
     charset 282 ''utf8mb4'' ''utf8mb4_ro_0900_as_cs'' 1 4 '''' mysqlnd_mbcharlen_utf8_id check_mb_utf8_valid_id LOWEST_MB_UTF8,
     charset 283 ''utf8mb4'' ''utf8mb4_sl_0900_as_cs'' 1 4 '''' mysqlnd_mbcharlen_utf8_id check_mb_utf8_valid_id LOWEST_MB_UTF8,
     charset 284 ''utf8mb4'' ''utf8mb4_pl_0900_as_cs'' 1 4 '''' mysqlnd_mbcharlen_utf8_id check_mb_utf8_valid_id LOWEST_MB_UTF8,
     charset 285 ''utf8mb4'' ''utf8mb4_et_0900_as_cs'' 1 4 '''' mysqlnd_mbcharlen_utf8_id check_mb_utf8_valid_id LOWEST_MB_UTF8,
     charset 286 ''utf8mb4'' ''utf8mb4_es_0900_as_cs'' 1 4 '''' mysqlnd_mbcharlen_utf8_id check_mb_utf8_valid_id LOWEST_MB_UTF8,
     charset 287 ''utf8mb4'' ''utf8mb4_sv_0900_as_cs'' 1 4 '''' mysqlnd_mbcharlen_utf8_id check_mb_utf8_valid_id LOWEST_MB_UTF8,
     charset 288 ''utf8mb4'' ''utf8mb4_tr_0900_as_cs'' 1 4 '''' mysqlnd_mbcharlen_utf8_id check_mb_utf8_valid_id LOWEST_MB_UTF8,
     charset 289 ''utf8mb4'' ''utf8mb4_cs_0900_as_cs'' 1 4 '''' mysqlnd_mbcharlen_utf8_id check_mb_utf8_valid_id LOWEST_MB_UTF8,
     charset 290 ''utf8mb4'' ''utf8mb4_da_0900_as_cs'' 1 4 '''' mysqlnd_mbcharlen_utf8_id check_mb_utf8_valid_id LOWEST_MB_UTF8,
     charset 291 ''utf8mb4'' ''utf8mb4_lt_0900_as_cs'' 1 4 '''' mysqlnd_mbcharlen_utf8_id check_mb_utf8_valid_id LOWEST_MB_UTF8,
     charset 292 ''utf8mb4'' ''utf8mb4_sk_0900_as_cs'' 1 4 '''' mysqlnd_mbcharlen_utf8_id check_mb_utf8_valid_id LOWEST_MB_UTF8,
     charset 293 ''utf8mb4'' ''utf8mb4_es_trad_0900_as_cs'' 1 4 '''' mysqlnd_mbcharlen_utf8_id check_mb_utf8_valid_id LOWEST_MB_UTF8,
     charset 294 ''utf8mb4'' ''utf8mb4_la_0900_as_cs'' 1 4 '''' mysqlnd_mbcharlen_utf8_id check_mb_utf8_valid_id LOWEST_MB_UTF8,
     charset 295 ''utf8mb4'' ''utf8mb4_fa_0900_as_cs'' 1 4 '''' mysqlnd_mbcharlen_utf8_id check_mb_utf8_valid_id LOWEST_MB_UTF8,
     charset 296 ''utf8mb4'' ''utf8mb4_eo_0900_as_cs'' 1 4 '''' mysqlnd_mbcharlen_utf8_id check_mb_utf8_valid_id LOWEST_MB_UTF8,
     charset 297 ''utf8mb4'' ''utf8mb4_hu_0900_as_cs'' 1 4 '''' mysqlnd_mbcharlen_utf8_id check_mb_utf8_valid_id LOWEST_MB_UTF8,
     charset 298 ''utf8mb4'' ''utf8mb4_hr_0900_as_cs'' 1 4 '''' mysqlnd_mbcharlen_utf8_id check_mb_utf8_valid_id LOWEST_MB_UTF8,
     charset 299 ''utf8mb4'' ''utf8mb4_si_0900_as_cs'' 1 4 '''' mysqlnd_mbcharlen_utf8_id check_mb_utf8_valid_id LOWEST_MB_UTF8,
     charset 300 ''utf8mb4'' ''utf8mb4_vi_0900_as_cs'' 1 4 '''' mysqlnd_mbcharlen_utf8_id check_mb_utf8_valid_id LOWEST_MB_UTF8,
     charset 303 ''utf8mb4'' ''utf8mb4_ja_0900_as_cs'' 1 4 '''' mysqlnd_mbcharlen_utf8_id check_mb_utf8_valid_id LOWEST_MB_UTF8]"

definition mysqlnd_charsets :: "mysqlnd_charset list" where
  "mysqlnd_charsets = mysqlnd_charsets_1 @ mysqlnd_charsets_2"

definition mysqlnd_find_charset_nr :: "nat \<Rightarrow> mysqlnd_charset option" where
  "mysqlnd_find_charset_nr charsetnr = find (\<lambda>c. nr c = charsetnr) mysqlnd_charsets"

definition mysqlnd_find_charset_name :: "string option \<Rightarrow> mysqlnd_charset option" where
  "mysqlnd_find_charset_name nm = Option.bind nm (\<lambda>name. find (\<lambda>c. strcaseeq (cs_name c) name) mysqlnd_charsets)"

end
