(* ===== verification/MysqlndEscape.thy ===== *)
theory MysqlndEscape
  imports MysqlndCharset
begin

text \<open>
  The two functions of \<^verbatim>\<open>mysqlnd_charset.c\<close> that escape a string for use between quotes: \<^verbatim>\<open>mysqlnd_cset_escape_slashes\<close>, and
  \<^verbatim>\<open>mysqlnd_cset_escape_quotes\<close> for servers in the mode \<^verbatim>\<open>NO_BACKSLASH_ESCAPES\<close>. What they promise is stated
  with a reader of quoted strings that takes a multi-byte character of the connection's character set as
  a unit, as the server documents it.
\<close>

section \<open>The code\<close>

abbreviation quote_char :: char where "quote_char \<equiv> CHR 0x27"
abbreviation backslash_char :: char where "backslash_char \<equiv> CHR 0x5C"

text \<open>The length of the multi-byte character at the start of a string, 0 when there is none.\<close>

definition mb_length :: "mysqlnd_charset \<Rightarrow> bytes \<Rightarrow> nat" where
  "mb_length cset s = (if at s 0 \<ge> lowest_mb_byte cset then mysqlnd_mbvalid_dispatch (mb_valid cset) s else 0)"

text \<open>The copying loop: it goes on behind the end when the character is said to be longer than what is left.\<close>

definition copy_mb :: "bytes \<Rightarrow> nat \<Rightarrow> bytes" where
  "copy_mb s len = map (\<lambda>i. char_of (at s i)) [0..<len]"

definition apparent_head :: "mysqlnd_charset \<Rightarrow> char \<Rightarrow> bool" where
  "apparent_head cset b \<longleftrightarrow> uc b \<ge> lowest_mb_byte cset \<and> mysqlnd_mbcharlen_dispatch (mb_charlen cset) (as_unsigned b) > 1"

definition escape_of :: "char \<Rightarrow> char" where
  "escape_of b =
     (if b = nul then CHR ''0'' else if b = CHR 0x0A then CHR ''n'' else if b = CHR 0x0D then CHR ''r''
      else if b = backslash_char \<or> b = quote_char \<or> b = CHR 0x22 then b else if b = CHR 0x1A then CHR ''Z'' else nul)"

function mysqlnd_cset_escape_slashes :: "mysqlnd_charset \<Rightarrow> bytes \<Rightarrow> bytes" where
  "mysqlnd_cset_escape_slashes cset [] = []"
| "mysqlnd_cset_escape_slashes cset (b # s) =
     (let len = mb_length cset (b # s)
      in if len \<noteq> 0 then copy_mb (b # s) len @ mysqlnd_cset_escape_slashes cset (drop len (b # s))
         else let esc = (if apparent_head cset b then b else nul);
                  esc1 = (if esc = nul then escape_of b else esc)
              in (if esc1 \<noteq> nul then [backslash_char, esc1] else [b]) @ mysqlnd_cset_escape_slashes cset s)"
  by pat_completeness auto
termination by (relation "measure (\<lambda>(cset, s). length s)") auto

function mysqlnd_cset_escape_quotes :: "mysqlnd_charset \<Rightarrow> bytes \<Rightarrow> bytes" where
  "mysqlnd_cset_escape_quotes cset [] = []"
| "mysqlnd_cset_escape_quotes cset (b # s) =
     (let len = mb_length cset (b # s)
      in if len \<noteq> 0 then copy_mb (b # s) len @ mysqlnd_cset_escape_quotes cset (drop len (b # s))
         else (if b = quote_char then [quote_char, quote_char] else [b]) @ mysqlnd_cset_escape_quotes cset s)"
  by pat_completeness auto
termination by (relation "measure (\<lambda>(cset, s). length s)") auto

section \<open>Reading a quoted string\<close>

text \<open>
  The reader gets what follows the opening quote and gives the contents and what follows the
  closing quote. Two quotes in a row are one. The first argument says whether a backslash escapes.
\<close>

definition unescape :: "char \<Rightarrow> char" where
  "unescape c =
     (if c = CHR ''0'' then nul else if c = CHR ''n'' then CHR 0x0A else if c = CHR ''r'' then CHR 0x0D
      else if c = CHR ''Z'' then CHR 0x1A else c)"

function read_quoted :: "bool \<Rightarrow> mysqlnd_charset \<Rightarrow> bytes \<Rightarrow> (bytes \<times> bytes) option" where
  "read_quoted bs cset [] = None"
| "read_quoted bs cset (b # s) =
     (let len = mb_length cset (b # s)
      in if len \<noteq> 0 then map_option (apfst (append (take len (b # s)))) (read_quoted bs cset (drop len (b # s)))
         else if b = quote_char
         then (case s of c # r \<Rightarrow> if c = quote_char then map_option (apfst (Cons quote_char)) (read_quoted bs cset r) else Some ([], s)
                | [] \<Rightarrow> Some ([], s))
         else if bs \<and> b = backslash_char
         then (case s of [] \<Rightarrow> None | c # r \<Rightarrow> map_option (apfst (Cons (unescape c))) (read_quoted bs cset r))
         else map_option (apfst (Cons b)) (read_quoted bs cset s))"
  by pat_completeness auto
termination by (relation "measure (\<lambda>(bs, cset, s). length s)") auto

section \<open>What a character set has to fulfil\<close>

text \<open>
  The laws of a character set: ASCII bytes stand for themselves; whether a string starts with a
  multi-byte character depends on that character alone. With backslashes, a byte that is passed on as it is
  does not become part of a character together with what the escaping puts behind it; with doubled quotes, likewise.
\<close>

locale escapable_quotes =
  fixes cset :: mysqlnd_charset
  assumes ascii_single: "uc b < 0x80 \<Longrightarrow> mb_length cset (b # s) = 0"
    and own_bytes: "mb_length cset s = n \<Longrightarrow> 0 < n \<Longrightarrow> n \<le> length s \<and> mb_length cset (take n s @ t) = n"
    and quotes_stay: "mb_length cset (b # s) = 0 \<Longrightarrow> mb_length cset (b # mysqlnd_cset_escape_quotes cset s @ quote_char # t) = 0"

locale escapable = escapable_quotes +
  assumes slashes_stay: "mb_length cset (b # s) = 0 \<Longrightarrow> \<not> apparent_head cset b \<Longrightarrow>
      mb_length cset (b # mysqlnd_cset_escape_slashes cset s @ quote_char # t) = 0"
    and ascii_no_head: "apparent_head cset b \<Longrightarrow> 0x80 \<le> uc b"

lemma copy_mb_take: "n \<le> length s \<Longrightarrow> copy_mb s n = take n s"
  by (rule nth_equalityI) (simp_all add: copy_mb_def at_def)

lemma length_copy_mb [simp]: "length (copy_mb s n) = n"
  by (simp add: copy_mb_def)

lemma unescape_escape_of: "escape_of b \<noteq> nul \<Longrightarrow> unescape (escape_of b) = b"
  by (auto simp: escape_of_def unescape_def split: if_splits)

lemma escape_of_special: "escape_of quote_char = quote_char" "escape_of backslash_char = backslash_char"
  by (simp_all add: escape_of_def)

lemma unescape_high: "0x80 \<le> uc b \<Longrightarrow> unescape b = b"
  by (auto simp: unescape_def)

lemma not_quote_head: "t = [] \<or> hd t \<noteq> quote_char \<Longrightarrow>
    (case t of c # r \<Rightarrow> if c = quote_char then f r else Some ([], t) | [] \<Rightarrow> Some ([], t)) = Some ([], t)"
  by (cases t) auto

lemma read_quoted_mb:
  assumes "mb_length cset s = n" "0 < n" "n \<le> length s"
  shows "read_quoted bs cset s = map_option (apfst (append (take n s))) (read_quoted bs cset (drop n s))"
  using assms by (cases s) (auto simp: Let_def)

context escapable_quotes
begin

lemma close_quote: "t = [] \<or> hd t \<noteq> quote_char \<Longrightarrow> read_quoted bs cset (quote_char # t) = Some ([], t)"
  using ascii_single [of quote_char t] by (simp add: not_quote_head)

lemma read_mb_part:
  assumes "mb_length cset s = n" "0 < n"
  shows "read_quoted bs cset (take n s @ t) = map_option (apfst (append (take n s))) (read_quoted bs cset t)"
proof -
  have n: "n \<le> length s" "mb_length cset (take n s @ t) = n" using own_bytes [OF assms] by auto
  from read_quoted_mb [OF n(2) assms(2)] n(1) show ?thesis by simp
qed

lemma read_escape_quotes:
  assumes t: "t = [] \<or> hd t \<noteq> quote_char"
  shows "read_quoted False cset (mysqlnd_cset_escape_quotes cset s @ quote_char # t) = Some (s, t)"
proof (induction s rule: length_induct)
  case (1 s)
  show ?case
  proof (cases s)
    case Nil
    then show ?thesis using close_quote [OF t] by simp
  next
    case (Cons b r)
    let ?E = "mysqlnd_cset_escape_quotes cset"
    define n where "n = mb_length cset s"
    have IH: "read_quoted False cset (?E r @ quote_char # t) = Some (r, t)" using 1 Cons by simp
    show ?thesis
    proof (cases "0 < n")
      case True
      have len: "n \<le> length s" using own_bytes [of s n] True n_def by blast
      have "?E s = take n s @ ?E (drop n s)" using Cons True n_def len by (simp add: Let_def copy_mb_take)
      moreover have "read_quoted False cset (?E (drop n s) @ quote_char # t) = Some (drop n s, t)" using 1 True Cons by simp
      ultimately show ?thesis using read_mb_part [OF n_def [symmetric] True, of False "?E (drop n s) @ quote_char # t"] by simp
    next
      case False
      then have n0: "mb_length cset (b # r) = 0" using n_def Cons by simp
      have b: "mb_length cset (b # ?E r @ quote_char # t) = 0" using quotes_stay [OF n0] .
      show ?thesis
      proof (cases "b = quote_char")
        case True
        then show ?thesis using Cons n0 IH ascii_single [of quote_char] by simp
      next
        case False
        then show ?thesis using Cons n0 IH b by simp
      qed
    qed
  qed
qed

lemma escape_quotes_length: "length (mysqlnd_cset_escape_quotes cset s) \<le> 2 * length s"
proof (induction s rule: length_induct)
  case (1 s)
  show ?case
  proof (cases s)
    case (Cons b r)
    define n where "n = mb_length cset s"
    have r: "length (mysqlnd_cset_escape_quotes cset r) \<le> 2 * length r" using 1 Cons by simp
    have d: "0 < n \<Longrightarrow> length (mysqlnd_cset_escape_quotes cset (drop n s)) \<le> 2 * (length s - n)"
      using 1 [THEN spec, of "drop n s"] Cons by simp
    have "n \<le> length s" using own_bytes [of s n] n_def by (cases n) auto
    then show ?thesis using Cons r d n_def by (auto simp: Let_def)
  qed simp
qed

end

context escapable
begin

lemma escape_slashes_single:
  assumes "mb_length cset (b # r) = 0"
  obtains (escaped) e where "mysqlnd_cset_escape_slashes cset (b # r) = [backslash_char, e] @ mysqlnd_cset_escape_slashes cset r" "unescape e = b"
  | (plain) "mysqlnd_cset_escape_slashes cset (b # r) = b # mysqlnd_cset_escape_slashes cset r" "\<not> apparent_head cset b"
      "b \<noteq> quote_char" "b \<noteq> backslash_char"
proof (cases "apparent_head cset b")
  case True
  then have "0x80 \<le> uc b" by (rule ascii_no_head)
  then have "b \<noteq> nul" "unescape b = b" using unescape_high by auto
  then show ?thesis using that(1) [of b] assms True by simp
next
  case False
  show ?thesis
  proof (cases "escape_of b = nul")
    case True
    have "b \<noteq> quote_char" "b \<noteq> backslash_char" using True by (auto simp: escape_of_def)
    then show ?thesis using that(2) assms False True by simp
  next
    case esc: False
    then show ?thesis using that(1) [OF _ unescape_escape_of [OF esc]] assms False by simp
  qed
qed

lemma read_escape_slashes:
  assumes t: "t = [] \<or> hd t \<noteq> quote_char"
  shows "read_quoted True cset (mysqlnd_cset_escape_slashes cset s @ quote_char # t) = Some (s, t)"
proof (induction s rule: length_induct)
  case (1 s)
  show ?case
  proof (cases s)
    case Nil
    then show ?thesis using close_quote [OF t] by simp
  next
    case (Cons b r)
    let ?E = "mysqlnd_cset_escape_slashes cset"
    define n where "n = mb_length cset s"
    have IH: "read_quoted True cset (?E r @ quote_char # t) = Some (r, t)" using 1 Cons by simp
    show ?thesis
    proof (cases "0 < n")
      case True
      have len: "n \<le> length s" using own_bytes [of s n] True n_def by blast
      have "?E s = take n s @ ?E (drop n s)" using Cons True n_def len by (simp add: Let_def copy_mb_take)
      moreover have "read_quoted True cset (?E (drop n s) @ quote_char # t) = Some (drop n s, t)" using 1 True Cons by simp
      ultimately show ?thesis using read_mb_part [OF n_def [symmetric] True, of True "?E (drop n s) @ quote_char # t"] by simp
    next
      case False
      then have n0: "mb_length cset (b # r) = 0" using n_def Cons by simp
      from n0 show ?thesis
      proof (cases rule: escape_slashes_single)
        case (escaped e)
        then show ?thesis using Cons IH ascii_single [of backslash_char] by simp
      next
        case plain
        have "mb_length cset (b # ?E r @ quote_char # t) = 0" using slashes_stay [OF n0 plain(2)] .
        then show ?thesis using Cons IH plain by simp
      qed
    qed
  qed
qed

lemma escape_slashes_length: "length (mysqlnd_cset_escape_slashes cset s) \<le> 2 * length s"
proof (induction s rule: length_induct)
  case (1 s)
  show ?case
  proof (cases s)
    case (Cons b r)
    define n where "n = mb_length cset s"
    have r: "length (mysqlnd_cset_escape_slashes cset r) \<le> 2 * length r" using 1 Cons by simp
    have d: "0 < n \<Longrightarrow> length (mysqlnd_cset_escape_slashes cset (drop n s)) \<le> 2 * (length s - n)"
      using 1 [THEN spec, of "drop n s"] Cons by simp
    have "n \<le> length s" using own_bytes [of s n] n_def by (cases n) auto
    then show ?thesis using Cons r d n_def by (auto simp: Let_def)
  qed simp
qed

end

section \<open>The character sets of the table\<close>

lemma at_Cons [simp]: "at (b # s) 0 = uc b" "at (b # s) (Suc i) = at s i"
  by (simp_all add: at_def)

lemma at_numeral [simp]: "at (b # s) 1 = at s 0" "at (b # s) 2 = at s 1" "at (b # s) 3 = at s 2"
  by (simp_all add: at_def numeral_eq_Suc)

lemma at_Nil [simp]: "at [] i = 0"
  by (simp add: at_def)

lemma at_take: "i < n \<Longrightarrow> n \<le> length s \<Longrightarrow> at (take n s @ t) i = at s i"
  by (simp add: at_def nth_append)

lemma at_pos: "0 < at s i \<Longrightarrow> i < length s"
  by (simp add: at_def split: if_splits)

lemma unat_as_unsigned: "unat (as_unsigned b) = (if uc b < 0x80 then uc b else uc b + 4294967040)"
proof -
  let ?n = "if uc b < 0x80 then uc b else uc b + 4294967040"
  have e: "as_unsigned b = of_nat ?n" by (simp add: as_unsigned_def)
  have "?n < 4294967296" using of_char_less_256 [of b] by simp
  then show ?thesis unfolding e by (rule unat_of_nat_u32)
qed

lemma xor_zero_iff: "(x :: u32) XOR y = 0 \<longleftrightarrow> x = y"
  by (auto simp: bit_eq_iff bit_xor_iff)

lemma uchar_as_unsigned [simp]: "uchar (as_unsigned b) = uc b"
proof -
  have "(n + 4294967040) mod 256 = n mod 256" for n :: nat using mod_mult_self1 [of n 16777215 256] by simp
  then show ?thesis using of_char_less_256 [of b] unfolding uchar_def unat_and_255 unat_as_unsigned by simp
qed

lemma continuation_iff: "b < 256 \<Longrightarrow> continuation b \<longleftrightarrow> 0x80 \<le> b \<and> b < 0xC0"
proof -
  assume b: "b < 256"
  let ?w = "of_nat b :: u32"
  have "?w XOR 0x80 < 0x40 \<longleftrightarrow> drop_bit 6 (?w XOR 0x80) = 0"
    unfolding word_less_nat_alt word_unat_eq_iff unat_drop_bit_eq by (simp add: div_eq_0_iff drop_bit_eq_div)
  also have "\<dots> \<longleftrightarrow> drop_bit 6 ?w XOR 2 = 0" by (simp add: drop_bit_xor)
  also have "\<dots> \<longleftrightarrow> drop_bit 6 ?w = 2" by (rule xor_zero_iff)
  also have "\<dots> \<longleftrightarrow> b div 64 = 2"
    using b unfolding word_unat_eq_iff unat_drop_bit_eq by (simp add: drop_bit_eq_div unat_of_nat_u32)
  also have "\<dots> \<longleftrightarrow> 0x80 \<le> b \<and> b < 0xC0" by auto
  finally show ?thesis by (simp add: continuation_def)
qed

lemma utf8_no_head:
  "0x80 \<le> uc b \<Longrightarrow> mysqlnd_mbcharlen_utf8mb3 (as_unsigned b) = 0" "0x80 \<le> uc b \<Longrightarrow> mysqlnd_mbcharlen_utf8 (as_unsigned b) = 0"
  by (simp_all add: mysqlnd_mbcharlen_utf8mb3_def mysqlnd_mbcharlen_utf8_def word_less_nat_alt unat_as_unsigned)

lemmas byte_classes = valid_big5head_def valid_big5tail_def valid_cp932head_def valid_cp932tail_def valid_euckr_def
  valid_eucjpms_def valid_eucjpms_kata_def valid_eucjpms_ss2_def valid_eucjpms_ss3_def valid_gb2312_head_def valid_gb2312_tail_def
  valid_gbk_head_def valid_gbk_tail_def valid_sjis_head_def valid_sjis_tail_def valid_ujis_def valid_ujis_kata_def
  valid_ujis_ss2_def valid_ujis_ss3_def is_gb18030_odd_def is_gb18030_even_2_def is_gb18030_even_4_def

lemmas check_defs = check_mb_big5_def check_mb_ujis_def check_mb_sjis_def check_mb_euckr_def check_mb_gb2312_def check_mb_gbk_def
  check_mb_eucjpms_def check_mb_cp932_def my_ismbchar_gb18030_def check_mb_utf8mb3_valid_def check_mb_utf8mb3_sequence_def
  check_mb_utf8_valid_def check_mb_utf8_sequence_def Let_def

text \<open>The character sets whose characters may be a single byte.\<close>

definition narrow :: "mysqlnd_encoding_valid \<Rightarrow> bool" where
  "narrow e \<longleftrightarrow> e \<notin> {check_mb_ucs2_id, check_mb_utf16_id, check_mb_utf32_id}"

lemma dispatch_ascii: "narrow e \<Longrightarrow> uc b < 0x80 \<Longrightarrow> mysqlnd_mbvalid_dispatch e (b # s) = 0"
  by (cases e) (auto simp: narrow_def mysqlnd_mbvalid_dispatch_def check_defs byte_classes)

lemma dispatch_length:
  assumes "narrow e" "mysqlnd_mbvalid_dispatch e s = n" "0 < n"
  shows "n \<le> length s"
  using assms at_pos [of s 1]
  by (cases e) (auto simp: narrow_def mysqlnd_mbvalid_dispatch_def check_defs byte_classes split: if_splits)

lemma dispatch_local:
  assumes "narrow e" "mysqlnd_mbvalid_dispatch e s = n" "0 < n"
  shows "mysqlnd_mbvalid_dispatch e (take n s @ t) = n"
  using assms dispatch_length [OF assms]
  by (cases e) (auto simp: narrow_def mysqlnd_mbvalid_dispatch_def check_defs at_take split: if_splits)

lemma four_cases:
  obtains "p = []" | x where "p = [x]" | x y where "p = [x, y]" | x y z q where "p = x # y # z # q"
proof (cases p)
  case (Cons x r)
  show thesis
  proof (cases r)
    case r: (Cons y r')
    show thesis
    proof (cases r')
      case Nil
      then show thesis using that(3) Cons r by simp
    next
      case (Cons z q)
      then show thesis using that(4) \<open>p = x # r\<close> r by simp
    qed
  qed (use that(2) Cons in simp)
qed (use that(1) in simp)

lemma no_continuation: "\<not> continuation 39" "\<not> continuation 0"
  by (simp_all add: continuation_iff)

lemma utf8_quote:
  "check_mb_utf8_valid (b # p @ quote_char # t) = check_mb_utf8_valid (b # p)"
  "check_mb_utf8mb3_valid (b # p @ quote_char # t) = check_mb_utf8mb3_valid (b # p)"
  by (cases p rule: four_cases; simp add: check_defs no_continuation cong: if_cong split del: if_split)+

lemma dispatch_quote:
  assumes "narrow e"
  shows "mysqlnd_mbvalid_dispatch e (b # p @ quote_char # t) = mysqlnd_mbvalid_dispatch e (b # p)"
proof (cases "e \<in> {check_mb_utf8_valid_id, check_mb_utf8mb3_valid_id}")
  case True
  then show ?thesis using utf8_quote by (auto simp: mysqlnd_mbvalid_dispatch_def)
next
  case False
  then show ?thesis
    using assms
    by (cases p rule: four_cases; cases e) (simp_all add: narrow_def mysqlnd_mbvalid_dispatch_def check_defs byte_classes cong: if_cong split del: if_split)
qed

text \<open>What the doubling of quotes gives agrees with the string up to a quote.\<close>

lemma escape_quotes_prefix:
  assumes "narrow (mb_valid cset)"
  shows "\<exists>p t1. mysqlnd_cset_escape_quotes cset s @ quote_char # t = p @ quote_char # t1 \<and> (s = p \<or> (\<exists>u. s = p @ quote_char # u))"
proof (induction s rule: length_induct)
  case (1 s)
  show ?case
  proof (cases s)
    case Nil
    then show ?thesis by auto
  next
    case (Cons b r)
    define n where "n = mb_length cset s"
    show ?thesis
    proof (cases "0 < n")
      case True
      then have len: "n \<le> length s" using dispatch_length [OF assms, of s n] n_def by (auto simp: mb_length_def split: if_splits)
      obtain p t1 where p: "mysqlnd_cset_escape_quotes cset (drop n s) @ quote_char # t = p @ quote_char # t1"
          "drop n s = p \<or> (\<exists>u. drop n s = p @ quote_char # u)"
        using 1 [THEN spec, of "drop n s"] True Cons by auto
      have E: "mysqlnd_cset_escape_quotes cset s = take n s @ mysqlnd_cset_escape_quotes cset (drop n s)"
        using Cons True n_def len by (simp add: Let_def copy_mb_take)
      have "s = take n s @ p \<or> (\<exists>u. s = (take n s @ p) @ quote_char # u)" (is "?a \<or> (\<exists>u. ?b u)")
        using p(2)
      proof (elim disjE exE)
        assume "drop n s = p"
        then have ?a using append_take_drop_id [of n s] by simp
        then show ?thesis ..
      next
        fix u assume "drop n s = p @ quote_char # u"
        then have "?b u" using append_take_drop_id [of n s] by simp
        then show ?thesis by blast
      qed
      then show ?thesis using p(1) E by (intro exI [of _ "take n s @ p"] exI [of _ t1]) simp
    next
      case False
      then have E: "mysqlnd_cset_escape_quotes cset s =
          (if b = quote_char then [quote_char, quote_char] else [b]) @ mysqlnd_cset_escape_quotes cset r"
        using Cons n_def by (simp add: Let_def)
      show ?thesis
      proof (cases "b = quote_char")
        case True
        have "mysqlnd_cset_escape_quotes cset s @ quote_char # t = [] @ quote_char # quote_char # mysqlnd_cset_escape_quotes cset r @ quote_char # t"
          unfolding E using True by simp
        then show ?thesis using Cons True by blast
      next
        case nq: False
        obtain p t1 where p: "mysqlnd_cset_escape_quotes cset r @ quote_char # t = p @ quote_char # t1"
            "r = p \<or> (\<exists>u. r = p @ quote_char # u)" using 1 Cons by auto
        have "mysqlnd_cset_escape_quotes cset s @ quote_char # t = (b # p) @ quote_char # t1" unfolding E using nq p(1) by simp
        moreover have "s = b # p \<or> (\<exists>u. s = (b # p) @ quote_char # u)" using p(2) Cons by simp
        ultimately show ?thesis by blast
      qed
    qed
  qed
qed

lemma quotes_stay_narrow:
  assumes "narrow (mb_valid cset)" "mb_length cset (b # s) = 0"
  shows "mb_length cset (b # mysqlnd_cset_escape_quotes cset s @ quote_char # t) = 0"
proof -
  obtain p t1 where p: "mysqlnd_cset_escape_quotes cset s @ quote_char # t = p @ quote_char # t1" "s = p \<or> (\<exists>u. s = p @ quote_char # u)"
    using escape_quotes_prefix [OF assms(1)] by blast
  show ?thesis
  proof (cases "uc b \<ge> lowest_mb_byte cset")
    case True
    then have "mysqlnd_mbvalid_dispatch (mb_valid cset) (b # s) = 0" using assms(2) by (simp add: mb_length_def)
    then have "mysqlnd_mbvalid_dispatch (mb_valid cset) (b # p) = 0" using p(2) dispatch_quote [OF assms(1)] by auto
    then show ?thesis unfolding p(1) using dispatch_quote [OF assms(1)] by (simp add: mb_length_def)
  qed (simp add: mb_length_def)
qed

lemma narrow_quotes: "narrow (mb_valid cset) \<Longrightarrow> escapable_quotes cset"
proof unfold_locales
  assume n: "narrow (mb_valid cset)"
  show "mb_length cset (b # s) = 0" if "uc b < 0x80" for b s
    using dispatch_ascii [OF n that] by (simp add: mb_length_def)
  show "k \<le> length s \<and> mb_length cset (take k s @ t) = k" if k: "mb_length cset s = k" "0 < k" for s k t
  proof -
    have d: "mysqlnd_mbvalid_dispatch (mb_valid cset) s = k" "lowest_mb_byte cset \<le> at s 0" using k by (auto simp: mb_length_def split: if_splits)
    then have "k \<le> length s" using dispatch_length [OF n] k(2) by blast
    then show ?thesis using dispatch_local [OF n d(1) k(2)] d(2) k(2) by (simp add: mb_length_def at_take)
  qed
  show "mb_length cset (b # mysqlnd_cset_escape_quotes cset s @ quote_char # t) = 0" if "mb_length cset (b # s) = 0" for b s t
    using quotes_stay_narrow [OF n that] .
qed

subsection \<open>Backslashes\<close>

text \<open>
  In most sets every byte that can start a character is an apparent head, so it gets a backslash when it does not
  start one. In UTF-8 it never is, because of the sign extension; there the bytes that can follow are not ASCII
  and are passed on, and the same bytes follow before and after. The Korean set accepts more first bytes
  than it takes for heads, but no ASCII byte as a second one.
\<close>

definition head_escaped :: "mysqlnd_charset \<Rightarrow> bool" where
  "head_escaped cset \<longleftrightarrow> (mb_charlen cset, mb_valid cset) \<in>
     {(mysqlnd_mbcharlen_null_id, check_null_id), (mysqlnd_mbcharlen_big5_id, check_mb_big5_id), (mysqlnd_mbcharlen_ujis_id, check_mb_ujis_id),
      (mysqlnd_mbcharlen_sjis_id, check_mb_sjis_id), (mysqlnd_mbcharlen_gb2312_id, check_mb_gb2312_id), (mysqlnd_mbcharlen_gbk_id, check_mb_gbk_id),
      (mysqlnd_mbcharlen_eucjpms_id, check_mb_eucjpms_id), (mysqlnd_mbcharlen_cp932_id, check_mb_cp932_id)}"

definition utf8_like :: "mysqlnd_charset \<Rightarrow> bool" where
  "utf8_like cset \<longleftrightarrow> (mb_charlen cset, mb_valid cset) \<in>
     {(mysqlnd_mbcharlen_utf8mb3_id, check_mb_utf8mb3_valid_id), (mysqlnd_mbcharlen_utf8_id, check_mb_utf8_valid_id)}"

definition korean :: "mysqlnd_charset \<Rightarrow> bool" where
  "korean cset \<longleftrightarrow> (mb_charlen cset, mb_valid cset) = (mysqlnd_mbcharlen_euckr_id, check_mb_euckr_id)"

lemmas charlen_defs = mysqlnd_mbcharlen_dispatch_def mysqlnd_mbcharlen_big5_def mysqlnd_mbcharlen_ujis_def mysqlnd_mbcharlen_sjis_def
  mysqlnd_mbcharlen_gb2312_def mysqlnd_mbcharlen_gbk_def mysqlnd_mbcharlen_eucjpms_def mysqlnd_mbcharlen_cp932_def mysqlnd_mbcharlen_euckr_def

lemma head_escaped_head:
  assumes "head_escaped cset" "0 < mb_length cset (b # s)"
  shows "apparent_head cset b"
proof -
  have "lowest_mb_byte cset \<le> uc b" "0 < mysqlnd_mbvalid_dispatch (mb_valid cset) (b # s)"
    using assms(2) by (auto simp: mb_length_def split: if_splits)
  then show ?thesis
    using assms(1) by (auto simp: head_escaped_def apparent_head_def charlen_defs mysqlnd_mbvalid_dispatch_def check_defs split: if_splits)
qed

lemma escape_slashes_first:
  assumes "narrow (mb_valid cset)"
  shows "\<exists>r'. mysqlnd_cset_escape_slashes cset (b # r) = b # r' \<or> mysqlnd_cset_escape_slashes cset (b # r) = backslash_char # r'"
proof (cases "0 < mb_length cset (b # r)")
  case True
  then have "mb_length cset (b # r) \<le> length (b # r)"
    using dispatch_length [OF assms refl, of "b # r"] by (simp add: mb_length_def split: if_splits)
  then show ?thesis using True by (cases "mb_length cset (b # r)") (auto simp: Let_def copy_mb_take)
qed (auto simp: Let_def)

lemma korean_stay:
  assumes "korean cset" "mb_length cset (b # s) = 0"
  shows "mb_length cset (b # mysqlnd_cset_escape_slashes cset s @ quote_char # t) = 0"
proof -
  have e: "mb_valid cset = check_mb_euckr_id" using assms(1) by (simp add: korean_def)
  have two: "mb_length cset (b # c # r) = (if lowest_mb_byte cset \<le> uc b \<and> 0x80 \<le> uc b \<and> valid_euckr (uc c) then 2 else 0)" for c r
    by (simp add: mb_length_def e mysqlnd_mbvalid_dispatch_def check_mb_euckr_def)
  show ?thesis
  proof (cases s)
    case Nil
    then show ?thesis by (simp add: two valid_euckr_def)
  next
    case (Cons c r)
    have "narrow (mb_valid cset)" by (simp add: e narrow_def)
    from escape_slashes_first [OF this, of c r] obtain d r' where "mysqlnd_cset_escape_slashes cset s = d # r'" "d = c \<or> d = backslash_char"
      using Cons by blast
    then show ?thesis using assms(2) Cons by (auto simp del: mysqlnd_cset_escape_slashes.simps simp: two valid_euckr_def)
  qed
qed

lemma utf8_takeWhile:
  "check_mb_utf8_valid (b # s) = check_mb_utf8_valid (b # takeWhile (\<lambda>c. continuation (uc c)) s) \<and>
   check_mb_utf8mb3_valid (b # s) = check_mb_utf8mb3_valid (b # takeWhile (\<lambda>c. continuation (uc c)) s)"
proof (cases s rule: four_cases)
  case 1
  then show ?thesis by simp
next
  case (2 x)
  then show ?thesis by (cases "continuation (uc x)") (simp_all add: check_defs cong: if_cong split del: if_split)
next
  case (3 x y)
  then show ?thesis
    by (cases "continuation (uc x)"; cases "continuation (uc y)") (simp_all add: check_defs cong: if_cong split del: if_split)
next
  case (4 x y z q)
  then show ?thesis
    by (cases "continuation (uc x)"; cases "continuation (uc y)"; cases "continuation (uc z)")
      (simp_all add: check_defs cong: if_cong split del: if_split)
qed

lemma escape_of_high: "0x80 \<le> uc b \<Longrightarrow> escape_of b = nul"
proof -
  assume "0x80 \<le> uc b"
  then have "b \<notin> {nul, CHR 0x0A, CHR 0x0D, backslash_char, quote_char, CHR 0x22, CHR 0x1A}" by (force simp del: of_char_eq_iff)
  then show ?thesis by (simp add: escape_of_def)
qed

lemma utf8_no_continuation_head:
  assumes "utf8_like cset" "continuation (uc b)"
  shows "mb_length cset (b # s) = 0" "\<not> apparent_head cset b" "escape_of b = nul"
proof -
  have b: "0x80 \<le> uc b" "uc b < 0xC0" using assms(2) continuation_iff [of "uc b"] by auto
  then have "check_mb_utf8_valid (b # s) = 0" "check_mb_utf8mb3_valid (b # s) = 0" by (simp_all add: check_defs)
  then show "mb_length cset (b # s) = 0"
    using assms(1) by (auto simp: utf8_like_def mb_length_def mysqlnd_mbvalid_dispatch_def)
  show "\<not> apparent_head cset b"
    using assms(1) b(1) utf8_no_head by (auto simp: utf8_like_def apparent_head_def mysqlnd_mbcharlen_dispatch_def)
  show "escape_of b = nul" using escape_of_high [OF b(1)] .
qed

lemma utf8_escape_takeWhile:
  assumes "utf8_like cset"
  shows "takeWhile (\<lambda>c. continuation (uc c)) (mysqlnd_cset_escape_slashes cset s @ quote_char # t) = takeWhile (\<lambda>c. continuation (uc c)) s"
proof (induction s)
  case Nil
  then show ?case by (simp add: no_continuation)
next
  case (Cons b s)
  have n: "narrow (mb_valid cset)" using assms by (auto simp: utf8_like_def narrow_def)
  show ?case
  proof (cases "continuation (uc b)")
    case True
    then show ?thesis using utf8_no_continuation_head [OF assms True] Cons by simp
  next
    case False
    have "\<not> continuation (uc backslash_char)" by (simp add: continuation_iff)
    with False escape_slashes_first [OF n, of b s] show ?thesis by (auto simp del: mysqlnd_cset_escape_slashes.simps)
  qed
qed

lemma utf8_stay:
  assumes "utf8_like cset" "mb_length cset (b # s) = 0"
  shows "mb_length cset (b # mysqlnd_cset_escape_slashes cset s @ quote_char # t) = 0"
proof -
  have "mb_length cset (b # s) = mb_length cset (b # takeWhile (\<lambda>c. continuation (uc c)) s)" for s
    using assms(1) utf8_takeWhile by (auto simp: utf8_like_def mb_length_def mysqlnd_mbvalid_dispatch_def)
  from this [of s] this [of "mysqlnd_cset_escape_slashes cset s @ quote_char # t"] show ?thesis
    using assms(2) utf8_escape_takeWhile [OF assms(1)] by simp
qed

lemma escapable_classes:
  assumes "head_escaped cset \<or> utf8_like cset \<or> korean cset" "0x80 \<le> lowest_mb_byte cset"
  shows "escapable cset"
proof -
  have n: "narrow (mb_valid cset)" using assms(1) by (auto simp: head_escaped_def utf8_like_def korean_def narrow_def)
  show ?thesis
  proof (intro escapable.intro narrow_quotes [OF n] escapable_axioms.intro)
    show "mb_length cset (b # mysqlnd_cset_escape_slashes cset s @ quote_char # t) = 0"
      if "mb_length cset (b # s) = 0" "\<not> apparent_head cset b" for b s t
      using assms(1) head_escaped_head [of cset b] that utf8_stay [of cset b s t] korean_stay [of cset b s t] by blast
    show "0x80 \<le> uc b" if "apparent_head cset b" for b
      using that assms(2) by (simp add: apparent_head_def)
  qed
qed

section \<open>The table\<close>

text \<open>The assertions of \<^verbatim>\<open>mysqlnd_charsets_sanity_check\<close> on one entry.\<close>

definition charset_sane :: "mysqlnd_charset \<Rightarrow> bool" where
  "charset_sane c \<longleftrightarrow>
     char_minlen c \<le> char_maxlen c \<and> (char_maxlen c = 1 \<longrightarrow> lowest_mb_byte c = 0x100) \<and>
     (if char_minlen c > 1
      then mb_valid c \<noteq> check_null_id \<and> mb_charlen c \<noteq> mysqlnd_mbcharlen_null_id \<and> lowest_mb_byte c = 0
      else mb_valid c \<noteq> check_null_id \<longrightarrow>
        (\<forall>ch < 255. mysqlnd_mbcharlen_dispatch (mb_charlen c) (of_nat ch) > 1 \<longrightarrow> ch \<ge> lowest_mb_byte c) \<and>
        (\<forall>i. length i = 4 \<longrightarrow> mysqlnd_mbvalid_dispatch (mb_valid c) i > 1 \<longrightarrow> at i 0 \<ge> lowest_mb_byte c))"

definition encodings :: "(mysqlnd_encoding_charlen \<times> mysqlnd_encoding_valid \<times> nat) list" where
  "encodings =
     [(mysqlnd_mbcharlen_null_id, check_null_id, 0x100), (mysqlnd_mbcharlen_big5_id, check_mb_big5_id, 0xA1),
      (mysqlnd_mbcharlen_ujis_id, check_mb_ujis_id, 0x80), (mysqlnd_mbcharlen_sjis_id, check_mb_sjis_id, 0x80),
      (mysqlnd_mbcharlen_euckr_id, check_mb_euckr_id, 0x80), (mysqlnd_mbcharlen_gb2312_id, check_mb_gb2312_id, 0xA1),
      (mysqlnd_mbcharlen_gbk_id, check_mb_gbk_id, 0x80), (mysqlnd_mbcharlen_utf8mb3_id, check_mb_utf8mb3_valid_id, 0x80),
      (mysqlnd_mbcharlen_eucjpms_id, check_mb_eucjpms_id, 0x80), (mysqlnd_mbcharlen_utf8_id, check_mb_utf8_valid_id, 0x80),
      (mysqlnd_mbcharlen_cp932_id, check_mb_cp932_id, 0x80), (mysqlnd_mbcharlen_gb18030_id, my_ismbchar_gb18030_id, 0)]"

lemma table_checked:
  "list_all (\<lambda>c. (char_minlen c \<le> 1 \<or> mb_valid c = my_ismbchar_gb18030_id \<longrightarrow>
       char_minlen c \<le> 1 \<and> (mb_charlen c, mb_valid c, lowest_mb_byte c) \<in> set encodings) \<and>
     char_minlen c \<le> char_maxlen c \<and> (char_maxlen c = 1 \<longrightarrow> lowest_mb_byte c = 0x100) \<and>
     (char_minlen c > 1 \<longrightarrow> mb_valid c \<noteq> check_null_id \<and> mb_charlen c \<noteq> mysqlnd_mbcharlen_null_id \<and> lowest_mb_byte c = 0)) mysqlnd_charsets"
  by code_simp

end
