(* ===== verification/MysqlndQuoting.thy ===== *)
theory MysqlndQuoting
  imports MysqlndEscape
begin

text \<open>
  What the escaping functions guarantee for the character sets of the table: a string between quotes is read back as it
  was, whatever its bytes, and the output fits into the buffer; and the sets for which this does not hold.
\<close>

section \<open>The entries of the table\<close>

lemma table_encoding:
  "c \<in> set mysqlnd_charsets \<Longrightarrow> char_minlen c \<le> 1 \<Longrightarrow> (mb_charlen c, mb_valid c, lowest_mb_byte c) \<in> set encodings"
  "c \<in> set mysqlnd_charsets \<Longrightarrow> mb_valid c = my_ismbchar_gb18030_id \<Longrightarrow> char_minlen c \<le> 1"
  using table_checked by (auto simp: list_all_iff)

lemma table_narrow: "c \<in> set mysqlnd_charsets \<Longrightarrow> char_minlen c \<le> 1 \<Longrightarrow> narrow (mb_valid c)"
  using table_encoding(1) by (force simp: encodings_def narrow_def)

lemma table_escapable:
  assumes "c \<in> set mysqlnd_charsets" "char_minlen c \<le> 1" "mb_valid c \<noteq> my_ismbchar_gb18030_id"
  shows "escapable c"
  using table_encoding(1) [OF assms(1,2)] assms(3)
  by (intro escapable_classes) (auto simp: encodings_def head_escaped_def utf8_like_def korean_def)

lemma charlen_lowest:
  assumes "(cl, va, lo) \<in> set encodings" "va \<noteq> check_null_id" "ch < 255" "mysqlnd_mbcharlen_dispatch cl (of_nat ch) > 1"
  shows "lo \<le> ch"
proof -
  have ch: "uchar (of_nat ch) = ch" "unat (of_nat ch :: u32) = ch"
    using assms(3) by (simp_all add: uchar_def unat_and_255 unat_of_nat_u32)
  have "(of_nat ch :: u32) < 0x80 \<longleftrightarrow> ch < 0x80"
    using assms(3) by (simp add: word_less_nat_alt unat_of_nat_u32)
  then show ?thesis
    using assms ch
    by (auto simp: encodings_def charlen_defs byte_classes mysqlnd_mbcharlen_utf8mb3_def mysqlnd_mbcharlen_utf8_def split: if_splits)
qed

lemma valid_lowest:
  assumes "(cl, va, lo) \<in> set encodings" "mysqlnd_mbvalid_dispatch va s > 1"
  shows "lo \<le> at s 0"
proof (rule ccontr)
  assume "\<not> lo \<le> at s 0"
  with assms(1) have "at s 0 < 0x80 \<or> va \<in> {check_null_id, check_mb_big5_id, check_mb_gb2312_id} \<and> at s 0 < lo" "narrow va"
    by (auto simp: encodings_def narrow_def)
  moreover have "s \<noteq> []" using assms(2) \<open>narrow va\<close> dispatch_length [of va "[]", OF _ refl] by auto
  ultimately show False
    using assms dispatch_ascii [of va "hd s" "tl s"] by (cases s) (auto simp: encodings_def mysqlnd_mbvalid_dispatch_def check_defs byte_classes split: if_splits)
qed

text \<open>The set that connections use unless they ask for another one.\<close>

definition utf8mb4 :: mysqlnd_charset where
  "utf8mb4 = charset 45 ''utf8mb4'' ''utf8mb4_general_ci'' 1 4 ''UTF-8 Unicode'' mysqlnd_mbcharlen_utf8_id check_mb_utf8_valid_id LOWEST_MB_UTF8"

interpretation utf8mb4: escapable utf8mb4
  by (rule escapable_classes) (simp_all add: utf8mb4_def charset_def utf8_like_def lowest_defs)

section \<open>Properties\<close>

text \<open>
  C9: quoting with backslashes. For every character set of the table whose characters may be single bytes, gb18030 excepted, and every string
  of bytes, valid in the set or not: what \<^verbatim>\<open>mysqlnd_cset_escape_slashes\<close> writes, followed by the
  closing quote, is read as exactly that string, and reading stops at that quote; and at most two bytes are written for each byte
  of the string, the size the callers allocate.
\<close>

theorem escape_slashes_safe:
  assumes "c \<in> set mysqlnd_charsets" and "char_minlen c \<le> 1" and "mb_valid c \<noteq> my_ismbchar_gb18030_id"
    and "t = [] \<or> hd t \<noteq> quote_char"
  shows "read_quoted True c (mysqlnd_cset_escape_slashes c s @ quote_char # t) = Some (s, t) \<and>
    length (mysqlnd_cset_escape_slashes c s) \<le> 2 * length s"
  using escapable.read_escape_slashes [OF table_escapable [OF assms(1-3)] assms(4)]
    escapable.escape_slashes_length [OF table_escapable [OF assms(1-3)]] by simp

text \<open>
  Quoting by doubled quotes, for servers in the mode without backslash escapes. The same for \<^verbatim>\<open>mysqlnd_cset_escape_quotes\<close>, and here
  for gb18030 too.
\<close>

theorem escape_quotes_safe:
  assumes "c \<in> set mysqlnd_charsets" and "char_minlen c \<le> 1" and "t = [] \<or> hd t \<noteq> quote_char"
  shows "read_quoted False c (mysqlnd_cset_escape_quotes c s @ quote_char # t) = Some (s, t) \<and>
    length (mysqlnd_cset_escape_quotes c s) \<le> 2 * length s"
  using escapable_quotes.read_escape_quotes [OF narrow_quotes [OF table_narrow [OF assms(1,2)]] assms(3)]
    escapable_quotes.escape_quotes_length [OF narrow_quotes [OF table_narrow [OF assms(1,2)]]] by simp

text \<open>
  C10: gb18030. \<^verbatim>\<open>mysqlnd_mbcharlen_gb18030\<close> never gives more than one for a single byte, so a first byte that starts no
  character is passed on without a backslash; the backslash of the quote that follows becomes its second byte, and the quote ends
  the string: whatever the string holds after it is read as part of the statement.
\<close>

theorem gb18030_quote_escapes:
  assumes "c \<in> set mysqlnd_charsets" and "mb_valid c = my_ismbchar_gb18030_id" and "p \<noteq> []"
  shows "read_quoted True c (mysqlnd_cset_escape_slashes c ([CHR 0x81, quote_char] @ p) @ quote_char # t) =
    Some ([CHR 0x81, backslash_char], mysqlnd_cset_escape_slashes c p @ quote_char # t)"
proof -
  have c: "mb_charlen c = mysqlnd_mbcharlen_gb18030_id" "lowest_mb_byte c = 0"
    using table_encoding(1) [OF assms(1) table_encoding(2) [OF assms(1,2)]] assms(2) by (auto simp: encodings_def)
  have mb: "mb_length c (CHR 0x81 # quote_char # x) = 0" "mb_length c (quote_char # x) = 0" "mb_length c (backslash_char # x) = 0"
      "mb_length c (CHR 0x81 # backslash_char # x) = 2" for x
    by (simp_all add: mb_length_def assms(2) c mysqlnd_mbvalid_dispatch_def my_ismbchar_gb18030_def byte_classes)
  have nohead: "\<not> apparent_head c b" for b
    by (simp add: apparent_head_def c mysqlnd_mbcharlen_dispatch_def mysqlnd_mbcharlen_gb18030_def) (simp add: word_le_nat_alt word_less_nat_alt unat_as_unsigned)
  have E: "mysqlnd_cset_escape_slashes c ([CHR 0x81, quote_char] @ p) = [CHR 0x81, backslash_char, quote_char] @ mysqlnd_cset_escape_slashes c p"
    using nohead by (simp add: mb escape_of_def)
  obtain b q where p: "p = b # q" using assms(3) by (cases p) auto
  have n: "narrow (mb_valid c)" by (simp add: assms(2) narrow_def)
  have "\<exists>d r. mysqlnd_cset_escape_slashes c p = d # r \<and> d \<noteq> quote_char"
  proof (cases "b = quote_char")
    case True
    then show ?thesis using nohead p by (simp add: mb escape_of_def)
  next
    case False
    then show ?thesis using escape_slashes_first [OF n, of b q] p by (auto simp del: mysqlnd_cset_escape_slashes.simps)
  qed
  then obtain d r where d: "mysqlnd_cset_escape_slashes c p = d # r" "d \<noteq> quote_char" by blast
  show ?thesis unfolding E d(1) using d(2) by (simp add: mb)
qed

text \<open>
  The table is sane: every entry passes the assertions of \<^verbatim>\<open>mysqlnd_charsets_sanity_check\<close>. In particular, a byte below
  the entry's lowest multi-byte byte, which the escaping functions do not look up, starts no character of several bytes.
\<close>

theorem charsets_sane: "\<forall>c \<in> set mysqlnd_charsets. charset_sane c"
proof
  fix c assume c: "c \<in> set mysqlnd_charsets"
  with table_checked have s: "char_minlen c \<le> char_maxlen c \<and> (char_maxlen c = 1 \<longrightarrow> lowest_mb_byte c = 0x100) \<and>
     (char_minlen c > 1 \<longrightarrow> mb_valid c \<noteq> check_null_id \<and> mb_charlen c \<noteq> mysqlnd_mbcharlen_null_id \<and> lowest_mb_byte c = 0)"
    by (simp add: list_all_iff)
  show "charset_sane c"
  proof (cases "char_minlen c > 1")
    case True
    then show ?thesis using s by (simp add: charset_sane_def)
  next
    case False
    then have e: "(mb_charlen c, mb_valid c, lowest_mb_byte c) \<in> set encodings" using table_encoding(1) [OF c] by simp
    show ?thesis using s False charlen_lowest [OF e] valid_lowest [OF e] by (simp add: charset_sane_def)
  qed
qed

text \<open>
  The wide sets are not allowed for connections; if one is in use all the same, UTF-32 reads three bytes behind a string of one byte
  and writes four into a buffer of three, and UCS-2 reads one byte behind a string of odd length.
\<close>

lemma utf32_overruns:
  assumes "mb_valid c = check_mb_utf32_id" and "lowest_mb_byte c = 0"
  shows "length (mysqlnd_cset_escape_slashes c [b]) = 4"
  using assms by (simp add: mb_length_def mysqlnd_mbvalid_dispatch_def check_mb_utf32_def)

lemma ucs2_reads_behind:
  assumes "mb_valid c = check_mb_ucs2_id" and "lowest_mb_byte c = 0"
  shows "mysqlnd_cset_escape_slashes c [b] = [b, nul]"
  using assms char_of_char [of nul, where 'a = nat] by (simp add: mb_length_def mysqlnd_mbvalid_dispatch_def check_mb_ucs2_def copy_mb_def upt_rec)

section \<open>Instances\<close>

definition gbk :: mysqlnd_charset where
  "gbk = charset 28 ''gbk'' ''gbk_chinese_ci'' 1 2 '''' mysqlnd_mbcharlen_gbk_id check_mb_gbk_id LOWEST_MB_GBK"

definition gb18030 :: mysqlnd_charset where
  "gb18030 = charset 248 ''gb18030'' ''gb18030_chinese_ci'' 1 4 '''' mysqlnd_mbcharlen_gb18030_id my_ismbchar_gb18030_id LOWEST_MB_GB18030"

lemma in_table: "gbk \<in> set mysqlnd_charsets" "gb18030 \<in> set mysqlnd_charsets"
  unfolding mysqlnd_charsets_def mysqlnd_charsets_1_def mysqlnd_charsets_2_def gbk_def gb18030_def by simp_all

theorem escape_slashes_safe_witness:
  "gbk \<in> set mysqlnd_charsets \<and>
   read_quoted True gbk (mysqlnd_cset_escape_slashes gbk [CHR 0x81, quote_char, CHR ''x''] @ quote_char # ''; '') =
     Some ([CHR 0x81, quote_char, CHR ''x''], ''; '')"
  using escape_slashes_safe [OF in_table(1), of "''; ''" "[CHR 0x81, quote_char, CHR ''x'']"] in_table(1)
  by (simp add: gbk_def charset_def del: mysqlnd_cset_escape_slashes.simps read_quoted.simps)

theorem escape_quotes_safe_witness:
  "gb18030 \<in> set mysqlnd_charsets \<and>
   read_quoted False gb18030 (mysqlnd_cset_escape_quotes gb18030 [CHR 0x81, quote_char, CHR ''x''] @ quote_char # ''; '') =
     Some ([CHR 0x81, quote_char, CHR ''x''], ''; '')"
  using escape_quotes_safe [OF in_table(2), of "''; ''" "[CHR 0x81, quote_char, CHR ''x'']"] in_table(2)
  by (simp add: gb18030_def charset_def del: mysqlnd_cset_escape_quotes.simps read_quoted.simps)

theorem gb18030_quote_escapes_witness:
  "gb18030 \<in> set mysqlnd_charsets \<and>
   read_quoted True gb18030 (mysqlnd_cset_escape_slashes gb18030 ([CHR 0x81, quote_char] @ '' OR 1=1'') @ quote_char # []) =
     Some ([CHR 0x81, backslash_char], mysqlnd_cset_escape_slashes gb18030 '' OR 1=1'' @ [quote_char])"
  using gb18030_quote_escapes [OF in_table(2), of "'' OR 1=1''" "[]"] in_table(2)
  by (simp add: gb18030_def charset_def del: mysqlnd_cset_escape_slashes.simps read_quoted.simps)

theorem charsets_sane_witness: "charset_sane gb18030"
  using charsets_sane in_table(2) by blast

end
