(* ===== verification/MysqlndWire.thy ===== *)
theory MysqlndWire
  imports Prelude
begin

text \<open>
  How the MySQL client writes integers on the wire: the byte order macros of
  \<^verbatim>\<open>mysqlnd_portability.h\<close>, the length codes of \<^verbatim>\<open>mysqlnd_wireprotocol.c\<close>
  (\<^verbatim>\<open>php_mysqlnd_net_field_length\<close>, \<^verbatim>\<open>php_mysqlnd_net_field_length_ll\<close>,
  \<^verbatim>\<open>php_mysqlnd_net_store_length\<close>, \<^verbatim>\<open>php_mysqlnd_net_store_length_size\<close>) and the error line
  (\<^verbatim>\<open>php_mysqlnd_read_error_from_line\<close>). On wasm32 \<^verbatim>\<open>zend_ulong\<close> and \<^verbatim>\<open>size_t\<close> have 32 bits, so the two
  readers of length codes differ in the width of their result.

  A reader takes the memory it reads from and an index into it; \<^const>\<open>None\<close> is a read behind the end of that
  memory.
\<close>

section \<open>Byte order\<close>

definition uint1korr :: "bytes \<Rightarrow> 8 word" where
  "uint1korr A = of_nat (of_char (A ! 0))"

definition uint2korr :: "bytes \<Rightarrow> 16 word" where
  "uint2korr A = ucast (word_of_byte (A ! 0) + push_bit 8 (word_of_byte (A ! 1)))"

definition uint3korr :: "bytes \<Rightarrow> u32" where
  "uint3korr A = word_of_byte (A ! 0) + push_bit 8 (word_of_byte (A ! 1)) + push_bit 16 (word_of_byte (A ! 2))"

definition uint4korr :: "bytes \<Rightarrow> u32" where
  "uint4korr A = word_of_byte (A ! 0) + push_bit 8 (word_of_byte (A ! 1)) +
     push_bit 16 (word_of_byte (A ! 2)) + push_bit 24 (word_of_byte (A ! 3))"

definition uint8korr :: "bytes \<Rightarrow> 64 word" where
  "uint8korr A = ucast (uint4korr A) + push_bit 32 (ucast (uint4korr (drop 4 A)))"

definition int1store :: "8 word \<Rightarrow> bytes" where
  "int1store w = [char_of (unat w)]"

definition int2store :: "u32 \<Rightarrow> bytes" where
  "int2store w = [byte_of w, byte_of (drop_bit 8 w)]"

definition int3store :: "u32 \<Rightarrow> bytes" where
  "int3store w = [byte_of w, byte_of (drop_bit 8 w), byte_of (drop_bit 16 w)]"

definition int4store :: "u32 \<Rightarrow> bytes" where
  "int4store w = [byte_of w, byte_of (drop_bit 8 w), byte_of (drop_bit 16 w), byte_of (drop_bit 24 w)]"

definition int8store :: "64 word \<Rightarrow> bytes" where
  "int8store w = int4store (ucast w) @ int4store (ucast (drop_bit 32 w))"

lemma length_intstore [simp]:
  "length (int1store a) = 1" "length (int2store b) = 2" "length (int3store b) = 3"
  "length (int4store b) = 4" "length (int8store c) = 8"
  by (simp_all add: int1store_def int2store_def int3store_def int4store_def int8store_def)

lemma of_char_byte_of: "of_char (byte_of w) = unat w mod 256"
  by (simp add: byte_of_def unat_and_255)

lemma unat_push_byte:
  "unat (push_bit 8 (word_of_byte c)) = 256 * of_char c"
  "unat (push_bit 16 (word_of_byte c)) = 65536 * of_char c"
  "unat (push_bit 24 (word_of_byte c)) = 16777216 * of_char c"
proof -
  have "(of_char c :: nat) * 256 < 4294967296" "(of_char c :: nat) * 65536 < 4294967296"
    using of_char_less_256 [of c] by linarith+
  then show "unat (push_bit 8 (word_of_byte c)) = 256 * of_char c"
    "unat (push_bit 16 (word_of_byte c)) = 65536 * of_char c"
    "unat (push_bit 24 (word_of_byte c)) = 16777216 * of_char c"
    by (simp_all add: push_bit_eq_mult unat_word_ariths mult.commute)
qed

lemma unat_drop_u32: "unat (drop_bit k (w :: u32)) = unat w div 2 ^ k"
  unfolding unat_drop_bit_eq by (simp add: drop_bit_eq_div)

lemma unat_ucast_mod: "unat (ucast (w :: 'a :: len word) :: 'b :: len word) = unat w mod 2 ^ LENGTH('b)"
  unfolding unsigned_ucast_eq unsigned_take_bit_eq by (simp add: take_bit_eq_mod)

lemma unat_plus_u32: "unat (a :: u32) + unat b < 4294967296 \<Longrightarrow> unat (a + b) = unat a + unat b"
  by (simp add: unat_word_ariths)

lemma of_char_le: "(of_char c :: nat) \<le> 255"
  using of_char_less_256 [of c] by linarith

lemma unat_uint3korr: "unat (uint3korr A) = of_char (A ! 0) + 256 * of_char (A ! 1) + 65536 * of_char (A ! 2)"
  using of_char_le [of "A ! 0"] of_char_le [of "A ! 1"] of_char_le [of "A ! 2"]
  by (simp add: uint3korr_def unat_plus_u32 unat_push_byte)

lemma unat_uint4korr: "unat (uint4korr A) =
    of_char (A ! 0) + 256 * of_char (A ! 1) + 65536 * of_char (A ! 2) + 16777216 * of_char (A ! 3)"
  using of_char_le [of "A ! 0"] of_char_le [of "A ! 1"] of_char_le [of "A ! 2"] of_char_le [of "A ! 3"]
  by (simp add: uint4korr_def unat_plus_u32 unat_push_byte)

lemma unat_uint2korr: "unat (uint2korr A) = of_char (A ! 0) + 256 * of_char (A ! 1)"
proof -
  have "unat (word_of_byte (A ! 0) + push_bit 8 (word_of_byte (A ! 1))) = of_char (A ! 0) + 256 * of_char (A ! 1)"
    using of_char_le [of "A ! 0"] of_char_le [of "A ! 1"] by (simp add: unat_plus_u32 unat_push_byte)
  then show ?thesis
    using of_char_le [of "A ! 0"] of_char_le [of "A ! 1"]
    by (simp add: uint2korr_def unat_ucast_mod)
qed

lemma base_256: "(n :: nat) mod 256 + 256 * (n div 256) = n"
  by simp

lemma bytes_of_number:
  "(n :: nat) mod 256 + 256 * (n div 256 mod 256) + 65536 * (n div 65536) = n"
  "n mod 256 + 256 * (n div 256 mod 256) + 65536 * (n div 65536 mod 256) + 16777216 * (n div 16777216) = n"
proof -
  have d: "n div 65536 = n div 256 div 256" "n div 16777216 = n div 256 div 256 div 256"
    by (simp_all add: div_mult2_eq [symmetric])
  show "n mod 256 + 256 * (n div 256 mod 256) + 65536 * (n div 65536) = n"
    using base_256 [of n] base_256 [of "n div 256"] unfolding d by linarith
  show "n mod 256 + 256 * (n div 256 mod 256) + 65536 * (n div 65536 mod 256) + 16777216 * (n div 16777216) = n"
    using base_256 [of n] base_256 [of "n div 256"] base_256 [of "n div 256 div 256"] unfolding d by linarith
qed

lemma uint1korr_store [simp]: "uint1korr (int1store w @ r) = w"
proof -
  have "unat w < 256"
    using unsigned_less [of w, where 'a = nat] by simp
  then show ?thesis
    by (simp add: uint1korr_def int1store_def)
qed

lemma uint2korr_store [simp]: "unat w < 65536 \<Longrightarrow> uint2korr (int2store w @ r) = ucast w"
  by (simp add: word_unat_eq_iff unat_uint2korr int2store_def of_char_byte_of unat_drop_u32
      bytes_of_number unat_ucast_mod)

lemma uint3korr_store [simp]: "unat w < 16777216 \<Longrightarrow> uint3korr (int3store w @ r) = w"
  by (simp add: word_unat_eq_iff unat_uint3korr int3store_def of_char_byte_of unat_drop_u32
      bytes_of_number)

lemma uint4korr_store [simp]: "uint4korr (int4store w @ r) = w"
  using unat_u32_less [of w]
  by (simp add: word_unat_eq_iff unat_uint4korr int4store_def of_char_byte_of unat_drop_u32
      bytes_of_number)

lemma halves_of_u64: "ucast (ucast w :: u32) + push_bit 32 (ucast (ucast (drop_bit 32 w) :: u32)) = (w :: 64 word)"
proof -
  have "ucast (ucast w :: u32) OR push_bit 32 (ucast (ucast (drop_bit 32 w) :: u32)) = (w :: 64 word)"
    by (rule bit_word_eqI) (auto simp: bit_simps)
  moreover have "ucast (ucast w :: u32) AND push_bit 32 (ucast (ucast (drop_bit 32 w) :: u32)) = (0 :: 64 word)"
    by (rule bit_word_eqI) (auto simp: bit_simps)
  ultimately show ?thesis
    by (simp add: disjunctive_add_eq_or)
qed

lemma uint8korr_store [simp]: "uint8korr (int8store w @ r) = w"
  by (simp add: uint8korr_def int8store_def halves_of_u64)

section \<open>Length codes\<close>

definition MYSQLND_NULL_LENGTH :: u32 where
  "MYSQLND_NULL_LENGTH = NOT 0"

definition php_mysqlnd_net_field_length :: "bytes \<Rightarrow> nat \<Rightarrow> (u32 \<times> nat) option" where
  "php_mysqlnd_net_field_length mem p =
    (if length mem \<le> p then None
     else let b = word_of_byte (mem ! p); q = drop (p + 1) mem
       in if b < 251 then Some (b, p + 1)
          else if b = 251 then Some (MYSQLND_NULL_LENGTH, p + 1)
          else if b = 252 then (if length q < 2 then None else Some (ucast (uint2korr q), p + 3))
          else if b = 253 then (if length q < 3 then None else Some (uint3korr q, p + 4))
          else (if length q < 4 then None else Some (uint4korr q, p + 9)))"

definition php_mysqlnd_net_field_length_ll :: "bytes \<Rightarrow> nat \<Rightarrow> (64 word \<times> nat) option" where
  "php_mysqlnd_net_field_length_ll mem p =
    (if length mem \<le> p then None
     else let b = word_of_byte (mem ! p); q = drop (p + 1) mem
       in if b < 251 then Some (ucast b, p + 1)
          else if b = 251 then Some (ucast MYSQLND_NULL_LENGTH, p + 1)
          else if b = 252 then (if length q < 2 then None else Some (ucast (uint2korr q), p + 3))
          else if b = 253 then (if length q < 3 then None else Some (ucast (uint3korr q), p + 4))
          else (if length q < 8 then None else Some (uint8korr q, p + 9)))"

definition php_mysqlnd_net_store_length :: "64 word \<Rightarrow> bytes" where
  "php_mysqlnd_net_store_length len =
    (if len < 251 then [byte_of (ucast len)]
     else if len < 65536 then byte_of 252 # int2store (ucast len)
     else if len < 16777216 then byte_of 253 # int3store (ucast len)
     else byte_of 254 # int8store len)"

definition php_mysqlnd_net_store_length_size :: "64 word \<Rightarrow> nat" where
  "php_mysqlnd_net_store_length_size len =
    (if len < 251 then 1 else if len < 65536 then 3 else if len < 16777216 then 4 else 9)"

lemma unat_small_u64: "(w :: 64 word) < of_nat n \<Longrightarrow> n < 4294967296 \<Longrightarrow> unat (ucast w :: u32) < n \<and> ucast (ucast w :: u32) = w"
proof -
  assume less: "w < of_nat n" and n: "n < 4294967296"
  have w: "unat w < n"
    using less n by (simp add: word_less_nat_alt unat_of_nat)
  then have "unat (ucast w :: u32) = unat w"
    using n by (simp add: unat_ucast_mod)
  moreover have "unat (ucast (ucast w :: u32) :: 64 word) = unat (ucast w :: u32)"
    by (simp add: unat_ucast_mod)
  ultimately show ?thesis
    using w by (simp add: word_unat_eq_iff)
qed

lemmas small_u64 = unat_small_u64 [of _ 251, simplified] unat_small_u64 [of _ 65536, simplified]
  unat_small_u64 [of _ 16777216, simplified]

lemma nth_of_code: "(xs @ c # q @ r) ! length xs = c" "drop (length xs + 1) (xs @ c # q @ r) = q @ r"
  by (simp_all add: nth_append)

lemma byte_codes: "word_of_byte (byte_of 252) = 252" "word_of_byte (byte_of 253) = 253" "word_of_byte (byte_of 254) = 254"
  by simp_all

lemma small_code: "unat (w :: u32) < 251 \<Longrightarrow> word_of_byte (byte_of w) = w \<and> w < 251"
  by (simp add: word_unat_eq_iff unat_and_255 word_less_nat_alt)

lemma ucast_short: "unat (w :: 64 word) < 65536 \<Longrightarrow> ucast (ucast (ucast w :: u32) :: 16 word) = w"
  "unat (w :: 64 word) < 65536 \<Longrightarrow> ucast (ucast (ucast w :: u32) :: 16 word) = (ucast w :: u32)"
  by (simp_all add: word_unat_eq_iff unat_ucast_mod)

lemma length_store_length: "length (php_mysqlnd_net_store_length len) = php_mysqlnd_net_store_length_size len"
  by (simp add: php_mysqlnd_net_store_length_def php_mysqlnd_net_store_length_size_def)

lemma ucast_low_half: "uint4korr (int8store w @ r) = ucast w"
  by (simp add: int8store_def)

lemmas length_code_defs = php_mysqlnd_net_field_length_ll_def php_mysqlnd_net_field_length_def
  php_mysqlnd_net_store_length_def php_mysqlnd_net_store_length_size_def nth_of_code byte_codes

lemma net_field_length_store:
  "php_mysqlnd_net_field_length_ll (xs @ php_mysqlnd_net_store_length len @ r) (length xs) =
     Some (len, length xs + php_mysqlnd_net_store_length_size len)" (is "?ll len")
  "php_mysqlnd_net_field_length (xs @ php_mysqlnd_net_store_length len @ r) (length xs) =
     Some (ucast len, length xs + php_mysqlnd_net_store_length_size len)" (is "?l len")
proof -
  consider "len < 251" | "\<not> len < 251" "len < 65536" | "\<not> len < 251" "\<not> len < 65536" "len < 16777216"
    | "\<not> len < 251" "\<not> len < 65536" "\<not> len < 16777216"
    by blast
  then have "?ll len \<and> ?l len"
  proof cases
    case 1
    then show ?thesis
      using small_u64(1) [OF 1] small_code [of "ucast len"]
      by (simp add: length_code_defs nth_append del: word_of_byte_byte_of)
  next
    case 2
    then have "unat len < 65536"
      by (simp add: word_less_nat_alt)
    with 2 show ?thesis
      by (simp add: length_code_defs unat_ucast_mod ucast_short del: word_of_byte_byte_of)
  next
    case 3
    then show ?thesis
      using small_u64(3) [OF 3(3)] by (simp add: length_code_defs del: word_of_byte_byte_of)
  next
    case 4
    then show ?thesis
      by (simp add: length_code_defs ucast_low_half del: word_of_byte_byte_of)
  qed
  then show "?ll len" "?l len"
    by blast+
qed


text \<open>
  The code 251 stands for NULL. Its value is \<^verbatim>\<open>(zend_ulong) ~0\<close>, which has 32 bits on wasm32, so the 64-bit reader cannot
  tell it from the number \<open>2 ^ 32 - 1\<close>.
\<close>

lemma null_length_is_a_number:
  "php_mysqlnd_net_field_length_ll (byte_of 251 # r) 0 = Some (4294967295, 1)"
  "php_mysqlnd_net_field_length_ll (php_mysqlnd_net_store_length 4294967295 @ r) 0 = Some (4294967295, 9)"
proof -
  have "ucast MYSQLND_NULL_LENGTH = (4294967295 :: 64 word)"
    by (simp add: MYSQLND_NULL_LENGTH_def word_unat_eq_iff unat_ucast_mod unsigned_minus_1_eq_mask mask_eq_exp_minus_1)
  then show "php_mysqlnd_net_field_length_ll (byte_of 251 # r) 0 = Some (4294967295, 1)"
    by (simp add: php_mysqlnd_net_field_length_ll_def)
  show "php_mysqlnd_net_field_length_ll (php_mysqlnd_net_store_length 4294967295 @ r) 0 = Some (4294967295, 9)"
    using net_field_length_store(1) [of "[]" 4294967295 r] by (simp add: php_mysqlnd_net_store_length_size_def)
qed

section \<open>The error line\<close>

definition CR_UNKNOWN_ERROR :: u32 where "CR_UNKNOWN_ERROR = 2000"

definition unknown_sqlstate :: string where "unknown_sqlstate = ''HY000''"

text \<open>The number, the SQL state and the message of an error line; \<open>cap\<close> is the size of the buffer for the message.\<close>

definition php_mysqlnd_read_error_from_line :: "bytes \<Rightarrow> nat \<Rightarrow> u32 \<times> bytes \<times> bytes" where
  "php_mysqlnd_read_error_from_line buf cap =
    (if length buf > 2
     then let error_no = ucast (uint2korr buf); p = drop 2 buf
       in if p ! 0 = CHR ''#''
          then let q = drop 1 p
            in if length q \<ge> 5
               then (error_no, take 5 q, take (min (length (drop 5 q)) (cap - 1)) (drop 5 q))
               else (error_no, unknown_sqlstate, [])
          else (error_no, unknown_sqlstate, take (min (length p) (cap - 1)) p)
     else (CR_UNKNOWN_ERROR, unknown_sqlstate, []))"

lemma read_error_from_line_full:
  assumes "unat no < 65536" "length st = 5" "length msg < cap"
  shows "php_mysqlnd_read_error_from_line (int2store no @ CHR ''#'' # st @ msg) cap = (no, st, msg)"
proof -
  have "ucast (ucast no :: 16 word) = no"
    using assms(1) by (simp add: word_unat_eq_iff unat_ucast_mod)
  with assms show ?thesis
    by (simp add: php_mysqlnd_read_error_from_line_def)
qed

lemma read_error_from_line_bounds:
  "php_mysqlnd_read_error_from_line buf cap = (no, st, msg) \<Longrightarrow> 0 < cap \<Longrightarrow> length st = 5 \<and> length msg < cap"
  by (auto simp: php_mysqlnd_read_error_from_line_def unknown_sqlstate_def Let_def split: if_splits)

end
