(* ===== verification/MysqlndFrame.thy ===== *)
theory MysqlndFrame
  imports MysqlndWire PhpStream
begin

text \<open>
  The frame codec of the MySQL client: \<^verbatim>\<open>mysqlnd_vio.c\<close> (\<^verbatim>\<open>network_read\<close>, \<^verbatim>\<open>network_write\<close>),
  \<^verbatim>\<open>mysqlnd_read_buffer.c\<close> and \<^verbatim>\<open>mysqlnd_protocol_frame_codec.c\<close> (\<^verbatim>\<open>reset\<close>, \<^verbatim>\<open>send\<close>,
  \<^verbatim>\<open>receive\<close> and the compressed envelopes), built with \<^verbatim>\<open>MYSQLND_COMPRESSION_ENABLED\<close>.

  The PHP stream, zlib and the contents of fresh memory are the fields of an environment. The locale
  \<open>wire_link\<close> states what is documented of them: a stream delivers the bytes of the peer in order, in pieces of any
  size, and takes what is written; \<^verbatim>\<open>uncompress\<close> inverts \<^verbatim>\<open>compress\<close>. The wire record holds what the codec
  keeps between calls, with the counters of \<^verbatim>\<open>MYSQLND_STATS\<close> and the client's error; sizes are natural numbers.
  The list of all errors of a connection, beside the last one, is left out.
\<close>

section \<open>State\<close>

record 's wire_env =
  net_ops :: "'s php_stream_ops"
  zlib_compress :: "nat \<Rightarrow> bytes \<Rightarrow> bytes option" \<comment> \<open>size of the destination; the result with \<^verbatim>\<open>Z_OK\<close>\<close>
  zlib_uncompress :: "nat \<Rightarrow> bytes \<Rightarrow> bool \<times> bytes" \<comment> \<open>\<^verbatim>\<open>Z_OK\<close>, and the bytes stored at the destination\<close>
  fresh_block :: "nat \<Rightarrow> bytes" \<comment> \<open>what a block from \<^verbatim>\<open>mnd_emalloc\<close> holds\<close>

record read_buffer =
  rb_data :: bytes
  rb_offset :: nat
  rb_size :: nat
  rb_len :: nat

datatype conn_state = CONN_ALLOCED | CONN_READY | CONN_QUERY_SENT | CONN_SENDING_LOAD_DATA
  | CONN_FETCHING_DATA | CONN_NEXT_RESULT_PENDING | CONN_QUIT_SENT

datatype wire_warning = OutOfOrder "8 word" "8 word" nat \<comment> \<open>expected, received, size\<close>
  | PrematureEnd

record 's wire =
  net_stream :: 's
  compressed :: bool
  uncompressed_data :: "read_buffer option"
  packet_no :: "8 word"
  envelope_no :: "8 word" \<comment> \<open>\<^verbatim>\<open>compressed_envelope_packet_no\<close>\<close>
  cmd_buffer :: bytes
  pfc_flags :: "64 word"
  server_public_key :: "bytes option" \<comment> \<open>\<^verbatim>\<open>sha256_server_public_key\<close>\<close>
  error_no :: u32
  error_state :: bytes \<comment> \<open>\<^verbatim>\<open>sqlstate\<close>\<close>
  error_text :: bytes
  connection :: conn_state
  warnings :: "wire_warning list"
  stat_received :: nat \<comment> \<open>\<^verbatim>\<open>STAT_BYTES_RECEIVED\<close>\<close>
  stat_bytes_sent :: nat
  stat_overhead_out :: nat
  stat_packets_sent :: nat
  stat_overhead_in :: nat
  stat_packets_received :: nat

abbreviation MYSQLND_HEADER_SIZE :: nat where "MYSQLND_HEADER_SIZE \<equiv> 4"

abbreviation COMPRESSED_HEADER_SIZE :: nat where "COMPRESSED_HEADER_SIZE \<equiv> 3"

definition MYSQLND_MAX_PACKET_SIZE :: nat where
  "MYSQLND_MAX_PACKET_SIZE = 256 * 256 * 256 - 1"

definition CR_SERVER_GONE_ERROR :: u32 where "CR_SERVER_GONE_ERROR = 2006"

definition mysqlnd_server_gone :: string where "mysqlnd_server_gone = ''MySQL server has gone away''"

definition SET_CLIENT_ERROR :: "u32 \<Rightarrow> bytes \<Rightarrow> bytes \<Rightarrow> 's wire \<Rightarrow> 's wire" where
  "SET_CLIENT_ERROR no st msg w = w\<lparr>error_no := no, error_state := st, error_text := msg\<rparr>"

section \<open>The stream\<close>

text \<open>The loop of \<^verbatim>\<open>network_read\<close>: whether all bytes came, and those that did.\<close>

function network_read_loop :: "'s php_stream_ops \<Rightarrow> nat \<Rightarrow> bytes \<Rightarrow> 's \<Rightarrow> bool \<times> bytes \<times> 's" where
  "network_read_loop ops to_read acc s =
    (if to_read = 0 then (True, acc, s)
     else case stream_read ops to_read s of
       (ReadError _, s') \<Rightarrow> (False, acc, s')
     | (Data bs, s') \<Rightarrow> if bs = [] then (False, acc, s')
         else network_read_loop ops (to_read - length bs) (acc @ bs) s')"
  by pat_completeness auto
termination by (relation "measure (\<lambda>(ops, to_read, acc, s). to_read)") auto

declare network_read_loop.simps [simp del]

definition network_read :: "'s wire_env \<Rightarrow> nat \<Rightarrow> 's wire \<Rightarrow> (bool \<times> bytes) \<times> 's wire" where
  "network_read env count w =
    (case network_read_loop (net_ops env) count [] (net_stream w) of
      (ok, bs, s) \<Rightarrow> ((ok, bs), w\<lparr>net_stream := s, stat_received := stat_received w + length bs\<rparr>))"

definition network_write :: "'s wire_env \<Rightarrow> bytes \<Rightarrow> 's wire \<Rightarrow> int \<times> 's wire" where
  "network_write env bs w =
    (case stream_write (net_ops env) bs (net_stream w) of (ret, s) \<Rightarrow> (ret, w\<lparr>net_stream := s\<rparr>))"

section \<open>The read buffer\<close>

definition mysqlnd_create_read_buffer :: "'s wire_env \<Rightarrow> nat \<Rightarrow> read_buffer" where
  "mysqlnd_create_read_buffer env count =
    \<lparr>rb_data = fresh_block env count, rb_offset = 0, rb_size = count, rb_len = count\<rparr>"

definition read_buffer_is_empty :: "read_buffer \<Rightarrow> bool" where
  "read_buffer_is_empty b \<longleftrightarrow> rb_len b = 0"

definition read_buffer_bytes_left :: "read_buffer \<Rightarrow> nat" where
  "read_buffer_bytes_left b = rb_len b"

definition read_buffer_read :: "nat \<Rightarrow> read_buffer \<Rightarrow> bytes \<times> read_buffer" where
  "read_buffer_read count b =
    (if count \<le> rb_len b
     then (take count (drop (rb_offset b) (rb_data b)), b\<lparr>rb_offset := rb_offset b + count, rb_len := rb_len b - count\<rparr>)
     else ([], b))"

text \<open>Storing bytes at the start of a block.\<close>

definition store_at :: "nat \<Rightarrow> bytes \<Rightarrow> bytes \<Rightarrow> bytes" where
  "store_at p bs blk = take p blk @ bs @ drop (p + length bs) blk"

section \<open>Sending\<close>

definition pfc_reset :: "'s wire \<Rightarrow> 's wire" where
  "pfc_reset w = w\<lparr>packet_no := 0, envelope_no := 0\<rparr>"

definition pfc_encode :: "'s wire_env \<Rightarrow> nat \<Rightarrow> bytes \<Rightarrow> bytes option" where
  "pfc_encode env cap bs = zlib_compress env cap bs"

definition pfc_decode :: "'s wire_env \<Rightarrow> nat \<Rightarrow> bytes \<Rightarrow> bool \<times> bytes" where
  "pfc_decode env cap bs = zlib_uncompress env cap bs"

definition write_compressed_packet :: "'s wire_env \<Rightarrow> bytes \<Rightarrow> 's wire \<Rightarrow> int \<times> 's wire" where
  "write_compressed_packet env payload w =
    (let (sizes, body) = (case pfc_encode env (length payload) payload of
           Some z \<Rightarrow> (int3store (of_nat (length payload)), z)
         | None \<Rightarrow> (int3store 0, payload));
         (bytes_sent, w1) = network_write env
           (int3store (of_nat (length body)) @ int1store (envelope_no w) @ sizes @ body) w
     in (bytes_sent, w1\<lparr>envelope_no := envelope_no w1 + 1\<rparr>))"

text \<open>One turn of the loop of \<^verbatim>\<open>send\<close>, for the \<open>n\<close> bytes behind the header place at \<open>p\<close>: the header replaces
  four bytes of the caller's buffer while the frame is written.\<close>

definition send_frame :: "'s wire_env \<Rightarrow> nat \<Rightarrow> nat \<Rightarrow> bytes \<times> 's wire \<Rightarrow> int \<times> bytes \<times> 's wire" where
  "send_frame env p n bw =
    (case bw of (buf, w) \<Rightarrow>
      let safe_storage = take MYSQLND_HEADER_SIZE (drop p buf);
          buf1 = store_at p (int3store (of_nat n) @ int1store (packet_no w)) buf;
          frame = take (n + MYSQLND_HEADER_SIZE) (drop p buf1);
          (bytes_sent, w1) =
            (if compressed w
             then if n \<le> MYSQLND_MAX_PACKET_SIZE - MYSQLND_HEADER_SIZE
               then write_compressed_packet env frame w
               else let (_, w') = write_compressed_packet env (take 8192 frame) w
                 in write_compressed_packet env (drop 8192 frame) w'
             else let (r, w') = network_write env frame w
               in (r, w'\<lparr>envelope_no := envelope_no w' + 1\<rparr>));
          buf2 = store_at p safe_storage buf1
      in (bytes_sent, buf2, w1\<lparr>packet_no := packet_no w1 + 1\<rparr>))"

function send_loop :: "'s wire_env \<Rightarrow> nat \<Rightarrow> nat \<Rightarrow> nat \<Rightarrow> bytes \<times> 's wire \<Rightarrow> int \<times> nat \<times> bytes \<times> 's wire" where
  "send_loop env left p packets_sent bw =
    (let to_be_sent = min left MYSQLND_MAX_PACKET_SIZE;
         (bytes_sent, bw1) = send_frame env p to_be_sent bw
     in if 0 < bytes_sent \<and> (0 < left - to_be_sent \<or> to_be_sent = MYSQLND_MAX_PACKET_SIZE)
        then send_loop env (left - to_be_sent) (p + to_be_sent) (packets_sent + 1) bw1
        else (bytes_sent, packets_sent + 1, bw1))"
  by pat_completeness auto
termination
  by (relation "measure (\<lambda>(env, left, p, packets_sent, bw). left)") (auto simp: MYSQLND_MAX_PACKET_SIZE_def min_def split: if_splits)

declare send_loop.simps [simp del]

text \<open>\<^verbatim>\<open>send\<close>: the return value is unsigned, 0 is the error. The caller's buffer comes back with it.\<close>

definition pfc_send :: "'s wire_env \<Rightarrow> bytes \<Rightarrow> nat \<Rightarrow> 's wire \<Rightarrow> nat \<times> bytes \<times> 's wire" where
  "pfc_send env buffer count w =
    (case send_loop env count 0 1 (buffer, w) of (bytes_sent, packets_sent, buf, w1) \<Rightarrow>
      let w2 = w1\<lparr>stat_bytes_sent := stat_bytes_sent w1 + (count + packets_sent * MYSQLND_HEADER_SIZE),
                  stat_overhead_out := stat_overhead_out w1 + packets_sent * MYSQLND_HEADER_SIZE,
                  stat_packets_sent := stat_packets_sent w1 + packets_sent\<rparr>
      in if bytes_sent \<le> 0
         then (0, buf, SET_CLIENT_ERROR CR_SERVER_GONE_ERROR unknown_sqlstate mysqlnd_server_gone w2)
         else (nat bytes_sent, buf, w2))"

section \<open>Options\<close>

datatype client_option = MYSQL_OPT_COMPRESS | MYSQL_SERVER_PUBLIC_KEY "bytes option"
  | MYSQLND_OPT_NET_CMD_BUFFER_SIZE u32 | OtherOption

definition MYSQLND_NET_CMD_BUFFER_MIN_SIZE :: u32 where "MYSQLND_NET_CMD_BUFFER_MIN_SIZE = 4096"

definition MYSQLND_PROTOCOL_FLAG_USE_COMPRESSION :: "64 word" where "MYSQLND_PROTOCOL_FLAG_USE_COMPRESSION = 1"

text \<open>An absent command buffer is the empty list; growing it keeps what it holds.\<close>

definition set_client_option :: "'s wire_env \<Rightarrow> client_option \<Rightarrow> 's wire \<Rightarrow> bool \<times> 's wire" where
  "set_client_option env opt w =
    (case opt of
       MYSQL_OPT_COMPRESS \<Rightarrow> (True, w\<lparr>pfc_flags := pfc_flags w OR MYSQLND_PROTOCOL_FLAG_USE_COMPRESSION\<rparr>)
     | MYSQL_SERVER_PUBLIC_KEY key \<Rightarrow> (True, w\<lparr>server_public_key := map_option cstr key\<rparr>)
     | MYSQLND_OPT_NET_CMD_BUFFER_SIZE n \<Rightarrow>
         if n < MYSQLND_NET_CMD_BUFFER_MIN_SIZE then (False, w)
         else (True, w\<lparr>cmd_buffer := take (unat n) (cmd_buffer w @ drop (length (cmd_buffer w)) (fresh_block env (unat n)))\<rparr>)
     | OtherOption \<Rightarrow> (False, w))"

definition pfc_init :: "'s wire_env \<Rightarrow> u32 \<Rightarrow> 's wire \<Rightarrow> 's wire" where
  "pfc_init env net_cmd_buffer_size w = snd (set_client_option env (MYSQLND_OPT_NET_CMD_BUFFER_SIZE net_cmd_buffer_size) w)"

definition pfc_free_contents :: "'s wire \<Rightarrow> 's wire" where
  "pfc_free_contents w = w\<lparr>uncompressed_data := None, server_public_key := None\<rparr>"

definition pfc_dtor :: "'s wire \<Rightarrow> 's wire" where
  "pfc_dtor w = (pfc_free_contents w)\<lparr>cmd_buffer := []\<rparr>"

text \<open>A command buffer that was accepted has its size, at least 4096 bytes, and keeps what it held.\<close>

lemma set_client_option_buffer:
  assumes "length (fresh_block env (unat n)) = unat n"
    and "set_client_option env (MYSQLND_OPT_NET_CMD_BUFFER_SIZE n) w = (True, w')"
  shows "length (cmd_buffer w') = unat n \<and> 4096 \<le> length (cmd_buffer w') \<and>
    take (unat n) (cmd_buffer w) = take (length (cmd_buffer w)) (cmd_buffer w')"
  using assms by (auto simp: set_client_option_def MYSQLND_NET_CMD_BUFFER_MIN_SIZE_def word_less_nat_alt min_def split: if_splits)

section \<open>Receiving\<close>

definition read_compressed_packet_from_stream_and_fill_read_buffer ::
    "'s wire_env \<Rightarrow> nat \<Rightarrow> 's wire \<Rightarrow> bool \<times> 's wire" where
  "read_compressed_packet_from_stream_and_fill_read_buffer env net_payload_size w =
    (case network_read env COMPRESSED_HEADER_SIZE w of ((ok, comp_header), w1) \<Rightarrow>
      if \<not> ok then (False, w1)
      else let decompressed_size = unat (uint3korr comp_header) in
        if decompressed_size \<noteq> 0
        then (case network_read env net_payload_size w1 of ((ok, compressed_data), w2) \<Rightarrow>
          if \<not> ok then (False, w2)
          else let b = mysqlnd_create_read_buffer env decompressed_size;
                   (decoded, out) = pfc_decode env decompressed_size compressed_data
            in (decoded, w2\<lparr>uncompressed_data := Some (b\<lparr>rb_data := store_at 0 out (rb_data b)\<rparr>)\<rparr>))
        else (case network_read env net_payload_size w1 of ((ok, data), w2) \<Rightarrow>
          let b = mysqlnd_create_read_buffer env net_payload_size
          in (ok, w2\<lparr>uncompressed_data := Some (b\<lparr>rb_data := store_at 0 data (rb_data b)\<rparr>)\<rparr>)))"

text \<open>What \<^verbatim>\<open>receive\<close> takes from the read buffer, which it frees once it is empty.\<close>

definition receive_buffered :: "nat \<Rightarrow> 's wire \<Rightarrow> bytes \<times> 's wire" where
  "receive_buffered to_read w =
    (case uncompressed_data w of
       None \<Rightarrow> ([], w)
     | Some b \<Rightarrow>
         let n = min (read_buffer_bytes_left b) to_read;
             (bs, b1) = (if n \<noteq> 0 then read_buffer_read n b else ([], b))
         in (bs, w\<lparr>uncompressed_data := (if read_buffer_is_empty b1 then None else Some b1)\<rparr>))"

text \<open>One activation of \<^verbatim>\<open>receive\<close>: its result, or what it stored so far and the arguments of the recursive
  call. The result of filling the read buffer is not looked at.\<close>

definition receive_step :: "'s wire_env \<Rightarrow> nat \<Rightarrow> 's wire \<Rightarrow> ((bool \<times> bytes) \<times> 's wire) + (bytes \<times> nat \<times> 's wire)" where
  "receive_step env count w =
    (if \<not> compressed w then Inl (network_read env count w)
     else let (got, w1) = receive_buffered count w; to_read = count - length got
       in if to_read = 0 then Inl ((True, got), w1)
          else case network_read env MYSQLND_HEADER_SIZE w1 of ((ok, net_header), w2) \<Rightarrow>
            if \<not> ok then Inl ((False, got), w2)
            else let net_payload_size = unat (uint3korr net_header); no = uint1korr (drop 3 net_header)
              in if envelope_no w2 \<noteq> no
                 then Inl ((False, got), w2\<lparr>warnings := OutOfOrder (envelope_no w2) no net_payload_size # warnings w2\<rparr>)
                 else let (_, w3) = read_compressed_packet_from_stream_and_fill_read_buffer env net_payload_size
                                      (w2\<lparr>envelope_no := envelope_no w2 + 1\<rparr>)
                   in Inr (got, to_read, w3))"

partial_function (option) pfc_receive :: "'s wire_env \<Rightarrow> nat \<Rightarrow> 's wire \<Rightarrow> ((bool \<times> bytes) \<times> 's wire) option" where
  "pfc_receive env count w =
    (case receive_step env count w of
       Inl r \<Rightarrow> Some r
     | Inr x \<Rightarrow> Option.bind (pfc_receive env (fst (snd x)) (snd (snd x)))
         (\<lambda>r. Some ((fst (fst r), fst x @ snd (fst r)), snd r)))"

declare pfc_receive.simps [code]

end
