(* ===== verification/MysqlndLink.thy ===== *)
theory MysqlndLink
  imports MysqlndFrame
begin

text \<open>
  What the frame codec promises over a working connection. The locale \<open>byte_link\<close> is the contract of the stream,
  \<open>wire_link\<close> adds the one of zlib. Under them \<^const>\<open>pfc_send\<close> writes the frames of the payload, in compressed
  envelopes when the connection is compressed, and \<^const>\<open>pfc_receive\<close> takes the carried bytes in any portions.
\<close>

section \<open>The contract\<close>

locale byte_link =
  fixes ops :: "'s php_stream_ops"
    and incoming :: "'s \<Rightarrow> bytes" \<comment> \<open>what the peer sends from here on\<close>
    and sent :: "'s \<Rightarrow> bytes" \<comment> \<open>what has been written\<close>
  assumes link_read: "\<exists>bs s'. stream_read ops k s = (Data bs, s') \<and> incoming s = bs @ incoming s' \<and>
      length bs \<le> k \<and> sent s' = sent s \<and> (0 < k \<longrightarrow> incoming s \<noteq> [] \<longrightarrow> bs \<noteq> [])"
    and link_write: "\<exists>s'. stream_write ops bs s = (int (length bs), s') \<and> incoming s' = incoming s \<and>
      sent s' = sent s @ bs"

locale wire_link = byte_link "net_ops env" incoming sent
  for env :: "'s wire_env" and incoming and sent +
  assumes compress_fits: "zlib_compress env cap p = Some z \<Longrightarrow> length z \<le> cap"
    and uncompress_compress: "zlib_compress env cap p = Some z \<Longrightarrow> length p \<le> n \<Longrightarrow> zlib_uncompress env n z = (True, p)"

section \<open>What is on the wire\<close>

definition envelope :: "'s wire_env \<Rightarrow> 8 word \<Rightarrow> bytes \<Rightarrow> bytes" where
  "envelope env no c =
    (case zlib_compress env (length c) c of
       Some z \<Rightarrow> int3store (of_nat (length z)) @ int1store no @ int3store (of_nat (length c)) @ z
     | None \<Rightarrow> int3store (of_nat (length c)) @ int1store no @ int3store 0 @ c)"

fun envelopes :: "'s wire_env \<Rightarrow> 8 word \<Rightarrow> bytes list \<Rightarrow> bytes" where
  "envelopes env no [] = []"
| "envelopes env no (c # cs) = envelope env no c @ envelopes env (no + 1) cs"

definition frame_header :: "nat \<Rightarrow> 8 word \<Rightarrow> bytes" where
  "frame_header n no = int3store (of_nat n) @ int1store no"

function frames :: "8 word \<Rightarrow> bytes \<Rightarrow> bytes list" where
  "frames no p =
    (if length p < MYSQLND_MAX_PACKET_SIZE then [frame_header (length p) no @ p]
     else (frame_header MYSQLND_MAX_PACKET_SIZE no @ take MYSQLND_MAX_PACKET_SIZE p) #
       frames (no + 1) (drop MYSQLND_MAX_PACKET_SIZE p))"
  by pat_completeness auto
termination by (relation "measure (\<lambda>(no, p). length p)") (auto simp: MYSQLND_MAX_PACKET_SIZE_def)

declare frames.simps [simp del]

definition cut :: "bytes \<Rightarrow> bytes list" where
  "cut f = (if length f \<le> MYSQLND_MAX_PACKET_SIZE then [f] else [take 8192 f, drop 8192 f])"

definition on_wire :: "'s wire_env \<Rightarrow> 's wire \<Rightarrow> bytes list \<Rightarrow> bytes" where
  "on_wire env w fs = (if compressed w then envelopes env (envelope_no w) (concat (map cut fs)) else concat fs)"

definition buffered :: "'s wire \<Rightarrow> bytes" where
  "buffered w = (case uncompressed_data w of None \<Rightarrow> [] | Some b \<Rightarrow> take (rb_len b) (drop (rb_offset b) (rb_data b)))"

definition buffer_ok :: "'s wire \<Rightarrow> bool" where
  "buffer_ok w = (case uncompressed_data w of None \<Rightarrow> True | Some b \<Rightarrow> rb_offset b + rb_len b \<le> length (rb_data b))"

text \<open>The bytes that a connection has to deliver.\<close>

definition carries :: "'s wire_env \<Rightarrow> ('s \<Rightarrow> bytes) \<Rightarrow> 's wire \<Rightarrow> bytes \<Rightarrow> bool" where
  "carries env incoming w bs =
    (if compressed w
     then buffer_ok w \<and> (\<exists>cs. (\<forall>c \<in> set cs. length c \<le> MYSQLND_MAX_PACKET_SIZE) \<and>
       incoming (net_stream w) = envelopes env (envelope_no w) cs \<and> bs = buffered w @ concat cs)
     else incoming (net_stream w) = bs)"

text \<open>The fields that receiving changes.\<close>

definition received_from :: "'s wire \<Rightarrow> 's wire \<Rightarrow> bool" where
  "received_from w w' \<longleftrightarrow> w' = w\<lparr>net_stream := net_stream w', uncompressed_data := uncompressed_data w',
     envelope_no := envelope_no w', stat_received := stat_received w'\<rparr>"

lemma received_from_refl [simp, intro]: "received_from w w"
  by (simp add: received_from_def)

lemma received_from_trans [trans]: "received_from u v \<Longrightarrow> received_from v w \<Longrightarrow> received_from u w"
  unfolding received_from_def by (cases u, cases v, cases w) simp

lemma received_fromD:
  assumes "received_from w w'"
  shows "compressed w' = compressed w" "packet_no w' = packet_no w" "cmd_buffer w' = cmd_buffer w"
    "connection w' = connection w" "error_no w' = error_no w" "warnings w' = warnings w"
    "stat_packets_received w' = stat_packets_received w"
  using assms unfolding received_from_def by (cases w, cases w', simp)+

definition bytes_left :: "'s wire \<Rightarrow> nat" where
  "bytes_left w = (case uncompressed_data w of None \<Rightarrow> 0 | Some b \<Rightarrow> rb_len b)"

lemma max_packet: "n \<le> MYSQLND_MAX_PACKET_SIZE \<Longrightarrow> n < 16777216"
  by (simp add: MYSQLND_MAX_PACKET_SIZE_def)

lemma unat_size: "n < 16777216 \<Longrightarrow> unat (word_of_nat n :: u32) = n"
  by (simp add: unat_of_nat_u32)

lemma size_store [simp]: "n < 16777216 \<Longrightarrow> unat (uint3korr (int3store (word_of_nat n) @ r)) = n"
  by (simp add: unat_size)

lemma size_store_only [simp]: "n < 16777216 \<Longrightarrow> unat (uint3korr (int3store (word_of_nat n))) = n"
  using size_store [of n "[]"] by simp

lemma envelopes_append: "envelopes env no (xs @ ys) = envelopes env no xs @ envelopes env (no + of_nat (length xs)) ys"
  by (induction xs arbitrary: no) (simp_all add: add.assoc)

section \<open>Reading\<close>

context byte_link
begin

lemma network_read_loop_takes:
  "\<exists>s'. network_read_loop ops n acc s = (n \<le> length (incoming s), acc @ take n (incoming s), s') \<and>
     incoming s' = drop n (incoming s) \<and> sent s' = sent s"
proof (induction n arbitrary: acc s rule: less_induct)
  case (less n)
  show ?case
  proof (cases "n = 0")
    case True
    then show ?thesis by (simp add: network_read_loop.simps)
  next
    case False
    obtain bs t where r: "stream_read ops n s = (Data bs, t)" "incoming s = bs @ incoming t" "length bs \<le> n"
      "sent t = sent s" "incoming s \<noteq> [] \<longrightarrow> bs \<noteq> []"
      using link_read [of n s] False by auto
    show ?thesis
    proof (cases "bs = []")
      case True
      with r False show ?thesis by (auto simp: network_read_loop.simps [of _ n])
    next
      case False
      then have "n - length bs < n"
        using \<open>n \<noteq> 0\<close> by (simp add: diff_less)
      from less.IH [OF this, of "acc @ bs" t] obtain s' where
        "network_read_loop ops (n - length bs) (acc @ bs) t =
           (n - length bs \<le> length (incoming t), (acc @ bs) @ take (n - length bs) (incoming t), s')"
        "incoming s' = drop (n - length bs) (incoming t)" "sent s' = sent t"
        by blast
      with r False \<open>n \<noteq> 0\<close> show ?thesis
        by (auto simp: network_read_loop.simps [of _ n])
    qed
  qed
qed

lemma network_read_takes:
  assumes "net_ops env = ops"
  shows "\<exists>w'. network_read env n w =
     ((n \<le> length (incoming (net_stream w)), take n (incoming (net_stream w))), w') \<and> received_from w w' \<and>
     incoming (net_stream w') = drop n (incoming (net_stream w)) \<and> sent (net_stream w') = sent (net_stream w) \<and>
     uncompressed_data w' = uncompressed_data w \<and> envelope_no w' = envelope_no w"
  using network_read_loop_takes [of n "[]" "net_stream w"] assms
  by (auto simp: network_read_def received_from_def)

end

lemma receive_buffered_stream: "receive_buffered n w = (got, w1) \<Longrightarrow> net_stream w1 = net_stream w"
  by (auto simp: receive_buffered_def Let_def split: option.splits prod.splits)

lemma receive_buffered_takes:
  assumes "buffer_ok w"
  shows "\<exists>w'. receive_buffered n w = (take n (buffered w), w') \<and> buffered w' = drop n (buffered w) \<and> buffer_ok w' \<and>
    received_from w w' \<and> net_stream w' = net_stream w \<and> envelope_no w' = envelope_no w \<and>
    (length (buffered w) \<le> n \<longrightarrow> uncompressed_data w' = None)"
proof (cases "uncompressed_data w")
  case None
  then show ?thesis by (simp add: receive_buffered_def buffered_def assms)
next
  case (Some b)
  with assms have ok: "rb_offset b + rb_len b \<le> length (rb_data b)"
    by (simp add: buffer_ok_def)
  show ?thesis
    by (auto simp: receive_buffered_def buffered_def buffer_ok_def received_from_def Some read_buffer_bytes_left_def
        read_buffer_read_def read_buffer_is_empty_def Let_def min_def ok drop_take add.commute)
       (use ok in \<open>auto simp: add.commute\<close>)
qed

section \<open>The read buffer and the envelopes\<close>

lemma store_at_content: "take (length c) (store_at 0 c blk) = c" "length c \<le> length (store_at 0 c blk)"
  by (simp_all add: store_at_def)

context wire_link
begin

lemmas read_takes = network_read_takes [OF refl]

lemma envelope_parts:
  assumes "length c \<le> MYSQLND_MAX_PACKET_SIZE"
  obtains body zs where "envelope env no c = int3store (of_nat (length body)) @ int1store no @ int3store (of_nat zs) @ body"
    "length body < 16777216" "zs < 16777216"
    "zs \<noteq> 0 \<longrightarrow> zs = length c \<and> zlib_uncompress env zs body = (True, c)" "zs = 0 \<longrightarrow> body = c"
proof (cases "zlib_compress env (length c) c")
  case None
  with assms that [of c 0] max_packet [OF assms] show ?thesis
    by (simp add: envelope_def)
next
  case (Some z)
  moreover from compress_fits [OF Some] have "length z \<le> length c" .
  moreover from this have "c = [] \<longrightarrow> z = []" by auto
  ultimately show ?thesis
    using assms that [of z "length c"] max_packet [OF assms] uncompress_compress [OF Some, of "length c"]
    by (auto simp: envelope_def)
qed

lemma fill_reads_envelope:
  assumes c: "length c \<le> MYSQLND_MAX_PACKET_SIZE"
    and "incoming (net_stream w) = drop 4 (envelope env no c) @ r"
    and "sz = unat (uint3korr (envelope env no c))"
  shows "\<exists>w'. read_compressed_packet_from_stream_and_fill_read_buffer env sz w = (True, w') \<and> received_from w w' \<and>
    incoming (net_stream w') = r \<and> sent (net_stream w') = sent (net_stream w) \<and> envelope_no w' = envelope_no w \<and>
    buffered w' = c \<and> buffer_ok w'"
proof -
  obtain body zs where e: "envelope env no c = int3store (of_nat (length body)) @ int1store no @ int3store (of_nat zs) @ body"
    "length body < 16777216" "zs < 16777216"
    "zs \<noteq> 0 \<longrightarrow> zs = length c \<and> zlib_uncompress env zs body = (True, c)" "zs = 0 \<longrightarrow> body = c"
    by (rule envelope_parts [OF c])
  have sz: "sz = length body"
    using assms(3) e(1,2) by simp
  have inc: "incoming (net_stream w) = int3store (of_nat zs) @ body @ r"
    using assms(2) e(1) by simp
  obtain w1 where w1: "network_read env 3 w = ((True, int3store (of_nat zs)), w1)" "received_from w w1"
    "incoming (net_stream w1) = body @ r" "sent (net_stream w1) = sent (net_stream w)" "envelope_no w1 = envelope_no w"
    using read_takes [of 3 w] inc by auto
  obtain w2 where w2: "network_read env (length body) w1 = ((True, body), w2)" "received_from w1 w2"
    "incoming (net_stream w2) = r" "sent (net_stream w2) = sent (net_stream w1)" "envelope_no w2 = envelope_no w1"
    using read_takes [of "length body" w1] w1(3) by auto
  define blk where "blk = fresh_block env (length c)"
  define w3 where "w3 = w2\<lparr>uncompressed_data :=
    Some \<lparr>rb_data = store_at 0 c blk, rb_offset = 0, rb_size = length c, rb_len = length c\<rparr>\<rparr>"
  have "received_from w2 w3"
    by (simp add: w3_def received_from_def)
  then have "received_from w w3"
    using received_from_trans w1(2) w2(2) by blast
  moreover have "read_compressed_packet_from_stream_and_fill_read_buffer env sz w = (True, w3)"
    using e w1(1) w2(1) sz
    by (auto simp: read_compressed_packet_from_stream_and_fill_read_buffer_def Let_def mysqlnd_create_read_buffer_def
        pfc_decode_def w3_def blk_def)
  ultimately show ?thesis
    using w1 w2 by (simp add: w3_def buffered_def buffer_ok_def store_at_content)
qed

lemma fill_consumes:
  "\<exists>ok w'. read_compressed_packet_from_stream_and_fill_read_buffer env sz w = (ok, w') \<and>
     length (incoming (net_stream w')) \<le> length (incoming (net_stream w))"
proof -
  obtain w1 where w1: "network_read env 3 w = ((3 \<le> length (incoming (net_stream w)), take 3 (incoming (net_stream w))), w1)"
    "incoming (net_stream w1) = drop 3 (incoming (net_stream w))"
    using read_takes [of 3 w] by auto
  obtain w2 where w2: "network_read env sz w1 = ((sz \<le> length (incoming (net_stream w1)), take sz (incoming (net_stream w1))), w2)"
    "incoming (net_stream w2) = drop sz (incoming (net_stream w1))"
    using read_takes [of sz w1] by auto
  show ?thesis
    using w1 w2 by (auto simp: read_compressed_packet_from_stream_and_fill_read_buffer_def Let_def split: prod.splits)
qed

lemma receive_step_ends:
  "receive_step env n w = Inl r \<Longrightarrow> length (incoming (net_stream (snd r))) \<le> length (incoming (net_stream w))"
proof -
  assume step: "receive_step env n w = Inl r"
  obtain got w1 where b: "receive_buffered n w = (got, w1)" "net_stream w1 = net_stream w"
    by (cases "receive_buffered n w") (blast dest: receive_buffered_stream)
  obtain u v where "snd (network_read env n w) = u"
    "incoming (net_stream u) = drop n (incoming (net_stream w))" "incoming (net_stream v) = drop 4 (incoming (net_stream w))"
    "network_read env 4 w1 = ((4 \<le> length (incoming (net_stream w)), take 4 (incoming (net_stream w))), v)"
    using read_takes [of n w] read_takes [of 4 w1] b(2) by auto
  then show ?thesis
    using step b by (cases "compressed w") (auto simp: receive_step_def Let_def split: if_splits prod.splits)
qed

lemma receive_step_consumes:
  "receive_step env n w = Inr x \<Longrightarrow> length (incoming (net_stream (snd (snd x)))) < length (incoming (net_stream w))"
proof -
  assume step: "receive_step env n w = Inr x"
  obtain got w1 where b: "receive_buffered n w = (got, w1)" and same: "net_stream w1 = net_stream w"
    by (cases "receive_buffered n w") (blast dest: receive_buffered_stream)
  obtain w2 where h: "network_read env 4 w1 = ((4 \<le> length (incoming (net_stream w)), take 4 (incoming (net_stream w))), w2)"
    "incoming (net_stream w2) = drop 4 (incoming (net_stream w))"
    using read_takes [of 4 w1] same by auto
  have "4 \<le> length (incoming (net_stream w)) \<and> (\<exists>k e. snd (snd x) =
      snd (read_compressed_packet_from_stream_and_fill_read_buffer env k (w2\<lparr>envelope_no := e\<rparr>)))"
    using step b h(1) by (auto simp: receive_step_def Let_def split: if_splits prod.splits) (metis snd_conv)
  then obtain k e where k: "4 \<le> length (incoming (net_stream w))" "snd (snd x) =
      snd (read_compressed_packet_from_stream_and_fill_read_buffer env k (w2\<lparr>envelope_no := e\<rparr>))"
    by blast
  have "length (incoming (net_stream (snd (snd x)))) \<le> length (incoming (net_stream w2))"
    using fill_consumes [of k "w2\<lparr>envelope_no := e\<rparr>"] k(2) by auto
  with k(1) h(2) show ?thesis
    by simp
qed

lemma envelope_size: "length c \<le> MYSQLND_MAX_PACKET_SIZE \<Longrightarrow> 4 \<le> length (envelope env no c)"
  by (auto simp: envelope_def split: option.splits)

lemma envelope_number: "uint1korr (drop 3 (take 4 (envelope env no c @ r))) = no"
  using uint1korr_store [of no "[]"] by (simp add: envelope_def split: option.splits)

lemma envelope_length_field: "length c \<le> MYSQLND_MAX_PACKET_SIZE \<Longrightarrow>
    uint3korr (take 4 (envelope env no c @ r)) = uint3korr (envelope env no c)"
  using envelope_size [of c no] by (simp add: uint3korr_def nth_append)

text \<open>Receiving with something left to read: the next envelope fills the buffer.\<close>

lemma receive_next_envelope:
  assumes w: "compressed w" "buffer_ok w" "length (buffered w) < n"
    and c: "length c \<le> MYSQLND_MAX_PACKET_SIZE"
    and inc: "incoming (net_stream w) = envelope env (envelope_no w) c @ r"
  shows "\<exists>w'. receive_step env n w = Inr (buffered w, n - length (buffered w), w') \<and> received_from w w' \<and>
    incoming (net_stream w') = r \<and> sent (net_stream w') = sent (net_stream w) \<and> envelope_no w' = envelope_no w + 1 \<and>
    buffered w' = c \<and> buffer_ok w'"
proof -
  let ?e = "envelope env (envelope_no w) c"
  obtain w1 where w1: "receive_buffered n w = (buffered w, w1)" "received_from w w1" "net_stream w1 = net_stream w"
    "envelope_no w1 = envelope_no w"
    using receive_buffered_takes [OF w(2), of n] w(3) by auto
  have four: "take 4 (incoming (net_stream w)) = take 4 (?e @ r)" "4 \<le> length (incoming (net_stream w))"
    "drop 4 (incoming (net_stream w)) = drop 4 ?e @ r"
    using inc envelope_size [OF c, of "envelope_no w"] by simp_all
  obtain w2 where w2: "network_read env 4 w1 = ((True, take 4 (?e @ r)), w2)" "received_from w1 w2"
    "incoming (net_stream w2) = drop 4 ?e @ r" "sent (net_stream w2) = sent (net_stream w)" "envelope_no w2 = envelope_no w"
    using read_takes [of 4 w1] w1 four by auto
  define v where "v = w2\<lparr>envelope_no := envelope_no w + 1\<rparr>"
  have "incoming (net_stream v) = drop 4 ?e @ r"
    by (simp add: v_def w2)
  from fill_reads_envelope [OF c this refl] obtain w3 where
    w3: "read_compressed_packet_from_stream_and_fill_read_buffer env (unat (uint3korr ?e)) v = (True, w3)"
    "received_from v w3" "incoming (net_stream w3) = r" "sent (net_stream w3) = sent (net_stream v)"
    "envelope_no w3 = envelope_no v" "buffered w3 = c" "buffer_ok w3"
    by blast
  have "received_from w2 v"
    by (simp add: v_def received_from_def)
  with w1(2) w2(2) w3(2) have from_w: "received_from w w3"
    using received_from_trans by blast
  have "compressed w1" "w2\<lparr>envelope_no := envelope_no w2 + 1\<rparr> = v"
    using w(1) w1(2) by (auto dest: received_fromD simp: v_def w2)
  then have "receive_step env n w = Inr (buffered w, n - length (buffered w), w3)"
    using w1(1) w2(1,5) w3(1) w(1,3) envelope_number [of "envelope_no w" c r] envelope_length_field [OF c, of "envelope_no w" r]
    by (simp add: receive_step_def del: take_append)
  with from_w w3 w2 show ?thesis
    by (simp add: v_def)
qed

lemma receive_compressed:
  assumes "compressed w" "buffer_ok w" "\<forall>c \<in> set cs. length c \<le> MYSQLND_MAX_PACKET_SIZE"
    "incoming (net_stream w) = envelopes env (envelope_no w) cs" "buffered w @ concat cs = xs @ ys"
  shows "\<exists>w'. pfc_receive env (length xs) w = Some ((True, xs), w') \<and> received_from w w' \<and>
    sent (net_stream w') = sent (net_stream w) \<and> carries env incoming w' ys"
  using assms
proof (induction cs arbitrary: w xs)
  case Nil
  then have "length xs \<le> length (buffered w)" by simp
  obtain w' where "receive_buffered (length xs) w = (take (length xs) (buffered w), w')"
    "buffered w' = drop (length xs) (buffered w)" "buffer_ok w'" "received_from w w'"
    "net_stream w' = net_stream w" "envelope_no w' = envelope_no w"
    using receive_buffered_takes [OF Nil.prems(2)] by blast
  with Nil.prems show ?case
    by (auto simp: pfc_receive.simps [of _ _ w] receive_step_def carries_def received_fromD intro!: exI [of _ "[]"])
next
  case (Cons c cs)
  show ?case
  proof (cases "length xs \<le> length (buffered w)")
    case True
    obtain w' where w': "receive_buffered (length xs) w = (take (length xs) (buffered w), w')"
      "buffered w' = drop (length xs) (buffered w)" "buffer_ok w'" "received_from w w'"
      "net_stream w' = net_stream w" "envelope_no w' = envelope_no w"
      using receive_buffered_takes [OF Cons.prems(2)] by blast
    have split: "take (length xs) (buffered w) = xs" "drop (length xs) (buffered w) @ concat (c # cs) = ys"
      using arg_cong [OF Cons.prems(5), of "take (length xs)"] arg_cong [OF Cons.prems(5), of "drop (length xs)"] True
      by simp_all
    have "carries env incoming w' ys"
      using w' split Cons.prems received_fromD(1) [OF w'(4)] unfolding carries_def
      by (auto intro!: exI [of _ "c # cs"])
    with True w' split Cons.prems(1) show ?thesis
      by (auto simp: pfc_receive.simps [of _ _ w] receive_step_def)
  next
    case False
    then have less: "length (buffered w) < length xs" by simp
    obtain zs where xs: "xs = buffered w @ zs" "concat (c # cs) = zs @ ys"
      using Cons.prems(5) less by (auto simp: append_eq_append_conv2)
    obtain w' where w': "receive_step env (length xs) w = Inr (buffered w, length zs, w')" "received_from w w'"
      "incoming (net_stream w') = envelopes env (envelope_no w') cs" "sent (net_stream w') = sent (net_stream w)"
      "buffered w' = c" "buffer_ok w'"
      using receive_next_envelope [OF Cons.prems(1,2) less, of c "envelopes env (envelope_no w + 1) cs"] Cons.prems(3,4)
      by (auto simp: xs(1))
    have "compressed w'"
      using Cons.prems(1) received_fromD(1) [OF w'(2)] by simp
    from Cons.IH [OF this w'(6) _ w'(3), of zs] obtain v where
      "pfc_receive env (length zs) w' = Some ((True, zs), v)" "received_from w' v"
      "sent (net_stream v) = sent (net_stream w')" "carries env incoming v ys"
      using Cons.prems(3) xs(2) w'(5) by auto
    with w' received_from_trans [OF w'(2)] show ?thesis
      by (auto simp: pfc_receive.simps [of _ _ w] xs(1))
  qed
qed

lemma receive_carries:
  assumes "carries env incoming w (xs @ ys)"
  shows "\<exists>w'. pfc_receive env (length xs) w = Some ((True, xs), w') \<and> received_from w w' \<and>
    sent (net_stream w') = sent (net_stream w) \<and> carries env incoming w' ys"
proof (cases "compressed w")
  case True
  with assms receive_compressed [OF True, of _ xs ys] show ?thesis
    by (auto simp: carries_def [of _ _ w])
next
  case False
  with assms read_takes [of "length xs" w] show ?thesis
    by (auto simp: carries_def pfc_receive.simps [of _ _ w] receive_step_def received_fromD)
qed

lemma receive_total:
  "\<exists>r. pfc_receive env n w = Some r \<and> length (incoming (net_stream (snd r))) \<le> length (incoming (net_stream w))"
proof (induction "length (incoming (net_stream w))" arbitrary: n w rule: less_induct)
  case less
  show ?case
  proof (cases "receive_step env n w")
    case (Inl r)
    then show ?thesis
      using receive_step_ends [OF Inl] by (simp add: pfc_receive.simps)
  next
    case (Inr x)
    from less.hyps [OF receive_step_consumes [OF Inr], of "fst (snd x)"] receive_step_consumes [OF Inr]
    show ?thesis using Inr by (auto simp: pfc_receive.simps [of env n w])
  qed
qed

text \<open>Receiving something uses up bytes of the stream, or of the read buffer alone.\<close>

lemma receive_progress:
  assumes "pfc_receive env n w = Some ((True, bs), w')" "0 < n"
  shows "length (incoming (net_stream w')) < length (incoming (net_stream w)) \<or>
    incoming (net_stream w') = incoming (net_stream w) \<and> bytes_left w' < bytes_left w"
proof (cases "receive_step env n w")
  case (Inl r)
  with assms(1) have r: "r = ((True, bs), w')" by (simp add: pfc_receive.simps)
  show ?thesis
  proof (cases "compressed w")
    case True
    obtain got w1 where "receive_buffered n w = (got, w1)"
      by (cases "receive_buffered n w")
    with True Inl r assms(2) show ?thesis
      by (auto simp: receive_step_def receive_buffered_def bytes_left_def Let_def read_buffer_bytes_left_def
          read_buffer_read_def read_buffer_is_empty_def split: if_splits option.splits prod.splits)
  next
    case False
    with Inl r assms(2) read_takes [of n w] show ?thesis
      by (auto simp: receive_step_def)
  qed
next
  case (Inr x)
  obtain r where "pfc_receive env (fst (snd x)) (snd (snd x)) = Some r"
    "length (incoming (net_stream (snd r))) \<le> length (incoming (net_stream (snd (snd x))))"
    using receive_total by blast
  with Inr receive_step_consumes [OF Inr] assms(1) show ?thesis
    by (auto simp: pfc_receive.simps [of env n w])
qed

end

section \<open>A socket\<close>

text \<open>
  A stream that delivers the segments of the peer one by one, so that reads are short, and a compressor for runs of one
  byte: the contract can be met.
\<close>

record link_socket =
  inbox :: "bytes list"
  outbox :: bytes

definition socket_read :: "nat \<Rightarrow> link_socket \<Rightarrow> read_result \<times> link_socket" where
  "socket_read k s = (case dropWhile (\<lambda>seg. seg = []) (inbox s) of
     [] \<Rightarrow> (Data [], s\<lparr>inbox := []\<rparr>)
   | seg # rest \<Rightarrow> (Data (take k seg), s\<lparr>inbox := drop k seg # rest\<rparr>))"

definition socket_ops :: "link_socket php_stream_ops" where
  "socket_ops = \<lparr>stream_seek = (\<lambda>_ _ s. (-1, s)), stream_tell = (\<lambda>s. 0), stream_read = socket_read,
     stream_write = (\<lambda>bs s. (int (length bs), s\<lparr>outbox := outbox s @ bs\<rparr>)), stream_flush = (\<lambda>s. (0, s)),
     stream_eof = (\<lambda>s. concat (inbox s) = []), stream_gets = (\<lambda>_ s. (None, s)),
     stream_truncate_supported = (\<lambda>_. False), stream_truncate = (\<lambda>_ s. (-1, s)), stream_temp = None,
     stream_copy = (\<lambda>_ s t. (False, s, t))\<rparr>"

definition run_compress :: "nat \<Rightarrow> bytes \<Rightarrow> bytes option" where
  "run_compress cap p = (if 2 \<le> cap \<and> p \<noteq> [] \<and> length p < 256 \<and> p = replicate (length p) (hd p)
     then Some [char_of (length p), hd p] else None)"

definition run_uncompress :: "nat \<Rightarrow> bytes \<Rightarrow> bool \<times> bytes" where
  "run_uncompress n z = (if length z = 2 \<and> of_char (z ! 0) \<le> n then (True, replicate (of_char (z ! 0)) (z ! 1)) else (False, []))"

definition socket_env :: "link_socket wire_env" where
  "socket_env = \<lparr>net_ops = socket_ops, zlib_compress = run_compress, zlib_uncompress = run_uncompress,
     fresh_block = (\<lambda>n. replicate n nul)\<rparr>"

lemma concat_dropWhile_Nil: "concat (dropWhile (\<lambda>seg. seg = []) xs) = concat xs"
  by (induction xs) auto

lemma socket_read_law:
  "\<exists>bs s'. socket_read k s = (Data bs, s') \<and> concat (inbox s) = bs @ concat (inbox s') \<and> length bs \<le> k \<and>
     outbox s' = outbox s \<and> (0 < k \<longrightarrow> concat (inbox s) \<noteq> [] \<longrightarrow> bs \<noteq> [])"
proof (cases "dropWhile (\<lambda>seg. seg = []) (inbox s)")
  case Nil
  then have "concat (inbox s) = []"
    by (metis concat.simps(1) concat_dropWhile_Nil)
  then show ?thesis
    unfolding socket_read_def Nil by simp
next
  case (Cons seg rest)
  then have "concat (inbox s) = seg @ concat rest"
    by (metis concat.simps(2) concat_dropWhile_Nil)
  moreover have "seg \<noteq> []"
    using hd_dropWhile [of "\<lambda>seg. seg = []" "inbox s"] Cons by simp
  ultimately show ?thesis
    using Cons by (simp add: socket_read_def)
qed

interpretation sock: wire_link socket_env "\<lambda>s. concat (inbox s)" outbox
proof unfold_locales
  show "\<exists>bs s'. stream_read (net_ops socket_env) k s = (Data bs, s') \<and> concat (inbox s) = bs @ concat (inbox s') \<and>
      length bs \<le> k \<and> outbox s' = outbox s \<and> (0 < k \<longrightarrow> concat (inbox s) \<noteq> [] \<longrightarrow> bs \<noteq> [])" for k s
    using socket_read_law by (simp add: socket_env_def socket_ops_def)
  show "zlib_compress socket_env cap p = Some z \<Longrightarrow> length p \<le> n \<Longrightarrow> zlib_uncompress socket_env n z = (True, p)" for cap p z n
    by (auto simp: socket_env_def run_compress_def run_uncompress_def split: if_splits)
qed (auto simp: socket_env_def socket_ops_def run_compress_def split: if_splits)

end
