(* ===== verification/MysqlndSend.thy ===== *)
theory MysqlndSend
  imports MysqlndLink
begin

text \<open>
  Sending over a working connection: \<^const>\<open>pfc_send\<close> writes the frames of the payload, numbered from the packet
  number of the connection, and leaves the caller's buffer as it was.
\<close>

definition next_envelope :: "'s wire \<Rightarrow> nat \<Rightarrow> 8 word" where
  "next_envelope w n = envelope_no w + of_nat n"

text \<open>The fields that sending changes.\<close>

definition sent_from :: "'s wire \<Rightarrow> 's wire \<Rightarrow> bool" where
  "sent_from w w' \<longleftrightarrow> w' = w\<lparr>net_stream := net_stream w', packet_no := packet_no w', envelope_no := envelope_no w'\<rparr>"

lemma sent_from_refl [simp, intro]: "sent_from w w"
  by (simp add: sent_from_def)

lemma sent_from_trans [trans]: "sent_from u v \<Longrightarrow> sent_from v w \<Longrightarrow> sent_from u w"
  unfolding sent_from_def by (cases u, cases v, cases w) simp

lemma sent_fromD:
  assumes "sent_from w w'"
  shows "compressed w' = compressed w" "stat_packets_sent w' = stat_packets_sent w" "error_no w' = error_no w"
    "stat_bytes_sent w' = stat_bytes_sent w" "connection w' = connection w"
  using assms unfolding sent_from_def by (cases w, cases w', simp)+

text \<open>The header replaces four bytes of the buffer and goes away again.\<close>

lemma store_restore:
  assumes "length h = 4" "p + 4 \<le> length buf"
  shows "store_at p (take 4 (drop p buf)) (store_at p h buf) = buf"
proof -
  have "buf = take p buf @ take 4 (drop p buf) @ drop (p + 4) buf"
    by (metis append_take_drop_id drop_drop add.commute)
  with assms show ?thesis
    by (simp add: store_at_def)
qed

lemma stored_frame:
  assumes "length h = 4" "p + 4 + n \<le> length buf"
  shows "take (n + 4) (drop p (store_at p h buf)) = h @ take n (drop (p + 4) buf)"
  using assms by (simp add: store_at_def)

lemma length_frame_header [simp]: "length (frame_header n no) = 4"
  by (simp add: frame_header_def)

context wire_link
begin

lemma write_compressed_packet_writes:
  assumes "length c \<le> MYSQLND_MAX_PACKET_SIZE"
  shows "\<exists>w' r. write_compressed_packet env c w = (r, w') \<and> 0 < r \<and> sent_from w w' \<and>
    sent (net_stream w') = sent (net_stream w) @ envelope env (envelope_no w) c \<and>
    envelope_no w' = envelope_no w + 1 \<and> packet_no w' = packet_no w"
proof -
  let ?e = "envelope env (envelope_no w) c"
  obtain s' where s': "stream_write (net_ops env) ?e (net_stream w) = (int (length ?e), s')"
    "sent s' = sent (net_stream w) @ ?e"
    using link_write [of ?e "net_stream w"] by blast
  have "write_compressed_packet env c w = (int (length ?e), w\<lparr>net_stream := s', envelope_no := envelope_no w + 1\<rparr>)"
    using s'(1) by (auto simp: write_compressed_packet_def network_write_def envelope_def pfc_encode_def Let_def
        split: option.splits)
  moreover have "0 < length ?e"
    using envelope_size [OF assms, of "envelope_no w"] by linarith
  ultimately show ?thesis
    using s'(2) by (auto simp: sent_from_def)
qed

lemma send_frame_writes:
  fixes w :: "'s wire"
  assumes len: "p + 4 + n \<le> length buf" and n: "n \<le> MYSQLND_MAX_PACKET_SIZE"
  defines "f \<equiv> frame_header n (packet_no w) @ take n (drop (p + 4) buf)"
  shows "\<exists>r w'. send_frame env p n (buf, w) = (r, buf, w') \<and> 0 < r \<and> sent_from w w' \<and>
    sent (net_stream w') = sent (net_stream w) @ on_wire env w [f] \<and> packet_no w' = packet_no w + 1 \<and>
    envelope_no w' = (if compressed w then next_envelope w (length (cut f)) else envelope_no w + 1)"
proof -
  have h: "length (int3store (of_nat n) @ int1store (packet_no w)) = 4" by simp
  have p4: "p + 4 \<le> length buf" using len by simp
  note frame = stored_frame [OF h len] store_restore [OF h p4]
  have f_len: "length f = n + 4"
    using len by (simp add: f_def)
  have f_alt: "(int3store (of_nat n) @ int1store (packet_no w)) @ take n (drop (p + 4) buf) = f"
    by (simp add: f_def frame_header_def)
  consider (plain) "\<not> compressed w" | (one) "compressed w" "n \<le> MYSQLND_MAX_PACKET_SIZE - 4"
    | (two) "compressed w" "\<not> n \<le> MYSQLND_MAX_PACKET_SIZE - 4"
    by blast
  then show ?thesis
  proof cases
    case plain
    obtain s' where "stream_write (net_ops env) f (net_stream w) = (int (length f), s')" "sent s' = sent (net_stream w) @ f"
      using link_write [of f "net_stream w"] by blast
    with plain show ?thesis
      unfolding send_frame_def split Let_def frame f_alt
      by (simp add: network_write_def sent_from_def on_wire_def f_len)
  next
    case one
    then have fits: "length f \<le> MYSQLND_MAX_PACKET_SIZE"
      using f_len by (simp add: MYSQLND_MAX_PACKET_SIZE_def)
    obtain r w' where w': "write_compressed_packet env f w = (r, w')" "0 < r" "sent_from w w'"
      "sent (net_stream w') = sent (net_stream w) @ envelope env (envelope_no w) f"
      "envelope_no w' = envelope_no w + 1" "packet_no w' = packet_no w"
      using write_compressed_packet_writes [OF fits] by blast
    have "sent_from w (w'\<lparr>packet_no := packet_no w' + 1\<rparr>)"
      by (rule sent_from_trans [OF w'(3)]) (simp add: sent_from_def)
    with one fits w' show ?thesis
      unfolding send_frame_def split Let_def frame f_alt
      by (simp add: on_wire_def cut_def next_envelope_def)
  next
    case two
    then have big: "\<not> length f \<le> MYSQLND_MAX_PACKET_SIZE" "length (take 8192 f) \<le> MYSQLND_MAX_PACKET_SIZE"
      "length (drop 8192 f) \<le> MYSQLND_MAX_PACKET_SIZE"
      using f_len n by (simp_all add: MYSQLND_MAX_PACKET_SIZE_def)
    obtain r1 w1 where w1: "write_compressed_packet env (take 8192 f) w = (r1, w1)" "sent_from w w1"
      "sent (net_stream w1) = sent (net_stream w) @ envelope env (envelope_no w) (take 8192 f)"
      "envelope_no w1 = envelope_no w + 1" "packet_no w1 = packet_no w"
      using write_compressed_packet_writes [OF big(2)] by blast
    obtain r2 w2 where w2: "write_compressed_packet env (drop 8192 f) w1 = (r2, w2)" "0 < r2" "sent_from w1 w2"
      "sent (net_stream w2) = sent (net_stream w1) @ envelope env (envelope_no w1) (drop 8192 f)"
      "envelope_no w2 = envelope_no w1 + 1" "packet_no w2 = packet_no w1"
      using write_compressed_packet_writes [OF big(3)] by blast
    have "sent_from w (w2\<lparr>packet_no := packet_no w2 + 1\<rparr>)"
      by (rule sent_from_trans [OF sent_from_trans [OF w1(2) w2(3)]]) (simp add: sent_from_def)
    with two big(1) w1 w2 show ?thesis
      unfolding send_frame_def split Let_def frame f_alt
      by (simp add: on_wire_def cut_def next_envelope_def add.assoc)
  qed
qed

lemma on_wire_Cons:
  "compressed w' = compressed w \<Longrightarrow>
   envelope_no w' = (if compressed w then next_envelope w (length (cut f)) else e) \<Longrightarrow>
   on_wire env w [f] @ on_wire env w' fs = on_wire env w (f # fs)"
  by (simp add: on_wire_def envelopes_append next_envelope_def)

lemma send_loop_writes:
  assumes "length buf = p + 4 + left"
  shows "\<exists>r w'. send_loop env left p k (buf, w) = (r, k + length (frames (packet_no w) (drop (p + 4) buf)), buf, w') \<and>
    0 < r \<and> sent_from w w' \<and>
    sent (net_stream w') = sent (net_stream w) @ on_wire env w (frames (packet_no w) (drop (p + 4) buf)) \<and>
    packet_no w' = packet_no w + of_nat (length (frames (packet_no w) (drop (p + 4) buf)))"
  using assms
proof (induction left arbitrary: p k w rule: less_induct)
  case (less left)
  let ?M = MYSQLND_MAX_PACKET_SIZE
  let ?n = "min left ?M" and ?pay = "drop (p + 4) buf"
  let ?f = "frame_header ?n (packet_no w) @ take ?n ?pay"
  obtain r w1 where w1: "send_frame env p ?n (buf, w) = (r, buf, w1)" "0 < r" "sent_from w w1"
    "sent (net_stream w1) = sent (net_stream w) @ on_wire env w [?f]" "packet_no w1 = packet_no w + 1"
    "envelope_no w1 = (if compressed w then next_envelope w (length (cut ?f)) else envelope_no w + 1)"
    using send_frame_writes [of p ?n buf w] less.prems by auto
  have len: "length ?pay = left" using less.prems by simp
  show ?case
  proof (cases "left < ?M")
    case True
    with len have fs: "frames (packet_no w) ?pay = [?f]"
      by (simp add: frames.simps [of _ ?pay])
    have "send_loop env left p k (buf, w) = (r, k + 1, buf, w1)"
      using True w1(1) by (simp add: send_loop.simps [of _ left])
    with w1 show ?thesis
      unfolding fs by simp
  next
    case False
    then have n: "?n = ?M" and pos: "0 < ?M" by (simp_all add: MYSQLND_MAX_PACKET_SIZE_def)
    have drop: "drop ?M ?pay = drop (p + ?M + 4) buf" by (simp add: ac_simps)
    have fs: "frames (packet_no w) ?pay = ?f # frames (packet_no w1) (drop (p + ?M + 4) buf)"
      using False len w1(5) unfolding n drop [symmetric] by (simp add: frames.simps [of _ ?pay])
    have "left - ?M < left" using False pos by simp
    from less.IH [OF this, of "p + ?M" "k + 1" w1] less.prems False obtain r' w' where
      w': "send_loop env (left - ?M) (p + ?M) (k + 1) (buf, w1) =
         (r', k + 1 + length (frames (packet_no w1) (drop (p + ?M + 4) buf)), buf, w')" "0 < r'" "sent_from w1 w'"
      "sent (net_stream w') = sent (net_stream w1) @ on_wire env w1 (frames (packet_no w1) (drop (p + ?M + 4) buf))"
      "packet_no w' = packet_no w1 + of_nat (length (frames (packet_no w1) (drop (p + ?M + 4) buf)))"
      by auto
    have loop: "send_loop env left p k (buf, w) = send_loop env (left - ?M) (p + ?M) (k + 1) (buf, w1)"
      using w1(1,2) unfolding n by (subst send_loop.simps) (simp add: n)
    have wire: "on_wire env w [?f] @ on_wire env w1 (frames (packet_no w1) (drop (p + ?M + 4) buf)) =
        on_wire env w (frames (packet_no w) ?pay)"
      unfolding fs by (rule on_wire_Cons [OF sent_fromD(1) [OF w1(3)] w1(6)])
    show ?thesis
      using w' w1(4,5) sent_from_trans [OF w1(3) w'(3)]
      unfolding loop wire [symmetric] by (simp add: fs add.assoc)
  qed
qed

lemma send_writes:
  assumes "length buf = 4 + count"
  shows "\<exists>n w'. pfc_send env buf count w = (n, buf, w') \<and> 0 < n \<and>
    sent (net_stream w') = sent (net_stream w) @ on_wire env w (frames (packet_no w) (drop 4 buf)) \<and>
    packet_no w' = packet_no w + of_nat (length (frames (packet_no w) (drop 4 buf))) \<and>
    stat_packets_sent w' = stat_packets_sent w + length (frames (packet_no w) (drop 4 buf)) + 1 \<and>
    error_no w' = error_no w \<and> compressed w' = compressed w \<and> connection w' = connection w"
proof -
  obtain r w1 where w1: "send_loop env count 0 1 (buf, w) = (r, 1 + length (frames (packet_no w) (drop 4 buf)), buf, w1)"
    "0 < r" "sent_from w w1" "sent (net_stream w1) = sent (net_stream w) @ on_wire env w (frames (packet_no w) (drop 4 buf))"
    "packet_no w1 = packet_no w + of_nat (length (frames (packet_no w) (drop 4 buf)))"
    using send_loop_writes [of buf 0 count 1 w] assms by auto
  then show ?thesis
    by (simp add: pfc_send_def Let_def sent_fromD)
qed

end

end
