(* ===== verification/MysqlndPacket.thy ===== *)
theory MysqlndPacket
  imports MysqlndFrame
begin

text \<open>
  Packets of the MySQL client, from \<^verbatim>\<open>mysqlnd_wireprotocol.c\<close>: the header (\<^verbatim>\<open>mysqlnd_read_header\<close>), a packet
  in the command buffer (\<^verbatim>\<open>mysqlnd_read_packet_header_and_body\<close>), a row that may span several packets
  (\<^verbatim>\<open>php_mysqlnd_read_row_ex\<close>), a command (\<^verbatim>\<open>php_mysqlnd_cmd_write\<close>), and the OK and EOF packets
  (\<^verbatim>\<open>php_mysqlnd_ok_read\<close>, \<^verbatim>\<open>php_mysqlnd_eof_read\<close>).

  Everything that receives returns an option: \<^const>\<open>None\<close> is a run that does not end. Inside it, \<^const>\<open>None\<close> for a
  header or a row is \<^verbatim>\<open>FAIL\<close>. The counters per packet type are left out.
\<close>

definition CR_INVALID_BUFFER_USE :: u32 where "CR_INVALID_BUFFER_USE = 2035"

definition buffer_too_small :: string where
  "buffer_too_small = ''Packet buffer wasn'' @ [CHR 0x27] @
     ''t big enough; as a workaround consider increasing value of net_cmd_buffer_size''"

definition MYSQLND_ERRMSG_SIZE :: nat where "MYSQLND_ERRMSG_SIZE = 512"

definition ERROR_MARKER :: "8 word" where "ERROR_MARKER = 255"

definition server_gone :: "'s wire \<Rightarrow> 's wire" where
  "server_gone w = SET_CLIENT_ERROR CR_SERVER_GONE_ERROR unknown_sqlstate mysqlnd_server_gone (w\<lparr>connection := CONN_QUIT_SENT\<rparr>)"

section \<open>Headers and bodies\<close>

definition mysqlnd_read_header :: "'s wire_env \<Rightarrow> 's wire \<Rightarrow> ((nat \<times> 8 word) option \<times> 's wire) option" where
  "mysqlnd_read_header env w =
    Option.bind (pfc_receive env MYSQLND_HEADER_SIZE w) (\<lambda>((ok, buffer), w1).
      if \<not> ok then Some (None, w1)
      else let sz = unat (uint3korr buffer); no = uint1korr (drop 3 buffer);
               w2 = w1\<lparr>stat_overhead_in := stat_overhead_in w1 + MYSQLND_HEADER_SIZE,
                       stat_packets_received := stat_packets_received w1 + 1\<rparr>
        in if compressed w2 \<or> packet_no w2 = no
           then Some (Some (sz, no), w2\<lparr>packet_no := packet_no w2 + 1\<rparr>)
           else if 0 < sz
           then Option.bind (pfc_receive env sz w2) (\<lambda>((ok, buf), w3).
             if ok \<and> uint1korr buf = ERROR_MARKER
             then case php_mysqlnd_read_error_from_line (drop 1 buf) (MYSQLND_ERRMSG_SIZE + 1) of (eno, st, msg) \<Rightarrow>
               Some (None, SET_CLIENT_ERROR eno st msg w3)
             else Some (None, w3\<lparr>warnings := OutOfOrder (packet_no w3) no sz # warnings w3\<rparr>))
           else Some (None, w2\<lparr>warnings := OutOfOrder (packet_no w2) no sz # warnings w2\<rparr>))"

text \<open>All callers read into the command buffer.\<close>

definition mysqlnd_read_packet_header_and_body :: "'s wire_env \<Rightarrow> 's wire \<Rightarrow> ((nat \<times> 8 word) option \<times> 's wire) option" where
  "mysqlnd_read_packet_header_and_body env w =
    Option.bind (mysqlnd_read_header env w) (\<lambda>(h, w1). case h of
        None \<Rightarrow> Some (None, if error_no w1 = 0 then server_gone w1 else w1\<lparr>connection := CONN_QUIT_SENT\<rparr>)
      | Some (sz, no) \<Rightarrow>
          if length (cmd_buffer w1) < sz
          then Some (None, SET_CLIENT_ERROR CR_INVALID_BUFFER_USE unknown_sqlstate buffer_too_small w1)
          else Option.bind (pfc_receive env sz w1) (\<lambda>((ok, bs), w2).
            let w3 = w2\<lparr>cmd_buffer := store_at 0 bs (cmd_buffer w2)\<rparr>
            in if ok then Some (Some (sz, no), w3) else Some (None, server_gone w3)))"

section \<open>Rows\<close>

text \<open>The packets of a row after its first header; \<open>acc\<close> is what has been collected. When the header of a
  further packet fails, the connection and the error stay as \<^const>\<open>mysqlnd_read_header\<close> left them.\<close>

partial_function (option) read_row_loop :: "'s wire_env \<Rightarrow> nat \<Rightarrow> bytes \<Rightarrow> 's wire \<Rightarrow> (bytes option \<times> 's wire) option" where
  "read_row_loop env sz acc w =
    (if MYSQLND_MAX_PACKET_SIZE \<le> sz
     then Option.bind (pfc_receive env sz w) (\<lambda>r.
       if \<not> fst (fst r) then Some (None, server_gone (snd r))
       else Option.bind (mysqlnd_read_header env (snd r)) (\<lambda>h. case fst h of
           None \<Rightarrow> Some (None, snd h)
         | Some hdr \<Rightarrow> read_row_loop env (fst hdr) (acc @ snd (fst r)) (snd h)))
     else Option.bind (pfc_receive env sz w) (\<lambda>r.
       if \<not> fst (fst r) then Some (None, server_gone (snd r))
       else Some (Some (acc @ snd (fst r)), snd r)))"

definition php_mysqlnd_read_row_ex :: "'s wire_env \<Rightarrow> 's wire \<Rightarrow> (bytes option \<times> 's wire) option" where
  "php_mysqlnd_read_row_ex env w =
    Option.bind (mysqlnd_read_header env w) (\<lambda>(h, w1). case h of
        None \<Rightarrow> Some (None, server_gone w1)
      | Some hdr \<Rightarrow> read_row_loop env (fst hdr) [] w1)"

section \<open>Commands\<close>

text \<open>Returns what \<^const>\<open>pfc_send\<close> returns. Without an argument the packet is built on the stack.\<close>

definition php_mysqlnd_cmd_write :: "'s wire_env \<Rightarrow> 8 word \<Rightarrow> bytes option \<Rightarrow> 's wire \<Rightarrow> nat \<times> 's wire" where
  "php_mysqlnd_cmd_write env command argument w =
    (let w0 = pfc_reset w;
         (sent, w1) =
           (case argument of
              None \<Rightarrow> (case pfc_send env (replicate MYSQLND_HEADER_SIZE nul @ int1store command) 1 w0 of (n, _, w') \<Rightarrow> (n, w'))
            | Some arg \<Rightarrow>
                if arg = [] then (case pfc_send env (replicate MYSQLND_HEADER_SIZE nul @ int1store command) 1 w0 of (n, _, w') \<Rightarrow> (n, w'))
                else let tmp_len = length arg + 1 + MYSQLND_HEADER_SIZE;
                         own = length (cmd_buffer w0) < tmp_len;
                         tmp = store_at MYSQLND_HEADER_SIZE (int1store command @ arg)
                                 (if own then fresh_block env tmp_len else cmd_buffer w0)
                  in case pfc_send env (take tmp_len tmp) (tmp_len - MYSQLND_HEADER_SIZE) w0 of (n, buf, w') \<Rightarrow>
                       (n, if own then w' else w'\<lparr>cmd_buffer := buf @ drop tmp_len tmp\<rparr>))
     in (sent, if sent = 0 then w1\<lparr>connection := CONN_QUIT_SENT\<rparr> else w1))"

section \<open>OK and EOF packets\<close>

datatype 'a parsed = Parsed 'a | Premature | Overrun \<comment> \<open>a read behind the command buffer\<close>

record ok_packet =
  ok_field_count :: "8 word"
  ok_affected_rows :: "64 word"
  ok_last_insert_id :: "64 word"
  ok_server_status :: "16 word"
  ok_warning_count :: "16 word"
  ok_message :: "bytes option"
  ok_error :: "(u32 \<times> bytes \<times> bytes) option"

definition blank_ok :: ok_packet where
  "blank_ok = \<lparr>ok_field_count = 0, ok_affected_rows = 0, ok_last_insert_id = 0, ok_server_status = 0,
     ok_warning_count = 0, ok_message = None, ok_error = None\<rparr>"

text \<open>The error line of a packet of \<open>sz\<close> bytes.\<close>

definition packet_error :: "bytes \<Rightarrow> nat \<Rightarrow> u32 \<times> bytes \<times> bytes" where
  "packet_error mem sz = php_mysqlnd_read_error_from_line (take (sz - 1) (drop 1 mem)) (MYSQLND_ERRMSG_SIZE + 1)"

text \<open>The message of an OK packet that starts at \<open>p\<close>, and the position behind its length code. The message is
  bounded by the command buffer, not by the packet.\<close>

definition ok_read_message :: "bytes \<Rightarrow> nat \<Rightarrow> nat \<Rightarrow> (bytes option \<times> nat) option" where
  "ok_read_message mem sz p =
    (if p < sz
     then (case php_mysqlnd_net_field_length mem p of
         None \<Rightarrow> None
       | Some (net_len, q) \<Rightarrow>
           if net_len = 0 then Some (None, q)
           else let message_len = min (unat net_len) (unat (word_of_nat (length mem) - word_of_nat q :: u32))
             in if length mem < q + message_len then None else Some (Some (take message_len (drop q mem)), q))
     else Some (None, p))"

definition ok_parse :: "bytes \<Rightarrow> nat \<Rightarrow> ok_packet parsed" where
  "ok_parse mem sz =
    (if mem = [] then Overrun
     else let field_count = uint1korr mem in
       if sz < 1 then Premature
       else if field_count = ERROR_MARKER
       then if length mem < sz then Overrun
         else Parsed (blank_ok\<lparr>ok_field_count := field_count, ok_error := Some (packet_error mem sz)\<rparr>)
       else case php_mysqlnd_net_field_length_ll mem 1 of None \<Rightarrow> Overrun | Some (rows, p1) \<Rightarrow>
         if sz < p1 then Premature
         else case php_mysqlnd_net_field_length_ll mem p1 of None \<Rightarrow> Overrun | Some (last_id, p2) \<Rightarrow>
           if sz < p2 then Premature
           else if length mem < p2 + 2 then Overrun
           else if sz < p2 + 2 then Premature
           else if length mem < p2 + 4 then Overrun
           else if sz < p2 + 4 then Premature
           else case ok_read_message mem sz (p2 + 4) of None \<Rightarrow> Overrun | Some (message, p3) \<Rightarrow>
             if sz < p3 then Premature
             else Parsed \<lparr>ok_field_count = field_count, ok_affected_rows = rows, ok_last_insert_id = last_id,
               ok_server_status = uint2korr (drop p2 mem), ok_warning_count = uint2korr (drop (p2 + 2) mem),
               ok_message = message, ok_error = None\<rparr>)"

record eof_packet =
  eof_field_count :: "8 word"
  eof_warning_count :: "16 word"
  eof_server_status :: "16 word"
  eof_error :: "(u32 \<times> bytes \<times> bytes) option"

definition eof_parse :: "bytes \<Rightarrow> nat \<Rightarrow> eof_packet parsed" where
  "eof_parse mem sz =
    (if mem = [] then Overrun
     else let field_count = uint1korr mem in
       if sz < 1 then Premature
       else if field_count = ERROR_MARKER
       then if length mem < sz then Overrun
         else Parsed \<lparr>eof_field_count = field_count, eof_warning_count = 0, eof_server_status = 0,
              eof_error = Some (packet_error mem sz)\<rparr>
       else if sz > 1
       then if length mem < 3 then Overrun
            else if sz < 3 then Premature
            else if length mem < 5 then Overrun
            else if sz < 5 then Premature
            else Parsed \<lparr>eof_field_count = field_count, eof_warning_count = uint2korr (drop 1 mem),
                   eof_server_status = uint2korr (drop 3 mem), eof_error = None\<rparr>
       else Parsed \<lparr>eof_field_count = field_count, eof_warning_count = 0, eof_server_status = 0, eof_error = None\<rparr>)"

definition note_premature :: "'a parsed \<Rightarrow> 's wire \<Rightarrow> 's wire" where
  "note_premature r w = (case r of Premature \<Rightarrow> w\<lparr>warnings := PrematureEnd # warnings w\<rparr> | _ \<Rightarrow> w)"

text \<open>The outer option is a run that ends; \<^const>\<open>None\<close> inside is a packet that did not come.\<close>

definition php_mysqlnd_ok_read :: "'s wire_env \<Rightarrow> 's wire \<Rightarrow> (ok_packet parsed option \<times> 's wire) option" where
  "php_mysqlnd_ok_read env w =
    Option.bind (mysqlnd_read_packet_header_and_body env w) (\<lambda>(h, w1). case h of
        None \<Rightarrow> Some (None, w1)
      | Some (sz, no) \<Rightarrow> let r = ok_parse (cmd_buffer w1) sz in Some (Some r, note_premature r w1))"

definition php_mysqlnd_eof_read :: "'s wire_env \<Rightarrow> 's wire \<Rightarrow> (eof_packet parsed option \<times> 's wire) option" where
  "php_mysqlnd_eof_read env w =
    Option.bind (mysqlnd_read_packet_header_and_body env w) (\<lambda>(h, w1). case h of
        None \<Rightarrow> Some (None, w1)
      | Some (sz, no) \<Rightarrow> let r = eof_parse (cmd_buffer w1) sz in Some (Some r, note_premature r w1))"

section \<open>Bounds\<close>

lemma net_field_length_moves:
  "php_mysqlnd_net_field_length_ll mem p = Some (v, q) \<Longrightarrow> p < q \<and> q \<le> p + 9"
  "php_mysqlnd_net_field_length mem p = Some (n, q) \<Longrightarrow> p < q \<and> q \<le> p + 9"
  by (auto simp: php_mysqlnd_net_field_length_ll_def php_mysqlnd_net_field_length_def Let_def split: if_splits)

lemma net_field_length_defined:
  "p + 9 \<le> length mem \<Longrightarrow> php_mysqlnd_net_field_length_ll mem p \<noteq> None"
  "p + 9 \<le> length mem \<Longrightarrow> php_mysqlnd_net_field_length mem p \<noteq> None"
  by (auto simp: php_mysqlnd_net_field_length_ll_def php_mysqlnd_net_field_length_def Let_def)

lemma unat_left: "q \<le> n \<Longrightarrow> n < 4294967296 \<Longrightarrow> unat (word_of_nat n - word_of_nat q :: u32) = n - q"
  by (simp add: unat_sub_if_size unat_of_nat_u32 word_size)

lemma ok_message_defined:
  assumes "p + 9 \<le> length mem" "length mem < 4294967296"
  shows "ok_read_message mem sz p \<noteq> None"
  using assms net_field_length_defined(2) [OF assms(1)]
  by (auto simp: ok_read_message_def Let_def unat_left dest: net_field_length_moves split: option.splits)

text \<open>
  C39: reading an OK packet stays inside the command buffer. Whatever the buffer holds and whatever size up to its own the
  header of the packet announces, \<^const>\<open>ok_parse\<close> reads no byte behind a buffer of at least 32 bytes, and the message it takes is no
  longer than the buffer; the smallest buffer that \<^verbatim>\<open>set_client_option\<close> accepts has 4096 bytes. The checks for the end
  of the packet come after the reads, so 32 is what the longest fixed part of an OK packet needs.
\<close>

theorem ok_read_in_bounds:
  assumes "32 \<le> length mem" "length mem < 4294967296" "sz \<le> length mem"
  shows "ok_parse mem sz \<noteq> Overrun \<and>
    (\<forall>pk msg. ok_parse mem sz = Parsed pk \<longrightarrow> ok_message pk = Some msg \<longrightarrow> length msg < length mem)"
proof -
  obtain rows p1 where 1: "php_mysqlnd_net_field_length_ll mem 1 = Some (rows, p1)" "1 < p1" "p1 \<le> 10"
    using net_field_length_defined(1) [of 1 mem] net_field_length_moves(1) [of mem 1] assms(1) by fastforce
  obtain i p2 where 2: "php_mysqlnd_net_field_length_ll mem p1 = Some (i, p2)" "p1 < p2" "p2 \<le> 19"
    using net_field_length_defined(1) [of p1 mem] net_field_length_moves(1) [of mem p1] assms(1) 1(3) by fastforce
  obtain m p3 where 3: "ok_read_message mem sz (p2 + 4) = Some (m, p3)"
    using ok_message_defined [of "p2 + 4" mem sz] assms 2(3) by auto
  have "length msg < length mem" if "m = Some msg" for msg
    using 3 that assms(1) by (auto simp: ok_read_message_def Let_def split: if_splits option.splits prod.splits
        dest!: net_field_length_moves(2))
  with 1 2 3 assms(1,3) show ?thesis
    by (auto simp: ok_parse_def Let_def blank_ok_def)
qed

lemma ok_read_in_bounds_witness: "ok_parse (replicate 40 nul) 7 \<noteq> Overrun"
  using ok_read_in_bounds [of "replicate 40 nul" 7] by simp

text \<open>The message of an OK packet may be longer than the packet: the rest is what the buffer held before.\<close>

lemma ok_message_behind_packet:
  "ok_message (case ok_parse (int1store 0 @ int1store 0 @ int1store 0 @ int2store 2 @ int2store 0 @ int1store 6 @
      ''secret'' @ replicate 32 nul) 8 of Parsed pk \<Rightarrow> pk) = Some ''secret''"
  by code_simp

end
