(* ===== verification/MysqlndDelivery.thy ===== *)
theory MysqlndDelivery
  imports MysqlndSend MysqlndPacket
begin

text \<open>
  The packets over the frames: what one end of a connection sends, the other end reads, as a row that spans
  several packets or as an OK packet in the command buffer; and reading ends whatever arrives.
\<close>

section \<open>What reading keeps\<close>

lemma carries_update [simp]:
  "carries env incoming (w\<lparr>packet_no := a\<rparr>) bs = carries env incoming w bs"
  "carries env incoming (w\<lparr>stat_overhead_in := b\<rparr>) bs = carries env incoming w bs"
  "carries env incoming (w\<lparr>stat_packets_received := b\<rparr>) bs = carries env incoming w bs"
  "carries env incoming (w\<lparr>cmd_buffer := c\<rparr>) bs = carries env incoming w bs"
  by (simp_all add: carries_def buffer_ok_def buffered_def)

lemma bytes_left_update [simp]:
  "bytes_left (w\<lparr>packet_no := a\<rparr>) = bytes_left w" "bytes_left (w\<lparr>stat_overhead_in := b\<rparr>) = bytes_left w"
  "bytes_left (w\<lparr>stat_packets_received := b\<rparr>) = bytes_left w"
  by (simp_all add: bytes_left_def)

lemma header_fields:
  assumes "n \<le> MYSQLND_MAX_PACKET_SIZE"
  shows "unat (uint3korr (frame_header n no)) = n" "uint1korr (drop 3 (frame_header n no)) = no"
  using max_packet [OF assms] uint1korr_store [of no "[]"] by (simp_all add: frame_header_def)

lemma length_frame_le: "f \<in> set (frames no p) \<Longrightarrow> length f \<le> MYSQLND_MAX_PACKET_SIZE + 4"
proof (induction no p rule: frames.induct)
  case (1 no p)
  show ?case
    using "1.prems" "1.IH" by (subst (asm) frames.simps) (auto split: if_splits)
qed

lemma concat_cut: "concat (concat (map cut fs)) = concat fs"
  by (induction fs) (simp_all add: cut_def)

lemma length_cut_le: "length f \<le> MYSQLND_MAX_PACKET_SIZE + 4 \<Longrightarrow> c \<in> set (cut f) \<Longrightarrow> length c \<le> MYSQLND_MAX_PACKET_SIZE"
  by (auto simp: cut_def MYSQLND_MAX_PACKET_SIZE_def split: if_splits)

lemma carries_on_wire:
  assumes "incoming (net_stream v) = on_wire env w fs" "\<And>f. f \<in> set fs \<Longrightarrow> length f \<le> MYSQLND_MAX_PACKET_SIZE + 4"
    "compressed v = compressed w" "envelope_no v = envelope_no w" "uncompressed_data v = None"
  shows "carries env incoming v (concat fs)"
proof (cases "compressed w")
  case True
  have "\<forall>c \<in> set (concat (map cut fs)). length c \<le> MYSQLND_MAX_PACKET_SIZE"
    using length_cut_le assms(2) by auto
  then show ?thesis
    using assms True concat_cut [of fs]
    by (auto simp: carries_def on_wire_def buffer_ok_def buffered_def intro!: exI [of _ "concat (map cut fs)"])
next
  case False
  with assms show ?thesis by (simp add: carries_def on_wire_def)
qed

lemma frames_header: "concat (frames no p) =
    frame_header (min (length p) MYSQLND_MAX_PACKET_SIZE) no @ drop 4 (concat (frames no p))"
  by (subst frames.simps, subst (2) frames.simps) (simp add: min_def)

lemma frames_header_append: "frame_header (min (length p) MYSQLND_MAX_PACKET_SIZE) no @ drop 4 (concat (frames no p)) @ ys =
    concat (frames no p) @ ys"
  using arg_cong [OF frames_header [of no p], of "\<lambda>x. x @ ys"] by simp

lemma frames_body:
  "length p < MYSQLND_MAX_PACKET_SIZE \<Longrightarrow> drop 4 (concat (frames no p)) = p"
  "\<not> length p < MYSQLND_MAX_PACKET_SIZE \<Longrightarrow> drop 4 (concat (frames no p)) =
     take MYSQLND_MAX_PACKET_SIZE p @ concat (frames (no + 1) (drop MYSQLND_MAX_PACKET_SIZE p))"
  by (simp_all add: frames.simps [of no p])

section \<open>Packets over a link\<close>

context wire_link
begin

lemma read_header_carries:
  assumes "carries env incoming w (frame_header n no @ ys)" "n \<le> MYSQLND_MAX_PACKET_SIZE"
    "compressed w \<or> packet_no w = no"
  shows "\<exists>w'. mysqlnd_read_header env w = Some (Some (n, no), w') \<and> carries env incoming w' ys \<and>
    packet_no w' = packet_no w + 1 \<and> compressed w' = compressed w \<and> cmd_buffer w' = cmd_buffer w"
proof -
  obtain v where v: "pfc_receive env 4 w = Some ((True, frame_header n no), v)" "received_from w v" "carries env incoming v ys"
    using receive_carries [OF assms(1)] by auto
  then show ?thesis
    using assms(3) header_fields [OF assms(2), of no] received_fromD [OF v(2)]
    by (auto simp: mysqlnd_read_header_def Let_def)
qed

lemma read_row_loop_carries:
  "carries env incoming w (drop 4 (concat (frames no p)) @ ys) \<Longrightarrow> compressed w \<or> packet_no w = no + 1 \<Longrightarrow>
   \<exists>w'. read_row_loop env (min (length p) MYSQLND_MAX_PACKET_SIZE) acc w = Some (Some (acc @ p), w') \<and>
     carries env incoming w' ys \<and> packet_no w' + 1 = packet_no w + of_nat (length (frames no p)) \<and>
     compressed w' = compressed w"
proof (induction no p arbitrary: w acc rule: frames.induct)
  case (1 no p)
  let ?M = MYSQLND_MAX_PACKET_SIZE
  show ?case
  proof (cases "length p < ?M")
    case True
    with "1.prems"(1) have "carries env incoming w (p @ ys)"
      by (simp add: frames_body(1))
    from receive_carries [OF this] obtain w' where
      "pfc_receive env (length p) w = Some ((True, p), w')" "received_from w w'" "carries env incoming w' ys"
      by blast
    with True show ?thesis
      by (auto simp: read_row_loop.simps [of _ "length p"] frames.simps [of no p] received_fromD)
  next
    case False
    let ?q = "drop ?M p"
    have M: "min (length p) ?M = ?M" "length (take ?M p) = ?M" using False by simp_all
    have "carries env incoming w (take ?M p @ frame_header (min (length ?q) ?M) (no + 1) @
        drop 4 (concat (frames (no + 1) ?q)) @ ys)"
      unfolding frames_header_append using "1.prems"(1) False by (simp add: frames_body(2))
    from receive_carries [OF this] obtain w1 where
      w1: "pfc_receive env ?M w = Some ((True, take ?M p), w1)" "received_from w w1"
        "carries env incoming w1 (frame_header (min (length ?q) ?M) (no + 1) @ drop 4 (concat (frames (no + 1) ?q)) @ ys)"
      unfolding M(2) by blast
    obtain w2 where
      w2: "mysqlnd_read_header env w1 = Some (Some (min (length ?q) ?M, no + 1), w2)"
        "carries env incoming w2 (drop 4 (concat (frames (no + 1) ?q)) @ ys)"
        "packet_no w2 = packet_no w1 + 1" "compressed w2 = compressed w1"
      using read_header_carries [OF w1(3)] "1.prems"(2) received_fromD [OF w1(2)] by auto
    have no: "compressed w2 \<or> packet_no w2 = no + 1 + 1"
      using "1.prems"(2) w2(3,4) received_fromD [OF w1(2)] by auto
    obtain w3 where
      w3: "read_row_loop env (min (length ?q) ?M) (acc @ take ?M p) w2 = Some (Some ((acc @ take ?M p) @ ?q), w3)"
        "carries env incoming w3 ys" "packet_no w3 + 1 = packet_no w2 + of_nat (length (frames (no + 1) ?q))"
        "compressed w3 = compressed w2"
      using "1.IH" [OF False w2(2) no, of "acc @ take ?M p"] by blast
    have "read_row_loop env (min (length p) ?M) acc w = Some (Some (acc @ p), w3)"
      unfolding M(1) using w1(1) w2(1) w3(1) by (subst read_row_loop.simps) simp
    moreover have "length (frames no p) = length (frames (no + 1) ?q) + 1"
      using False by (simp add: frames.simps [of no p])
    ultimately show ?thesis
      using w2(3,4) w3 received_fromD [OF w1(2)] by (simp add: add.assoc add.commute)
  qed
qed

lemma read_row_carries:
  assumes "carries env incoming w (concat (frames no p) @ ys)" "compressed w \<or> packet_no w = no"
  shows "\<exists>w'. php_mysqlnd_read_row_ex env w = Some (Some p, w') \<and> carries env incoming w' ys \<and>
    packet_no w' = packet_no w + of_nat (length (frames no p))"
proof -
  let ?n = "min (length p) MYSQLND_MAX_PACKET_SIZE"
  have "carries env incoming w (frame_header ?n no @ drop 4 (concat (frames no p)) @ ys)"
    unfolding frames_header_append by (rule assms(1))
  from read_header_carries [OF this _ assms(2)] obtain w1 where
    w1: "mysqlnd_read_header env w = Some (Some (?n, no), w1)"
      "carries env incoming w1 (drop 4 (concat (frames no p)) @ ys)" "packet_no w1 = packet_no w + 1" "compressed w1 = compressed w"
    by auto
  have "compressed w1 \<or> packet_no w1 = no + 1"
    using assms(2) w1(3,4) by auto
  from read_row_loop_carries [OF w1(2) this, of "[]"] obtain w' where
    "read_row_loop env ?n [] w1 = Some (Some p, w')" "carries env incoming w' ys"
    "packet_no w' + 1 = packet_no w1 + of_nat (length (frames no p))"
    by auto
  with w1 show ?thesis
    by (auto simp: php_mysqlnd_read_row_ex_def add.commute add.left_commute)
qed

lemma read_body_carries:
  assumes "carries env incoming w (frame_header (length pl) no @ pl @ ys)" "length pl \<le> MYSQLND_MAX_PACKET_SIZE"
    "length pl \<le> length (cmd_buffer w)" "compressed w \<or> packet_no w = no"
  shows "\<exists>w'. mysqlnd_read_packet_header_and_body env w = Some (Some (length pl, no), w') \<and> carries env incoming w' ys \<and>
    cmd_buffer w' = pl @ drop (length pl) (cmd_buffer w) \<and> packet_no w' = packet_no w + 1"
proof -
  obtain w1 where w1: "mysqlnd_read_header env w = Some (Some (length pl, no), w1)" "carries env incoming w1 (pl @ ys)"
    "packet_no w1 = packet_no w + 1" "cmd_buffer w1 = cmd_buffer w"
    using read_header_carries [OF assms(1,2,4)] by blast
  obtain w2 where w2: "pfc_receive env (length pl) w1 = Some ((True, pl), w2)" "received_from w1 w2" "carries env incoming w2 ys"
    using receive_carries [OF w1(2)] by blast
  show ?thesis
    using assms(3) w1 w2 received_fromD [OF w2(2)]
    by (auto simp: mysqlnd_read_packet_header_and_body_def Let_def store_at_def)
qed

end

section \<open>OK packets\<close>

text \<open>The OK packet of the protocol, as a server writes it.\<close>

definition ok_payload :: "64 word \<Rightarrow> 64 word \<Rightarrow> 16 word \<Rightarrow> 16 word \<Rightarrow> bytes \<Rightarrow> bytes" where
  "ok_payload rows last_id status wcount msg =
     int1store 0 @ php_mysqlnd_net_store_length rows @ php_mysqlnd_net_store_length last_id @
     int2store (ucast status) @ int2store (ucast wcount) @
     (if msg = [] then [] else php_mysqlnd_net_store_length (of_nat (length msg)) @ msg)"

lemma uint2korr_store16: "uint2korr (int2store (ucast (w :: 16 word)) @ r) = w"
proof -
  have "unat (ucast w :: u32) < 65536"
    using unsigned_less [of w, where 'a = nat] by (simp add: unat_ucast_mod)
  moreover have "ucast (ucast w :: u32) = w"
    using unsigned_less [of w, where 'a = nat] by (simp add: word_unat_eq_iff unat_ucast_mod)
  ultimately show ?thesis by simp
qed

lemma uint1korr_zero: "uint1korr (int1store 0 @ r) = 0"
  by (rule uint1korr_store)

lemma ok_read_message_payload:
  assumes "length (xs @ php_mysqlnd_net_store_length (of_nat (length msg)) @ msg @ r) < 4294967296" "msg \<noteq> []"
    "length xs < sz"
  shows "ok_read_message (xs @ php_mysqlnd_net_store_length (of_nat (length msg)) @ msg @ r) sz (length xs) =
    Some (Some msg, length xs + length (php_mysqlnd_net_store_length (of_nat (length msg))))"
proof -
  have len: "unat (ucast (word_of_nat (length msg) :: 64 word) :: u32) = length msg"
    using assms(1) by (simp add: unat_ucast_mod unat_of_nat)
  then have nz: "(ucast (word_of_nat (length msg) :: 64 word) :: u32) \<noteq> 0"
    using assms(2) by (metis length_0_conv unat_0)
  show ?thesis
    using assms len nz unat_left [of "length xs + length (php_mysqlnd_net_store_length (of_nat (length msg)))"
        "length (xs @ php_mysqlnd_net_store_length (of_nat (length msg)) @ msg @ r)"]
    by (simp add: ok_read_message_def net_field_length_store(2) length_store_length Let_def)
qed

lemma ok_read_message_none: "sz \<le> p \<Longrightarrow> ok_read_message mem sz p = Some (None, p)"
  by (simp add: ok_read_message_def)

lemma ok_parseI:
  assumes "mem \<noteq> []" "uint1korr mem \<noteq> ERROR_MARKER" "p1 \<le> sz" "p2 + 4 \<le> sz" "p3 \<le> sz" "sz \<le> length mem" "p1 \<le> p2"
    "php_mysqlnd_net_field_length_ll mem 1 = Some (rows, p1)" "php_mysqlnd_net_field_length_ll mem p1 = Some (last_id, p2)"
    "ok_read_message mem sz (p2 + 4) = Some (m, p3)"
  shows "ok_parse mem sz = Parsed \<lparr>ok_field_count = uint1korr mem, ok_affected_rows = rows, ok_last_insert_id = last_id,
    ok_server_status = uint2korr (drop p2 mem), ok_warning_count = uint2korr (drop (p2 + 2) mem), ok_message = m, ok_error = None\<rparr>"
  using assms by (simp add: ok_parse_def)

lemma ok_parse_payload:
  assumes "length (ok_payload rows last_id status wcount msg @ r) < 4294967296"
  shows "ok_parse (ok_payload rows last_id status wcount msg @ r) (length (ok_payload rows last_id status wcount msg)) =
    Parsed \<lparr>ok_field_count = 0, ok_affected_rows = rows, ok_last_insert_id = last_id, ok_server_status = status,
      ok_warning_count = wcount, ok_message = (if msg = [] then None else Some msg), ok_error = None\<rparr>"
proof -
  let ?L = php_mysqlnd_net_store_length
  let ?m = "if msg = [] then [] else ?L (of_nat (length msg)) @ msg"
  let ?a = "int1store 0" and ?s = "int2store (ucast status)" and ?w = "int2store (ucast wcount)"
  define mem where "mem = ok_payload rows last_id status wcount msg @ r"
  define p1 p2 where "p1 = 1 + length (?L rows)" and "p2 = p1 + length (?L last_id)"
  have mem: "mem = ?a @ ?L rows @ ?L last_id @ ?s @ ?w @ ?m @ r"
    by (simp add: mem_def ok_payload_def)
  have 1: "php_mysqlnd_net_field_length_ll mem 1 = Some (rows, p1)"
    using net_field_length_store(1) [of ?a rows] by (simp add: mem p1_def length_store_length)
  have 2: "php_mysqlnd_net_field_length_ll mem p1 = Some (last_id, p2)"
    using net_field_length_store(1) [of "?a @ ?L rows" last_id] by (simp add: mem p1_def p2_def length_store_length)
  have d: "drop p2 mem = ?s @ ?w @ ?m @ r" "drop (p2 + 2) mem = ?w @ ?m @ r"
    by (simp_all add: mem p1_def p2_def)
  have len: "length (ok_payload rows last_id status wcount msg) = p2 + 4 + length ?m" "length mem = p2 + 4 + length ?m + length r"
    by (simp_all add: mem ok_payload_def p1_def p2_def)
  have 3: "ok_read_message mem (p2 + 4 + length ?m) (p2 + 4) =
      Some (if msg = [] then None else Some msg, p2 + 4 + (if msg = [] then 0 else length (?L (of_nat (length msg)))))"
  proof (cases "msg = []")
    case True
    then show ?thesis by (simp add: ok_read_message_none)
  next
    case False
    obtain xs where xs: "length xs = p2 + 4" "mem = xs @ ?L (of_nat (length msg)) @ msg @ r"
      using that [of "?a @ ?L rows @ ?L last_id @ ?s @ ?w"] False by (simp add: mem p1_def p2_def)
    have "ok_read_message mem (p2 + 4 + length ?m) (length xs) =
        Some (Some msg, length xs + length (?L (of_nat (length msg))))"
      using assms False xs(1) unfolding mem_def [symmetric] xs(2)
      by (intro ok_read_message_payload) (simp_all add: length_store_length php_mysqlnd_net_store_length_size_def)
    with False show ?thesis
      by (simp add: xs(1))
  qed
  have "ok_parse mem (p2 + 4 + length ?m) = Parsed \<lparr>ok_field_count = 0, ok_affected_rows = rows, ok_last_insert_id = last_id,
      ok_server_status = status, ok_warning_count = wcount, ok_message = (if msg = [] then None else Some msg), ok_error = None\<rparr>"
  proof -
    have "mem \<noteq> []" "uint1korr mem = 0" "(0 :: 8 word) \<noteq> ERROR_MARKER" "p1 \<le> p2"
      using uint1korr_store [of 0 "?L rows @ ?L last_id @ ?s @ ?w @ ?m @ r"]
      by (auto simp: mem int1store_def ERROR_MARKER_def p2_def)
    then show ?thesis
      using len(2) by (subst ok_parseI [OF _ _ _ _ _ _ _ 1 2 3]) (simp_all add: d d(2) [simplified] uint2korr_store16)
  qed
  then show ?thesis
    unfolding len(1) mem_def .
qed

section \<open>Reading ends\<close>

text \<open>The bytes of the stream and those of the read buffer, in this order.\<close>

definition unread :: "('s \<Rightarrow> bytes) \<Rightarrow> 's wire \<Rightarrow> nat \<times> nat" where
  "unread incoming w = (length (incoming (net_stream w)), bytes_left w)"

abbreviation fewer :: "((nat \<times> nat) \<times> (nat \<times> nat)) set" where "fewer \<equiv> less_than <*lex*> less_than"

context wire_link
begin

lemma receive_uses:
  "pfc_receive env n w = Some ((True, bs), w') \<Longrightarrow> 0 < n \<Longrightarrow> (unread incoming w', unread incoming w) \<in> fewer"
  using receive_progress [of n w bs w'] by (auto simp: unread_def)

lemma read_header_total:
  obtains h w' where "mysqlnd_read_header env w = Some (h, w')"
    "h \<noteq> None \<longrightarrow> (unread incoming w', unread incoming w) \<in> fewer"
proof -
  obtain ok bs w1 where r: "pfc_receive env 4 w = Some ((ok, bs), w1)"
    using receive_total [of 4 w] by fast
  have 1: "ok \<longrightarrow> (unread incoming w1, unread incoming w) \<in> fewer"
    using receive_uses [of 4 w bs w1] r by auto
  let ?w2 = "w1\<lparr>stat_overhead_in := stat_overhead_in w1 + 4, stat_packets_received := stat_packets_received w1 + 1\<rparr>"
  obtain ok2 bs2 w3 where r2: "pfc_receive env (unat (uint3korr bs)) ?w2 = Some ((ok2, bs2), w3)"
    using receive_total [of "unat (uint3korr bs)" ?w2] by fast
  have "\<exists>x. mysqlnd_read_header env w = Some x"
    using r r2 by (auto simp: mysqlnd_read_header_def Let_def split: prod.splits)
  then obtain h w' where res: "mysqlnd_read_header env w = Some (h, w')"
    by fast
  moreover have "h \<noteq> None \<longrightarrow> (unread incoming w', unread incoming w) \<in> fewer"
    using res r r2 1 by (auto simp: mysqlnd_read_header_def Let_def unread_def split: if_splits prod.splits)
  ultimately show thesis by (rule that)
qed

lemma read_row_loop_total: "\<exists>r. read_row_loop env n acc w = Some r"
proof (induction "unread incoming w" arbitrary: n acc w rule: wf_induct_rule [OF wf_lex_prod [OF wf_less_than wf_less_than]])
  case (1 w)
  obtain ok bs w1 where r: "pfc_receive env n w = Some ((ok, bs), w1)"
    using receive_total [of n w] by fast
  show ?case
  proof (cases "MYSQLND_MAX_PACKET_SIZE \<le> n \<and> ok")
    case True
    then have 2: "(unread incoming w1, unread incoming w) \<in> fewer"
      using receive_uses [of n w bs w1] r by (auto simp: MYSQLND_MAX_PACKET_SIZE_def)
    obtain h w2 where h: "mysqlnd_read_header env w1 = Some (h, w2)"
      "h \<noteq> None \<longrightarrow> (unread incoming w2, unread incoming w1) \<in> fewer"
      by (rule read_header_total [of w1])
    show ?thesis
    proof (cases h)
      case None
      with True r h(1) show ?thesis by (simp add: read_row_loop.simps [of env n])
    next
      case (Some hdr)
      with h(2) 2 have "(unread incoming w2, unread incoming w) \<in> fewer"
        by (auto simp: unread_def)
      from "1.hyps" [OF this, of "fst hdr" "acc @ bs"] True r h(1) Some show ?thesis
        by (subst read_row_loop.simps) simp
    qed
  next
    case False
    with r show ?thesis by (auto simp: read_row_loop.simps [of env n])
  qed
qed

lemma read_row_total: "\<exists>r. php_mysqlnd_read_row_ex env w = Some r"
proof -
  obtain h w' where "mysqlnd_read_header env w = Some (h, w')"
    by (rule read_header_total [of w])
  then show ?thesis
    using read_row_loop_total by (cases h) (auto simp: php_mysqlnd_read_row_ex_def)
qed

lemma read_body_total: "\<exists>r. mysqlnd_read_packet_header_and_body env w = Some r"
proof -
  obtain h w' where h: "mysqlnd_read_header env w = Some (h, w')"
    by (rule read_header_total [of w])
  obtain ok bs w2 where "pfc_receive env (fst (the h)) w' = Some ((ok, bs), w2)"
    using receive_total [of "fst (the h)" w'] by fast
  with h show ?thesis
    by (cases h) (auto simp: mysqlnd_read_packet_header_and_body_def Let_def)
qed

lemma ok_read_carries:
  assumes "carries env incoming w (frame_header (length (ok_payload rows last_id status wcount msg)) no @
      ok_payload rows last_id status wcount msg @ ys)"
    "length (ok_payload rows last_id status wcount msg) \<le> MYSQLND_MAX_PACKET_SIZE"
    "length (ok_payload rows last_id status wcount msg) \<le> length (cmd_buffer w)" "length (cmd_buffer w) < 4294967296"
    "compressed w \<or> packet_no w = no"
  shows "\<exists>w'. php_mysqlnd_ok_read env w = Some (Some (Parsed \<lparr>ok_field_count = 0, ok_affected_rows = rows,
      ok_last_insert_id = last_id, ok_server_status = status, ok_warning_count = wcount,
      ok_message = (if msg = [] then None else Some msg), ok_error = None\<rparr>), w') \<and> carries env incoming w' ys"
proof -
  let ?p = "ok_payload rows last_id status wcount msg"
  obtain w' where w': "mysqlnd_read_packet_header_and_body env w = Some (Some (length ?p, no), w')" "carries env incoming w' ys"
    "cmd_buffer w' = ?p @ drop (length ?p) (cmd_buffer w)"
    using read_body_carries [OF assms(1,2,3,5)] by blast
  have "length (?p @ drop (length ?p) (cmd_buffer w)) < 4294967296"
    using assms(3,4) by simp
  from ok_parse_payload [OF this] w' show ?thesis
    by (simp add: php_mysqlnd_ok_read_def note_premature_def)
qed

end

end
