(* ===== verification/MysqlndSession.thy ===== *)
theory MysqlndSession
  imports MysqlndDelivery
begin

text \<open>
  What the wire protocol of the MySQL client promises, over any connection that meets the contract of
  \<^theory_text>\<open>wire_link\<close>; the witnesses run on the socket.
\<close>

definition socket_wire :: "bytes list \<Rightarrow> bool \<Rightarrow> bytes \<Rightarrow> link_socket wire" where
  "socket_wire segs c buf = \<lparr>net_stream = \<lparr>inbox = segs, outbox = []\<rparr>, compressed = c, uncompressed_data = None,
     packet_no = 0, envelope_no = 0, cmd_buffer = buf, pfc_flags = 0, server_public_key = None, error_no = 0, error_state = [], error_text = [],
     connection = CONN_READY, warnings = [], stat_received = 0, stat_bytes_sent = 0, stat_overhead_out = 0,
     stat_packets_sent = 0, stat_overhead_in = 0, stat_packets_received = 0\<rparr>"

lemma socket_wire_fields:
  "compressed (socket_wire segs c buf) = c" "packet_no (socket_wire segs c buf) = 0"
  "envelope_no (socket_wire segs c buf) = 0" "uncompressed_data (socket_wire segs c buf) = None"
  by (simp_all add: socket_wire_def)

text \<open>
  C8: what one end sends, the other end reads. For a payload of any length, \<^const>\<open>pfc_send\<close> succeeds and gives
  the caller's buffer back unchanged, and a peer whose incoming bytes are the ones written, with the same numbers and the same
  compression setting, reads with \<^const>\<open>php_mysqlnd_read_row_ex\<close> exactly the payload, after which both ends agree on the
  next packet number. This covers payloads split into several packets, the empty last packet behind a
  payload that is a multiple of the largest packet, packet numbers that wrap at 256, and, with compression,
  envelopes that hold compressed or plain data, frames cut into two envelopes, and streams that deliver the bytes in
  pieces of any size.
\<close>

theorem send_row_roundtrip:
  assumes "wire_link env incoming sent" and "length header = 4"
    and "pfc_send env (header @ payload) (length payload) w = (n, buf, w')"
    and "sent (net_stream w') = sent (net_stream w) @ incoming (net_stream v)"
    and "compressed v = compressed w" "packet_no v = packet_no w" "envelope_no v = envelope_no w" "uncompressed_data v = None"
  shows "0 < n \<and> buf = header @ payload \<and>
    (\<exists>v'. php_mysqlnd_read_row_ex env v = Some (Some payload, v') \<and> packet_no v' = packet_no w')"
proof -
  have buf: "length (header @ payload) = 4 + length payload" and pay: "drop 4 (header @ payload) = payload"
    using assms(2) by simp_all
  let ?fs = "frames (packet_no w) payload"
  have s: "0 < n" "buf = header @ payload" "sent (net_stream w') = sent (net_stream w) @ on_wire env w ?fs"
    "packet_no w' = packet_no w + of_nat (length ?fs)"
    using wire_link.send_writes [OF assms(1) buf, of w] assms(3) unfolding pay by auto
  have "incoming (net_stream v) = on_wire env w ?fs"
    using s(3) assms(4) by simp
  from carries_on_wire [where incoming = incoming, OF this length_frame_le assms(5,7,8)]
  have "carries env incoming v (concat ?fs @ [])"
    by simp
  from wire_link.read_row_carries [OF assms(1) this] assms(6) s show ?thesis
    by auto
qed

text \<open>A payload of one repeated byte, sent compressed, arrives in segments of one byte.\<close>

lemma send_row_roundtrip_witness:
  "\<exists>v'. php_mysqlnd_read_row_ex socket_env
      (socket_wire (map (\<lambda>c. [c]) (outbox (net_stream (snd (snd (pfc_send socket_env (replicate 4 nul @ ''aaaa'') 4
         (socket_wire [] True []))))))) True []) = Some (Some ''aaaa'', v')"
proof -
  let ?w = "socket_wire [] True []" and ?h = "replicate 4 nul"
  let ?w' = "snd (snd (pfc_send socket_env (?h @ ''aaaa'') 4 ?w))"
  have l: "length ''aaaa'' = 4" by simp
  obtain n buf where s: "pfc_send socket_env (?h @ ''aaaa'') (length ''aaaa'') ?w = (n, buf, ?w')"
    unfolding l by (metis prod.collapse)
  have "concat (map (\<lambda>c. [c]) xs) = xs" for xs :: bytes
    by (induction xs) simp_all
  then have "outbox (net_stream ?w') = outbox (net_stream ?w) @
      concat (inbox (net_stream (socket_wire (map (\<lambda>c. [c]) (outbox (net_stream ?w'))) True [])))"
    unfolding socket_wire_def by simp
  from send_row_roundtrip [OF sock.wire_link_axioms _ s this] show ?thesis
    by (auto simp: socket_wire_fields simp del: replicate.simps)
qed

text \<open>
  C37: reading comes to an end. Over any connection whose peer sends finitely many bytes, receiving, reading a row of any
  number of packets, and reading an OK or EOF packet return, compressed or not, whatever the read buffer holds and
  whatever arrives, envelopes without content and envelopes that do not decompress included: every activation of the
  recursion of \<^const>\<open>pfc_receive\<close> and every packet of a row uses up bytes of the stream or of the read buffer.
\<close>

theorem reading_returns:
  assumes "wire_link env incoming sent"
  shows "(\<exists>ok bs w'. pfc_receive env n w = Some ((ok, bs), w')) \<and>
    (\<exists>row w'. php_mysqlnd_read_row_ex env w = Some (row, w')) \<and>
    (\<exists>pk w'. php_mysqlnd_ok_read env w = Some (pk, w')) \<and>
    (\<exists>pk w'. php_mysqlnd_eof_read env w = Some (pk, w'))"
proof -
  obtain h w1 where "mysqlnd_read_packet_header_and_body env w = Some (h, w1)"
    using wire_link.read_body_total [OF assms, of w] by fast
  then have "\<exists>r. php_mysqlnd_ok_read env w = Some r" "\<exists>r. php_mysqlnd_eof_read env w = Some r"
    by (auto simp: php_mysqlnd_ok_read_def php_mysqlnd_eof_read_def Let_def split: option.splits)
  with wire_link.read_row_total [OF assms, of w] wire_link.receive_total [OF assms, of n w] show ?thesis
    by fast
qed

lemma reading_returns_witness:
  "\<exists>row w'. php_mysqlnd_read_row_ex socket_env (socket_wire [[CHR ''x'']] True []) = Some (row, w')"
  using reading_returns [OF sock.wire_link_axioms, of 0 "socket_wire [[CHR ''x'']] True []"] by blast

text \<open>
  C38: OK packets arrive. When the connection delivers the frame of an OK packet with the expected number, the number of
  affected rows, the last insert id, the server status, the warning count and the message that
  \<^const>\<open>php_mysqlnd_ok_read\<close> returns are those that the server encoded, whatever the command buffer held before, and the
  connection goes on with the bytes behind the packet.
\<close>

theorem ok_packet_arrives:
  assumes "wire_link env incoming sent"
    and "carries env incoming w (frame_header (length (ok_payload rows last_id status wcount msg)) no @
      ok_payload rows last_id status wcount msg @ rest)"
    and "length (ok_payload rows last_id status wcount msg) \<le> MYSQLND_MAX_PACKET_SIZE"
    and "length (ok_payload rows last_id status wcount msg) \<le> length (cmd_buffer w)" "length (cmd_buffer w) < 2 ^ 32"
    and "compressed w \<or> packet_no w = no"
  shows "\<exists>w'. php_mysqlnd_ok_read env w = Some (Some (Parsed \<lparr>ok_field_count = 0, ok_affected_rows = rows,
      ok_last_insert_id = last_id, ok_server_status = status, ok_warning_count = wcount,
      ok_message = (if msg = [] then None else Some msg), ok_error = None\<rparr>), w') \<and> carries env incoming w' rest"
  using wire_link.ok_read_carries [OF assms(1-4) _ assms(6)] assms(5) by simp

lemma ok_packet_arrives_witness:
  "\<exists>w'. php_mysqlnd_ok_read socket_env (socket_wire [frame_header 9 0, ok_payload 300 7 2 0 []] False (replicate 64 nul)) =
     Some (Some (Parsed \<lparr>ok_field_count = 0, ok_affected_rows = 300, ok_last_insert_id = 7, ok_server_status = 2,
       ok_warning_count = 0, ok_message = None, ok_error = None\<rparr>), w')"
proof -
  have len: "length (ok_payload 300 7 2 0 []) = 9"
    by (simp add: ok_payload_def length_store_length php_mysqlnd_net_store_length_size_def)
  show ?thesis
    using ok_packet_arrives [OF sock.wire_link_axioms, of "socket_wire [frame_header 9 0, ok_payload 300 7 2 0 []] False (replicate 64 nul)"
        300 7 2 0 "[]" 0 "[]"] len
    by (auto simp: socket_wire_def carries_def MYSQLND_MAX_PACKET_SIZE_def)
qed

section \<open>Commands\<close>

text \<open>A command is written as the frames of the command byte and the argument, numbered from 0.\<close>

lemma cmd_write_frames:
  assumes "wire_link env incoming sent" "\<And>k. length (fresh_block env k) = k"
    and "php_mysqlnd_cmd_write env command argument w = (n, w')"
  shows "0 < n \<and> sent (net_stream w') = sent (net_stream w) @ on_wire env (pfc_reset w)
      (frames 0 (int1store command @ (case argument of None \<Rightarrow> [] | Some arg \<Rightarrow> arg))) \<and>
    connection w' = connection w"
proof -
  let ?w = "pfc_reset w"
  have fin: ?thesis
    if b: "length buf = 4 + count" "0 < count" "drop 4 buf = int1store command @ (case argument of None \<Rightarrow> [] | Some arg \<Rightarrow> arg)"
      and c: "\<And>m b v. pfc_send env buf count ?w = (m, b, v) \<Longrightarrow> 0 < m \<Longrightarrow> n = m \<and> net_stream w' = net_stream v \<and> connection w' = connection v"
    for buf count
  proof -
    obtain m v where v: "pfc_send env buf count ?w = (m, buf, v)" "0 < m"
      "sent (net_stream v) = sent (net_stream ?w) @ on_wire env ?w (frames (packet_no ?w) (drop 4 buf))" "connection v = connection ?w"
      using wire_link.send_writes [OF assms(1) b(1), of ?w] by blast
    from c [OF v(1,2)] v b(3) show ?thesis
      by (simp add: pfc_reset_def)
  qed
  show ?thesis
  proof (cases "case argument of None \<Rightarrow> True | Some arg \<Rightarrow> arg = []")
    case True
    show ?thesis
      by (rule fin [of "replicate 4 nul @ int1store command" 1])
        (use assms(3) True in \<open>auto simp: php_mysqlnd_cmd_write_def Let_def split: option.splits\<close>)
  next
    case False
    then obtain arg where arg: "argument = Some arg" "arg \<noteq> []"
      by (auto split: option.splits)
    define blk where "blk = (if length (cmd_buffer ?w) < length arg + 1 + 4 then fresh_block env (length arg + 1 + 4) else cmd_buffer ?w)"
    have "length arg + 5 \<le> length blk"
      by (simp add: blk_def assms(2))
    then show ?thesis
      by (intro fin [of "take (length arg + 1 + 4) (store_at 4 (int1store command @ arg) blk)" "length arg + 1"])
        (use assms(3) arg in \<open>auto simp: store_at_def php_mysqlnd_cmd_write_def Let_def blk_def split: if_splits\<close>)
  qed
qed

section \<open>What the code does beside this\<close>

text \<open>The counters of a sent payload count one packet more than was written.\<close>

lemma send_counts_one_more:
  assumes "wire_link env incoming sent" "length header = 4"
    and "pfc_send env (header @ payload) (length payload) w = (n, buf, w')"
  shows "stat_packets_sent w' = stat_packets_sent w + length (frames (packet_no w) payload) + 1"
  using wire_link.send_writes [OF assms(1), of "header @ payload" "length payload" w] assms(2,3) by auto

text \<open>An envelope that does not decompress is served: the bytes come from a block that nothing was stored in.\<close>

lemma corrupt_envelope_served:
  "map_option fst (pfc_receive (socket_env\<lparr>fresh_block := \<lambda>n. take n ''stale''\<rparr>) 4
     (socket_wire [int3store 2 @ int1store 0 @ int3store 4 @ ''xy''] True [])) = Some (True, ''stal'')"
  by code_simp

end
