(* ===== verification/Exec.thy ===== *)
theory Exec
  imports PhpStream "HOL-Library.Monad_Syntax"
begin

text \<open>
  The output side of \<^verbatim>\<open>exec\<close>, \<^verbatim>\<open>system\<close>, \<^verbatim>\<open>passthru\<close> and \<^verbatim>\<open>shell_exec\<close>: \<^verbatim>\<open>strip_trailing_whitespace\<close>,
  \<^verbatim>\<open>handle_line\<close> and the loops of \<^verbatim>\<open>wasm_php_exec\<close> in \<^verbatim>\<open>compile/php/php_wasm.c\<close>, over the abstract PHP stream. The line
  buffer is a list of bytes with the size of its allocation; a write beyond the allocation, and a
  read before its start, is a fault. \<^verbatim>\<open>EXEC_INPUT_BUF\<close> is a constant of the PHP core and a parameter here.
\<close>

datatype exec_fault = BufferOverrun | BufferUnderrun

datatype out_event = PHPWRITE bytes | SapiFlush

datatype php_value = RetFalse | RetString bytes | RetUntouched

record exec_state =
  buf :: bytes
  boff :: nat \<comment> \<open>\<^verbatim>\<open>b - buf\<close>\<close>
  buflen :: nat
  bufl :: nat
  out :: "out_event list"
  arr :: "bytes list"

text \<open>The loop leaves \<^verbatim>\<open>l\<close> one below the last character that stays, wrapped around when none does.\<close>

fun strip_loop :: "bytes \<Rightarrow> nat \<Rightarrow> u32" where
  "strip_loop b 0 = -1"
| "strip_loop b (Suc l) = (if isspace (b ! l) then strip_loop b l else word_of_nat l)"

definition strip_trailing_whitespace :: "bytes \<Rightarrow> nat \<Rightarrow> bytes \<times> nat" where
  "strip_trailing_whitespace b n =
     (let l = strip_loop b n
      in if l \<noteq> word_of_nat n - 1 then (write_at b (unat (l + 1)) [nul], unat (l + 1)) else (b, n))"

definition handle_line :: "nat \<Rightarrow> nat \<Rightarrow> exec_state \<Rightarrow> exec_state" where
  "handle_line type level st =
     (if type = 1
      then st\<lparr>out := out st @ PHPWRITE (take (bufl st) (buf st)) # (if level < 1 then [SapiFlush] else [])\<rparr>
      else if type = 2
      then (let (b, n) = strip_trailing_whitespace (buf st) (bufl st)
            in st\<lparr>buf := b, bufl := n, arr := arr st @ [take n b]\<rparr>)
      else st)"

text \<open>The body of the loop after \<^verbatim>\<open>php_stream_get_line\<close> delivered the bytes \<open>l\<close>.\<close>

definition get_line_step :: "nat \<Rightarrow> nat \<Rightarrow> nat \<Rightarrow> bool \<Rightarrow> bytes \<Rightarrow> exec_state \<Rightarrow> exec_fault + exec_state" where
  "get_line_step EXEC_INPUT_BUF type level eof l st =
     (if buflen st < boff st + length l + 1 then Inl BufferOverrun
      else if l = [] then Inl BufferUnderrun
      else let st1 = st\<lparr>buf := write_at (buf st) (boff st) (l @ [nul]), bufl := length l\<rparr>
           in if last l \<noteq> newline \<and> \<not> eof
              then Inr (if buflen st1 < bufl st1 + boff st1 + EXEC_INPUT_BUF
                        then let n = bufl st1 + boff st1 in st1\<lparr>bufl := n, buflen := n + EXEC_INPUT_BUF, boff := n\<rparr>
                        else st1\<lparr>boff := boff st1 + bufl st1\<rparr>)
              else Inr ((handle_line type level (st1\<lparr>bufl := bufl st1 + boff st1\<rparr>))\<lparr>boff := 0\<rparr>))"

partial_function (option) get_line_loop ::
    "'s php_stream_ops \<Rightarrow> nat \<Rightarrow> nat \<Rightarrow> nat \<Rightarrow> exec_state \<Rightarrow> 's \<Rightarrow> (exec_fault + exec_state \<times> 's) option" where
  "get_line_loop ops EXEC_INPUT_BUF type level st s =
     (case stream_gets ops (Some EXEC_INPUT_BUF) s of (l, s1) \<Rightarrow>
       (case l of
          None \<Rightarrow> Some (Inr (st, s1))
        | Some l \<Rightarrow>
            (case get_line_step EXEC_INPUT_BUF type level (stream_eof ops s1) l st of
               Inl f \<Rightarrow> Some (Inl f)
             | Inr st1 \<Rightarrow> get_line_loop ops EXEC_INPUT_BUF type level st1 s1)))"

definition last_line :: "nat \<Rightarrow> nat \<Rightarrow> exec_state \<Rightarrow> php_value \<times> exec_state" where
  "last_line type level st =
     (if bufl st \<noteq> 0
      then let st1 = (if boff st \<noteq> 0 then handle_line type level st else st);
               (b, n) = strip_trailing_whitespace (buf st1) (bufl st1)
           in (RetString (take n b), st1\<lparr>buf := b, bufl := n\<rparr>)
      else (RetString [], st))"

partial_function (option) passthru_loop :: "'s php_stream_ops \<Rightarrow> nat \<Rightarrow> exec_state \<Rightarrow> 's \<Rightarrow> (exec_state \<times> 's) option" where
  "passthru_loop ops EXEC_INPUT_BUF st s =
     (case stream_read ops EXEC_INPUT_BUF s of (r, s1) \<Rightarrow>
       (case r of
          ReadError _ \<Rightarrow> Some (st, s1)
        | Data bs \<Rightarrow> if bs = [] then Some (st, s1)
                     else passthru_loop ops EXEC_INPUT_BUF (st\<lparr>buf := write_at (buf st) 0 bs, out := out st @ [PHPWRITE bs]\<rparr>) s1))"

text \<open>The part of \<^verbatim>\<open>wasm_php_exec\<close> between opening and closing the stream.\<close>

definition exec_output ::
    "'s php_stream_ops \<Rightarrow> nat \<Rightarrow> nat \<Rightarrow> nat \<Rightarrow> bytes list \<Rightarrow> 's \<Rightarrow> (exec_fault + php_value \<times> exec_state \<times> 's) option" where
  "exec_output ops EXEC_INPUT_BUF type level array s =
     (let st = \<lparr>buf = [], boff = 0, buflen = EXEC_INPUT_BUF, bufl = 0, out = [], arr = array\<rparr>
      in if type \<noteq> 3
         then map_option (\<lambda>r. rbind r (\<lambda>(st1, s1). let (v, st2) = last_line type level st1 in Inr (v, st2, s1)))
                (get_line_loop ops EXEC_INPUT_BUF type level st s)
         else map_option (\<lambda>(st1, s1). Inr (RetUntouched, st1, s1)) (passthru_loop ops EXEC_INPUT_BUF st s))"

section \<open>Stripping\<close>

definition rstrip :: "bytes \<Rightarrow> bytes" where
  "rstrip l = rev (dropWhile isspace (rev l))"

lemma rstrip_snoc: "rstrip (l @ [c]) = (if isspace c then rstrip l else l @ [c])"
  by (simp add: rstrip_def)

lemma rstrip_idem [simp]: "rstrip (rstrip l) = rstrip l"
  by (induction l rule: rev_induct) (simp_all add: rstrip_def)

lemma strip_loop_rstrip:
  assumes "n \<le> length b"
  shows "strip_loop b n = word_of_nat (length (rstrip (take n b))) - 1"
  using assms
proof (induction n)
  case (Suc n)
  then have "take (Suc n) b = take n b @ [b ! n]" by (simp add: take_Suc_conv_app_nth)
  with Suc show ?case by (simp add: rstrip_snoc)
qed (simp add: rstrip_def)

lemma rstrip_prefix: "\<exists>w. l = rstrip l @ w"
  by (rule exI [of _ "rev (takeWhile isspace (rev l))"])
    (metis rev_append rev_rev_ident rstrip_def takeWhile_dropWhile_id)

lemma length_rstrip: "length (rstrip l) \<le> length l"
  by (metis le_add1 length_append rstrip_prefix)

lemma strip_ok:
  assumes "n \<le> length b" "n < 2 ^ 32"
  shows "\<exists>b'. strip_trailing_whitespace b n = (b', length (rstrip (take n b))) \<and>
    take (length (rstrip (take n b))) b' = rstrip (take n b) \<and> length b \<le> length b'"
proof -
  let ?r = "rstrip (take n b)"
  have len: "length ?r \<le> n" using length_rstrip [of "take n b"] assms(1) by simp
  have pre: "take (length ?r) b = ?r"
  proof -
    obtain w where "take n b = ?r @ w" using rstrip_prefix by blast
    then have "take (length ?r) (take n b) = ?r" by (metis append_eq_conv_conj)
    then show ?thesis using len by (simp add: min_def)
  qed
  have u: "unat (strip_loop b n + 1) = length ?r"
    using strip_loop_rstrip [OF assms(1)] len assms(2) by (simp add: unat_of_nat)
  show ?thesis
  proof (cases "strip_loop b n = word_of_nat n - 1")
    case True
    then have "length ?r = n" using u assms(2) by (simp add: unat_of_nat)
    then show ?thesis using True pre by (simp add: strip_trailing_whitespace_def)
  next
    case False
    then show ?thesis using u pre len assms(1)
      by (simp add: strip_trailing_whitespace_def write_at_def)
  qed
qed

section \<open>The line loop\<close>

text \<open>What the buffer holds at the head of the loop: the part of a line read so far, with room for a full read behind it.\<close>

definition exec_inv :: "nat \<Rightarrow> bytes \<Rightarrow> exec_state \<Rightarrow> bool" where
  "exec_inv N acc st \<longleftrightarrow> boff st = length acc \<and> length acc \<le> length (buf st) \<and>
     take (length acc) (buf st) = acc \<and> length acc + N \<le> buflen st"

text \<open>What a processed line leaves behind: the output, the array and the line itself in the buffer.\<close>

definition line_out :: "nat \<Rightarrow> nat \<Rightarrow> bytes list \<Rightarrow> out_event list" where
  "line_out type level ls =
     (if type = 1 then concat (map (\<lambda>l. PHPWRITE l # (if level < 1 then [SapiFlush] else [])) ls) else [])"

definition line_arr :: "nat \<Rightarrow> bytes list \<Rightarrow> bytes list" where
  "line_arr type ls = (if type = 2 then map rstrip ls else [])"

definition holds_line :: "nat \<Rightarrow> bytes \<Rightarrow> exec_state \<Rightarrow> bool" where
  "holds_line type l st \<longleftrightarrow>
     (let f = (if type = 2 then rstrip l else l)
      in bufl st = length f \<and> length f \<le> length (buf st) \<and> take (length f) (buf st) = f)"

lemma line_out_append: "line_out type level (xs @ ys) = line_out type level xs @ line_out type level ys"
  by (simp add: line_out_def)

lemma line_arr_append: "line_arr type (xs @ ys) = line_arr type xs @ line_arr type ys"
  by (simp add: line_arr_def)

lemma handle_line_ok:
  assumes "bufl st = length l" "length l \<le> length (buf st)" "take (length l) (buf st) = l" "length l < 2 ^ 32"
  shows "\<exists>b. handle_line type level st = st\<lparr>buf := b, bufl := bufl (handle_line type level st),
      out := out st @ line_out type level [l], arr := arr st @ line_arr type [l]\<rparr> \<and>
    holds_line type l (handle_line type level st)"
proof -
  consider "type = 1" | "type = 2" | "type \<noteq> 1" "type \<noteq> 2" by blast
  then show ?thesis
  proof cases
    case 1
    then show ?thesis using assms(1-3)
      by (intro exI [of _ "buf st"]) (simp add: handle_line_def line_out_def line_arr_def holds_line_def)
  next
    case 2
    obtain b where b: "strip_trailing_whitespace (buf st) (bufl st) = (b, length (rstrip l))"
        "take (length (rstrip l)) b = rstrip l" "length (buf st) \<le> length b"
      using strip_ok [of "bufl st" "buf st"] assms by auto
    then show ?thesis using 2 assms(2) length_rstrip [of l]
      by (intro exI [of _ b]) (simp add: handle_line_def line_out_def line_arr_def holds_line_def)
  next
    case 3
    then show ?thesis using assms(1-3)
      by (intro exI [of _ "buf st"]) (simp add: handle_line_def line_out_def line_arr_def holds_line_def)
  qed
qed

lemma write_chunk:
  assumes "exec_inv N acc st"
  shows "length (acc @ l) \<le> length (write_at (buf st) (boff st) (l @ [nul]))"
    "take (length (acc @ l)) (write_at (buf st) (boff st) (l @ [nul])) = acc @ l"
  using assms by (auto simp: exec_inv_def write_at_def)

lemma step_more:
  assumes "exec_inv N acc st" "l \<noteq> []" "length l < N" "last l \<noteq> newline"
  shows "\<exists>st'. get_line_step N type level False l st = Inr st' \<and> exec_inv N (acc @ l) st' \<and> out st' = out st \<and> arr st' = arr st \<and>
    (if buflen st < length l + length acc + N then bufl st' = length (acc @ l) \<and> buflen st' = length (acc @ l) + N
     else bufl st' = length l \<and> buflen st' = buflen st)"
  using assms write_chunk [OF assms(1), of l]
  by (auto simp: get_line_step_def Let_def exec_inv_def)

lemma step_line:
  assumes "exec_inv N acc st" "l \<noteq> []" "length l < N" "last l = newline \<or> eof" "length (acc @ l) < 2 ^ 32"
  shows "\<exists>st'. get_line_step N type level eof l st = Inr st' \<and> exec_inv N [] st' \<and>
    out st' = out st @ line_out type level [acc @ l] \<and> arr st' = arr st @ line_arr type [acc @ l] \<and>
    holds_line type (acc @ l) st' \<and> buflen st' = buflen st"
proof -
  define st1 where "st1 = st\<lparr>buf := write_at (buf st) (boff st) (l @ [nul]), bufl := length l + boff st\<rparr>"
  have inv: "boff st = length acc" "length acc + N \<le> buflen st" using assms(1) by (auto simp: exec_inv_def)
  have "\<exists>b. handle_line type level st1 = st1\<lparr>buf := b, bufl := bufl (handle_line type level st1),
      out := out st1 @ line_out type level [acc @ l], arr := arr st1 @ line_arr type [acc @ l]\<rparr> \<and>
    holds_line type (acc @ l) (handle_line type level st1)"
    by (rule handle_line_ok) (use write_chunk [OF assms(1), of l] inv assms(5) in \<open>simp_all add: st1_def\<close>)
  then obtain b where b: "handle_line type level st1 = st1\<lparr>buf := b, bufl := bufl (handle_line type level st1),
      out := out st1 @ line_out type level [acc @ l], arr := arr st1 @ line_arr type [acc @ l]\<rparr>"
    "holds_line type (acc @ l) (handle_line type level st1)" by blast
  have step: "get_line_step N type level eof l st = Inr ((handle_line type level st1)\<lparr>boff := 0\<rparr>)"
    using assms(2-4) inv by (auto simp: get_line_step_def Let_def st1_def)
  have "buflen (handle_line type level st1) = buflen st" "out (handle_line type level st1) = out st @ line_out type level [acc @ l]"
    "arr (handle_line type level st1) = arr st @ line_arr type [acc @ l]"
    by (subst b(1), simp add: st1_def)+
  then show ?thesis using step b(2) inv by (simp add: exec_inv_def holds_line_def Let_def)
qed

text \<open>The chunk that the next call delivers from the rest \<open>r\<close>.\<close>

lemma chunk_cases:
  assumes "r \<noteq> []" "2 \<le> N"
  obtains (line) b r' where "line_of (Some N) r = b @ [newline]" "r = b @ newline # r'" "newline \<notin> set b" "length b + 1 < N"
  | (end_of_text) "line_of (Some N) r = r" "newline \<notin> set r" "length r < N"
  | (part) r' where "r = line_of (Some N) r @ r'" "r' \<noteq> []" "newline \<notin> set (line_of (Some N) r)"
      "line_of (Some N) r \<noteq> []" "length (line_of (Some N) r) < N"
proof (cases "newline \<in> set r")
  case True
  then obtain b r' where r: "r = b @ newline # r'" "newline \<notin> set b" by (metis split_list_first)
  then have up: "upto_newline r = b @ [newline]" by (simp add: upto_newline_line)
  show thesis
  proof (cases "length b + 1 < N")
    case True
    then have "line_of (Some N) r = b @ [newline]" using up by (simp add: line_of_def)
    then show ?thesis using line [OF _ r] True by blast
  next
    case False
    then have l: "line_of (Some N) r = take (N - 1) b" using up by (simp add: line_of_def)
    then have "r = line_of (Some N) r @ drop (N - 1) b @ newline # r'" using r(1) by simp
    moreover have "newline \<notin> set (take (N - 1) b)" "take (N - 1) b \<noteq> []" "length (take (N - 1) b) < N"
      using r(2) False assms(2) by (auto dest: in_set_takeD)
    ultimately show ?thesis using part [of "drop (N - 1) b @ newline # r'"] l by simp
  qed
next
  case False
  then have up: "upto_newline r = r" by (rule upto_newline_alone)
  show thesis
  proof (cases "length r < N")
    case True
    then show ?thesis using end_of_text False up by (simp add: line_of_def)
  next
    case long: False
    have l: "line_of (Some N) r = take (N - 1) r" using up by (simp add: line_of_def)
    moreover have "newline \<notin> set (take (N - 1) r)" "take (N - 1) r \<noteq> []" "length (take (N - 1) r) < N" "drop (N - 1) r \<noteq> []"
      using long False assms by (auto dest: in_set_takeD)
    ultimately show ?thesis using part [of "drop (N - 1) r"] by simp
  qed
qed

lemma whole_chunk: "newline \<notin> set l \<Longrightarrow> length l = N - 1 \<Longrightarrow> 2 \<le> N \<Longrightarrow> line_of (Some N) (l @ r) = l"
  by (auto simp: line_of_def upto_newline_def takeWhile_append takeWhile_eq_all_conv dropWhile_append)

lemma last_drop_newline: "drop n c = r \<Longrightarrow> r \<noteq> [] \<Longrightarrow> last c = last r"
  by (metis drop_eq_Nil2 last_drop leI)

context php_file
begin

lemma get_line_loop_ok:
  assumes "contents s = c" "drop (offset s) c = r" "offset s \<le> length c" "exec_inv N acc st" "newline \<notin> set acc"
    and "acc \<noteq> [] \<longrightarrow> r \<noteq> []" "length acc + length r \<le> length c" "length c < 2 ^ 32" "2 \<le> N"
    and "c = [] \<or> last c = newline \<or> (\<forall>s. contents s = c \<longrightarrow> offset s = length c \<longrightarrow> stream_eof ops s)"
  shows "\<exists>st' s'. get_line_loop ops N type level st s = Some (Inr (st', s')) \<and> contents s' = c \<and> boff st' = 0 \<and>
    out st' = out st @ line_out type level (lines (acc @ r)) \<and> arr st' = arr st @ line_arr type (lines (acc @ r)) \<and>
    (acc @ r = [] \<longrightarrow> st' = st) \<and> (acc @ r \<noteq> [] \<longrightarrow> holds_line type (last (lines (acc @ r))) st')"
  using assms(1-7)
proof (induction "length r" arbitrary: r acc st s rule: less_induct)
  case less
  show ?case
  proof (cases "r = []")
    case True
    then have "acc = []" "offset s = length c" using less.prems(2,3,6) by auto
    then show ?thesis using gets_eof [of s "Some N"] less.prems(1,4) True
      by (subst get_line_loop.simps) (auto simp: line_out_def line_arr_def exec_inv_def)
  next
    case False
    let ?l = "line_of (Some N) r"
    have off: "offset s < length c" using False less.prems(2) by (cases "offset s < length c") auto
    then have len: "length c = offset s + length r" using less.prems(2) by auto
    obtain s1 where s1: "stream_gets ops (Some N) s = (Some ?l, s1)" "contents s1 = c" "offset s1 = offset s + length ?l"
      using gets_line [of s "Some N"] off less.prems(1,2) by auto
    have unfold: "get_line_loop ops N type level st s =
        (case get_line_step N type level (stream_eof ops s1) ?l st of
           Inl f \<Rightarrow> Some (Inl f) | Inr st1 \<Rightarrow> get_line_loop ops N type level st1 s1)"
      by (subst get_line_loop.simps) (simp add: s1(1))
    from False assms(9) show ?thesis
    proof (cases rule: chunk_cases)
      case (line b r')
      have small: "length (acc @ ?l) < 2 ^ 32" using less.prems(7) line(1,2) assms(8) by simp
      obtain st1 where st1: "get_line_step N type level (stream_eof ops s1) ?l st = Inr st1" "exec_inv N [] st1"
          "out st1 = out st @ line_out type level [acc @ ?l]" "arr st1 = arr st @ line_arr type [acc @ ?l]"
          "holds_line type (acc @ ?l) st1"
        using step_line [OF less.prems(4) _ _ _ small, of "stream_eof ops s1" type level] line(1,4) by auto
      have ls: "lines (acc @ r) = (acc @ ?l) # lines r'"
        using lines_line [of "acc @ b" r'] line less.prems(5) by simp
      have "drop (length ?l) (drop (offset s) c) = r'" using less.prems(2) line(1,2) by simp
      then have r': "drop (offset s1) c = r'" using s1(3) by (simp add: add.commute)
      have IH: "\<exists>st' s'. get_line_loop ops N type level st1 s1 = Some (Inr (st', s')) \<and> contents s' = c \<and> boff st' = 0 \<and>
        out st' = out st1 @ line_out type level (lines ([] @ r')) \<and> arr st' = arr st1 @ line_arr type (lines ([] @ r')) \<and>
        ([] @ r' = [] \<longrightarrow> st' = st1) \<and> ([] @ r' \<noteq> [] \<longrightarrow> holds_line type (last (lines ([] @ r'))) st')"
        by (rule less.hyps) (use line(1,2) r' s1 st1(2) less.prems(7) len in auto)
      obtain st2 s2 where st2: "get_line_loop ops N type level st1 s1 = Some (Inr (st2, s2))" "contents s2 = c" "boff st2 = 0"
          "out st2 = out st1 @ line_out type level (lines r')" "arr st2 = arr st1 @ line_arr type (lines r')"
          "r' = [] \<longrightarrow> st2 = st1" "r' \<noteq> [] \<longrightarrow> holds_line type (last (lines r')) st2"
        using IH by auto
      have held: "holds_line type (last (lines (acc @ r))) st2" using st2(6,7) st1(5) ls by (cases "r' = []") simp_all
      show ?thesis using unfold st1(1,3,4) st2(1-5) held False
          line_out_append [of type level "[acc @ ?l]" "lines r'"] line_arr_append [of type "[acc @ ?l]" "lines r'"]
        by (simp add: ls)
    next
      case end_of_text
      have "offset s1 = length c" using s1(3) end_of_text(1) len by simp
      moreover have "c \<noteq> []" "last c \<noteq> newline"
        using False end_of_text(2) less.prems(2) last_drop_newline [OF less.prems(2) False] by (force, metis last_in_set)
      ultimately have eof: "stream_eof ops s1" using assms(10) s1(2) by blast
      have small: "length (acc @ ?l) < 2 ^ 32" using less.prems(7) end_of_text(1) assms(8) by simp
      obtain st1 where st1: "get_line_step N type level (stream_eof ops s1) ?l st = Inr st1" "exec_inv N [] st1"
          "out st1 = out st @ line_out type level [acc @ ?l]" "arr st1 = arr st @ line_arr type [acc @ ?l]"
          "holds_line type (acc @ ?l) st1"
        using step_line [OF less.prems(4) _ _ _ small, of "stream_eof ops s1" type level] end_of_text(1,3) False eof by auto
      have ls: "lines (acc @ r) = [acc @ ?l]"
        using lines_alone [of "acc @ r"] end_of_text(1,2) less.prems(5) False by simp
      obtain s2 where s2: "stream_gets ops (Some N) s1 = (None, s2)" "contents s2 = c"
        using gets_eof [of s1 "Some N"] s1(2) \<open>offset s1 = length c\<close> by auto
      then have "get_line_loop ops N type level st1 s1 = Some (Inr (st1, s2))" by (subst get_line_loop.simps) simp
      with s2(2) show ?thesis using unfold st1 ls False by (simp add: exec_inv_def)
    next
      case (part r')
      have "last ?l \<noteq> newline" using part(3,4) last_in_set by fastforce
      have r': "drop (offset s1) c = r'" using less.prems(2) part(1) s1(3) by (metis add.commute append_eq_conv_conj drop_drop)
      then have "\<not> stream_eof ops s1" using part(2) eof_end [of s1] s1(2) by auto
      then obtain st1 where st1: "get_line_step N type level (stream_eof ops s1) ?l st = Inr st1" "exec_inv N (acc @ ?l) st1"
          "out st1 = out st" "arr st1 = arr st"
        using step_more [OF less.prems(4) part(4,5) \<open>last ?l \<noteq> newline\<close>, of type level] by auto
      have ll: "length r = length ?l + length r'" using part(1) by (metis length_append)
      have "\<exists>st' s'. get_line_loop ops N type level st1 s1 = Some (Inr (st', s')) \<and> contents s' = c \<and> boff st' = 0 \<and>
        out st' = out st1 @ line_out type level (lines ((acc @ ?l) @ r')) \<and> arr st' = arr st1 @ line_arr type (lines ((acc @ ?l) @ r')) \<and>
        ((acc @ ?l) @ r' = [] \<longrightarrow> st' = st1) \<and> ((acc @ ?l) @ r' \<noteq> [] \<longrightarrow> holds_line type (last (lines ((acc @ ?l) @ r'))) st')"
        by (rule less.hyps) (use part r' s1 st1(2) less.prems(5,7) len ll in auto)
      moreover have "(acc @ ?l) @ r' = acc @ r" using part(1) by simp
      ultimately show ?thesis using unfold st1(1,3,4) False by (simp only:) simp
    qed
  qed
qed

lemma loop_chunk:
  assumes "\<forall>s. \<not> stream_eof ops s" "contents s = c" "drop (offset s) c = l @ r" "line_of (Some N) (l @ r) = l" "l \<noteq> []"
    and "get_line_step N type level False l st = Inr st1"
  shows "\<exists>s1. get_line_loop ops N type level st s = get_line_loop ops N type level st1 s1 \<and> contents s1 = c \<and> drop (offset s1) c = r"
proof -
  have "offset s < length c" using assms(3,5) by (cases "offset s < length c") auto
  then obtain s1 where s1: "stream_gets ops (Some N) s = (Some l, s1)" "contents s1 = c" "offset s1 = offset s + length l"
    using gets_line [of s "Some N"] assms(2-4) by auto
  moreover have "drop (length l) (drop (offset s) c) = r" using assms(3) by simp
  ultimately show ?thesis using assms(1,6) by (subst get_line_loop.simps) (auto simp: add.commute)
qed

lemma loop_end:
  assumes "length (contents s) \<le> offset s"
  shows "\<exists>s1. get_line_loop ops N type level st s = Some (Inr (st, s1))"
  using gets_eof [OF assms, of "Some N"] by (subst get_line_loop.simps) auto

lemma passthru_ok:
  assumes "contents s = c" "drop (offset s) c = r" "0 < N"
  shows "\<exists>st' s' ws. passthru_loop ops N st s = Some (st', s') \<and> contents s' = c \<and> out st' = out st @ map PHPWRITE ws \<and> arr st' = arr st \<and> concat ws = r"
  using assms(1,2)
proof (induction "length r" arbitrary: r st s rule: less_induct)
  case less
  obtain bs s1 where s1: "stream_read ops N s = (Data bs, s1)" "contents s1 = c" "offset s1 = offset s + length bs"
      "0 < N \<longrightarrow> offset s < length c \<longrightarrow> bs \<noteq> []"
    using read_some [of N s] less.prems(1) by blast
  have bs: "bs = take N r" using read_full [OF s1(1)] less.prems by simp
  show ?case
  proof (cases "bs = []")
    case True
    then have "r = []" using bs assms(3) by simp
    then show ?thesis using True s1 by (subst passthru_loop.simps) (auto intro: exI [of _ "[]"])
  next
    case False
    have "drop (length bs) (drop (offset s) c) = drop (length bs) r" using less.prems(2) by simp
    then have r': "drop (offset s1) c = drop (length bs) r" using s1(3) by (simp add: add.commute)
    have "length (drop (length bs) r) < length r" using False bs by (cases r) auto
    from less.hyps [OF this s1(2) r', of "st\<lparr>buf := write_at (buf st) 0 bs, out := out st @ [PHPWRITE bs]\<rparr>"]
    obtain st' s' ws where "passthru_loop ops N (st\<lparr>buf := write_at (buf st) 0 bs, out := out st @ [PHPWRITE bs]\<rparr>) s1 = Some (st', s')"
      "contents s' = c" "out st' = (out st @ [PHPWRITE bs]) @ map PHPWRITE ws" "arr st' = arr st" "concat ws = drop (length bs) r" by auto
    moreover have "r = bs @ drop (length bs) r" using bs by (metis append_take_drop_id length_take min.absorb_iff2 nle_le take_all_iff)
    ultimately show ?thesis using False s1(1) by (subst passthru_loop.simps) (auto intro!: exI [of _ "bs # ws"])
  qed
qed

end

lemma strip_held:
  assumes "holds_line type l st" "length l < 2 ^ 32"
  shows "\<exists>b. strip_trailing_whitespace (buf st) (bufl st) = (b, length (rstrip l)) \<and> take (length (rstrip l)) b = rstrip l"
proof -
  define f where "f = (if type = 2 then rstrip l else l)"
  have f: "bufl st = length f" "length f \<le> length (buf st)" "take (length f) (buf st) = f" "rstrip f = rstrip l"
    using assms(1) by (auto simp: holds_line_def f_def Let_def)
  have "length f < 2 ^ 32" using assms(2) length_rstrip [of l] by (auto simp: f_def)
  then show ?thesis using strip_ok [of "length f" "buf st"] f by auto
qed

lemma last_line_ok:
  assumes "holds_line type l st" "boff st = 0" "length l < 2 ^ 32"
  shows "\<exists>st2. last_line type level st = (RetString (rstrip l), st2) \<and> out st2 = out st \<and> arr st2 = arr st"
proof (cases "bufl st = 0")
  case True
  then have "rstrip l = []" using assms(1) by (cases "type = 2") (auto simp: holds_line_def rstrip_def Let_def)
  then show ?thesis using True by (simp add: last_line_def)
next
  case False
  then show ?thesis using strip_held [OF assms(1,3)] assms(2) by (auto simp: last_line_def Let_def)
qed

section \<open>Properties\<close>

definition written :: "out_event list \<Rightarrow> bytes" where
  "written es = concat (map (\<lambda>e. case e of PHPWRITE bs \<Rightarrow> bs | SapiFlush \<Rightarrow> []) es)"

lemma written_simps [simp]: "written [] = []" "written (PHPWRITE bs # es) = bs @ written es" "written (SapiFlush # es) = written es"
  by (simp_all add: written_def)

lemma written_append: "written (xs @ ys) = written xs @ written ys"
  by (simp add: written_def)

lemma written_lines: "written (line_out type level ls) = (if type = 1 then concat ls else [])"
  by (induction ls) (auto simp: line_out_def written_append)

lemma written_passthru: "written (map PHPWRITE ws) = concat ws"
  by (induction ws) simp_all

text \<open>
  C18: reading a command's output. The loops end, no byte is written outside the line buffer, however
  long the lines are, and the output is delivered whole: \<^verbatim>\<open>system\<close> (type 1) writes exactly the bytes of
  the output, \<^verbatim>\<open>exec\<close> with an array (type 2) appends every line without its trailing white space, both
  and plain \<^verbatim>\<open>exec\<close> (type 0) return the last line so stripped, and \<^verbatim>\<open>passthru\<close> (type 3) writes the bytes. The
  stream has to report its end if the output does not end with a newline.
\<close>

theorem exec_output_complete:
  assumes "php_file ops contents offset" and "contents s = c" and "offset s = 0" and "2 \<le> N" and "length c < 2 ^ 32"
    and "c = [] \<or> last c = newline \<or> (\<forall>s. contents s = c \<longrightarrow> offset s = length c \<longrightarrow> stream_eof ops s)"
  shows "\<exists>v st s'. exec_output ops N type level array s = Some (Inr (v, st, s')) \<and>
    written (out st) = (if type = 1 \<or> type = 3 then c else []) \<and>
    arr st = array @ (if type = 2 then map rstrip (lines c) else []) \<and>
    v = (if type = 3 then RetUntouched else RetString (if c = [] then [] else rstrip (last (lines c))))"
proof (cases "type = 3")
  case True
  let ?st = "\<lparr>buf = [], boff = 0, buflen = N, bufl = 0, out = [], arr = array\<rparr>"
  obtain st s' ws where "passthru_loop ops N ?st s = Some (st, s')" "out st = map PHPWRITE ws" "concat ws = c" "arr st = array"
    using php_file.passthru_ok [OF assms(1,2), of c N ?st] assms(3,4) by auto
  then show ?thesis using True by (simp add: exec_output_def written_passthru)
next
  case False
  let ?st = "\<lparr>buf = [], boff = 0, buflen = N, bufl = 0, out = [], arr = array\<rparr>"
  have inv: "exec_inv N [] ?st" by (simp add: exec_inv_def)
  obtain st1 s1 where st1: "get_line_loop ops N type level ?st s = Some (Inr (st1, s1))" "boff st1 = 0"
      "out st1 = line_out type level (lines c)" "arr st1 = array @ line_arr type (lines c)"
      "c = [] \<longrightarrow> st1 = ?st" "c \<noteq> [] \<longrightarrow> holds_line type (last (lines c)) st1"
    using php_file.get_line_loop_ok [OF assms(1,2) _ _ inv _ _ _ assms(5,4,6), of c type level] assms(3) by auto
  have "\<exists>st2. last_line type level st1 = (RetString (if c = [] then [] else rstrip (last (lines c))), st2) \<and>
      out st2 = out st1 \<and> arr st2 = arr st1"
  proof (cases "c = []")
    case True
    then show ?thesis using st1(5) by (simp add: last_line_def)
  next
    case False
    define l where "l = last (lines c)"
    have "last (lines c) \<in> set (lines c)" using False by simp
    then have "length l \<le> length (concat (lines c))" unfolding l_def by (metis concat_append concat.simps(2) in_set_conv_decomp length_append trans_le_add1 trans_le_add2 le_refl)
    then have "length l < 2 ^ 32" using assms(5) by simp
    then show ?thesis using last_line_ok [of type l st1 level] st1(2,6) False by (simp add: l_def)
  qed
  then obtain st2 where st2: "last_line type level st1 = (RetString (if c = [] then [] else rstrip (last (lines c))), st2)"
      "out st2 = out st1" "arr st2 = arr st1" by blast
  have "exec_output ops N type level array s = Some (Inr (RetString (if c = [] then [] else rstrip (last (lines c))), st2, s1))"
    using st1(1) st2(1) False by (simp add: exec_output_def)
  moreover have "written (out st2) = (if type = 1 \<or> type = 3 then c else [])" using st1(3) st2(2) False by (simp add: written_lines)
  moreover have "arr st2 = array @ (if type = 2 then map rstrip (lines c) else [])" using st1(4) st2(3) by (simp add: line_arr_def)
  ultimately show ?thesis using False by simp
qed

theorem exec_output_complete_witness:
  "\<exists>v st s'. exec_output mem_ops 4 2 0 [''x''] \<lparr>mf_data = ''abcde '' @ [newline] @ ''fg'', mf_pos = 0\<rparr> = Some (Inr (v, st, s')) \<and>
    arr st = [''x'', ''abcde'', ''fg''] \<and> v = RetString ''fg''"
proof -
  have "lines (''abcde '' @ [newline] @ ''fg'') = [''abcde '' @ [newline], ''fg'']"
    "rstrip (''abcde '' @ [newline]) = ''abcde''" "rstrip ''fg'' = ''fg''" by code_simp+
  moreover have "\<forall>s. mf_data s = c \<longrightarrow> mf_pos s = length c \<longrightarrow> stream_eof mem_ops s" for c
    by (simp add: mem_ops_def)
  ultimately show ?thesis
    using exec_output_complete [OF memory.php_file_axioms, of "\<lparr>mf_data = ''abcde '' @ [newline] @ ''fg'', mf_pos = 0\<rparr>"
        "''abcde '' @ [newline] @ ''fg''" 4 2 0 "[''x'']"] by auto
qed

text \<open>
  A stream that reports its end late, as the contract of \<^verbatim>\<open>feof\<close> allows, loses output: after a line
  longer than the buffer, an unterminated last line that fills whole reads is cut to the length of
  its last read, because the branch that only moves the pointer does not add up the length.
\<close>

theorem exec_output_cut_at_late_eof:
  assumes "php_file ops contents offset" and "\<forall>s. \<not> stream_eof ops s" and "2 \<le> N" and "3 * N < 2 ^ 32"
    and "contents s = a1 @ a2 @ newline # b1 @ b2" and "offset s = 0"
    and "length a1 = N - 1" and "length a2 = N - 1" and "length b1 = N - 1" and "length b2 = N - 1"
    and "newline \<notin> set (a1 @ a2 @ b1 @ b2)"
  shows "\<exists>st s'. exec_output ops N 2 level array s = Some (Inr (RetString (rstrip b1), st, s')) \<and>
    arr st = array @ [rstrip (a1 @ a2), rstrip b1]"
proof -
  let ?c = "a1 @ a2 @ newline # b1 @ b2"
  let ?st = "\<lparr>buf = [], boff = 0, buflen = N, bufl = 0, out = [], arr = array\<rparr>"
  have ne: "a1 \<noteq> []" "a2 \<noteq> []" "b1 \<noteq> []" "b2 \<noteq> []" using assms(3,7-10) by auto
  have nl: "newline \<notin> set a1" "newline \<notin> set a2" "newline \<notin> set b1" "newline \<notin> set b2" using assms(11) by auto
  then have nl': "last a1 \<noteq> newline" "last a2 \<noteq> newline" "last b1 \<noteq> newline" "last b2 \<noteq> newline" using ne last_in_set by metis+
  have lt: "length a1 < N" "length a2 < N" "length b1 < N" "length b2 < N" "length [newline] < N" using assms(3,7-10) by simp_all
  have inv0: "exec_inv N [] ?st" by (simp add: exec_inv_def)
  obtain t1 where t1: "get_line_step N 2 level False a1 ?st = Inr t1" "exec_inv N a1 t1" "arr t1 = array" "buflen t1 = 2 * N - 1"
    using step_more [OF inv0 ne(1) lt(1) nl'(1), of 2 level] assms(3,7) by auto
  obtain t2 where t2: "get_line_step N 2 level False a2 t1 = Inr t2" "exec_inv N (a1 @ a2) t2" "arr t2 = array" "buflen t2 = 3 * N - 2"
    using step_more [OF t1(2) ne(2) lt(2) nl'(2), of 2 level] assms(3,7,8) t1(3,4) by auto
  have small: "length ((a1 @ a2) @ [newline]) < 2 ^ 32" using assms(3,4,7,8) by simp
  obtain t3 where t3: "get_line_step N 2 level False [newline] t2 = Inr t3" "exec_inv N [] t3" "buflen t3 = 3 * N - 2"
      "arr t3 = array @ [rstrip (a1 @ a2)]"
    using step_line [OF t2(2) _ lt(5) _ small, of False 2 level] t2(3,4) rstrip_snoc [of "a1 @ a2" newline]
    by (auto simp: line_arr_def isspace_def)
  obtain t4 where t4: "get_line_step N 2 level False b1 t3 = Inr t4" "exec_inv N b1 t4" "buflen t4 = 3 * N - 2" "arr t4 = arr t3"
    using step_more [OF t3(2) ne(3) lt(3) nl'(3), of 2 level] assms(3,9) t3(3) by auto
  obtain t5 where t5: "get_line_step N 2 level False b2 t4 = Inr t5" "exec_inv N (b1 @ b2) t5" "bufl t5 = N - 1" "arr t5 = arr t3"
    using step_more [OF t4(2) ne(4) lt(4) nl'(4), of 2 level] assms(3,9,10) t4(3,4) by auto
  note chunk = php_file.loop_chunk [OF assms(1,2)]
  obtain s1 where s1: "get_line_loop ops N 2 level ?st s = get_line_loop ops N 2 level t1 s1" "contents s1 = ?c"
      "drop (offset s1) ?c = a2 @ newline # b1 @ b2"
    using chunk [OF assms(5) _ _ ne(1) t1(1), of "a2 @ newline # b1 @ b2"] whole_chunk [OF nl(1) assms(7,3)] assms(6) by auto
  obtain s2 where s2: "get_line_loop ops N 2 level t1 s1 = get_line_loop ops N 2 level t2 s2" "contents s2 = ?c"
      "drop (offset s2) ?c = newline # b1 @ b2"
    using chunk [OF s1(2,3) _ ne(2) t2(1)] whole_chunk [OF nl(2) assms(8,3)] by auto
  have l3: "line_of (Some N) ([newline] @ b1 @ b2) = [newline]" using assms(3) by (simp add: line_of_def upto_newline_def)
  have r3: "drop (offset s2) ?c = [newline] @ b1 @ b2" using s2(3) by (simp only: append.simps)
  obtain s3 where s3: "get_line_loop ops N 2 level t2 s2 = get_line_loop ops N 2 level t3 s3" "contents s3 = ?c"
      "drop (offset s3) ?c = b1 @ b2"
    using chunk [OF s2(2) r3 l3 _ t3(1)] by blast
  obtain s4 where s4: "get_line_loop ops N 2 level t3 s3 = get_line_loop ops N 2 level t4 s4" "contents s4 = ?c" "drop (offset s4) ?c = b2 @ []"
    using chunk [OF s3(2,3) _ ne(3) t4(1)] whole_chunk [OF nl(3) assms(9,3)] by auto
  obtain s5 where s5: "get_line_loop ops N 2 level t4 s4 = get_line_loop ops N 2 level t5 s5" "contents s5 = ?c" "drop (offset s5) ?c = []"
    using chunk [OF s4(2,3) whole_chunk [OF nl(4) assms(10,3)] ne(4) t5(1)] by blast
  obtain s6 where s6: "get_line_loop ops N 2 level t5 s5 = Some (Inr (t5, s6))"
    using php_file.loop_end [OF assms(1)] s5(2,3) by (metis drop_eq_Nil)
  have "take (length (b1 @ b2)) (buf t5) = b1 @ b2" using t5(2) by (simp add: exec_inv_def)
  then have "take (length b1) (take (length (b1 @ b2)) (buf t5)) = b1" by (simp only:) simp
  then have buf: "take (length b1) (buf t5) = b1" "length b1 \<le> length (buf t5)" "boff t5 \<noteq> 0"
    using t5(2) ne(3) by (auto simp: exec_inv_def)
  have "\<exists>b. handle_line 2 level t5 = t5\<lparr>buf := b, bufl := bufl (handle_line 2 level t5),
      out := out t5 @ line_out 2 level [b1], arr := arr t5 @ line_arr 2 [b1]\<rparr> \<and> holds_line 2 b1 (handle_line 2 level t5)"
    by (rule handle_line_ok) (use buf t5(3) assms(4,9) in simp_all)
  then obtain b where h: "handle_line 2 level t5 = t5\<lparr>buf := b, bufl := bufl (handle_line 2 level t5),
      out := out t5 @ line_out 2 level [b1], arr := arr t5 @ line_arr 2 [b1]\<rparr>" "holds_line 2 b1 (handle_line 2 level t5)" by blast
  have arr: "arr (handle_line 2 level t5) = arr t5 @ [rstrip b1]" by (subst h(1)) (simp add: line_arr_def)
  have "length b1 < 2 ^ 32" using assms(4,9) by simp
  then obtain st where "last_line 2 level t5 = (RetString (rstrip b1), st)" "arr st = arr t5 @ [rstrip b1]"
    using strip_held [OF h(2)] arr t5(3) buf(3) assms(3) by (auto simp: last_line_def Let_def)
  then show ?thesis using s1(1) s2(1) s3(1) s4(1) s5(1) s6 t5(4) t3(4) by (simp add: exec_output_def)
qed

text \<open>An in-memory stream that never reports its end.\<close>

definition late_eof_ops :: "memfile php_stream_ops" where
  "late_eof_ops = mem_ops\<lparr>stream_eof := (\<lambda>s. False)\<rparr>"

interpretation late_eof: php_file late_eof_ops mf_data mf_pos
  by unfold_locales (auto simp: late_eof_ops_def mem_ops_def mem_write_def Let_def min_def split: option.splits)

theorem exec_output_cut_at_late_eof_witness:
  "\<exists>st s'. exec_output late_eof_ops 3 2 0 [] \<lparr>mf_data = ''aaaa'' @ [newline] @ ''bbcc'', mf_pos = 0\<rparr> = Some (Inr (RetString ''bb'', st, s')) \<and>
    arr st = [''aaaa'', ''bb'']"
proof -
  have "rstrip ''bb'' = ''bb''" "rstrip ''aaaa'' = ''aaaa''" by code_simp+
  moreover have "\<forall>s. \<not> stream_eof late_eof_ops s" by (simp add: late_eof_ops_def)
  ultimately show ?thesis
    using exec_output_cut_at_late_eof [OF late_eof.php_file_axioms, of 3 "\<lparr>mf_data = ''aaaa'' @ [newline] @ ''bbcc'', mf_pos = 0\<rparr>"
        "''aa''" "''aa''" "''bb''" "''cc''" 0 "[]"] by simp
qed

end
