(* ===== verification/Process.thy ===== *)
theory Process
  imports FdTable Exec "HOL-Library.Multiset"
begin

text \<open>
  Starting processes: \<^verbatim>\<open>js_popen_to_file\<close>, \<^verbatim>\<open>wasm_popen\<close>, \<^verbatim>\<open>wasm_pclose\<close>, their link-time wrappers and
  \<^verbatim>\<open>wasm_php_exec\<close> of \<^verbatim>\<open>compile/php/php_wasm.c\<close>.

  The world they act on is the file system, the descriptor table, JavaScript's table of processes
  (\<^verbatim>\<open>PHPWASM.processTable\<close>, in the order of the keys, each with the descriptor noted for it by
  \<^verbatim>\<open>js_popen_set_pid_for_fd\<close>) and the global \<^verbatim>\<open>FG(pclose_ret)\<close>, \<^const>\<open>None\<close> while it holds an indeterminate
  value. A \<^verbatim>\<open>FILE *\<close> is its descriptor. What is not part of this code is a record of functions: the
  host's process spawner, the kernel's \<^verbatim>\<open>pipe\<close> and \<^verbatim>\<open>fdopen\<close>, and the library functions
  \<^verbatim>\<open>js_open_process\<close>, \<^verbatim>\<open>js_waitpid\<close> and the real \<^verbatim>\<open>pclose\<close>. A result \<^const>\<open>None\<close> means that the call never comes back.
\<close>

record world =
  files :: "string \<rightharpoonup> bytes"
  fds :: fdtab
  processTable :: "(int \<times> int option) list"
  pclose_ret :: "int option"
  errno :: int

definition EINVAL :: int where "EINVAL = 28"

datatype child_event = Stdout bytes | ExitEvent int

datatype spawn_result = SpawnThrows string | Spawned "child_event list"

datatype char_ptr = Address nat | Path string

datatype popen_fault = InvalidPath nat | Exec_fault exec_fault

record host =
  spawnProcess :: "string \<Rightarrow> spawn_result"
  pipe_ok :: "fdtab \<Rightarrow> bool"
  fdopen_ok :: "int \<Rightarrow> bool"
  js_open_process :: "string \<Rightarrow> (int \<times> int \<times> int) list \<Rightarrow> world \<Rightarrow> int \<times> world"
  js_waitpid :: "int \<Rightarrow> world \<Rightarrow> int \<times> world" \<comment> \<open>the status written, 0 if none\<close>
  real_pclose :: "int \<Rightarrow> world \<Rightarrow> int \<times> world"

section \<open>Running a command into a file\<close>

text \<open>
  The promise is settled by the event \<^verbatim>\<open>exit\<close> only: the output is what arrived before it, and without
  it the caller is never woken up.
\<close>

fun await_exit :: "child_event list \<Rightarrow> (bytes \<times> int) option" where
  "await_exit [] = None"
| "await_exit (Stdout bs # es) = map_option (\<lambda>(out, code). (bs @ out, code)) (await_exit es)"
| "await_exit (ExitEvent code # es) = Some ([], code)"

definition outputPath :: string where "outputPath = ''/tmp/popen_output''"

definition js_popen_to_file :: "host \<Rightarrow> string option \<Rightarrow> string \<Rightarrow> world \<Rightarrow> (char_ptr \<times> int option \<times> world) option" where
  "js_popen_to_file h command mode w =
     (case command of
        None \<Rightarrow> Some (Address 1, None, w)
      | Some cmdstr \<Rightarrow>
          if cmdstr = [] then Some (Address 0, None, w)
          else if mode = [] then Some (Address 0, None, w)
          else (case spawnProcess h cmdstr of
                  SpawnThrows code \<Rightarrow> None
                | Spawned events \<Rightarrow>
                    map_option (\<lambda>(outBytes, exitCode).
                      (Path outputPath, Some (exitCode mod 256), w\<lparr>files := (files w)(outputPath \<mapsto> outBytes)\<rparr>))
                      (await_exit events)))"

section \<open>popen and pclose\<close>

definition fopen_read :: "char_ptr \<Rightarrow> world \<Rightarrow> popen_fault + int option \<times> world" where
  "fopen_read p w =
     (case p of
        Address a \<Rightarrow> Inl (InvalidPath a)
      | Path f \<Rightarrow>
          let (fd, t) = fd_open (\<lambda>f. files w f \<noteq> None) f (fds w)
          in Inr (if fd = -1 then None else Some fd, w\<lparr>fds := t\<rparr>))"

text \<open>The three pipes, in the order the condition makes them, stopping at the first failure.\<close>

definition three_pipes :: "host \<Rightarrow> fdtab \<Rightarrow> ((int \<times> int) \<times> (int \<times> int) \<times> (int \<times> int)) option \<times> fdtab" where
  "three_pipes h t =
     (case fd_pipe (pipe_ok h) t of
        (None, t1) \<Rightarrow> (None, t1)
      | (Some stdout_pipe, t1) \<Rightarrow>
          (case fd_pipe (pipe_ok h) t1 of
             (None, t2) \<Rightarrow> (None, t2)
           | (Some stderr_pipe, t2) \<Rightarrow>
               (case fd_pipe (pipe_ok h) t2 of
                  (None, t3) \<Rightarrow> (None, t3)
                | (Some stdin_pipe, t3) \<Rightarrow> (Some (stdin_pipe, stdout_pipe, stderr_pipe), t3))))"

definition js_popen_set_pid_for_fd :: "int \<Rightarrow> int \<Rightarrow> world \<Rightarrow> world" where
  "js_popen_set_pid_for_fd fd pid w =
     w\<lparr>processTable := map (\<lambda>(p, f). if p = pid then (p, Some fd) else (p, f)) (processTable w)\<rparr>"

definition js_popen_get_pid_for_fd :: "int \<Rightarrow> world \<Rightarrow> int" where
  "js_popen_get_pid_for_fd fd w =
     (case find (\<lambda>(p, f). f = Some fd) (processTable w) of None \<Rightarrow> -1 | Some (p, f) \<Rightarrow> p)"

fun clear_first :: "int \<Rightarrow> (int \<times> int option) list \<Rightarrow> (int \<times> int option) list" where
  "clear_first fd [] = []"
| "clear_first fd ((p, f) # ps) = (if f = Some fd then (p, None) # ps else (p, f) # clear_first fd ps)"

definition js_popen_clear_pid_for_fd :: "int \<Rightarrow> world \<Rightarrow> world" where
  "js_popen_clear_pid_for_fd fd w = w\<lparr>processTable := clear_first fd (processTable w)\<rparr>"

definition wasm_popen :: "host \<Rightarrow> string option \<Rightarrow> string \<Rightarrow> world \<Rightarrow> (popen_fault + int option \<times> world) option" where
  "wasm_popen h cmd mode w =
     (if mode \<noteq> [] \<and> hd mode = CHR ''r''
      then map_option (\<lambda>(file_path, last_exit_code, w1).
             rbind (fopen_read file_path w1) (\<lambda>(fp, w2). Inr (fp, w2\<lparr>pclose_ret := last_exit_code\<rparr>)))
           (js_popen_to_file h cmd mode w)
      else if mode \<noteq> [] \<and> hd mode = CHR ''w''
      then (case three_pipes h (fds w) of
              (None, t) \<Rightarrow> Some (Inr (None, w\<lparr>fds := t, errno := EINVAL\<rparr>))
            | (Some (stdin_pipe, stdout_pipe, stderr_pipe), t) \<Rightarrow>
                if \<not> fdopen_ok h (snd stdin_pipe) then Some (Inr (None, w\<lparr>fds := t, errno := EINVAL\<rparr>))
                else let fp = snd stdin_pipe;
                         descv = [(0, fst stdin_pipe, snd stdin_pipe), (1, fst stdout_pipe, snd stdout_pipe),
                                  (2, fst stderr_pipe, snd stderr_pipe)];
                         (pid, w1) = js_open_process h (case cmd of None \<Rightarrow> [] | Some c \<Rightarrow> c) descv (w\<lparr>fds := t\<rparr>)
                     in Some (Inr (Some fp, js_popen_set_pid_for_fd fp pid w1)))
      else Some (Inr (None, w\<lparr>errno := EINVAL\<rparr>)))"

definition wasm_pclose :: "host \<Rightarrow> int \<Rightarrow> world \<Rightarrow> int \<times> world" where
  "wasm_pclose h fp w =
     (let pid = js_popen_get_pid_for_fd fp w;
          w1 = js_popen_clear_pid_for_fd fp w;
          w2 = w1\<lparr>fds := snd (fd_close fp (fds w1))\<rparr>
      in if pid < 0 then (-1, w2)
         else let (wstatus, w3) = js_waitpid h pid w2 in (wstatus, w3\<lparr>pclose_ret := Some wstatus\<rparr>))"

definition wrap_popen :: "host \<Rightarrow> string option \<Rightarrow> string \<Rightarrow> world \<Rightarrow> (popen_fault + int option \<times> world) option" where
  "wrap_popen h cmd mode w = wasm_popen h cmd mode w"

definition wrap_pclose :: "host \<Rightarrow> int \<Rightarrow> world \<Rightarrow> int \<times> world" where
  "wrap_pclose h fp w = (if js_popen_get_pid_for_fd fp w \<ge> 0 then wasm_pclose h fp w else real_pclose h fp w)"

section \<open>exec and its family\<close>

text \<open>
  \<^verbatim>\<open>php_stream_fopen_from_pipe\<close> and \<^verbatim>\<open>php_stream_close\<close> are the stream layer's: the first makes a stream of a descriptor,
  the second gives the status that \<^verbatim>\<open>pclose\<close> returned.
\<close>

definition wasm_php_exec ::
    "host \<Rightarrow> 's php_stream_ops \<Rightarrow> (int \<Rightarrow> world \<Rightarrow> 's) \<Rightarrow> ('s \<Rightarrow> int) \<Rightarrow> nat \<Rightarrow> nat \<Rightarrow> nat \<Rightarrow> string \<Rightarrow> bytes list \<Rightarrow> world \<Rightarrow>
     (popen_fault + int option \<times> php_value \<times> out_event list \<times> bytes list \<times> world) option" where
  "wasm_php_exec h ops fopen_from_pipe close_stream EXEC_INPUT_BUF level type cmd array w =
     (case wasm_popen h (Some cmd) ''r'' w of
        None \<Rightarrow> None
      | Some (Inl f) \<Rightarrow> Some (Inl f)
      | Some (Inr (None, w1)) \<Rightarrow> Some (Inr (Some (-1), RetFalse, [], array, w1))
      | Some (Inr (Some fp, w1)) \<Rightarrow>
          map_option (\<lambda>r. case r of
              Inl f \<Rightarrow> Inl (Exec_fault f)
            | Inr (v, st, s) \<Rightarrow>
                let pclose_return = close_stream s
                in Inr (if pclose_return = -1 then pclose_ret w1 else Some pclose_return, v, out st, arr st, w1))
            (exec_output ops EXEC_INPUT_BUF type level array (fopen_from_pipe fp w1)))"

section \<open>Laws\<close>

lemma popen_read_ok:
  assumes "spawnProcess h cmd = Spawned es" "await_exit es = Some (bs, code)" "cmd \<noteq> []"
  shows "\<exists>fd w1. wasm_popen h (Some cmd) ''r'' w = Some (Inr (Some fd, w1)) \<and> fd_get (fds w) fd = None \<and>
    fds w1 = fd_put (fds w) (nat fd) (Some outputPath) \<and> 0 \<le> fd \<and>
    files w1 = (files w)(outputPath \<mapsto> bs) \<and> pclose_ret w1 = Some (code mod 256) \<and> processTable w1 = processTable w"
  using assms lowest_free_is_free [of "fds w"]
  by (simp add: wasm_popen_def js_popen_to_file_def fopen_read_def fd_open_def Let_def)

lemma three_pipes_ok:
  assumes "three_pipes h t = (Some (si, so, se), t')"
  shows "fd_get t (snd si) = None" "0 \<le> snd si" "fd_get t' (snd si) = Some ''pipe''"
    "fd_get t i \<noteq> None \<longrightarrow> fd_get t' i = fd_get t i"
proof -
  obtain t1 t2 where p: "fd_pipe (pipe_ok h) t = (Some so, t1)" "fd_pipe (pipe_ok h) t1 = (Some se, t2)" "fd_pipe (pipe_ok h) t2 = (Some si, t')"
    using assms by (auto simp: three_pipes_def split: prod.splits option.splits)
  have p1: "fd_pipe (pipe_ok h) t = (Some (fst so, snd so), t1)" and p2: "fd_pipe (pipe_ok h) t1 = (Some (fst se, snd se), t2)"
    and p3: "fd_pipe (pipe_ok h) t2 = (Some (fst si, snd si), t')" using p by simp_all
  show "0 \<le> snd si" "fd_get t' (snd si) = Some ''pipe''"
    using fd_pipe_ok(2) [OF p3] fd_pipe_ok(6) [OF p3, of "snd si"] by auto
  show "fd_get t (snd si) = None"
    using fd_pipe_ok(5) [OF p3] fd_pipe_ok(6) [OF p2, of "snd si"] fd_pipe_ok(6) [OF p1, of "snd si"] by (auto split: if_splits)
  show "fd_get t i \<noteq> None \<longrightarrow> fd_get t' i = fd_get t i"
    using fd_pipe_ok(4,5) [OF p1] fd_pipe_ok(4,5) [OF p2] fd_pipe_ok(4,5) [OF p3]
      fd_pipe_ok(6) [OF p1, of i] fd_pipe_ok(6) [OF p2, of i] fd_pipe_ok(6) [OF p3, of i] by auto
qed

lemma three_pipes_keep: "three_pipes h t = (r, t') \<Longrightarrow> fd_get t i \<noteq> None \<longrightarrow> fd_get t' i = fd_get t i"
proof (cases r)
  case None
  assume three: "three_pipes h t = (r, t')"
  have keep: "fd_pipe (pipe_ok h) u = (q, u') \<Longrightarrow> fd_get u i \<noteq> None \<longrightarrow> fd_get u' i = fd_get u i" for u q u'
    using fd_pipe_fail [of "pipe_ok h" u u'] fd_pipe_ok(4,5) [of "pipe_ok h" u "fst (the q)" "snd (the q)" u'] fd_pipe_ok(6) [of "pipe_ok h" u "fst (the q)" "snd (the q)" u' i]
    by (cases q) auto
  show ?thesis using three None keep [of t] keep by (auto simp: three_pipes_def split: prod.splits option.splits)
next
  case (Some x)
  assume three: "three_pipes h t = (r, t')"
  then show ?thesis using Some three_pipes_ok(4) [of h t "fst x" "fst (snd x)" "snd (snd x)" t' i] by simp
qed

section \<open>The table of processes\<close>

text \<open>
  What is documented of the two library functions: \<^verbatim>\<open>js_open_process\<close> either starts nothing, or enters
  the new process under its number, in key order, with no descriptor noted; \<^verbatim>\<open>js_waitpid\<close> closes no
  descriptor that is noted for a process.
\<close>

fun fd_notes :: "(int \<times> int option) list \<Rightarrow> int list" where
  "fd_notes [] = []"
| "fd_notes ((p, None) # ps) = fd_notes ps"
| "fd_notes ((p, Some fd) # ps) = fd # fd_notes ps"

abbreviation noted :: "world \<Rightarrow> int list" where
  "noted w \<equiv> fd_notes (processTable w)"

definition host_ok :: "host \<Rightarrow> bool" where
  "host_ok h \<longleftrightarrow>
     (\<forall>cmd dv w. let (pid, w1) = js_open_process h cmd dv w in fds w1 = fds w \<and>
        (if pid > 0 then processTable w1 = insort_key fst (pid, None) (filter (\<lambda>(p, f). p \<noteq> pid) (processTable w))
         else processTable w1 = processTable w)) \<and>
     (\<forall>pid w. let (st, w1) = js_waitpid h pid w in processTable w1 = processTable w \<and>
        (\<forall>fd \<in> set (noted w). fd_get (fds w1) fd = fd_get (fds w) fd))"

text \<open>The invariant: one entry per process, numbered from one, and every noted descriptor is open and noted once.\<close>

definition table_ok :: "world \<Rightarrow> bool" where
  "table_ok w \<longleftrightarrow> distinct (map fst (processTable w)) \<and> (\<forall>p \<in> fst ` set (processTable w). 0 < p) \<and>
     distinct (noted w) \<and> (\<forall>fd \<in> set (noted w). fd_get (fds w) fd \<noteq> None)"

lemma notes_iff: "fd \<in> set (fd_notes ps) \<longleftrightarrow> (\<exists>p. (p, Some fd) \<in> set ps)"
  by (induction ps rule: fd_notes.induct) auto

lemma notes_insort [simp]: "fd_notes (insort_key fst (p, None) ps) = fd_notes ps"
  by (induction ps rule: fd_notes.induct) auto

lemma notes_filter: "distinct (fd_notes ps) \<Longrightarrow> distinct (fd_notes (filter P ps)) \<and> set (fd_notes (filter P ps)) \<subseteq> set (fd_notes ps)"
  by (induction ps rule: fd_notes.induct) auto

lemma notes_clear [simp]: "fd_notes (clear_first fd ps) = remove1 fd (fd_notes ps)"
  by (induction ps rule: fd_notes.induct) auto

lemma fst_clear [simp]: "map fst (clear_first fd ps) = map fst ps"
  by (induction fd ps rule: clear_first.induct) auto

definition note_fd :: "int \<Rightarrow> int \<Rightarrow> (int \<times> int option) list \<Rightarrow> (int \<times> int option) list" where
  "note_fd pid fd = map (\<lambda>(p, f). if p = pid then (p, Some fd) else (p, f))"

lemma note_fd_simps [simp]:
  "note_fd pid fd [] = []" "note_fd pid fd ((p, f) # ps) = (p, if p = pid then Some fd else f) # note_fd pid fd ps"
  by (simp_all add: note_fd_def)

lemma fst_note_fd [simp]: "map fst (note_fd pid fd ps) = map fst ps"
  by (induction ps) auto

lemma note_fd_absent: "pid \<notin> fst ` set ps \<Longrightarrow> note_fd pid fd ps = ps"
  by (induction ps) auto

lemma notes_set:
  assumes "distinct (map fst ps)" "\<forall>f. (pid, f) \<in> set ps \<longrightarrow> f = None" "distinct (fd_notes ps)" "fd \<notin> set (fd_notes ps)"
  shows "distinct (fd_notes (note_fd pid fd ps)) \<and> set (fd_notes (note_fd pid fd ps)) \<subseteq> insert fd (set (fd_notes ps))"
  using assms
proof (induction ps rule: fd_notes.induct)
  case (2 p ps)
  show ?case
  proof (cases "p = pid")
    case True
    then have "note_fd pid fd ps = ps" using 2(2) by (intro note_fd_absent) auto
    then show ?thesis using True 2 by simp
  qed (use 2 in auto)
qed auto

lemma find_noted:
  assumes "distinct (fd_notes ps)" "(p, Some fd) \<in> set ps"
  shows "find (\<lambda>(p, f). f = Some fd) ps = Some (p, Some fd)"
  using assms by (induction ps rule: fd_notes.induct) (auto simp: notes_iff)

lemma host_open:
  assumes "host_ok h" "js_open_process h cmd dv w = (pid, w1)"
  shows "fds w1 = fds w"
    "processTable w1 = (if pid > 0 then insort_key fst (pid, None) (filter (\<lambda>(p, f). p \<noteq> pid) (processTable w)) else processTable w)"
proof -
  have "let (pid, w1) = js_open_process h cmd dv w in fds w1 = fds w \<and>
        (if pid > 0 then processTable w1 = insort_key fst (pid, None) (filter (\<lambda>(p, f). p \<noteq> pid) (processTable w))
         else processTable w1 = processTable w)" using assms(1) unfolding host_ok_def by blast
  then show "fds w1 = fds w"
    "processTable w1 = (if pid > 0 then insort_key fst (pid, None) (filter (\<lambda>(p, f). p \<noteq> pid) (processTable w)) else processTable w)"
    by (simp_all add: assms(2) split: if_splits)
qed

lemma host_wait:
  assumes "host_ok h" "js_waitpid h pid w = (st, w1)"
  shows "processTable w1 = processTable w" "\<forall>fd \<in> set (noted w). fd_get (fds w1) fd = fd_get (fds w) fd"
proof -
  have "let (st, w1) = js_waitpid h pid w in processTable w1 = processTable w \<and>
        (\<forall>fd \<in> set (noted w). fd_get (fds w1) fd = fd_get (fds w) fd)" using assms(1) unfolding host_ok_def by blast
  then show "processTable w1 = processTable w" "\<forall>fd \<in> set (noted w). fd_get (fds w1) fd = fd_get (fds w) fd"
    by (simp_all add: assms(2))
qed

lemma table_ok_fds:
  assumes "table_ok w" "processTable w1 = processTable w" "\<forall>fd. fd_get (fds w) fd \<noteq> None \<longrightarrow> fd_get (fds w1) fd = fd_get (fds w) fd"
  shows "table_ok w1"
  using assms by (auto simp: table_ok_def)

text \<open>A write pipe: the descriptor is new, the process is entered and noted for it.\<close>

lemma popen_write_ok:
  assumes "host_ok h" "table_ok w" "three_pipes h (fds w) = (Some (si, so, se), t)"
    and "js_open_process h cmd dv (w\<lparr>fds := t\<rparr>) = (pid, w1)"
  shows "table_ok (js_popen_set_pid_for_fd (snd si) pid w1)"
    "0 < pid \<longrightarrow> (pid, Some (snd si)) \<in> set (processTable (js_popen_set_pid_for_fd (snd si) pid w1))"
proof -
  let ?w = "js_popen_set_pid_for_fd (snd si) pid w1"
  note pipes = three_pipes_ok [OF assms(3)]
  note op = host_open [OF assms(1,4)]
  have tab: "processTable ?w = note_fd pid (snd si) (processTable w1)" and fds: "fds ?w = t"
    using op(1) by (simp_all add: js_popen_set_pid_for_fd_def note_fd_def)
  have inv: "distinct (map fst (processTable w))" "\<forall>p \<in> fst ` set (processTable w). 0 < p" "distinct (noted w)"
    "\<forall>fd \<in> set (noted w). fd_get (fds w) fd \<noteq> None" using assms(2) by (auto simp: table_ok_def)
  have "table_ok ?w \<and> (0 < pid \<longrightarrow> (pid, Some (snd si)) \<in> set (processTable ?w))"
  proof (cases "0 < pid")
    case True
    let ?ps = "filter (\<lambda>(p, f). p \<noteq> pid) (processTable w)"
    have w1: "processTable w1 = insort_key fst (pid, None) ?ps" using op(2) True by simp
    have set: "set (processTable w1) = insert (pid, None) (set ?ps)" by (simp add: w1 set_insort_key)
    have sub: "distinct (fd_notes ?ps)" "set (fd_notes ?ps) \<subseteq> set (noted w)" using notes_filter inv(3) by blast+
    have d1: "distinct (map fst (processTable w1))"
    proof -
      have "distinct (map fst ?ps)" using inv(1) by (simp add: distinct_map_filter)
      moreover have "pid \<notin> fst ` set ?ps" by auto
      moreover have "mset (map fst (processTable w1)) = mset (pid # map fst ?ps)" by (simp add: w1 mset_insort)
      ultimately show ?thesis by (metis distinct.simps(2) image_set mset_eq_imp_distinct_iff)
    qed
    have "snd si \<notin> set (noted w1)" using sub(2) inv(4) pipes(1) by (metis notes_insort subsetD w1)
    then have n: "distinct (noted ?w)" "set (noted ?w) \<subseteq> insert (snd si) (set (noted w))"
      using notes_set [OF d1, of pid "snd si"] sub by (auto simp: tab w1 set [unfolded w1])
    have "fd_get t fd \<noteq> None" if "fd \<in> set (noted ?w)" for fd
      using that n(2) inv(4) pipes(3) pipes(4) [of fd] by auto
    moreover have "\<forall>p \<in> fst ` set (processTable ?w). 0 < p"
    proof -
      have "set (map fst (processTable ?w)) = set (map fst (processTable w1))" by (simp only: tab fst_note_fd)
      then have "fst ` set (processTable ?w) = fst ` set (processTable w1)" by simp
      then show ?thesis using inv(2) True by (auto simp: set)
    qed
    moreover have "distinct (map fst (processTable ?w))" using d1 by (simp only: tab fst_note_fd)
    ultimately have "table_ok ?w" using n(1) fds by (simp add: table_ok_def)
    moreover have "(pid, Some (snd si)) \<in> set (processTable ?w)" by (force simp: tab note_fd_def set)
    ultimately show ?thesis by blast
  next
    case False
    then have "note_fd pid (snd si) (processTable w1) = processTable w"
      using op(2) inv(2) by (auto intro!: note_fd_absent)
    then have "table_ok ?w" using table_ok_fds [OF assms(2), of ?w] pipes(4) by (simp add: tab fds)
    then show ?thesis using False by simp
  qed
  then show "table_ok ?w" "0 < pid \<longrightarrow> (pid, Some (snd si)) \<in> set (processTable ?w)" by auto
qed

lemma fd_close_other: "fd \<noteq> fp \<Longrightarrow> fd_get (snd (fd_close fp t)) fd = fd_get t fd"
proof (cases "fd_get t fp = None")
  case False
  then have "0 \<le> fp" by (auto simp: fd_get_def split: if_splits)
  then show "fd \<noteq> fp \<Longrightarrow> fd_get (snd (fd_close fp t)) fd = fd_get t fd" using False by (simp add: fd_close_def fd_get_put)
qed (simp add: fd_close_def)

lemma popen_to_file_keeps:
  "js_popen_to_file h cmd mode w = Some (p, c, w1) \<Longrightarrow> processTable w1 = processTable w \<and> fds w1 = fds w"
  by (auto simp: js_popen_to_file_def split: option.splits if_splits spawn_result.splits)

lemma fopen_read_keeps:
  assumes "fopen_read p w = Inr (r, w1)"
  shows "processTable w1 = processTable w \<and> (fd_get (fds w) fd \<noteq> None \<longrightarrow> fd_get (fds w1) fd = fd_get (fds w) fd)"
  using assms lowest_free_is_free [of "fds w"]
  by (auto simp: fopen_read_def fd_open_def fd_get_put Let_def split: char_ptr.splits if_splits)

lemma popen_keeps_table:
  assumes "host_ok h" "table_ok w" and popen: "wasm_popen h cmd mode w = Some (Inr (r, w1))"
  shows "table_ok w1"
proof -
  consider (rd) "mode \<noteq> []" "hd mode = CHR ''r''" | (wr) "mode \<noteq> []" "hd mode = CHR ''w''"
    | (other) "mode = [] \<or> hd mode \<noteq> CHR ''r'' \<and> hd mode \<noteq> CHR ''w''" by blast
  then show ?thesis
  proof cases
    case rd
    then obtain p c w2 w3 where p: "js_popen_to_file h cmd mode w = Some (p, c, w2)" "fopen_read p w2 = Inr (r, w3)" "w1 = w3\<lparr>pclose_ret := c\<rparr>"
      using popen by (auto simp: wasm_popen_def bind_simps)
    then have "processTable w1 = processTable w \<and> (\<forall>fd. fd_get (fds w) fd \<noteq> None \<longrightarrow> fd_get (fds w1) fd = fd_get (fds w) fd)"
      using popen_to_file_keeps [OF p(1)] fopen_read_keeps [OF p(2)] by simp
    then show ?thesis using table_ok_fds [OF assms(2)] by blast
  next
    case wr
    obtain q t where q: "three_pipes h (fds w) = (q, t)" by (cases "three_pipes h (fds w)")
    have fail: "table_ok (w\<lparr>fds := t, errno := EINVAL\<rparr>)"
      using table_ok_fds [OF assms(2), of "w\<lparr>fds := t, errno := EINVAL\<rparr>"] three_pipes_keep [OF q] by simp
    show ?thesis
    proof (cases q)
      case None
      then show ?thesis using popen q wr fail by (simp add: wasm_popen_def)
    next
      case (Some x)
      obtain si so se where x: "x = (si, so, se)" by (cases x)
      note three = q [unfolded Some x]
      obtain pid w2 where op: "js_open_process h (case cmd of None \<Rightarrow> [] | Some c \<Rightarrow> c)
          [(0, fst si, snd si), (1, fst so, snd so), (2, fst se, snd se)] (w\<lparr>fds := t\<rparr>) = (pid, w2)" by fastforce
      show ?thesis using popen wr q Some x op fail popen_write_ok(1) [OF assms(1,2) three op]
        by (auto simp: wasm_popen_def Let_def split: if_splits)
    qed
  next
    case other
    then have "w1 = w\<lparr>errno := EINVAL\<rparr>" using popen by (auto simp: wasm_popen_def)
    then show ?thesis using assms(2) by (simp add: table_ok_def)
  qed
qed

lemma pclose_keeps_table:
  assumes "host_ok h" "table_ok w"
  shows "table_ok (snd (wasm_pclose h fp w))"
proof -
  let ?w1 = "(js_popen_clear_pid_for_fd fp w)\<lparr>fds := snd (fd_close fp (fds w))\<rparr>"
  have keep: "fd_get (fds ?w1) fd \<noteq> None" if "fd \<in> set (noted ?w1)" for fd
  proof -
    have "fd \<in> set (noted w)" "fd \<noteq> fp"
      using that assms(2) by (auto simp: js_popen_clear_pid_for_fd_def table_ok_def dest: notin_set_remove1)
    then show ?thesis using assms(2) fd_close_other [of fd fp "fds w"] by (auto simp: table_ok_def)
  qed
  have fst: "map fst (processTable ?w1) = map fst (processTable w)" by (simp add: js_popen_clear_pid_for_fd_def)
  have "fst ` set (processTable ?w1) = fst ` set (processTable w)" using arg_cong [OF fst, of set] by simp
  then have ok1: "table_ok ?w1" using assms(2) keep unfolding table_ok_def fst
    by (simp add: js_popen_clear_pid_for_fd_def del: ball_simps)
  show ?thesis
  proof (cases "js_popen_get_pid_for_fd fp w < 0")
    case True
    then show ?thesis using ok1 by (simp add: wasm_pclose_def Let_def js_popen_clear_pid_for_fd_def)
  next
    case False
    obtain st w3 where wait: "js_waitpid h (js_popen_get_pid_for_fd fp w) ?w1 = (st, w3)" by fastforce
    have "table_ok (w3\<lparr>pclose_ret := Some st\<rparr>)" using ok1 host_wait [OF assms(1) wait] by (auto simp: table_ok_def)
    then show ?thesis using wait False by (simp add: wasm_pclose_def Let_def js_popen_clear_pid_for_fd_def)
  qed
qed

lemma popen_found:
  assumes "host_ok h" "table_ok w"
    and three: "three_pipes h (fds w) = (Some (si, so, se), t)" and fd: "fdopen_ok h (snd si)"
    and op: "js_open_process h cmd [(0, fst si, snd si), (1, fst so, snd so), (2, fst se, snd se)] (w\<lparr>fds := t\<rparr>) = (pid, w1)"
    and pid: "0 < pid"
  shows "\<exists>w2 w3 st. wasm_popen h (Some cmd) ''w'' w = Some (Inr (Some (snd si), w2)) \<and>
          js_popen_get_pid_for_fd (snd si) w2 = pid \<and>
          wrap_pclose h (snd si) w2 = (st, w3) \<and> pclose_ret w3 = Some st \<and>
          st = fst (js_waitpid h pid ((js_popen_clear_pid_for_fd (snd si) w2)\<lparr>fds := snd (fd_close (snd si) (fds w2))\<rparr>))"
proof -
  let ?w2 = "js_popen_set_pid_for_fd (snd si) pid w1"
  note ok = popen_write_ok [OF assms(1,2) three op]
  have "find (\<lambda>(p, f). f = Some (snd si)) (processTable ?w2) = Some (pid, Some (snd si))"
    using find_noted ok pid by (simp add: table_ok_def)
  then have get: "js_popen_get_pid_for_fd (snd si) ?w2 = pid" by (simp add: js_popen_get_pid_for_fd_def)
  moreover have "wasm_popen h (Some cmd) ''w'' w = Some (Inr (Some (snd si), ?w2))"
    using three fd op by (simp add: wasm_popen_def Let_def)
  moreover obtain st w3 where "wrap_pclose h (snd si) ?w2 = (st, w3)" "pclose_ret w3 = Some st"
      "st = fst (js_waitpid h pid ((js_popen_clear_pid_for_fd (snd si) ?w2)\<lparr>fds := snd (fd_close (snd si) (fds ?w2))\<rparr>))"
    using pid get by (cases "js_waitpid h pid ((js_popen_clear_pid_for_fd (snd si) ?w2)\<lparr>fds := snd (fd_close (snd si) (fds ?w2))\<rparr>)")
      (simp add: wrap_pclose_def wasm_pclose_def Let_def js_popen_clear_pid_for_fd_def)
  ultimately show ?thesis by blast
qed

section \<open>Properties\<close>

text \<open>
  C14: the table of processes stays consistent whatever \<^verbatim>\<open>popen\<close> and \<^verbatim>\<open>pclose\<close> do: one entry per process, and
  each descriptor noted in it is open and noted for one process only. So a stream from
  \<^verbatim>\<open>popen(cmd, "w")\<close> is found again: \<^verbatim>\<open>pclose\<close> waits for the process that this \<^verbatim>\<open>popen\<close> started and returns its
  status.
\<close>

theorem process_table_invariant:
  assumes "host_ok h" and "table_ok w"
  shows "(\<forall>cmd mode r w1. wasm_popen h cmd mode w = Some (Inr (r, w1)) \<longrightarrow> table_ok w1) \<and>
    table_ok (snd (wasm_pclose h fp w)) \<and>
    (\<forall>si so se t cmd pid w1. three_pipes h (fds w) = (Some (si, so, se), t) \<longrightarrow> fdopen_ok h (snd si) \<longrightarrow>
       js_open_process h cmd [(0, fst si, snd si), (1, fst so, snd so), (2, fst se, snd se)] (w\<lparr>fds := t\<rparr>) = (pid, w1) \<longrightarrow>
       0 < pid \<longrightarrow>
       (\<exists>w2 w3 st. wasm_popen h (Some cmd) ''w'' w = Some (Inr (Some (snd si), w2)) \<and>
          js_popen_get_pid_for_fd (snd si) w2 = pid \<and>
          wrap_pclose h (snd si) w2 = (st, w3) \<and> pclose_ret w3 = Some st \<and>
          st = fst (js_waitpid h pid ((js_popen_clear_pid_for_fd (snd si) w2)\<lparr>fds := snd (fd_close (snd si) (fds w2))\<rparr>))))"
  using popen_keeps_table [OF assms] pclose_keeps_table [OF assms] popen_found [OF assms] by blast

text \<open>
  C25: running a command from end to end. When the process writes \<open>bs\<close> and exits with \<open>code\<close>, the exec family
  returns that code, as a byte, with the output \<open>bs\<close> delivered according to the type of the call.
\<close>

theorem wasm_php_exec_result:
  assumes "php_file ops contents offset" and "spawnProcess h cmd = Spawned es" and "await_exit es = Some (bs, code)" and "cmd \<noteq> []"
    and "\<forall>fd w f c. fd_get (fds w) fd = Some f \<longrightarrow> files w f = Some c \<longrightarrow>
      contents (fopen_from_pipe fd w) = c \<and> offset (fopen_from_pipe fd w) = 0"
    and "\<forall>s. close_stream s = -1" and "2 \<le> N" and "length bs < 2 ^ 32"
    and "bs = [] \<or> last bs = newline \<or> (\<forall>s. contents s = bs \<longrightarrow> offset s = length bs \<longrightarrow> stream_eof ops s)"
  shows "\<exists>out arr w'. wasm_php_exec h ops fopen_from_pipe close_stream N level type cmd array w =
      Some (Inr (Some (code mod 256), if type = 3 then RetUntouched else RetString (if bs = [] then [] else rstrip (last (lines bs))),
        out, arr, w')) \<and>
    written out = (if type = 1 \<or> type = 3 then bs else []) \<and>
    arr = array @ (if type = 2 then map rstrip (lines bs) else [])"
proof -
  obtain fd w1 where w1: "wasm_popen h (Some cmd) ''r'' w = Some (Inr (Some fd, w1))" "0 \<le> fd"
      "fds w1 = fd_put (fds w) (nat fd) (Some outputPath)" "files w1 = (files w)(outputPath \<mapsto> bs)" "pclose_ret w1 = Some (code mod 256)"
    using popen_read_ok [OF assms(2-4)] by blast
  have "fd_get (fds w1) fd = Some outputPath" "files w1 outputPath = Some bs" using w1(2-4) by (simp_all add: fd_get_put)
  then have s: "contents (fopen_from_pipe fd w1) = bs" "offset (fopen_from_pipe fd w1) = 0" using assms(5) by blast+
  show ?thesis using exec_output_complete [OF assms(1) s assms(7-9), of type level array] w1(1,5) assms(6)
    by (auto simp: wasm_php_exec_def)
qed


text \<open>
  All read pipes share one file. Opening a second one replaces the output of the first, whose
  stream, still open, then reads the other command's output.
\<close>

theorem popen_shares_output:
  assumes "spawnProcess h cmd1 = Spawned es1" and "await_exit es1 = Some (bs1, code1)" and "cmd1 \<noteq> []"
    and "spawnProcess h cmd2 = Spawned es2" and "await_exit es2 = Some (bs2, code2)" and "cmd2 \<noteq> []"
  shows "\<exists>fd1 w1 fd2 w2 f. wasm_popen h (Some cmd1) ''r'' w = Some (Inr (Some fd1, w1)) \<and>
    wasm_popen h (Some cmd2) ''r'' w1 = Some (Inr (Some fd2, w2)) \<and> fd1 \<noteq> fd2 \<and>
    fd_get (fds w2) fd1 = Some f \<and> files w2 f = Some bs2"
proof -
  obtain fd1 w1 where w1: "wasm_popen h (Some cmd1) ''r'' w = Some (Inr (Some fd1, w1))" "0 \<le> fd1"
      "fds w1 = fd_put (fds w) (nat fd1) (Some outputPath)"
    using popen_read_ok [OF assms(1-3)] by blast
  obtain fd2 w2 where w2: "wasm_popen h (Some cmd2) ''r'' w1 = Some (Inr (Some fd2, w2))" "fd_get (fds w1) fd2 = None" "0 \<le> fd2"
      "fds w2 = fd_put (fds w1) (nat fd2) (Some outputPath)" "files w2 = (files w1)(outputPath \<mapsto> bs2)"
    using popen_read_ok [OF assms(4-6)] by blast
  have fd1: "fd_get (fds w1) fd1 = Some outputPath" using w1(2,3) by (simp add: fd_get_put)
  then have "fd1 \<noteq> fd2" using w2(2) by auto
  then show ?thesis using w1(1) w2 fd1 by (auto simp: fd_get_put)
qed

section \<open>Instances\<close>

definition demo_host :: host where
  "demo_host = \<lparr>spawnProcess = (\<lambda>cmd. if cmd = ''fail'' then SpawnThrows ''SPAWN_UNSUPPORTED''
       else Spawned [Stdout cmd, Stdout [newline], ExitEvent 7]),
     pipe_ok = (\<lambda>t. True), fdopen_ok = (\<lambda>fd. True),
     js_open_process = (\<lambda>cmd dv w. (1 + fold max (map fst (processTable w)) 0,
       w\<lparr>processTable := insort_key fst (1 + fold max (map fst (processTable w)) 0, None)
           (filter (\<lambda>(p, f). p \<noteq> 1 + fold max (map fst (processTable w)) 0) (processTable w))\<rparr>)),
     js_waitpid = (\<lambda>pid w. (9, w)), real_pclose = (\<lambda>fd w. (-1, w\<lparr>fds := snd (fd_close fd (fds w))\<rparr>))\<rparr>"

definition demo_world :: world where
  "demo_world = \<lparr>files = Map.empty, fds = [Some ''in'', Some ''out'', Some ''err''], processTable = [], pclose_ret = None, errno = 0\<rparr>"

lemma fold_max_pos: "0 \<le> fold max xs (0 :: int)"
proof -
  have "m \<le> fold max xs m" for m :: int by (induction xs arbitrary: m) (simp, metis fold_simps(2) max.coboundedI2 order_trans max.cobounded2)
  then show ?thesis .
qed

lemma demo_host_ok: "host_ok demo_host"
proof -
  have "0 < 1 + fold max xs (0 :: int)" for xs using fold_max_pos [of xs] by linarith
  then show ?thesis by (simp add: host_ok_def demo_host_def)
qed

theorem process_table_invariant_witness:
  "\<exists>w2. wasm_popen demo_host (Some ''cat'') ''w'' demo_world = Some (Inr (Some 8, w2)) \<and> js_popen_get_pid_for_fd 8 w2 = 1 \<and>
    fst (wrap_pclose demo_host 8 w2) = 9"
proof -
  have ok: "table_ok demo_world" by (simp add: table_ok_def demo_world_def)
  have t: "three_pipes demo_host (fds demo_world) = (Some ((7, 8), (3, 4), (5, 6)),
      [Some ''in'', Some ''out'', Some ''err'', Some ''pipe'', Some ''pipe'', Some ''pipe'', Some ''pipe'', Some ''pipe'', Some ''pipe''])"
    by code_simp
  have w: "js_waitpid demo_host p w = (9, w)" for p w by (simp add: demo_host_def)
  from process_table_invariant [OF demo_host_ok ok, of 0] t show ?thesis
    by (fastforce simp: w demo_host_def demo_world_def)
qed

theorem wasm_php_exec_result_witness:
  "\<exists>out w'. wasm_php_exec demo_host mem_ops (\<lambda>fd w. \<lparr>mf_data = the (files w (the (fd_get (fds w) fd))), mf_pos = 0\<rparr>) (\<lambda>s. -1) 4096 0 2 ''hello'' [] demo_world =
    Some (Inr (Some 7, RetString ''hello'', out, [''hello''], w'))"
proof -
  have "spawnProcess demo_host ''hello'' = Spawned [Stdout ''hello'', Stdout [newline], ExitEvent 7]"
    by (simp add: demo_host_def)
  moreover have "await_exit [Stdout ''hello'', Stdout [newline], ExitEvent 7] = Some (''hello'' @ [newline], 7)" by simp
  moreover have "lines (''hello'' @ [newline]) = [''hello'' @ [newline]]" "rstrip (''hello'' @ [newline]) = ''hello''" by code_simp+
  ultimately show ?thesis
    using wasm_php_exec_result [OF memory.php_file_axioms, of demo_host "''hello''" "[Stdout ''hello'', Stdout [newline], ExitEvent 7]"
        "''hello'' @ [newline]" 7 "\<lambda>fd w. \<lparr>mf_data = the (files w (the (fd_get (fds w) fd))), mf_pos = 0\<rparr>" "\<lambda>s. -1" 4096 0 2 "[]" demo_world]
    by auto
qed


theorem popen_shares_output_witness:
  "\<exists>fd1 w1 fd2 w2 f. wasm_popen demo_host (Some ''a'') ''r'' demo_world = Some (Inr (Some fd1, w1)) \<and>
    wasm_popen demo_host (Some ''b'') ''r'' w1 = Some (Inr (Some fd2, w2)) \<and> fd_get (fds w2) fd1 = Some f \<and>
    files w2 f = Some (''b'' @ [newline])"
proof -
  have "spawnProcess demo_host [c] = Spawned [Stdout [c], Stdout [newline], ExitEvent 7]"
    "await_exit [Stdout [c], Stdout [newline], ExitEvent 7] = Some ([c] @ [newline], 7)" for c by (simp_all add: demo_host_def)
  from popen_shares_output [OF this [of "CHR ''a''"] _ this [of "CHR ''b''"], of demo_world] show ?thesis by auto
qed

end
