(* ===== verification/ProcEnv.thy ===== *)
theory ProcEnv
  imports Prelude
begin

text \<open>
  The values of PHP that \<^verbatim>\<open>compile/php/proc_open.c\<close> takes apart, and the block of environment strings that
  \<^verbatim>\<open>_php_array_to_envp\<close> builds from a PHP array: one buffer with all strings and an array of pointers into
  it. A pointer into the buffer is its offset; a copy that leaves the buffer, or a pointer stored
  behind the array, is a fault. An array is the list of its elements in order. How the PHP core turns a
  value into a string is a parameter.
\<close>

datatype zkey = Index int | Key string

datatype zval = ZNull | ZLong int | ZString bytes | ZArray "(zkey \<times> zval) list" | ZResource nat

datatype proc_fault =
    BlockOverrun \<comment> \<open>a write behind the end of an allocated block\<close>
  | FreeIndeterminate \<comment> \<open>\<^verbatim>\<open>efree\<close> of a pointer that was never stored\<close>
  | UseIndeterminate \<comment> \<open>a decision on a variable that was never assigned\<close>

record php_process_env_t =
  envp :: "bytes option"
  envarray :: "nat option list option"

definition no_env :: php_process_env_t where
  "no_env = \<lparr>envp = None, envarray = None\<rparr>"

definition memcpy_at :: "nat \<Rightarrow> bytes \<Rightarrow> bytes \<Rightarrow> proc_fault + bytes" where
  "memcpy_at p s b = (if p + length s \<le> length b then Inr (take p b @ s @ drop (p + length s) b) else Inl BlockOverrun)"

text \<open>\<^verbatim>\<open>zend_hash_add_ptr\<close> leaves an element that is already there.\<close>

type_synonym env_hash = "(string option \<times> bytes) list"

definition hash_add :: "string \<Rightarrow> bytes \<Rightarrow> env_hash \<Rightarrow> env_hash" where
  "hash_add key str h = (if Some key \<in> fst ` set h then h else h @ [(Some key, str)])"

fun size_loop :: "(zval \<Rightarrow> bytes) \<Rightarrow> (zkey \<times> zval) list \<Rightarrow> nat \<Rightarrow> env_hash \<Rightarrow> nat \<times> env_hash" where
  "size_loop zstr [] sizeenv h = (sizeenv, h)"
| "size_loop zstr ((k, element) # es) sizeenv h =
     (let str = zstr element
      in if length str = 0 then size_loop zstr es sizeenv h
         else (case k of
                 Key key \<Rightarrow>
                   if length key \<noteq> 0
                   then size_loop zstr es (sizeenv + (length str + 1) + (length key + 1)) (hash_add key str h)
                   else size_loop zstr es (sizeenv + (length str + 1)) (h @ [(None, str)])
               | Index _ \<Rightarrow> size_loop zstr es (sizeenv + (length str + 1)) (h @ [(None, str)])))"

fun write_loop :: "env_hash \<Rightarrow> nat \<Rightarrow> nat \<Rightarrow> nat option list \<Rightarrow> bytes \<Rightarrow> proc_fault + nat option list \<times> bytes" where
  "write_loop [] ep p arr b = Inr (arr, b)"
| "write_loop ((key, str) # es) ep p arr b =
     (if length arr \<le> ep then Inl BlockOverrun
      else rbind (case key of None \<Rightarrow> Inr (p, b)
                  | Some k \<Rightarrow> rbind (memcpy_at p k b) (\<lambda>b1.
                      rbind (memcpy_at (p + length k) ''='' b1) (\<lambda>b2. Inr (p + length k + 1, b2)))) (\<lambda>(p1, b1).
           rbind (memcpy_at p1 str b1) (\<lambda>b2.
           rbind (memcpy_at (p1 + length str) [nul] b2) (\<lambda>b3.
           write_loop es (ep + 1) (p1 + length str + 1) (arr[ep := Some p]) b3))))"

definition php_array_to_envp :: "(zval \<Rightarrow> bytes) \<Rightarrow> (zkey \<times> zval) list option \<Rightarrow> proc_fault + php_process_env_t" where
  "php_array_to_envp zstr environment =
     (case environment of
        None \<Rightarrow> Inr no_env
      | Some a \<Rightarrow>
          let cnt = length a
          in if cnt < 1 then Inr \<lparr>envp = Some (replicate 4 nul), envarray = Some [None]\<rparr>
             else let (sizeenv, env_hash) = size_loop zstr a 0 []
                  in rbind (write_loop env_hash 0 0 (replicate (cnt + 1) None) (replicate (sizeenv + 4) nul))
                       (\<lambda>(arr, b). Inr \<lparr>envp = Some b, envarray = Some arr\<rparr>))"

section \<open>What the block says\<close>

text \<open>The reader of such an array follows the pointers up to the first NULL and takes a C string at each.\<close>

definition read_envarray :: "php_process_env_t \<Rightarrow> string list option" where
  "read_envarray env = (case (envarray env, envp env) of
       (Some arr, Some b) \<Rightarrow> Some (map (\<lambda>p. cstr (drop (the p) b)) (takeWhile (\<lambda>p. p \<noteq> None) arr))
     | _ \<Rightarrow> None)"

definition env_text :: "string option \<times> bytes \<Rightarrow> bytes" where
  "env_text e = (case fst e of None \<Rightarrow> snd e | Some k \<Rightarrow> k @ CHR ''='' # snd e)"

text \<open>The strings meant: \<^verbatim>\<open>key=value\<close>, or the value alone without a key, for the values that are not empty.\<close>

fun env_strings :: "(zval \<Rightarrow> bytes) \<Rightarrow> (zkey \<times> zval) list \<Rightarrow> bytes list" where
  "env_strings zstr [] = []"
| "env_strings zstr ((k, v) # es) =
     (if zstr v = [] then env_strings zstr es
      else (case k of Key (c # cs) \<Rightarrow> (c # cs) @ CHR ''='' # zstr v | _ \<Rightarrow> zstr v) # env_strings zstr es)"

section \<open>The loops\<close>

abbreviation stored :: "env_hash \<Rightarrow> bytes list" where
  "stored h \<equiv> map (\<lambda>e. env_text e @ [nul]) h"

fun offsets :: "nat \<Rightarrow> bytes list \<Rightarrow> nat list" where
  "offsets p [] = []"
| "offsets p (t # ts) = p # offsets (p + length t) ts"

lemma length_offsets [simp]: "length (offsets p ts) = length ts"
  by (induction ts arbitrary: p) auto

lemma memcpy_append:
  "rbind (memcpy_at p s b) (\<lambda>b1. rbind (memcpy_at (p + length s) t b1) K) = rbind (memcpy_at p (s @ t) b) K"
proof (cases "p + length s \<le> length b")
  case True
  then have "length (take p b @ s @ drop (p + length s) b) = length b" by simp
  moreover have "take (p + length s) (take p b @ s @ drop (p + length s) b) = take p b @ s" using True by simp
  moreover have "drop (p + length s + length t) (take p b @ s @ drop (p + length s) b) = drop (p + length (s @ t)) b"
    using True by (simp add: ac_simps)
  ultimately show ?thesis using True by (simp add: memcpy_at_def add.assoc)
qed (simp add: memcpy_at_def)

lemma write_entry:
  assumes "ep < length arr" "p + length (env_text e @ [nul]) \<le> length b"
  shows "write_loop (e # es) ep p arr b =
    write_loop es (ep + 1) (p + length (env_text e @ [nul])) (arr[ep := Some p])
      (take p b @ (env_text e @ [nul]) @ drop (p + length (env_text e @ [nul])) b)"
proof -
  have "write_loop (e # es) ep p arr b = rbind (memcpy_at p (env_text e @ [nul]) b)
      (write_loop es (ep + 1) (p + length (env_text e @ [nul])) (arr[ep := Some p]))"
  proof (cases e)
    case (Pair key str)
    show ?thesis
    proof (cases key)
      case None
      then show ?thesis using assms(1) Pair by (simp add: env_text_def memcpy_append)
    next
      case (Some k)
      have "rbind (memcpy_at p k b) (\<lambda>b1. rbind (memcpy_at (p + length k) ''='' b1) (\<lambda>b2.
          rbind (memcpy_at (p + length k + 1) str b2) (\<lambda>b3. rbind (memcpy_at (p + length k + 1 + length str) [nul] b3) K))) =
        rbind (memcpy_at p (k @ ''='' @ str @ [nul]) b) K" for K
        unfolding memcpy_append [of p k b "''=''"]
        using memcpy_append [of p "k @ ''=''" b str "\<lambda>b3. rbind (memcpy_at (p + length k + 1 + length str) [nul] b3) K"]
          memcpy_append [of p "k @ ''='' @ str" b "[nul]" K]
        by (simp add: ac_simps)
      then show ?thesis using assms(1) Pair Some by (simp add: env_text_def rbind_assoc add.assoc)
    qed
  qed
  then show ?thesis using assms(2) by (simp add: memcpy_at_def)
qed

lemma write_loop_ok:
  assumes "ep + length h \<le> length arr" "p + length (concat (stored h)) \<le> length b"
  shows "write_loop h ep p arr b =
    Inr (take ep arr @ map Some (offsets p (stored h)) @ drop (ep + length h) arr,
         take p b @ concat (stored h) @ drop (p + length (concat (stored h))) b)"
  using assms
proof (induction h arbitrary: ep p arr b)
  case (Cons e h)
  let ?t = "env_text e @ [nul]"
  let ?b = "take p b @ ?t @ drop (p + length ?t) b"
  have b: "take (p + length ?t) ?b = take p b @ ?t"
    "drop (p + length ?t + n) ?b = drop (p + length ?t + n) b" for n
    using Cons.prems(2) by (simp_all add: ac_simps)
  have "write_loop (e # h) ep p arr b = write_loop h (ep + 1) (p + length ?t) (arr[ep := Some p]) ?b"
    by (rule write_entry) (use Cons.prems in simp_all)
  also have "\<dots> = Inr (take (ep + 1) (arr[ep := Some p]) @ map Some (offsets (p + length ?t) (stored h)) @ drop (ep + 1 + length h) (arr[ep := Some p]),
      take (p + length ?t) ?b @ concat (stored h) @ drop (p + length ?t + length (concat (stored h))) ?b)"
    by (rule Cons.IH) (use Cons.prems in simp_all)
  also have "take (ep + 1) (arr[ep := Some p]) = take ep arr @ [Some p]"
    using Cons.prems(1) by (simp add: take_Suc_conv_app_nth)
  also have "drop (ep + 1 + length h) (arr[ep := Some p]) = drop (ep + length (e # h)) arr"
    by simp
  finally show ?case unfolding b by (simp add: ac_simps)
qed simp

lemma size_loop_ok:
  assumes "distinct (map fst es)" "\<forall>k \<in> fst ` set es. case k of Key s \<Rightarrow> Some s \<notin> fst ` set h | Index _ \<Rightarrow> True"
  shows "\<exists>h'. size_loop zstr es n h = (n + length (concat (stored h')), h @ h') \<and> map env_text h' = env_strings zstr es \<and> length h' \<le> length es"
  using assms
proof (induction es arbitrary: n h)
  case (Cons x es)
  obtain k v where x: "x = (k, v)" by (cases x)
  have next_ok: "\<forall>k' \<in> fst ` set es. case k' of Key s \<Rightarrow> Some s \<notin> fst ` set (h @ [e]) | Index _ \<Rightarrow> True"
    if "fst e = None \<or> Key (the (fst e)) = k" for e
  proof
    fix k' assume k': "k' \<in> fst ` set es"
    then have "k' \<noteq> k" using Cons.prems(1) x by auto
    then show "case k' of Key s \<Rightarrow> Some s \<notin> fst ` set (h @ [e]) | Index _ \<Rightarrow> True"
    proof (cases k')
      case (Key s)
      have "k' \<in> fst ` set (x # es)" using k' by simp
      from bspec [OF Cons.prems(2) this] have "Some s \<notin> fst ` set h" by (simp add: Key)
      moreover have "fst e \<noteq> Some s" using that Key \<open>k' \<noteq> k\<close> by auto
      ultimately show ?thesis using Key by auto
    qed simp
  qed
  show ?case
  proof (cases "zstr v = []")
    case True
    have "\<exists>h'. size_loop zstr es n h = (n + length (concat (stored h')), h @ h') \<and> map env_text h' = env_strings zstr es \<and> length h' \<le> length es"
      by (rule Cons.IH) (use Cons.prems in auto)
    then show ?thesis using True x le_SucI by fastforce
  next
    case False
    define e where "e = (case k of Key (c # cs) \<Rightarrow> Some (c # cs) | _ \<Rightarrow> None, zstr v)"
    have e: "fst e = None \<or> Key (the (fst e)) = k" by (auto simp: e_def split: zkey.splits list.splits)
    obtain h' where h': "size_loop zstr es (n + length (env_text e @ [nul])) (h @ [e]) =
        (n + length (env_text e @ [nul]) + length (concat (stored h')), (h @ [e]) @ h')" "map env_text h' = env_strings zstr es" "length h' \<le> length es"
      using Cons.IH [OF _ next_ok [OF e], of "n + length (env_text e @ [nul])"] Cons.prems(1) by auto
    have "size_loop zstr (x # es) n h = size_loop zstr es (n + length (env_text e @ [nul])) (h @ [e])"
      using False x Cons.prems(2)
      by (auto simp: e_def env_text_def hash_add_def ac_simps Let_def split: zkey.splits list.splits)
    moreover have "env_strings zstr (x # es) = env_text e # env_strings zstr es"
      using False x by (auto simp: e_def env_text_def split: zkey.splits list.splits)
    ultimately show ?thesis using h' by (intro exI [of _ "e # h'"]) simp
  qed
qed simp

lemma cstr_nul: "cstr (s @ nul # r) = cstr s"
  by (induction s) (auto simp: cstr_def)

lemma read_offsets:
  "map (\<lambda>p. cstr (drop p (pre @ concat (stored h) @ post))) (offsets (length pre) (stored h)) = map (cstr \<circ> env_text) h"
proof (induction h arbitrary: pre)
  case (Cons e h)
  from Cons.IH [of "pre @ env_text e @ [nul]"] show ?case by (simp add: cstr_nul)
qed simp

lemma envp_written:
  assumes "distinct (map fst a)"
  shows "\<exists>env. php_array_to_envp zstr (Some a) = Inr env \<and> read_envarray env = Some (map cstr (env_strings zstr a))"
proof (cases "a = []")
  case True
  then show ?thesis by (simp add: php_array_to_envp_def read_envarray_def)
next
  case False
  obtain h where h: "size_loop zstr a 0 [] = (length (concat (stored h)), h)" "map env_text h = env_strings zstr a" "length h \<le> length a"
    using size_loop_ok [of a "[]" zstr 0] assms by (fastforce split: zkey.splits)
  let ?arr = "replicate (length a + 1) (None :: nat option)"
  let ?b = "concat (stored h) @ replicate 4 nul"
  have "write_loop h 0 0 ?arr (replicate (length (concat (stored h)) + 4) nul) =
      Inr (map Some (offsets 0 (stored h)) @ drop (length h) ?arr, ?b)"
    using h(3) by (subst write_loop_ok) (simp_all add: drop_replicate)
  then have env: "php_array_to_envp zstr (Some a) =
      Inr \<lparr>envp = Some ?b, envarray = Some (map Some (offsets 0 (stored h)) @ drop (length h) ?arr)\<rparr>"
    using False h(1) by (simp add: php_array_to_envp_def)
  have "drop (length h) ?arr = None # replicate (length a - length h) None"
    using h(3) by (metis Suc_diff_le Suc_eq_plus1 drop_replicate replicate_Suc)
  then have "takeWhile (\<lambda>p. p \<noteq> None) (drop (length h) ?arr) = []" by (simp only: takeWhile.simps not_True_eq_False if_False refl)
  then have "takeWhile (\<lambda>p. p \<noteq> None) (map Some (offsets 0 (stored h)) @ drop (length h) ?arr) = map Some (offsets 0 (stored h))"
    by (subst takeWhile_append2) auto
  then show ?thesis using env read_offsets [of "[]" h "replicate 4 nul"] h(2)
    by (simp add: read_envarray_def comp_def map_map [symmetric, of cstr env_text, unfolded comp_def] del: map_map drop_append) (simp add: comp_def)
qed

section \<open>Properties\<close>

text \<open>
  C16: the block of environment strings is what the array says. For an array with distinct keys, as
  every PHP array has, the two passes agree on the sizes: nothing is written outside the two blocks, the
  array of pointers ends with NULL, and following the pointers gives, in the order of the array, the
  string \<^verbatim>\<open>key=value\<close> of each element whose value is not empty (its value alone when it has no key), up to its
  first NUL byte.
\<close>

theorem array_to_envp_strings:
  assumes "distinct (map fst a)"
  shows "\<exists>env. php_array_to_envp zstr (Some a) = Inr env \<and> read_envarray env = Some (map cstr (env_strings zstr a))"
  using assms by (rule envp_written)

theorem array_to_envp_strings_witness:
  "\<exists>env. php_array_to_envp (\<lambda>v. case v of ZString s \<Rightarrow> s | _ \<Rightarrow> [])
      (Some [(Key ''PATH'', ZString ''/bin''), (Key ''EMPTY'', ZString []), (Index 0, ZString ''plain'')]) = Inr env \<and>
    read_envarray env = Some [''PATH=/bin'', ''plain'']"
proof -
  have "map cstr (env_strings (\<lambda>v. case v of ZString s \<Rightarrow> s | _ \<Rightarrow> [])
      [(Key ''PATH'', ZString ''/bin''), (Key ''EMPTY'', ZString []), (Index 0, ZString ''plain'')]) = [''PATH=/bin'', ''plain'']"
    by code_simp
  then show ?thesis
    using array_to_envp_strings [of "[(Key ''PATH'', ZString ''/bin''), (Key ''EMPTY'', ZString []), (Index 0, ZString ''plain'')]"
        "\<lambda>v. case v of ZString s \<Rightarrow> s | _ \<Rightarrow> []"] by simp
qed

end
