(* ===== verification/ProcOpen.thy ===== *)
theory ProcOpen
  imports ProcEnv FdTable "HOL-Library.Countable"
begin

text \<open>
  \<^verbatim>\<open>proc_open\<close>, \<^verbatim>\<open>proc_close\<close>, \<^verbatim>\<open>proc_terminate\<close> and \<^verbatim>\<open>proc_get_status\<close> of \<^verbatim>\<open>compile/php/proc_open.c\<close>, in the version for
  PHP 7 and later.

  The arrays that the code allocates without clearing them are lists of cells: a cell is \<open>Unset\<close> until
  something is stored in it. Storing behind the end, freeing an unset cell and branching on an unset
  variable are faults. The state has the descriptor table, the registered processes, the globals
  \<^verbatim>\<open>FG(pclose_ret)\<close> and \<^verbatim>\<open>FG(pclose_wait)\<close>, and an outer part for all that lies behind the calls into the PHP core and
  JavaScript, which are the fields of \<open>proc_core\<close>. Warnings are not modelled, nor is the conversion in
  place of the caller's values that \<^verbatim>\<open>try_convert_to_string\<close> does.
\<close>

datatype 'a cell = Unset | Null | Ptr 'a

record php_process_handle =
  child :: int
  npipes :: nat
  pipes :: "nat cell list"
  handle_command :: string
  handle_env :: php_process_env_t

record 'w proc_state =
  table :: fdtab
  procs :: "(nat \<times> php_process_handle) list"
  next_resource :: nat
  pclose_ret :: int
  pclose_wait :: bool
  errno :: int
  procopen_call_id :: int
  outer :: 'w

type_synonym desc = "int \<times> int \<times> int"

record 'w proc_core =
  zval_get_string :: "zval \<Rightarrow> bytes option"
  try_convert_to_string :: "zval \<Rightarrow> bytes option"
  convert_to_string :: "zval \<Rightarrow> bytes"
  is_stream :: "nat \<Rightarrow> 'w proc_state \<Rightarrow> bool"
  stream_cast :: "nat \<Rightarrow> 'w proc_state \<Rightarrow> int option"
  open_wrapper :: "string \<Rightarrow> string \<Rightarrow> 'w proc_state \<Rightarrow> int option \<times> 'w proc_state" \<comment> \<open>opens a stream and casts it to a descriptor\<close>
  pipe_ok :: "fdtab \<Rightarrow> bool"
  can_open :: "string \<Rightarrow> bool"
  js_open_process :: "string \<Rightarrow> string cell list option \<Rightarrow> nat \<Rightarrow> desc cell list \<Rightarrow> nat \<Rightarrow> string option \<Rightarrow>
     php_process_env_t \<Rightarrow> nat \<Rightarrow> 'w proc_state \<Rightarrow> int \<times> 'w proc_state"
  try_array_init :: bool
  fopen_from_fd :: "int \<Rightarrow> string \<Rightarrow> 'w proc_state \<Rightarrow> nat option \<times> 'w proc_state"
  list_close :: "nat \<Rightarrow> 'w proc_state \<Rightarrow> 'w proc_state"
  js_waitpid :: "int \<Rightarrow> 'w proc_state \<Rightarrow> int \<times> int option \<times> 'w proc_state" \<comment> \<open>result, and the status if one is written\<close>
  js_process_status :: "int \<Rightarrow> 'w proc_state \<Rightarrow> int \<times> int option"
  kill :: "int \<Rightarrow> int \<Rightarrow> 'w proc_state \<Rightarrow> int \<times> 'w proc_state"

definition store_cell :: "nat \<Rightarrow> 'a cell \<Rightarrow> 'a cell list \<Rightarrow> proc_fault + 'a cell list" where
  "store_cell i c cs = (if i < length cs then Inr (cs[i := c]) else Inl BlockOverrun)"

fun efree_cells :: "'a cell list \<Rightarrow> proc_fault + unit" where
  "efree_cells [] = Inr ()"
| "efree_cells (Unset # cs) = Inl FreeIndeterminate"
| "efree_cells (c # cs) = efree_cells cs"

definition efree_array :: "'a cell list option \<Rightarrow> proc_fault + unit" where
  "efree_array a = (case a of None \<Rightarrow> Inr () | Some cs \<Rightarrow> efree_cells cs)"

section \<open>The process resource\<close>

fun close_pipes :: "'w proc_core \<Rightarrow> nat cell list \<Rightarrow> 'w proc_state \<Rightarrow> proc_fault + 'w proc_state" where
  "close_pipes core [] st = Inr st"
| "close_pipes core (Unset # cs) st = Inl UseIndeterminate"
| "close_pipes core (Null # cs) st = close_pipes core cs st"
| "close_pipes core (Ptr r # cs) st = close_pipes core cs (list_close core r st)"

definition EINTR :: int where "EINTR = 27"

text \<open>The loop repeats an interrupted wait; the status variable keeps what an earlier turn wrote.\<close>

partial_function (option) wait_loop ::
    "'w proc_core \<Rightarrow> int \<Rightarrow> int option \<Rightarrow> 'w proc_state \<Rightarrow> (int \<times> int option \<times> 'w proc_state) option" where
  "wait_loop core pid wstatus st =
     (case js_waitpid core pid st of (wait_pid, written, st1) \<Rightarrow>
       if wait_pid = -1 \<and> errno st1 = EINTR then wait_loop core pid (case written of None \<Rightarrow> wstatus | Some v \<Rightarrow> Some v) st1
       else Some (wait_pid, (case written of None \<Rightarrow> wstatus | Some v \<Rightarrow> Some v), st1))"

definition WIFEXITED :: "int \<Rightarrow> bool" where
  "WIFEXITED s \<longleftrightarrow> s AND 0x7f = 0"

definition WEXITSTATUS :: "int \<Rightarrow> int" where
  "WEXITSTATUS s = drop_bit 8 (s AND 0xff00)"

definition proc_open_rsrc_dtor :: "'w proc_core \<Rightarrow> php_process_handle \<Rightarrow> 'w proc_state \<Rightarrow> (proc_fault + 'w proc_state) option" where
  "proc_open_rsrc_dtor core proc st =
     (case close_pipes core (take (npipes proc) (pipes proc)) st of
        Inl f \<Rightarrow> Some (Inl f)
      | Inr st1 \<Rightarrow>
          if \<not> pclose_wait st1 then Some (Inl UseIndeterminate)
          else map_option (\<lambda>(wait_pid, wstatus, st2).
                 if wait_pid \<le> 0 then Inr (st2\<lparr>pclose_ret := -1\<rparr>)
                 else (case wstatus of
                         None \<Rightarrow> Inl UseIndeterminate
                       | Some w \<Rightarrow> Inr (st2\<lparr>pclose_ret := (if WIFEXITED w then WEXITSTATUS w else w)\<rparr>)))
               (wait_loop core (child proc) None st1))"

text \<open>\<^verbatim>\<open>zend_list_close\<close> of a process runs the destructor and leaves the resource without a handle.\<close>

definition close_process :: "'w proc_core \<Rightarrow> nat \<Rightarrow> 'w proc_state \<Rightarrow> (proc_fault + 'w proc_state) option" where
  "close_process core r st =
     (case map_of (procs st) r of
        None \<Rightarrow> Some (Inr st)
      | Some proc \<Rightarrow>
          proc_open_rsrc_dtor core proc (st\<lparr>procs := filter (\<lambda>(q, _). q \<noteq> r) (procs st)\<rparr>))"

datatype php_result = ResFalse | ResTrue | ResLong int

definition SIGTERM :: int where "SIGTERM = 15"

definition proc_terminate :: "'w proc_core \<Rightarrow> nat \<Rightarrow> int option \<Rightarrow> 'w proc_state \<Rightarrow> php_result \<times> 'w proc_state" where
  "proc_terminate core r sig st =
     (case map_of (procs st) r of
        None \<Rightarrow> (ResFalse, st)
      | Some proc \<Rightarrow>
          let (k, st1) = kill core (child proc) (case sig of None \<Rightarrow> SIGTERM | Some s \<Rightarrow> s) st
          in if k = 0 then (ResTrue, st1) else (ResFalse, st1))"

definition proc_close :: "'w proc_core \<Rightarrow> nat \<Rightarrow> 'w proc_state \<Rightarrow> (proc_fault + php_result \<times> 'w proc_state) option" where
  "proc_close core r st =
     (case map_of (procs st) r of
        None \<Rightarrow> Some (Inr (ResFalse, st))
      | Some proc \<Rightarrow>
          map_option (\<lambda>x. rbind x (\<lambda>st1. Inr (ResLong (pclose_ret st1), st1\<lparr>pclose_wait := False\<rparr>)))
            (close_process core r (st\<lparr>pclose_wait := True\<rparr>)))"

record process_status =
  status_command :: string
  status_pid :: int
  running :: bool
  signaled :: bool
  stopped :: bool
  exitcode :: int
  termsig :: int
  stopsig :: int

definition proc_get_status :: "'w proc_core \<Rightarrow> nat \<Rightarrow> 'w proc_state \<Rightarrow> process_status option \<times> 'w proc_state" where
  "proc_get_status core r st =
     (case map_of (procs st) r of
        None \<Rightarrow> (None, st)
      | Some proc \<Rightarrow>
          let st1 = st\<lparr>errno := 0\<rparr>;
              (proc_status, code) = js_process_status core (child proc) st1
          in (Some \<lparr>status_command = handle_command proc, status_pid = child proc, running = proc_status \<noteq> 1, signaled = False,
                    stopped = (proc_status = 1), exitcode = (case code of None \<Rightarrow> -1 | Some c \<Rightarrow> c), termsig = 0, stopsig = 0\<rparr>, st1))"

section \<open>The command\<close>

definition get_valid_arg_string :: "'w proc_core \<Rightarrow> zval \<Rightarrow> bytes option" where
  "get_valid_arg_string core zv =
     (case zval_get_string core zv of
        None \<Rightarrow> None
      | Some str \<Rightarrow> if length (cstr str) \<noteq> length str then None else Some str)"

text \<open>The flag says whether the loop ran to its end; otherwise it left for \<^verbatim>\<open>exit_fail\<close>.\<close>

fun argv_loop :: "'w proc_core \<Rightarrow> zval list \<Rightarrow> nat \<Rightarrow> string option \<Rightarrow> string cell list \<Rightarrow> proc_fault + bool \<times> string option \<times> string cell list" where
  "argv_loop core [] i cmd argv = Inr (True, cmd, argv)"
| "argv_loop core (z # zs) i cmd argv =
     (case get_valid_arg_string core z of
        None \<Rightarrow> rbind (store_cell i Null argv) (\<lambda>argv. Inr (False, cmd, argv))
      | Some s \<Rightarrow>
          if i = 0 then argv_loop core zs (i + 1) (Some s) argv
          else rbind (store_cell (i - 1) (Ptr s) argv) (argv_loop core zs (i + 1) cmd))"

datatype parsed_command = CommandFalse | CommandFail "string cell list" | Command string "string cell list option"

definition parse_command :: "'w proc_core \<Rightarrow> zval \<Rightarrow> proc_fault + parsed_command" where
  "parse_command core command_zv =
     (case command_zv of
        ZArray a \<Rightarrow>
          if length a = 0 then Inr CommandFalse
          else rbind (argv_loop core (map snd a) 0 None (replicate (length a - 1) Unset)) (\<lambda>(ok, cmd, argv).
                 Inr (if ok then Command (case cmd of None \<Rightarrow> [] | Some c \<Rightarrow> c) (Some argv) else CommandFail argv))
      | _ \<Rightarrow> Inr (Command (cstr (convert_to_string core command_zv)) None))"

section \<open>The descriptor specification\<close>

definition DESC_PIPE :: int where "DESC_PIPE = 1"
definition DESC_FILE :: int where "DESC_FILE = 2"
definition DESC_REDIRECT :: int where "DESC_REDIRECT = 3"
definition DESC_PARENT_MODE_WRITE :: int where "DESC_PARENT_MODE_WRITE = 8"

definition O_RDONLY :: int where "O_RDONLY = 0"
definition O_WRONLY :: int where "O_WRONLY = 1"
definition O_RDWR :: int where "O_RDWR = 2"

record php_proc_open_descriptor_item =
  index :: int
  parentend :: int
  childend :: int
  mode :: int
  mode_flags :: int

text \<open>The memory of an item is cleared before its fields are set.\<close>

definition zero_item :: "int \<Rightarrow> php_proc_open_descriptor_item" where
  "zero_item nindex = \<lparr>index = nindex, parentend = 0, childend = 0, mode = 0, mode_flags = 0\<rparr>"

datatype item_outcome = ExitFail | ReturnFalse | Item php_proc_open_descriptor_item

text \<open>An element of the item's array, converted to a string; \<^const>\<open>None\<close> when it is missing or does not convert.\<close>

definition string_at :: "'w proc_core \<Rightarrow> (zkey \<times> zval) list \<Rightarrow> int \<Rightarrow> bytes option" where
  "string_at core a i = (case map_of a (Index i) of None \<Rightarrow> None | Some z \<Rightarrow> try_convert_to_string core z)"

definition desc_resource :: "'w proc_core \<Rightarrow> int \<Rightarrow> nat \<Rightarrow> 'w proc_state \<Rightarrow> item_outcome \<times> 'w proc_state" where
  "desc_resource core nindex r st =
     (if \<not> is_stream core r st then (ReturnFalse, st)
      else (case stream_cast core r st of
              None \<Rightarrow> (ExitFail, st)
            | Some fd \<Rightarrow>
                let (c, t) = fd_dup fd (table st)
                in if c < 0 then (ExitFail, st\<lparr>table := t\<rparr>)
                   else (Item ((zero_item nindex)\<lparr>childend := c, mode := DESC_FILE\<rparr>), st\<lparr>table := t\<rparr>)))"

definition desc_pipe :: "'w proc_core \<Rightarrow> int \<Rightarrow> (zkey \<times> zval) list \<Rightarrow> 'w proc_state \<Rightarrow> item_outcome \<times> 'w proc_state" where
  "desc_pipe core nindex a st =
     (case string_at core a 1 of
        None \<Rightarrow> (ExitFail, st)
      | Some zmode \<Rightarrow>
          (case fd_pipe (pipe_ok core) (table st) of
             (None, t) \<Rightarrow> (ExitFail, st\<lparr>table := t\<rparr>)
           | (Some newpipe, t) \<Rightarrow>
               let it = (if \<not> strncmp_eq (cstr zmode) ''w'' 1
                         then (zero_item nindex)\<lparr>parentend := snd newpipe, childend := fst newpipe, mode := DESC_PIPE OR DESC_PARENT_MODE_WRITE\<rparr>
                         else (zero_item nindex)\<lparr>parentend := fst newpipe, childend := snd newpipe, mode := DESC_PIPE\<rparr>)
               in (Item (it\<lparr>mode_flags := (if mode it AND DESC_PARENT_MODE_WRITE \<noteq> 0 then O_WRONLY else O_RDONLY)\<rparr>), st\<lparr>table := t\<rparr>)))"

definition desc_file :: "'w proc_core \<Rightarrow> int \<Rightarrow> (zkey \<times> zval) list \<Rightarrow> 'w proc_state \<Rightarrow> item_outcome \<times> 'w proc_state" where
  "desc_file core nindex a st =
     (case string_at core a 1 of
        None \<Rightarrow> (ExitFail, st)
      | Some zfile \<Rightarrow>
          (case string_at core a 2 of
             None \<Rightarrow> (ExitFail, st)
           | Some zmode \<Rightarrow>
               (case open_wrapper core (cstr zfile) (cstr zmode) st of
                  (None, st1) \<Rightarrow> (ExitFail, st1)
                | (Some fd, st1) \<Rightarrow> (Item ((zero_item nindex)\<lparr>childend := fd, mode := DESC_FILE\<rparr>), st1))))"

text \<open>The redirection target is an earlier descriptor, or a standard stream adopted from the parent.\<close>

definition redirect_target :: "int \<Rightarrow> php_proc_open_descriptor_item list \<Rightarrow> int option" where
  "redirect_target ztarget descriptors =
     (case find (\<lambda>d. index d = ztarget) descriptors of
        Some d \<Rightarrow> Some (childend d)
      | None \<Rightarrow> if ztarget < 0 \<or> ztarget > 2 then None else Some ztarget)"

definition desc_redirect :: "int \<Rightarrow> (zkey \<times> zval) list \<Rightarrow> php_proc_open_descriptor_item list \<Rightarrow> 'w proc_state \<Rightarrow> item_outcome \<times> 'w proc_state" where
  "desc_redirect nindex a descriptors st =
     (case map_of a (Index 1) of
        Some (ZLong ztarget) \<Rightarrow>
          (case redirect_target ztarget descriptors of
             None \<Rightarrow> (ExitFail, st)
           | Some ce \<Rightarrow>
               let (c, t) = fd_dup ce (table st)
               in if c < 0 then (ExitFail, st\<lparr>table := t\<rparr>)
                  else (Item ((zero_item nindex)\<lparr>childend := c, mode := DESC_REDIRECT\<rparr>), st\<lparr>table := t\<rparr>))
      | _ \<Rightarrow> (ExitFail, st))"

definition desc_null :: "'w proc_core \<Rightarrow> int \<Rightarrow> 'w proc_state \<Rightarrow> item_outcome \<times> 'w proc_state" where
  "desc_null core nindex st =
     (let (c, t) = fd_open (can_open core) ''/dev/null'' (table st)
      in if c < 0 then (ExitFail, st\<lparr>table := t\<rparr>)
         else (Item ((zero_item nindex)\<lparr>childend := c, mode := DESC_FILE\<rparr>), st\<lparr>table := t\<rparr>))"

definition desc_item ::
    "'w proc_core \<Rightarrow> php_proc_open_descriptor_item list \<Rightarrow> zkey \<Rightarrow> zval \<Rightarrow> 'w proc_state \<Rightarrow> item_outcome \<times> 'w proc_state" where
  "desc_item core descriptors k descitem st =
     (case k of
        Key _ \<Rightarrow> (ExitFail, st)
      | Index nindex \<Rightarrow>
          (case descitem of
             ZResource r \<Rightarrow> desc_resource core nindex r st
           | ZArray a \<Rightarrow>
               (case string_at core a 0 of
                  None \<Rightarrow> (ExitFail, st)
                | Some ztype \<Rightarrow>
                    if cstr ztype = ''pipe'' then desc_pipe core nindex a st
                    else if cstr ztype = ''file'' then desc_file core nindex a st
                    else if cstr ztype = ''redirect'' then desc_redirect nindex a descriptors st
                    else if cstr ztype = ''null'' then desc_null core nindex st
                    else (ExitFail, st))
           | _ \<Rightarrow> (ExitFail, st)))"

datatype walk_outcome = WalkFail | WalkFalse | WalkDone

fun desc_walk ::
    "'w proc_core \<Rightarrow> (zkey \<times> zval) list \<Rightarrow> php_proc_open_descriptor_item list \<Rightarrow> desc cell list \<Rightarrow> 'w proc_state \<Rightarrow>
     proc_fault + walk_outcome \<times> php_proc_open_descriptor_item list \<times> desc cell list \<times> 'w proc_state" where
  "desc_walk core [] descriptors descv st = Inr (WalkDone, descriptors, descv, st)"
| "desc_walk core ((k, z) # spec) descriptors descv st =
     (case desc_item core descriptors k z st of
        (ExitFail, st1) \<Rightarrow> Inr (WalkFail, descriptors, descv, st1)
      | (ReturnFalse, st1) \<Rightarrow> Inr (WalkFalse, descriptors, descv, st1)
      | (Item d, st1) \<Rightarrow>
          rbind (store_cell (length descriptors) (Ptr (index d, childend d, parentend d)) descv) (\<lambda>descv1.
            desc_walk core spec (descriptors @ [d]) descv1 st1))"

section \<open>Opening\<close>

definition mode_string :: "int \<Rightarrow> string" where
  "mode_string flags = (if flags = O_WRONLY then ''w'' else if flags = O_RDONLY then ''r'' else if flags = O_RDWR then ''r+'' else [])"

text \<open>The mode is a null pointer, here empty, for any other flags. The streams on the parent ends: the array handed to the caller, and the cells of the handle.\<close>

fun open_streams ::
    "'w proc_core \<Rightarrow> php_proc_open_descriptor_item list \<Rightarrow> 'w proc_state \<Rightarrow> (int \<times> nat) list \<times> nat cell list \<times> 'w proc_state" where
  "open_streams core [] st = ([], [], st)"
| "open_streams core (d # ds) st =
     (if mode d AND NOT DESC_PARENT_MODE_WRITE = DESC_PIPE
      then (case fopen_from_fd core (parentend d) (mode_string (mode_flags d)) st of
              (None, st1) \<Rightarrow> (let (ps, cs, st2) = open_streams core ds st1 in (ps, Unset # cs, st2))
            | (Some r, st1) \<Rightarrow> (let (ps, cs, st2) = open_streams core ds st1 in ((index d, r) # ps, Ptr r # cs, st2)))
      else (let (ps, cs, st2) = open_streams core ds st in (ps, Null # cs, st2)))"

datatype open_result = OpenFalse | OpenProcess nat "(int \<times> nat) list"

definition exit_fail :: "string cell list option \<Rightarrow> desc cell list option \<Rightarrow> 'w proc_state \<Rightarrow> proc_fault + open_result \<times> 'w proc_state" where
  "exit_fail argv descv st = rbind (efree_array argv) (\<lambda>_. rbind (efree_array descv) (\<lambda>_. Inr (OpenFalse, st)))"

text \<open>What follows a successful start: the handle, the streams, freeing the arrays, the resource.\<close>

definition register_process ::
    "'w proc_core \<Rightarrow> string \<Rightarrow> string cell list option \<Rightarrow> desc cell list \<Rightarrow> php_process_env_t \<Rightarrow> int \<Rightarrow>
     php_proc_open_descriptor_item list \<Rightarrow> 'w proc_state \<Rightarrow> proc_fault + open_result \<times> 'w proc_state" where
  "register_process core cmd argv descv env pid descriptors st =
     (let (ps, cs, st1) = open_streams core descriptors st;
          proc = \<lparr>child = pid, npipes = length descriptors, pipes = cs, handle_command = cmd, handle_env = env\<rparr>
      in rbind (efree_array argv) (\<lambda>_. rbind (efree_cells descv) (\<lambda>_.
           Inr (OpenProcess (next_resource st1) ps,
                st1\<lparr>procs := (next_resource st1, proc) # procs st1, next_resource := next_resource st1 + 1\<rparr>))))"

definition proc_open ::
    "'w proc_core \<Rightarrow> zval \<Rightarrow> (zkey \<times> zval) list \<Rightarrow> string option \<Rightarrow> (zkey \<times> zval) list option \<Rightarrow> 'w proc_state \<Rightarrow>
     proc_fault + open_result \<times> 'w proc_state" where
  "proc_open core command_zv descriptorspec cwd environment st0 =
     (let st = st0\<lparr>procopen_call_id := procopen_call_id st0 + 1\<rparr>
      in rbind (parse_command core command_zv) (\<lambda>c.
        case c of
          CommandFalse \<Rightarrow> Inr (OpenFalse, st)
        | CommandFail argv \<Rightarrow> exit_fail (Some argv) None st
        | Command cmd argv \<Rightarrow>
            rbind (php_array_to_envp (\<lambda>z. case zval_get_string core z of None \<Rightarrow> [] | Some s \<Rightarrow> s) environment) (\<lambda>env.
            rbind (desc_walk core descriptorspec [] (replicate (length descriptorspec) Unset) st) (\<lambda>(r, descriptors, descv, st1).
            case r of
              WalkFail \<Rightarrow> exit_fail argv (Some descv) st1
            | WalkFalse \<Rightarrow> Inr (OpenFalse, st1)
            | WalkDone \<Rightarrow>
                let (pid, st2) = js_open_process core cmd argv (case argv of None \<Rightarrow> 0 | Some a \<Rightarrow> length a) descv (length descv) cwd env
                                   (case environment of None \<Rightarrow> 0 | Some e \<Rightarrow> length e) st1
                in if pid \<le> 0 then exit_fail argv (Some descv) st2
                   else if \<not> try_array_init core then exit_fail argv (Some descv) st2
                   else register_process core cmd argv descv env pid descriptors st2))))"

section \<open>Arrays of cells\<close>

lemma efree_ptrs [simp]: "efree_cells (map Ptr xs) = Inr ()"
  by (induction xs) auto

lemma efree_map [simp]: "efree_cells (map (Ptr \<circ> f) xs) = Inr ()"
  by (induction xs) auto

lemma efree_unset [simp]: "efree_cells (map Ptr xs @ Unset # cs) = Inl FreeIndeterminate"
  by (induction xs) auto

definition row :: "php_proc_open_descriptor_item \<Rightarrow> desc" where
  "row d = (index d, childend d, parentend d)"

text \<open>The walk fills the cells in order; it stops early exactly when cells are left unset.\<close>

lemma store_next:
  "store_cell (length ds) (Ptr (row d)) (map Ptr (map row ds) @ replicate (Suc n) Unset) = Inr (map Ptr (map row (ds @ [d])) @ replicate n Unset)"
proof -
  have "(map Ptr (map row ds) @ replicate (Suc n) Unset)[length ds := Ptr (row d)] =
      map Ptr (map row ds) @ (replicate (Suc n) Unset)[0 := Ptr (row d)]"
    using list_update_append [of "map Ptr (map row ds)" "replicate (Suc n) Unset" "length ds" "Ptr (row d)"] by simp
  then show ?thesis by (simp add: store_cell_def)
qed

lemma walk_step:
  assumes "desc_item core ds k z st = (Item d, st1)"
  shows "desc_walk core ((k, z) # spec) ds (map Ptr (map row ds) @ replicate (Suc n) Unset) st =
    desc_walk core spec (ds @ [d]) (map Ptr (map row (ds @ [d])) @ replicate n Unset) st1"
  using assms store_next [of ds d n] by (simp add: row_def)

lemma walk_cells:
  "\<exists>r ds' n st'. desc_walk core spec ds (map Ptr (map row ds) @ replicate (length spec) Unset) st =
     Inr (r, ds', map Ptr (map row ds') @ replicate n Unset, st') \<and> (r = WalkDone \<longleftrightarrow> n = 0) \<and>
     length ds' + n = length ds + length spec"
proof (induction spec arbitrary: ds st)
  case (Cons x spec)
  obtain k z where x: "x = (k, z)" by (cases x)
  obtain o1 st1 where item: "desc_item core ds k z st = (o1, st1)" by fastforce
  show ?case
  proof (cases o1)
    case (Item d)
    then show ?thesis using Cons.IH [of "ds @ [d]" st1] walk_step [of core ds k z st d st1 spec "length spec"] item x by simp
  next
    case ExitFail
    then show ?thesis using item x
      by (intro exI [of _ WalkFail] exI [of _ ds] exI [of _ "Suc (length spec)"] exI [of _ st1]) simp
  next
    case ReturnFalse
    then show ?thesis using item x
      by (intro exI [of _ WalkFalse] exI [of _ ds] exI [of _ "Suc (length spec)"] exI [of _ st1]) simp
  qed
qed simp

section \<open>The command line\<close>

definition valid_args :: "'w proc_core \<Rightarrow> zval list \<Rightarrow> bool" where
  "valid_args core zs \<longleftrightarrow> (\<forall>z \<in> set zs. get_valid_arg_string core z \<noteq> None)"

abbreviation arg_of :: "'w proc_core \<Rightarrow> zval \<Rightarrow> string" where
  "arg_of core z \<equiv> the (get_valid_arg_string core z)"

lemma store_arg:
  "store_cell (length xs) (Ptr s) (map Ptr xs @ replicate (Suc n) Unset) = Inr (map Ptr (xs @ [s]) @ replicate n Unset)"
proof -
  have "(map Ptr xs @ replicate (Suc n) Unset)[length xs := Ptr s] = map Ptr xs @ (replicate (Suc n) Unset)[0 := Ptr s]"
    using list_update_append [of "map Ptr xs" "replicate (Suc n) Unset" "length xs" "Ptr s"] by simp
  then show ?thesis by (simp add: store_cell_def)
qed

lemma argv_loop_valid:
  assumes "valid_args core zs"
  shows "argv_loop core (zs @ rest) (Suc (length xs)) cmd (map Ptr xs @ replicate (length zs + n) Unset) =
    argv_loop core rest (Suc (length xs) + length zs) cmd (map Ptr (xs @ map (arg_of core) zs) @ replicate n Unset)"
  using assms
proof (induction zs arbitrary: xs)
  case (Cons z zs)
  then obtain s where s: "get_valid_arg_string core z = Some s" by (auto simp: valid_args_def)
  then have "argv_loop core ((z # zs) @ rest) (Suc (length xs)) cmd (map Ptr xs @ replicate (length (z # zs) + n) Unset) =
      argv_loop core (zs @ rest) (Suc (length (xs @ [s]))) cmd (map Ptr (xs @ [s]) @ replicate (length zs + n) Unset)"
    using store_arg [of xs s "length zs + n"] by simp
  also have "\<dots> = argv_loop core rest (Suc (length (xs @ [s])) + length zs) cmd (map Ptr ((xs @ [s]) @ map (arg_of core) zs) @ replicate n Unset)"
    by (rule Cons.IH) (use Cons.prems in \<open>simp add: valid_args_def\<close>)
  finally show ?case using s by simp
qed simp

lemma argv_loop_prefix:
  assumes "valid_args core (z # zs)"
  shows "argv_loop core ((z # zs) @ rest) 0 None (replicate (length zs + n) Unset) =
    argv_loop core rest (Suc (length zs)) (Some (arg_of core z)) (map Ptr (map (arg_of core) zs) @ replicate n Unset)"
proof -
  obtain s where s: "get_valid_arg_string core z = Some s" using assms by (auto simp: valid_args_def)
  have "valid_args core zs" using assms by (simp add: valid_args_def)
  from argv_loop_valid [OF this, of rest "[]" "Some s" n] show ?thesis using s by simp
qed

lemma parse_valid:
  assumes "valid_args core (map snd a)" "a \<noteq> []"
  shows "parse_command core (ZArray a) = Inr (Command (arg_of core (snd (hd a))) (Some (map Ptr (map (arg_of core) (map snd (tl a))))))"
proof -
  obtain p as where a: "a = p # as" using assms(2) by (cases a) auto
  have "valid_args core (snd p # map snd as)" using assms(1) a by simp
  from argv_loop_prefix [OF this, of "[]" 0] show ?thesis using a by (simp add: parse_command_def)
qed

definition valid_command :: "'w proc_core \<Rightarrow> zval \<Rightarrow> bool" where
  "valid_command core c = (case c of ZArray a \<Rightarrow> a \<noteq> [] \<and> valid_args core (map snd a) | _ \<Rightarrow> True)"

lemma parse_ok:
  assumes "valid_command core c"
  shows "\<exists>cmd args. parse_command core c = Inr (Command cmd args) \<and> efree_array args = Inr ()"
  using assms parse_valid [of core]
  by (cases c) (auto simp: valid_command_def parse_command_def efree_array_def)

lemma parse_invalid:
  assumes "valid_args core xs" "get_valid_arg_string core z = None" "map snd a = xs @ z # ys"
  shows "parse_command core (ZArray a) =
    (if ys = [] then Inl BlockOverrun
     else Inr (CommandFail (if xs = [] then Null # replicate (length ys - 1) Unset
                            else map Ptr (map (arg_of core) (tl xs)) @ Unset # Null # replicate (length ys - 1) Unset)))"
proof -
  have len: "length a = length xs + length ys + 1" using arg_cong [OF assms(3), of length] by simp
  then have parse: "parse_command core (ZArray a) = rbind (argv_loop core (xs @ z # ys) 0 None (replicate (length xs + length ys) Unset))
      (\<lambda>(ok, cmd, argv). Inr (if ok then Command (case cmd of None \<Rightarrow> [] | Some c \<Rightarrow> c) (Some argv) else CommandFail argv))"
    using assms(3) by (simp add: parse_command_def)
  show ?thesis
  proof (cases xs)
    case Nil
    then show ?thesis using parse assms(2) by (cases ys) (simp_all add: store_cell_def)
  next
    case (Cons x xs')
    let ?p = "map Ptr (map (arg_of core) xs')"
    have "argv_loop core (xs @ z # ys) 0 None (replicate (length xs + length ys) Unset) =
        argv_loop core (z # ys) (Suc (length xs')) (Some (arg_of core x)) (?p @ replicate (Suc (length ys)) Unset)"
      using argv_loop_prefix [of core x xs' "z # ys" "Suc (length ys)"] assms(1) Cons by simp
    moreover have "store_cell (Suc (length xs')) Null (?p @ replicate (Suc (length ys)) Unset) =
        (if ys = [] then Inl BlockOverrun else Inr (?p @ Unset # Null # replicate (length ys - 1) Unset))"
      by (cases ys) (simp_all add: store_cell_def list_update_append)
    ultimately show ?thesis using parse assms(2) Cons by simp
  qed
qed

section \<open>Pipes\<close>

definition pipes_spec :: "(int \<times> string) list \<Rightarrow> (zkey \<times> zval) list" where
  "pipes_spec ps = map (\<lambda>(i, m). (Index i, ZArray [(Index 0, ZString ''pipe''), (Index 1, ZString m)])) ps"

text \<open>The child writes when the mode begins with \<^verbatim>\<open>w\<close>; the parent then has the reading end.\<close>

definition child_writes :: "string \<Rightarrow> bool" where
  "child_writes m \<longleftrightarrow> prefix ''w'' (cstr m)"

definition pipe_item :: "int \<times> string \<Rightarrow> int \<times> int \<Rightarrow> php_proc_open_descriptor_item" where
  "pipe_item p q = (if child_writes (snd p)
     then \<lparr>index = fst p, parentend = fst q, childend = snd q, mode = 1, mode_flags = 0\<rparr>
     else \<lparr>index = fst p, parentend = snd q, childend = fst q, mode = 9, mode_flags = 1\<rparr>)"

definition both_ends :: "(int \<times> int) list \<Rightarrow> int list" where
  "both_ends qs = concat (map (\<lambda>(a, b). [a, b]) qs)"

lemma both_ends_Cons [simp]: "both_ends ((a, b) # qs) = a # b # both_ends qs"
  by (simp add: both_ends_def)

definition strings_convert :: "'w proc_core \<Rightarrow> bool" where
  "strings_convert core \<longleftrightarrow> (\<forall>s. zval_get_string core (ZString s) = Some s \<and> try_convert_to_string core (ZString s) = Some s)"

lemma desc_item_pipe:
  assumes "strings_convert core" "pipe_ok core (table st)"
  shows "\<exists>q t. fd_pipe (pipe_ok core) (table st) = (Some q, t) \<and>
    desc_item core ds (Index i) (ZArray [(Index 0, ZString ''pipe''), (Index 1, ZString m)]) st = (Item (pipe_item (i, m) q), st\<lparr>table := t\<rparr>)"
proof -
  obtain q t where q: "fd_pipe (pipe_ok core) (table st) = (Some q, t)"
    using assms(2) by (simp add: fd_pipe_def Let_def)
  have "strncmp_eq (cstr m) ''w'' 1 \<longleftrightarrow> child_writes m"
    using strncmp_eq_prefix_right [of "cstr m" "''w''"] by (simp add: child_writes_def)
  moreover have "cstr ''pipe'' = ''pipe''" by code_simp
  moreover have "DESC_PIPE OR DESC_PARENT_MODE_WRITE = 9" "9 AND DESC_PARENT_MODE_WRITE = 8" "1 AND DESC_PARENT_MODE_WRITE = 0"
    by (simp_all add: DESC_PIPE_def DESC_PARENT_MODE_WRITE_def)
  ultimately have "desc_item core ds (Index i) (ZArray [(Index 0, ZString ''pipe''), (Index 1, ZString m)]) st = (Item (pipe_item (i, m) q), st\<lparr>table := t\<rparr>)"
    using assms(1) q
    by (simp add: desc_item_def desc_pipe_def string_at_def strings_convert_def pipe_item_def zero_item_def Let_def O_WRONLY_def O_RDONLY_def)
      (simp add: DESC_PIPE_def DESC_PARENT_MODE_WRITE_def)
  then show ?thesis using q by blast
qed

lemma walk_pipes:
  assumes "strings_convert core" "\<forall>t. pipe_ok core t"
  shows "\<exists>qs t. length qs = length ps \<and> distinct (both_ends qs) \<and> (\<forall>x \<in> set (both_ends qs). fd_get (table st) x = None) \<and>
    desc_walk core (pipes_spec ps) ds (map Ptr (map row ds) @ replicate (length ps) Unset) st =
      Inr (WalkDone, ds @ map2 pipe_item ps qs, map Ptr (map row (ds @ map2 pipe_item ps qs)), st\<lparr>table := t\<rparr>)"
proof (induction ps arbitrary: ds st)
  case Nil
  show ?case by (intro exI [of _ "[]"] exI [of _ "table st"]) (simp add: both_ends_def pipes_spec_def)
next
  case (Cons p ps)
  obtain i m where p: "p = (i, m)" by (cases p)
  obtain a b t where q: "fd_pipe (pipe_ok core) (table st) = (Some (a, b), t)"
      "desc_item core ds (Index i) (ZArray [(Index 0, ZString ''pipe''), (Index 1, ZString m)]) st = (Item (pipe_item p (a, b)), st\<lparr>table := t\<rparr>)"
    using desc_item_pipe [OF assms(1), of st ds i m] assms(2) p by auto
  obtain qs t' where qs: "length qs = length ps" "distinct (both_ends qs)" "\<forall>x \<in> set (both_ends qs). fd_get t x = None"
      "desc_walk core (pipes_spec ps) (ds @ [pipe_item p (a, b)]) (map Ptr (map row (ds @ [pipe_item p (a, b)])) @ replicate (length ps) Unset) (st\<lparr>table := t\<rparr>) =
        Inr (WalkDone, (ds @ [pipe_item p (a, b)]) @ map2 pipe_item ps qs, map Ptr (map row ((ds @ [pipe_item p (a, b)]) @ map2 pipe_item ps qs)), (st\<lparr>table := t\<rparr>)\<lparr>table := t'\<rparr>)"
    using Cons.IH [of "st\<lparr>table := t\<rparr>" "ds @ [pipe_item p (a, b)]"] by auto
  have "\<forall>x \<in> set (both_ends qs). x \<noteq> a \<and> x \<noteq> b \<and> fd_get (table st) x = None"
  proof
    fix x assume "x \<in> set (both_ends qs)"
    then have "fd_get t x = None" using qs(3) by blast
    then show "x \<noteq> a \<and> x \<noteq> b \<and> fd_get (table st) x = None" using fd_pipe_ok(6) [OF q(1), of x] by (auto split: if_splits)
  qed
  then have "distinct (both_ends ((a, b) # qs)) \<and> (\<forall>x \<in> set (both_ends ((a, b) # qs)). fd_get (table st) x = None)"
    using qs(2) fd_pipe_ok(3,4,5) [OF q(1)] by auto
  moreover have "desc_walk core (pipes_spec (p # ps)) ds (map Ptr (map row ds) @ replicate (length (p # ps)) Unset) st =
      Inr (WalkDone, ds @ map2 pipe_item (p # ps) ((a, b) # qs), map Ptr (map row (ds @ map2 pipe_item (p # ps) ((a, b) # qs))), st\<lparr>table := t'\<rparr>)"
    using walk_step [OF q(2), of "pipes_spec ps" "length ps"] qs(4) p by (simp add: pipes_spec_def)
  ultimately show ?case using qs(1) by (intro exI [of _ "(a, b) # qs"] exI [of _ t']) simp
qed

text \<open>The streams that are opened on the parent ends; \<open>info\<close> says what a stream resource was opened on.\<close>

definition opens_streams :: "'w proc_core \<Rightarrow> (nat \<Rightarrow> int \<times> string) \<Rightarrow> bool" where
  "opens_streams core info \<longleftrightarrow> (\<forall>fd m st. \<exists>r st'. fopen_from_fd core fd m st = (Some r, st') \<and> info r = (fd, m))"

definition parent_stream :: "int \<times> string \<Rightarrow> int \<times> int \<Rightarrow> int \<times> string" where
  "parent_stream p q = (if child_writes (snd p) then (fst q, ''r'') else (snd q, ''w''))"

lemma open_streams_pipes:
  assumes "opens_streams core info" "length qs = length ps"
  shows "\<exists>rs st'. open_streams core (map2 pipe_item ps qs) st = (zip (map fst ps) rs, map Ptr rs, st') \<and>
    length rs = length ps \<and> map info rs = map2 parent_stream ps qs"
  using assms(2)
proof (induction qs ps arbitrary: st rule: list_induct2)
  case (Cons q qs p ps)
  let ?d = "pipe_item p q"
  obtain r st1 where r: "fopen_from_fd core (parentend ?d) (mode_string (mode_flags ?d)) st = (Some r, st1)" "info r = (parentend ?d, mode_string (mode_flags ?d))"
    using assms(1) unfolding opens_streams_def by blast
  obtain rs st' where rs: "open_streams core (map2 pipe_item ps qs) st1 = (zip (map fst ps) rs, map Ptr rs, st')"
      "length rs = length ps" "map info rs = map2 parent_stream ps qs"
    using Cons.IH [of st1] by blast
  have "mode ?d AND NOT DESC_PARENT_MODE_WRITE = DESC_PIPE" "index ?d = fst p" "(parentend ?d, mode_string (mode_flags ?d)) = parent_stream p q"
    by (auto simp: pipe_item_def DESC_PIPE_def DESC_PARENT_MODE_WRITE_def mode_string_def O_WRONLY_def O_RDONLY_def parent_stream_def)
  then show ?case using r rs by (intro exI [of _ "r # rs"] exI [of _ st']) simp
qed simp

section \<open>Exit codes\<close>

lemma exit_status:
  assumes "0 \<le> code" "code \<le> 255"
  shows "(if WIFEXITED code then WEXITSTATUS code else code) = (if code = 128 then 0 else code)"
proof -
  have "code AND 0x7f = code mod 128" using take_bit_eq_mask [of 7 code] by (simp add: take_bit_eq_mod mask_eq_exp_minus_1)
  moreover have "drop_bit 8 (code AND 0xff00) = 0"
  proof -
    have "drop_bit 8 (code AND 0xff00) = drop_bit 8 code AND drop_bit 8 0xff00" by (rule drop_bit_and)
    moreover have "drop_bit 8 code = 0" using assms by (simp add: drop_bit_eq_div)
    ultimately show ?thesis by simp
  qed
  moreover have "code mod 128 = 0 \<longleftrightarrow> code = 0 \<or> code = 128" using assms by presburger
  ultimately show ?thesis by (auto simp: WIFEXITED_def WEXITSTATUS_def)
qed

section \<open>Properties\<close>

text \<open>
  C17: \<^verbatim>\<open>proc_open\<close> with pipes. For a command given as an array of strings without NUL bytes, a specification
  that asks for pipes only, and a host that opens the process: the call makes one pipe for each
  item, with ends that are all different and were free before; the child gets the writing
  end of those whose mode begins with \<^verbatim>\<open>w\<close> and the reading end of the others; the process is registered with
  its number, and the array handed back has, under the index of each item, a stream on the parent's
  end in the matching mode.
\<close>

theorem proc_open_pipes:
  assumes "strings_convert core" and "\<forall>t. pipe_ok core t" and "try_array_init core" and "opens_streams core info"
    and "\<forall>argv n descv k cwd env m s. 0 < fst (js_open_process core cmd argv n descv k cwd env m s)"
    and "map snd a = map ZString (cmd # args)" and "\<forall>x \<in> set (cmd # args). c_string x"
  shows "\<exists>qs rs res s st'.
    proc_open core (ZArray a) (pipes_spec ps) cwd None st =
      Inr (OpenProcess res (zip (map fst ps) rs), st') \<and>
    length qs = length ps \<and> distinct (both_ends qs) \<and> (\<forall>x \<in> set (both_ends qs). fd_get (table st) x = None) \<and>
    length rs = length ps \<and> map info rs = map2 parent_stream ps qs \<and>
    map_of (procs st') res = Some \<lparr>
      child = fst (js_open_process core cmd (Some (map Ptr args)) (length args)
        (map2 (\<lambda>p q. Ptr (fst p, if child_writes (snd p) then snd q else fst q, fst (parent_stream p q))) ps qs) (length ps) cwd no_env 0 s),
      npipes = length ps, pipes = map Ptr rs, handle_command = cmd, handle_env = no_env\<rparr>"
proof -
  have valid: "get_valid_arg_string core (ZString x) = Some x" if "c_string x" for x
    using assms(1) that by (simp add: get_valid_arg_string_def strings_convert_def)
  obtain k as where a: "a = (k, ZString cmd) # as" "map snd as = map ZString args" using assms(6) by (cases a) auto
  have "map (arg_of core) (map ZString args) = args" using valid assms(7) by (induction args) auto
  moreover have "valid_args core (map snd a)" unfolding assms(6) using valid assms(7) by (auto simp: valid_args_def)
  ultimately have parse: "parse_command core (ZArray a) = Inr (Command cmd (Some (map Ptr args)))"
    using parse_valid [of core a] valid [of cmd] assms(7) a by (simp del: map_map)
  let ?st = "st\<lparr>procopen_call_id := procopen_call_id st + 1\<rparr>"
  obtain qs t where qs: "length qs = length ps" "distinct (both_ends qs)" "\<forall>x \<in> set (both_ends qs). fd_get (table st) x = None"
      "desc_walk core (pipes_spec ps) [] (replicate (length ps) Unset) ?st =
        Inr (WalkDone, map2 pipe_item ps qs, map Ptr (map row (map2 pipe_item ps qs)), ?st\<lparr>table := t\<rparr>)"
    using walk_pipes [OF assms(1,2), of ps ?st "[]"] by auto
  let ?dv = "map2 (\<lambda>p q. Ptr (fst p, if child_writes (snd p) then snd q else fst q, fst (parent_stream p q))) ps qs"
  have dv: "map Ptr (map row (map2 pipe_item ps qs)) = ?dv"
    by (simp add: row_def pipe_item_def parent_stream_def split_def comp_def)
  obtain pid st2 where open_p: "js_open_process core cmd (Some (map Ptr args)) (length args) ?dv (length ps) cwd no_env 0 (?st\<lparr>table := t\<rparr>) = (pid, st2)"
    by (rule prod.exhaust)
  have "0 < fst (js_open_process core cmd (Some (map Ptr args)) (length args) ?dv (length ps) cwd no_env 0 (?st\<lparr>table := t\<rparr>))"
    using assms(5) by blast
  then have pid: "0 < pid" unfolding open_p by simp
  obtain rs st3 where rs: "open_streams core (map2 pipe_item ps qs) st2 = (zip (map fst ps) rs, map Ptr rs, st3)"
      "length rs = length ps" "map info rs = map2 parent_stream ps qs"
    using open_streams_pipes [OF assms(4) qs(1), of st2] by blast
  have free: "efree_cells ?dv = Inr ()" unfolding dv [symmetric] by (rule efree_ptrs)
  let ?p = "\<lparr>child = pid, npipes = length ps, pipes = map Ptr rs, handle_command = cmd, handle_env = no_env\<rparr>"
  have "proc_open core (ZArray a) (pipes_spec ps) cwd None st = register_process core cmd (Some (map Ptr args)) ?dv no_env pid (map2 pipe_item ps qs) st2"
    using parse qs(1,4) pid open_p assms(3) unfolding dv proc_open_def Let_def
    by (simp add: php_array_to_envp_def pipes_spec_def)
  also have "\<dots> = Inr (OpenProcess (next_resource st3) (zip (map fst ps) rs),
      st3\<lparr>procs := (next_resource st3, ?p) # procs st3, next_resource := next_resource st3 + 1\<rparr>)"
    using rs(1) qs(1) free by (simp add: register_process_def Let_def efree_array_def)
  finally show ?thesis
    using qs(1-3) rs(2,3) open_p
    by (intro exI [of _ qs] exI [of _ rs] exI [of _ "next_resource st3"] exI [of _ "?st\<lparr>table := t\<rparr>"] exI
        [of _ "st3\<lparr>procs := (next_resource st3, ?p) # procs st3, next_resource := next_resource st3 + 1\<rparr>"]) simp
qed

text \<open>
  When \<^verbatim>\<open>proc_open\<close> is memory safe. With a valid command and an environment with distinct keys, the call
  goes wrong exactly when the walk over the descriptor specification jumps to \<^verbatim>\<open>exit_fail\<close>: the array of
  descriptor rows was allocated without being cleared, and the clean-up frees the rows from the rejected item on,
  which were never stored. When every item is accepted, the call returns, whether the process starts or not.
\<close>

theorem proc_open_faults_on_rejected_descriptor:
  assumes "valid_command core c" and "case environment of None \<Rightarrow> True | Some e \<Rightarrow> distinct (map fst e)"
  shows "proc_open core c spec cwd environment st = Inl FreeIndeterminate \<longleftrightarrow>
      (\<exists>ds dv st1. desc_walk core spec [] (replicate (length spec) Unset) (st\<lparr>procopen_call_id := procopen_call_id st + 1\<rparr>) = Inr (WalkFail, ds, dv, st1))"
    (is "?fault \<longleftrightarrow> ?rejected")
proof -
  let ?zs = "\<lambda>z. case zval_get_string core z of None \<Rightarrow> [] | Some s \<Rightarrow> s"
  let ?st = "st\<lparr>procopen_call_id := procopen_call_id st + 1\<rparr>"
  obtain cmd args where parse: "parse_command core c = Inr (Command cmd args)" "efree_array args = Inr ()"
    using parse_ok [OF assms(1)] by blast
  obtain env where env: "php_array_to_envp ?zs environment = Inr env"
  proof (cases environment)
    case None
    then show ?thesis using that by (simp add: php_array_to_envp_def)
  next
    case (Some e)
    then show ?thesis using that envp_written [of e ?zs] assms(2) by auto
  qed
  obtain r ds n st1 where walk: "desc_walk core spec [] (replicate (length spec) Unset) ?st = Inr (r, ds, map Ptr (map row ds) @ replicate n Unset, st1)"
      "r = WalkDone \<longleftrightarrow> n = 0"
    using walk_cells [of core spec "[]" ?st] by auto
  show ?thesis
  proof (cases r)
    case WalkFail
    then have "n \<noteq> 0" using walk(2) by auto
    then obtain k where "n = Suc k" using not0_implies_Suc by blast
    then have "efree_cells (map Ptr (map row ds) @ replicate n Unset) = Inl FreeIndeterminate" using efree_unset [of "map row ds"] by simp
    then show ?thesis using parse env walk WalkFail by (simp add: proc_open_def exit_fail_def efree_array_def)
  next
    case WalkFalse
    then show ?thesis using parse env walk by (simp add: proc_open_def)
  next
    case WalkDone
    then have "n = 0" using walk(2) by simp
    then have "proc_open core c spec cwd environment st \<noteq> Inl FreeIndeterminate"
      using parse env walk WalkDone by (auto simp: proc_open_def exit_fail_def register_process_def efree_array_def Let_def split: prod.splits)
    then show ?thesis using walk WalkDone by simp
  qed
qed

text \<open>
  A command array with an element that holds a NUL byte. The element that fails is recorded one
  place too far in the argument array. When it is the last element, that is a write behind the end of
  the array; otherwise the clean-up frees an argument that was never stored, unless the array has just
  two elements and the first one is at fault, the only case that returns false as it should.
\<close>

theorem proc_open_invalid_argument:
  assumes "valid_args core xs" and "get_valid_arg_string core z = None" and "map snd a = xs @ z # ys"
  shows "proc_open core (ZArray a) spec cwd environment st =
    (if ys = [] then Inl BlockOverrun
     else if xs = [] \<and> length ys = 1 then Inr (OpenFalse, st\<lparr>procopen_call_id := procopen_call_id st + 1\<rparr>)
     else Inl FreeIndeterminate)"
proof (cases ys)
  case Nil
  then show ?thesis using parse_invalid [OF assms] by (simp add: proc_open_def)
next
  case (Cons y ys')
  have "efree_cells (map Ptr (map (arg_of core) (tl xs)) @ Unset # cs) = Inl FreeIndeterminate" for cs by (rule efree_unset)
  then show ?thesis using Cons parse_invalid [OF assms]
    by (cases ys') (auto simp: proc_open_def exit_fail_def efree_array_def)
qed

text \<open>
  C27: \<^verbatim>\<open>proc_close\<close> on a registered process whose exit code \<open>code\<close> JavaScript reports as a plain number. It waits,
  unregisters the process, so that a second call returns false, and gives the exit code, except that the
  test made for \<^verbatim>\<open>wait\<close> statuses takes 128 for a normal exit with code 0.
\<close>

theorem proc_close_exit_code:
  assumes "map_of (procs st) r = Some proc" and "close_pipes core (take (npipes proc) (pipes proc))
      (st\<lparr>pclose_wait := True, procs := filter (\<lambda>(q, _). q \<noteq> r) (procs st)\<rparr>) = Inr st1"
    and "pclose_wait st1" and "procs st1 = filter (\<lambda>(q, _). q \<noteq> r) (procs st)"
    and "js_waitpid core (child proc) st1 = (pid, Some code, st2)" and "0 < pid" and "procs st2 = procs st1"
    and "0 \<le> code" and "code \<le> 255"
  shows "\<exists>st'. proc_close core r st = Some (Inr (ResLong (if code = 128 then 0 else code), st')) \<and>
    proc_close core r st' = Some (Inr (ResFalse, st')) \<and> \<not> pclose_wait st'"
proof -
  have wait: "wait_loop core (child proc) None st1 = Some (pid, Some code, st2)"
    using assms(5,6) by (subst wait_loop.simps) simp
  have "(if WIFEXITED code then WEXITSTATUS code else code) = (if code = 128 then 0 else code)"
    using exit_status [OF assms(8,9)] .
  moreover have "map_of (filter (\<lambda>(q, _). q \<noteq> r) (procs st)) r = None" by (auto simp: map_of_eq_None_iff)
  ultimately show ?thesis using assms wait
    by (auto simp: proc_close_def close_process_def proc_open_rsrc_dtor_def)
qed

section \<open>Instances\<close>

text \<open>A host that starts every process as number one, lets it exit with code 128, and numbers streams by what they are opened on.\<close>

definition demo_core :: "unit proc_core" where
  "demo_core = \<lparr>zval_get_string = (\<lambda>z. Some (case z of ZString s \<Rightarrow> s | _ \<Rightarrow> [])),
     try_convert_to_string = (\<lambda>z. case z of ZString s \<Rightarrow> Some s | _ \<Rightarrow> None),
     convert_to_string = (\<lambda>z. case z of ZString s \<Rightarrow> s | _ \<Rightarrow> []),
     is_stream = (\<lambda>r st. False), stream_cast = (\<lambda>r st. None), open_wrapper = (\<lambda>f m st. (None, st)),
     pipe_ok = (\<lambda>t. True), can_open = (\<lambda>f. True),
     js_open_process = (\<lambda>cmd argv n descv k cwd env m st. (1, st)), try_array_init = True,
     fopen_from_fd = (\<lambda>fd m st. (Some (to_nat (fd, m)), st)), list_close = (\<lambda>r st. st),
     js_waitpid = (\<lambda>pid st. (pid, Some 128, st)), js_process_status = (\<lambda>pid st. (0, None)), kill = (\<lambda>pid sig st. (0, st))\<rparr>"

definition demo_state :: "unit proc_state" where
  "demo_state = \<lparr>table = [Some ''in'', Some ''out'', Some ''err''],
     procs = [(7, \<lparr>child = 1, npipes = 1, pipes = [Ptr 4], handle_command = ''ls'', handle_env = no_env\<rparr>)],
     next_resource = 8, pclose_ret = 0, pclose_wait = False, errno = 0, procopen_call_id = 0, outer = ()\<rparr>"

theorem proc_open_pipes_witness:
  "\<exists>qs rs res st'.
    proc_open demo_core (ZArray [(Index 0, ZString ''ls''), (Index 1, ZString ''-l'')]) (pipes_spec [(0, ''r''), (1, ''w'')]) None None demo_state =
      Inr (OpenProcess res (zip [0, 1] rs), st') \<and>
    length qs = 2 \<and> distinct (both_ends qs) \<and> map from_nat rs = map2 parent_stream [(0, ''r''), (1, ''w'')] qs \<and>
    map_of (procs st') res = Some \<lparr>child = 1, npipes = 2, pipes = map Ptr rs, handle_command = ''ls'', handle_env = no_env\<rparr>"
proof -
  have "strings_convert demo_core" "\<forall>t. pipe_ok demo_core t" "try_array_init demo_core"
    by (simp_all add: strings_convert_def demo_core_def)
  moreover have "opens_streams demo_core from_nat" by (simp add: opens_streams_def demo_core_def)
  moreover have "\<forall>argv n descv k cwd env m s. 0 < fst (js_open_process demo_core ''ls'' argv n descv k cwd env m s)"
    by (simp add: demo_core_def)
  moreover have "map snd [(Index 0, ZString ''ls''), (Index 1, ZString ''-l'')] = map ZString (''ls'' # [''-l''])" by simp
  moreover have "\<forall>x \<in> set (''ls'' # [''-l'']). c_string x" by (simp add: c_string_def)
  ultimately have "\<exists>qs rs res s st'.
    proc_open demo_core (ZArray [(Index 0, ZString ''ls''), (Index 1, ZString ''-l'')]) (pipes_spec [(0, ''r''), (1, ''w'')]) None None demo_state =
      Inr (OpenProcess res (zip (map fst [(0, ''r''), (1, ''w'')]) rs), st') \<and>
    length qs = length [(0 :: int, ''r''), (1, ''w'')] \<and> distinct (both_ends qs) \<and> (\<forall>x \<in> set (both_ends qs). fd_get (table demo_state) x = None) \<and>
    length rs = length [(0 :: int, ''r''), (1, ''w'')] \<and> map from_nat rs = map2 parent_stream [(0, ''r''), (1, ''w'')] qs \<and>
    map_of (procs st') res = Some \<lparr>
      child = fst (js_open_process demo_core ''ls'' (Some (map Ptr [''-l''])) (length [''-l''])
        (map2 (\<lambda>p q. Ptr (fst p, if child_writes (snd p) then snd q else fst q, fst (parent_stream p q))) [(0, ''r''), (1, ''w'')] qs)
        (length [(0 :: int, ''r''), (1, ''w'')]) None no_env 0 s),
      npipes = length [(0 :: int, ''r''), (1, ''w'')], pipes = map Ptr rs, handle_command = ''ls'', handle_env = no_env\<rparr>"
    by (rule proc_open_pipes)
  moreover have "fst (js_open_process demo_core cmd argv n descv k cwd env m s) = 1" for cmd argv n descv k cwd env m s
    by (simp add: demo_core_def)
  ultimately show ?thesis by (fastforce simp: numeral_2_eq_2)
qed

theorem proc_open_faults_on_rejected_descriptor_witness:
  "proc_open demo_core (ZString ''ls'') [(Index 0, ZNull)] None None demo_state = Inl FreeIndeterminate"
proof -
  have "valid_command demo_core (ZString ''ls'')" by (simp add: valid_command_def)
  moreover have "case None :: (zkey \<times> zval) list option of None \<Rightarrow> True | Some e \<Rightarrow> distinct (map fst e)" by simp
  moreover have "\<exists>ds dv st1. desc_walk demo_core [(Index 0, ZNull)] [] (replicate (length [(Index 0, ZNull)]) Unset)
      (demo_state\<lparr>procopen_call_id := procopen_call_id demo_state + 1\<rparr>) = Inr (WalkFail, ds, dv, st1)"
    by (simp add: desc_item_def)
  ultimately show ?thesis using proc_open_faults_on_rejected_descriptor by blast
qed

theorem proc_open_invalid_argument_witness:
  "proc_open demo_core (ZArray [(Index 0, ZString ''ls''), (Index 1, ZString [CHR ''a'', nul, CHR ''b''])]) [] None None demo_state = Inl BlockOverrun"
proof -
  have "valid_args demo_core [ZString ''ls'']" "get_valid_arg_string demo_core (ZString [CHR ''a'', nul, CHR ''b'']) = None"
    by (simp_all add: valid_args_def get_valid_arg_string_def demo_core_def cstr_def)
  from proc_open_invalid_argument [OF this, of "[(Index 0, ZString ''ls''), (Index 1, ZString [CHR ''a'', nul, CHR ''b''])]" "[]"]
  show ?thesis by simp
qed

theorem proc_close_exit_code_witness:
  "\<exists>st'. proc_close demo_core 7 demo_state = Some (Inr (ResLong 0, st')) \<and> proc_close demo_core 7 st' = Some (Inr (ResFalse, st'))"
proof -
  let ?p = "\<lparr>child = 1, npipes = 1, pipes = [Ptr 4], handle_command = ''ls'', handle_env = no_env\<rparr>"
  let ?st = "demo_state\<lparr>pclose_wait := True, procs := []\<rparr>"
  have "\<exists>st'. proc_close demo_core 7 demo_state = Some (Inr (ResLong (if 128 = (128 :: int) then 0 else 128), st')) \<and>
      proc_close demo_core 7 st' = Some (Inr (ResFalse, st')) \<and> \<not> pclose_wait st'"
    by (rule proc_close_exit_code [of demo_state 7 ?p demo_core ?st 1 128 ?st]) (simp_all add: demo_state_def demo_core_def)
  then show ?thesis by auto
qed

end
