(* ===== verification/FdRead.thy ===== *)
theory FdRead
  imports Prelude
begin

text \<open>
  Sleeping and reading in \<^verbatim>\<open>compile/php/php_wasm.c\<close>: \<^verbatim>\<open>wasm_sleep\<close>, \<^verbatim>\<open>__wrap_usleep\<close>, \<^verbatim>\<open>js_fd_read\<close> and \<^verbatim>\<open>wasm_read\<close>. \<^verbatim>\<open>js_fd_read\<close> makes
  a blocking read of a non-blocking one: it tries, and while the stream has no data it waits 50 ms and
  tries again, a hundred times at most.

  The file system layer of Emscripten is a record of functions on a world of type \<open>'w\<close>: a failing call gives the
  error number. \<open>pause ms\<close> is what happens to the world while the module sleeps.
\<close>

definition EWOULDBLOCK :: nat where "EWOULDBLOCK = 6"
definition EAGAIN :: nat where "EAGAIN = 6"

record 'w read_host =
  getStreamFromFD :: "int \<Rightarrow> 'w \<Rightarrow> nat + nat"
  doReadv :: "nat \<Rightarrow> u32 \<Rightarrow> 'w \<Rightarrow> (nat + bytes) \<times> 'w"
  nonblocking :: "nat \<Rightarrow> 'w \<Rightarrow> bool"
  isClosed :: "nat \<Rightarrow> 'w \<Rightarrow> bool"
  pipe_refcnt :: "nat \<Rightarrow> 'w \<Rightarrow> nat option" \<comment> \<open>\<^const>\<open>None\<close> for a stream that is no pipe\<close>
  pause :: "u32 \<Rightarrow> 'w \<Rightarrow> 'w"

section \<open>Sleeping\<close>

definition wasm_sleep :: "'w read_host \<Rightarrow> u32 \<Rightarrow> 'w \<Rightarrow> u32 \<times> 'w" where
  "wasm_sleep h time w = (time, pause h (time * 1000) w)"

definition wrap_usleep :: "'w read_host \<Rightarrow> u32 \<Rightarrow> 'w \<Rightarrow> u32 \<times> 'w" where
  "wrap_usleep h time_microseconds w = (time_microseconds, pause h (time_microseconds div 1000) w)"

section \<open>Reading\<close>

text \<open>One attempt: the stream, if the descriptor has one, and the outcome. An exception carries an error number.\<close>

definition attempt :: "'w read_host \<Rightarrow> int \<Rightarrow> u32 \<Rightarrow> 'w \<Rightarrow> nat option \<times> (nat + bytes) \<times> 'w" where
  "attempt h fd len w =
     (case getStreamFromFD h fd w of
        Inl e \<Rightarrow> (None, Inl e, w)
      | Inr s \<Rightarrow> let (r, w1) = doReadv h s len w in (Some s, r, w1))"

text \<open>
  The polling loop, with the number of retries so far and the stream that an earlier turn found. The
  result is the code, the number stored for the caller (an undefined number is stored as 0) and the bytes
  delivered.
\<close>

function read_loop :: "'w read_host \<Rightarrow> int \<Rightarrow> u32 \<Rightarrow> nat \<Rightarrow> nat option \<Rightarrow> 'w \<Rightarrow> nat \<times> nat \<times> bytes \<times> 'w" where
  "read_loop h fd len retries stream w =
     (case attempt h fd len w of
        (s, r, w1) \<Rightarrow>
          let stream1 = (case s of None \<Rightarrow> stream | Some _ \<Rightarrow> s)
          in (case r of
                Inr bs \<Rightarrow> (0, length bs, bs, w1)
              | Inl returnCode \<Rightarrow>
                  if retries + 1 > 100 then (returnCode, 0, [], w1)
                  else (case stream1 of
                          None \<Rightarrow> (returnCode, 0, [], w1)
                        | Some st \<Rightarrow>
                            if isClosed h st w1 \<or> returnCode \<noteq> EWOULDBLOCK \<or>
                               (case pipe_refcnt h st w1 of None \<Rightarrow> False | Some n \<Rightarrow> n < 2)
                            then (returnCode, 0, [], w1)
                            else read_loop h fd len (retries + 1) stream1 (pause h 50 w1))))"
  by pat_completeness auto
termination
  by (relation "measure (\<lambda>(h, fd, len, retries, stream, w). 101 - retries)") auto

declare read_loop.simps [simp del]

text \<open>\<open>normal\<close> says that the module is not being rewound, \<open>pollAsync\<close> is the optional argument. \<^const>\<open>None\<close> is a count left as it was.\<close>

definition js_fd_read :: "'w read_host \<Rightarrow> bool \<Rightarrow> bool \<Rightarrow> int \<Rightarrow> u32 \<Rightarrow> 'w \<Rightarrow> nat \<times> nat option \<times> bytes \<times> 'w" where
  "js_fd_read h normal pollAsync fd len w =
     (let poll = (\<lambda>w1. if \<not> pollAsync then (EWOULDBLOCK, None, [], w1)
                       else let (code, num, bs, w2) = read_loop h fd len 0 None w1 in (code, Some num, bs, w2))
      in if normal
         then (case attempt h fd len w of
                 (s, Inr bs, w1) \<Rightarrow> (0, Some (length bs), bs, w1)
               | (s, Inl e, w1) \<Rightarrow>
                   if e \<noteq> EWOULDBLOCK \<and> e \<noteq> EAGAIN then (e, None, [], w1)
                   else if (case s of None \<Rightarrow> False | Some st \<Rightarrow> nonblocking h st w1) then (e, None, [], w1)
                   else poll w1)
         else poll w)"

text \<open>\<^verbatim>\<open>__wasi_syscall_ret\<close> is 0 for code 0; otherwise it stores the code in \<^verbatim>\<open>errno\<close> and gives -1. The second component is \<^verbatim>\<open>errno\<close>, if stored.\<close>

definition wasm_read :: "'w read_host \<Rightarrow> bool \<Rightarrow> int \<Rightarrow> u32 \<Rightarrow> 'w \<Rightarrow> int \<times> nat option \<times> bytes \<times> 'w" where
  "wasm_read h normal fd count w =
     (let (code, num, bs, w1) = js_fd_read h normal True fd count w
      in if code \<noteq> 0 then (-1, Some code, bs, w1) else (int (the num), None, bs, w1))"

section \<open>Waiting for data\<close>

text \<open>
  A stream that has no data for the first \<open>k\<close> looks. What the file system layer is relied on for: an attempt that
  would block leaves the world as it is.
\<close>

definition would_block :: "'w read_host \<Rightarrow> int \<Rightarrow> u32 \<Rightarrow> nat \<Rightarrow> 'w \<Rightarrow> bool" where
  "would_block h fd len s w \<longleftrightarrow> attempt h fd len w = (Some s, Inl EWOULDBLOCK, w) \<and> \<not> isClosed h s w \<and>
     (case pipe_refcnt h s w of None \<Rightarrow> True | Some n \<Rightarrow> 2 \<le> n)"

lemma read_loop_waits:
  assumes "would_block h fd len s w" "retries < 100"
  shows "read_loop h fd len retries stream w = read_loop h fd len (Suc retries) (Some s) (pause h 50 w)"
  using assms by (subst read_loop.simps) (auto simp: would_block_def split: option.splits)

lemma read_loop_steps:
  assumes "\<forall>j < k. would_block h fd len s ((pause h 50 ^^ j) w)" "retries + k \<le> 100"
  shows "\<exists>stream'. read_loop h fd len retries stream w = read_loop h fd len (retries + k) stream' ((pause h 50 ^^ k) w)"
  using assms
proof (induction k arbitrary: retries stream w)
  case (Suc k)
  have "would_block h fd len s w" using Suc.prems(1) [rule_format, of 0] by simp
  then have "read_loop h fd len retries stream w = read_loop h fd len (Suc retries) (Some s) (pause h 50 w)"
    using Suc.prems(2) by (intro read_loop_waits) auto
  moreover have "\<forall>j < k. would_block h fd len s ((pause h 50 ^^ j) (pause h 50 w))"
    using Suc.prems(1) by (metis Suc_mono funpow_swap1 funpow.simps(2) comp_apply)
  ultimately show ?case using Suc.IH [of "pause h 50 w" "Suc retries" "Some s"] Suc.prems(2)
    by (auto simp: funpow_swap1)
qed auto

section \<open>Properties\<close>

text \<open>
  C28: a blocking read ends, with the data or with an error. On a stream that at first has no data, the
  read is tried again every 50 ms; if data come within a hundred such pauses, they are returned with their
  number; if none come, the call gives up after the hundredth pause with \<^verbatim>\<open>EWOULDBLOCK\<close>, never
  hanging. A non-blocking stream is not waited for.
\<close>

theorem wasm_read_waits_for_data:
  assumes "\<forall>j < k. would_block h fd count s ((pause h 50 ^^ j) w)" and "0 < k" and "k \<le> 101"
    and "k \<le> 100 \<longrightarrow> attempt h fd count ((pause h 50 ^^ k) w) = (Some s, Inr bs, w')"
  shows "wasm_read h True fd count w =
    (if nonblocking h s w then (-1, Some EWOULDBLOCK, [], w)
     else if k \<le> 100 then (int (length bs), None, bs, w')
     else (-1, Some EWOULDBLOCK, [], (pause h 50 ^^ 100) w))"
proof -
  have first: "attempt h fd count w = (Some s, Inl EWOULDBLOCK, w)"
    using assms(1) [rule_format, of 0] assms(2) by (simp add: would_block_def)
  show ?thesis
  proof (cases "k \<le> 100")
    case True
    obtain st where "read_loop h fd count 0 None w = read_loop h fd count k st ((pause h 50 ^^ k) w)"
      using read_loop_steps [of k h fd count s w 0] assms(1) True by auto
    moreover have "read_loop h fd count k st ((pause h 50 ^^ k) w) = (0, length bs, bs, w')"
      using assms(4) True by (subst read_loop.simps) simp
    ultimately show ?thesis using first True by (simp add: wasm_read_def js_fd_read_def Let_def EWOULDBLOCK_def)
  next
    case False
    have "\<forall>j < 100. would_block h fd count s ((pause h 50 ^^ j) w)" "would_block h fd count s ((pause h 50 ^^ 100) w)"
      using assms(1) False by auto
    moreover obtain st where "read_loop h fd count 0 None w = read_loop h fd count 100 st ((pause h 50 ^^ 100) w)"
      using read_loop_steps [of 100 h fd count s w 0] calculation(1) by auto
    moreover have "read_loop h fd count 100 st ((pause h 50 ^^ 100) w) = (EWOULDBLOCK, 0, [], (pause h 50 ^^ 100) w)"
      using calculation(2) by (subst read_loop.simps) (simp add: would_block_def)
    ultimately show ?thesis using first False by (simp add: wasm_read_def js_fd_read_def Let_def EWOULDBLOCK_def)
  qed
qed

text \<open>A world that is a clock in milliseconds, and a pipe into which a byte is written after 120 ms.\<close>

definition late_pipe :: "nat read_host" where
  "late_pipe = \<lparr>getStreamFromFD = (\<lambda>fd w. Inr 0), doReadv = (\<lambda>s n w. (if w < 120 then Inl EWOULDBLOCK else Inr ''x'', w)),
     nonblocking = (\<lambda>s w. False), isClosed = (\<lambda>s w. False), pipe_refcnt = (\<lambda>s w. Some 2), pause = (\<lambda>ms w. w + unat ms)\<rparr>"

theorem wasm_read_waits_for_data_witness:
  "wasm_read late_pipe True 0 4096 0 = (1, None, ''x'', 150)"
proof -
  have p: "(pause late_pipe 50 ^^ j) 0 = 50 * j" for j
    by (induction j) (simp_all add: late_pipe_def)
  have "\<forall>j < 3. would_block late_pipe 0 4096 0 ((pause late_pipe 50 ^^ j) 0)"
    unfolding p by (simp add: would_block_def attempt_def late_pipe_def)
  moreover have "attempt late_pipe 0 4096 ((pause late_pipe 50 ^^ 3) 0) = (Some 0, Inr ''x'', 150)"
    unfolding p by (simp add: attempt_def late_pipe_def)
  moreover have "\<not> nonblocking late_pipe 0 0" by (simp add: late_pipe_def)
  ultimately show ?thesis
    using wasm_read_waits_for_data [of 3 late_pipe 0 4096 0 0 "''x''" 150] by simp
qed

end
