(* ===== verification/Polling.thy ===== *)
theory Polling
  imports Prelude
begin

text \<open>
  Waiting for sockets and streams in \<^verbatim>\<open>compile/php/php_wasm.c\<close>: \<^verbatim>\<open>wasm_poll_socket\<close>, \<^verbatim>\<open>php_pollfd_for\<close>, \<^verbatim>\<open>__wrap_select\<close> and
  \<^verbatim>\<open>__wrap_poll\<close>.

  The state is the clock, in milliseconds. What a descriptor is, and when an event that is waited for comes,
  is the environment's, and is given as functions of the time: \<open>stream_of fd now\<close> is what \<^verbatim>\<open>FS.getStream\<close> and
  \<^verbatim>\<open>getSocketFromFD\<close> find, \<open>comes e now\<close> the delay after which the promise for the event \<open>e\<close> is fulfilled, \<^const>\<open>None\<close> if
  it never is. A result \<^const>\<open>None\<close> means that the call does not come back. An event that comes at the very
  moment of the timeout counts as coming in time.
\<close>

definition POLLIN :: int where "POLLIN = 0x0001"
definition POLLPRI :: int where "POLLPRI = 0x0002"
definition POLLOUT :: int where "POLLOUT = 0x0004"
definition POLLERR :: int where "POLLERR = 0x0008"
definition POLLHUP :: int where "POLLHUP = 0x0010"
definition POLLNVAL :: int where "POLLNVAL = 0x0020"

datatype ready_state = CONNECTING | OPEN | CLOSING | CLOSED

record socket =
  server :: bool
  pending :: "nat list" \<comment> \<open>the length of the queue of each pending client\<close>
  recv_queue :: nat \<comment> \<open>the length of the own queue\<close>
  sock_type :: int
  sock_error :: bool
  webSockets :: "(nat \<times> ready_state) list"

datatype poll_stream =
    Socket "socket option"
  | Pollable nat \<comment> \<open>a stream with a poll operation of its own\<close>
  | Other

datatype event = Data nat | Connection nat | Close nat | Error nat

record poll_host =
  stream_of :: "int \<Rightarrow> nat \<Rightarrow> poll_stream"
  comes :: "event \<Rightarrow> nat \<Rightarrow> nat option"
  stream_mask :: "nat \<Rightarrow> nat \<Rightarrow> int" \<comment> \<open>\<^verbatim>\<open>stream.stream_ops.poll\<close> at a time\<close>
  stream_closed :: "nat \<Rightarrow> nat \<Rightarrow> bool"

definition has :: "int \<Rightarrow> int \<Rightarrow> bool" where
  "has events flag \<longleftrightarrow> events AND flag \<noteq> 0"

section \<open>Waiting for one descriptor\<close>

text \<open>What the code decides to do: answer now, answer after the timeout, never answer, or wait for events.\<close>

datatype poll_plan = WakeNow int | WakeAfter int | Never | RaceSockets "event list" | RaceStream nat

fun awaited :: "int \<Rightarrow> (nat \<times> ready_state) list \<Rightarrow> event list" where
  "awaited events [] = []"
| "awaited events ((ws, _) # wss) =
     (if has events POLLIN \<or> has events POLLPRI then [Data ws] else []) @
     (if has events POLLOUT then [Connection ws] else []) @
     (if has events POLLHUP \<or> has events POLLIN \<or> has events POLLOUT \<or> has events POLLERR then [Close ws] else []) @
     (if has events POLLERR \<or> has events POLLNVAL then [Error ws] else []) @
     awaited events wss"

definition data_waiting :: "socket \<Rightarrow> bool" where
  "data_waiting sock = (if server sock then (\<exists>n \<in> set (pending sock). n > 0) else recv_queue sock > 0)"

definition socket_plan :: "socket \<Rightarrow> int \<Rightarrow> int \<Rightarrow> poll_plan" where
  "socket_plan sock events timeout =
     (if (has events POLLIN \<or> has events POLLPRI) \<and> data_waiting sock then WakeNow 1
      else if webSockets sock = [] then WakeNow 0
      else if (\<exists>(ws, rs) \<in> set (webSockets sock). rs = CLOSING \<or> rs = CLOSED)
      then (if sock_type sock \<noteq> 2 \<or> sock_error sock \<or> recv_queue sock > 0 then WakeNow 1
            else if timeout \<noteq> -1 then WakeAfter 0
            else Never)
      else if awaited events (webSockets sock) = [] then WakeAfter 0
      else RaceSockets (awaited events (webSockets sock)))"

definition poll_plan_of :: "poll_stream \<Rightarrow> int \<Rightarrow> int \<Rightarrow> poll_plan" where
  "poll_plan_of s events timeout =
     (case s of
        Socket None \<Rightarrow> WakeNow 0
      | Socket (Some sock) \<Rightarrow> socket_plan sock events timeout
      | Pollable st \<Rightarrow> RaceStream st
      | Other \<Rightarrow> WakeAfter 1)"

text \<open>The inner loop on a pollable stream looks every 10 ms; any answer, an error included, fulfils the promise.\<close>

partial_function (option) stream_loop :: "poll_host \<Rightarrow> nat \<Rightarrow> int \<Rightarrow> nat \<Rightarrow> nat option" where
  "stream_loop h st events now =
     (if stream_closed h st now \<or> stream_mask h st now AND (events OR POLLERR OR POLLHUP) \<noteq> 0 then Some now
      else stream_loop h st events (now + 10))"

text \<open>The first of the events: \<^verbatim>\<open>Promise.race\<close>.\<close>

fun earliest :: "nat option list \<Rightarrow> nat option" where
  "earliest [] = None"
| "earliest (None # ts) = earliest ts"
| "earliest (Some t # ts) = (case earliest ts of None \<Rightarrow> Some t | Some u \<Rightarrow> Some (min t u))"

text \<open>The race of the promise, fulfilled at time \<open>t\<close>, against the timer, which -1 switches off. A negative delay is none.\<close>

definition race :: "nat option \<Rightarrow> int \<Rightarrow> nat \<Rightarrow> (int \<times> nat) option" where
  "race t timeout now =
     (if timeout = -1 then map_option (\<lambda>t. (1, t)) t
      else (case t of
              None \<Rightarrow> Some (0, now + nat timeout)
            | Some t \<Rightarrow> if t \<le> now + nat timeout then Some (1, t) else Some (0, now + nat timeout)))"

definition wasm_poll_socket :: "poll_host \<Rightarrow> int \<Rightarrow> int \<Rightarrow> int \<Rightarrow> nat \<Rightarrow> (int \<times> nat) option" where
  "wasm_poll_socket h socketd events timeout now =
     (case poll_plan_of (stream_of h socketd now) events timeout of
        WakeNow r \<Rightarrow> Some (r, now)
      | WakeAfter r \<Rightarrow> Some (r, now + nat timeout)
      | Never \<Rightarrow> None
      | RaceSockets es \<Rightarrow> race (map_option (\<lambda>d. now + d) (earliest (map (\<lambda>e. comes h e now) es))) timeout now
      | RaceStream st \<Rightarrow> race (stream_loop h st events now) timeout now)"

text \<open>
  \<^verbatim>\<open>__real_poll\<close> for one descriptor without waiting is the C library's: the number and the events found. The timeout comes
  from \<^verbatim>\<open>php_tvtoto\<close>, -1 for a null pointer.
\<close>

definition php_pollfd_for :: "poll_host \<Rightarrow> (int \<Rightarrow> int \<Rightarrow> nat \<Rightarrow> int \<times> int) \<Rightarrow> int \<Rightarrow> int \<Rightarrow> int \<Rightarrow> nat \<Rightarrow> (int \<times> nat) option" where
  "php_pollfd_for h real_poll fd events timeout now =
     map_option (\<lambda>(_, now1). let (n, revents) = real_poll fd events now1 in (if n > 0 then revents else n, now1))
       (wasm_poll_socket h fd events timeout now)"

section \<open>select\<close>

type_synonym fd_set = "nat set option" \<comment> \<open>\<^const>\<open>None\<close> is a null pointer\<close>

definition FD_ISSET :: "nat \<Rightarrow> fd_set \<Rightarrow> bool" where
  "FD_ISSET i s = (case s of None \<Rightarrow> False | Some fds \<Rightarrow> i \<in> fds)"

definition FD_CLR :: "nat \<Rightarrow> fd_set \<Rightarrow> fd_set" where
  "FD_CLR i s = map_option (\<lambda>fds. fds - {i}) s"

text \<open>One direction for one descriptor: the count, whether anything was polled, the set and the clock.\<close>

definition select_one ::
    "poll_host \<Rightarrow> int \<Rightarrow> int \<Rightarrow> nat \<Rightarrow> int \<times> bool \<times> fd_set \<times> nat \<Rightarrow> (int \<times> bool \<times> fd_set \<times> nat) option" where
  "select_one h events timeoutms i = (\<lambda>(n, polled, fds, now).
     if FD_ISSET i fds
     then map_option (\<lambda>(r, now1). if r \<noteq> 0 then (n + 1, True, fds, now1) else (n, True, FD_CLR i fds, now1))
            (wasm_poll_socket h (int i) events timeoutms now)
     else Some (n, polled, fds, now))"

fun select_loop ::
    "poll_host \<Rightarrow> int \<Rightarrow> nat list \<Rightarrow> int \<Rightarrow> bool \<Rightarrow> fd_set \<Rightarrow> fd_set \<Rightarrow> fd_set \<Rightarrow> nat \<Rightarrow> (int \<times> bool \<times> fd_set \<times> fd_set \<times> fd_set \<times> nat) option" where
  "select_loop h timeoutms [] n polled rds wrs exs now = Some (n, polled, rds, wrs, exs, now)"
| "select_loop h timeoutms (i # is) n polled rds wrs exs now =
     (case select_one h POLLIN timeoutms i (n, polled, rds, now) of
        None \<Rightarrow> None
      | Some (n1, polled1, rds1, now1) \<Rightarrow>
          (case select_one h POLLOUT timeoutms i (n1, polled1, wrs, now1) of
             None \<Rightarrow> None
           | Some (n2, polled2, wrs1, now2) \<Rightarrow>
               select_loop h timeoutms is n2 polled2 rds1 wrs1 (if FD_ISSET i exs then FD_CLR i exs else exs) now2))"

definition wrap_select :: "poll_host \<Rightarrow> nat \<Rightarrow> fd_set \<Rightarrow> fd_set \<Rightarrow> fd_set \<Rightarrow> int \<Rightarrow> nat \<Rightarrow> (int \<times> fd_set \<times> fd_set \<times> fd_set \<times> nat) option" where
  "wrap_select h max_fd rds wrs exs timeoutms now =
     map_option (\<lambda>(n, polled, rds1, wrs1, exs1, now1).
         (n, rds1, wrs1, exs1, if \<not> polled \<and> timeoutms > 0 then now1 + nat timeoutms else now1))
       (select_loop h timeoutms [0..<max_fd] 0 False rds wrs exs now)"

section \<open>poll\<close>

text \<open>
  Here the clock is in microseconds, as \<^verbatim>\<open>emscripten_get_now\<close> has fractions of milliseconds. \<open>sleep ms t\<close> is the time after a sleep
  of \<open>ms\<close> begun at \<open>t\<close>; \<open>real_poll t\<close> is the C library's answer at \<open>t\<close>.
\<close>

definition step_us :: int where "step_us = 5000"

partial_function (option) poll_loop :: "(int \<Rightarrow> int) \<Rightarrow> (nat \<Rightarrow> int \<Rightarrow> int) \<Rightarrow> int \<Rightarrow> int \<Rightarrow> int \<Rightarrow> (int \<times> int) option" where
  "poll_loop real_poll sleep timeout deadline now =
     (let n = real_poll now
      in if n \<noteq> 0 \<or> timeout = 0 then Some (n, now)
         else let remaining = (if timeout < 0 then step_us else deadline - now)
              in if remaining \<le> 0 then Some (0, now)
                 else poll_loop real_poll sleep timeout deadline
                        (sleep (if remaining < step_us then nat (remaining div 1000) + 1 else 5) now))"

definition wrap_poll :: "(int \<Rightarrow> int) \<Rightarrow> (nat \<Rightarrow> int \<Rightarrow> int) \<Rightarrow> int \<Rightarrow> int \<Rightarrow> (int \<times> int) option" where
  "wrap_poll real_poll sleep timeout now = poll_loop real_poll sleep timeout (now + 1000 * timeout) now"

section \<open>Laws\<close>

lemma stream_loop_later: "stream_loop h st events now = Some t \<Longrightarrow> now \<le> t"
  by (rule stream_loop.raw_induct [of "\<lambda>h st events now t. now \<le> t"]) (fastforce split: if_splits dest: add_leD1)+

lemma race_in_time:
  assumes "timeout \<noteq> -1" "case t of None \<Rightarrow> True | Some t \<Rightarrow> now \<le> t"
  shows "\<exists>r u. race t timeout now = Some (r, u) \<and> (r = 0 \<or> r = 1) \<and> now \<le> u \<and> u \<le> now + nat timeout"
  using assms by (auto simp: race_def split: option.splits)

lemma socket_plan_answers:
  "case socket_plan sock events timeout of WakeNow r \<Rightarrow> r = 0 \<or> r = 1 | WakeAfter r \<Rightarrow> r = 0 | Never \<Rightarrow> timeout = -1 | RaceSockets _ \<Rightarrow> True | RaceStream _ \<Rightarrow> False"
  by (auto simp: socket_plan_def)

lemma plan_answers:
  "case poll_plan_of s events timeout of WakeNow r \<Rightarrow> r = 0 \<or> r = 1 | WakeAfter r \<Rightarrow> r = 0 \<or> r = 1 | Never \<Rightarrow> timeout = -1 | _ \<Rightarrow> True"
proof (cases s)
  case (Socket x)
  then show ?thesis using socket_plan_answers [where sock = "the x" and events = events and timeout = timeout]
    by (cases x) (auto simp: poll_plan_of_def split: poll_plan.splits)
qed (simp_all add: poll_plan_of_def)

lemma poll_in_time:
  assumes "timeout \<noteq> -1"
  shows "\<exists>r t. wasm_poll_socket h fd events timeout now = Some (r, t) \<and> (r = 0 \<or> r = 1) \<and> now \<le> t \<and> t \<le> now + nat timeout"
proof -
  have "case map_option (\<lambda>d. now + d) (x :: nat option) of None \<Rightarrow> True | Some t \<Rightarrow> now \<le> t" for x by (cases x) auto
  moreover have "case stream_loop h st events now of None \<Rightarrow> True | Some t \<Rightarrow> now \<le> t" for st
    using stream_loop_later by (auto split: option.splits)
  ultimately show ?thesis
    using plan_answers [where s = "stream_of h fd now" and events = events and timeout = timeout] assms race_in_time [OF assms]
    by (auto simp: wasm_poll_socket_def split: poll_plan.splits)
qed

text \<open>What a pass over the descriptors \<open>is\<close> may do to a set: take descriptors out, of these only.\<close>

definition narrowed :: "nat list \<Rightarrow> fd_set \<Rightarrow> fd_set \<Rightarrow> bool" where
  "narrowed is s s' \<longleftrightarrow> (s' = None \<longleftrightarrow> s = None) \<and> (\<forall>j. FD_ISSET j s' \<longrightarrow> FD_ISSET j s) \<and>
     (\<forall>j. j \<notin> set is \<longrightarrow> FD_ISSET j s' = FD_ISSET j s)"

lemma isset_clr [simp]: "FD_ISSET j (FD_CLR i s) \<longleftrightarrow> FD_ISSET j s \<and> j \<noteq> i"
  by (cases s) (auto simp: FD_ISSET_def FD_CLR_def)

lemma clr_none [simp]: "FD_CLR i s = None \<longleftrightarrow> s = None"
  by (simp add: FD_CLR_def)

lemma narrowed_step: "narrowed [i] s s1 \<Longrightarrow> narrowed is s1 s' \<Longrightarrow> narrowed (i # is) s s'"
  by (auto simp: narrowed_def)

text \<open>A descriptor stays in the set exactly when its poll, begun at some time from \<open>now\<close> on, answers other than 0.\<close>

definition judged :: "poll_host \<Rightarrow> int \<Rightarrow> int \<Rightarrow> nat list \<Rightarrow> fd_set \<Rightarrow> fd_set \<Rightarrow> bool" where
  "judged h events timeout is s s' \<longleftrightarrow> (\<forall>i \<in> set is. FD_ISSET i s \<longrightarrow>
     (\<exists>t r t'. wasm_poll_socket h (int i) events timeout t = Some (r, t') \<and> (FD_ISSET i s' \<longleftrightarrow> r \<noteq> 0)))"

lemma judged_step:
  assumes "judged h events timeout [i] s s1" "judged h events timeout is s1 s'" "narrowed [i] s s1" "narrowed is s1 s'" "i \<notin> set is"
  shows "judged h events timeout (i # is) s s'"
  using assms by (auto simp: judged_def narrowed_def)

abbreviation members :: "nat list \<Rightarrow> fd_set \<Rightarrow> nat" where
  "members is s \<equiv> length (filter (\<lambda>i. FD_ISSET i s) is)"

lemma members_step:
  assumes "narrowed [i] s s1" "narrowed is s1 s'" "i \<notin> set is"
  shows "members (i # is) s' = members [i] s1 + members is s'" "members is s1 = members is s"
proof -
  have "FD_ISSET i s' = FD_ISSET i s1" using assms by (simp add: narrowed_def)
  then show "members (i # is) s' = members [i] s1 + members is s'" by simp
  have "FD_ISSET j s1 = FD_ISSET j s" if "j \<in> set is" for j using assms that by (auto simp: narrowed_def)
  then show "members is s1 = members is s" by (metis (mono_tags, lifting) filter_cong)
qed

lemma select_one_ok:
  assumes "0 \<le> timeout"
  shows "\<exists>fds' now'. select_one h events timeout i (n, polled, fds, now) =
      Some (n + int (members [i] fds'), polled \<or> FD_ISSET i fds, fds', now') \<and>
    narrowed [i] fds fds' \<and> judged h events timeout [i] fds fds' \<and> now \<le> now' \<and> now' \<le> now + nat timeout * members [i] fds"
proof (cases "FD_ISSET i fds")
  case True
  obtain r t where r: "wasm_poll_socket h (int i) events timeout now = Some (r, t)" "now \<le> t" "t \<le> now + nat timeout"
    using poll_in_time [of timeout h "int i" events now] assms by auto
  show ?thesis
    by (rule exI [of _ "if r \<noteq> 0 then fds else FD_CLR i fds"], rule exI [of _ t])
      (use True r in \<open>auto simp: select_one_def narrowed_def judged_def\<close>)
next
  case False
  then show ?thesis
    by (intro exI [of _ fds] exI [of _ now]) (simp add: select_one_def narrowed_def judged_def)
qed

lemma select_loop_ok:
  assumes "0 \<le> timeout" "distinct is"
  shows "\<exists>n' rds' wrs' exs' now'. select_loop h timeout is n polled rds wrs exs now =
      Some (n', polled \<or> members is rds + members is wrs > 0, rds', wrs', exs', now') \<and>
    n' = n + int (members is rds' + members is wrs') \<and>
    narrowed is rds rds' \<and> judged h POLLIN timeout is rds rds' \<and> narrowed is wrs wrs' \<and> judged h POLLOUT timeout is wrs wrs' \<and>
    narrowed is exs exs' \<and> members is exs' = 0 \<and>
    now \<le> now' \<and> now' \<le> now + nat timeout * (members is rds + members is wrs)"
  using assms(2)
proof (induction "is" arbitrary: n polled rds wrs exs now)
  case Nil
  then show ?case by (simp add: narrowed_def judged_def)
next
  case (Cons i js)
  obtain r1 now1 where one: "select_one h POLLIN timeout i (n, polled, rds, now) =
      Some (n + int (members [i] r1), polled \<or> FD_ISSET i rds, r1, now1)"
      "narrowed [i] rds r1" "judged h POLLIN timeout [i] rds r1" "now \<le> now1" "now1 \<le> now + nat timeout * members [i] rds"
    using select_one_ok [OF assms(1)] by blast
  obtain w1 now2 where two: "select_one h POLLOUT timeout i (n + int (members [i] r1), polled \<or> FD_ISSET i rds, wrs, now1) =
      Some (n + int (members [i] r1) + int (members [i] w1), (polled \<or> FD_ISSET i rds) \<or> FD_ISSET i wrs, w1, now2)"
      "narrowed [i] wrs w1" "judged h POLLOUT timeout [i] wrs w1" "now1 \<le> now2" "now2 \<le> now1 + nat timeout * members [i] wrs"
    using select_one_ok [OF assms(1)] by blast
  let ?e = "if FD_ISSET i exs then FD_CLR i exs else exs"
  obtain n' rds' wrs' exs' now' where loop: "select_loop h timeout js (n + int (members [i] r1) + int (members [i] w1))
        ((polled \<or> FD_ISSET i rds) \<or> FD_ISSET i wrs) r1 w1 ?e now2 =
      Some (n', ((polled \<or> FD_ISSET i rds) \<or> FD_ISSET i wrs) \<or> members js r1 + members js w1 > 0, rds', wrs', exs', now')"
      "n' = n + int (members [i] r1) + int (members [i] w1) + int (members js rds' + members js wrs')"
      "narrowed js r1 rds'" "judged h POLLIN timeout js r1 rds'" "narrowed js w1 wrs'" "judged h POLLOUT timeout js w1 wrs'"
      "narrowed js ?e exs'" "members js exs' = 0" "now2 \<le> now'" "now' \<le> now2 + nat timeout * (members js r1 + members js w1)"
    using Cons.IH [of "n + int (members [i] r1) + int (members [i] w1)" "(polled \<or> FD_ISSET i rds) \<or> FD_ISSET i wrs" r1 w1 ?e now2] Cons.prems by auto
  have new: "i \<notin> set js" using Cons.prems by simp
  note m = members_step [OF one(2) loop(3) new] members_step [OF two(2) loop(5) new]
  have "\<not> FD_ISSET i exs'" using loop(7) new by (auto simp: narrowed_def)
  then have ex: "narrowed [i] exs ?e" "members (i # js) exs' = 0" using loop(8) by (auto simp: narrowed_def)
  have add: "members (i # js) s = members [i] s + members js s" for s by simp
  have pol: "((polled \<or> FD_ISSET i rds) \<or> FD_ISSET i wrs) \<or> members js rds + members js wrs > 0 \<longleftrightarrow>
      polled \<or> members (i # js) rds + members (i # js) wrs > 0" by auto
  have step: "select_loop h timeout (i # js) n polled rds wrs exs now =
      Some (n', polled \<or> members (i # js) rds + members (i # js) wrs > 0, rds', wrs', exs', now')"
    using one(1) two(1) loop(1) m(2,4) pol by simp
  have time: "now' \<le> now + nat timeout * (members (i # js) rds + members (i # js) wrs)"
    unfolding add using one(5) two(5) loop(10) m(2,4) by (simp add: algebra_simps)
  show ?case
    by (intro exI conjI, rule step)
      (use loop(2,9) one(4) two(4) m time ex(2) narrowed_step [OF one(2) loop(3)] narrowed_step [OF two(2) loop(5)] narrowed_step [OF ex(1) loop(7)]
        judged_step [OF one(3) loop(4) one(2) loop(3) new] judged_step [OF two(3) loop(6) two(2) loop(5) new] in \<open>auto simp del: filter.simps\<close>)
qed

lemma poll_loop_returns:
  assumes "\<forall>ms t. t + 1000 * int ms \<le> sleep ms t" "0 \<le> timeout"
  shows "\<exists>n t. poll_loop real_poll sleep timeout deadline now = Some (n, t) \<and> now \<le> t \<and> n = real_poll t \<and>
    (n \<noteq> 0 \<or> timeout = 0 \<or> deadline \<le> t) \<and>
    ((\<forall>ms t. sleep ms t = t + 1000 * int ms) \<longrightarrow> now \<le> deadline \<longrightarrow> t \<le> deadline + 1000)"
proof (induction "nat (deadline - now)" arbitrary: now rule: less_induct)
  case less
  show ?case
  proof (cases "real_poll now \<noteq> 0 \<or> timeout = 0 \<or> deadline - now \<le> 0")
    case True
    then have "poll_loop real_poll sleep timeout deadline now = Some (real_poll now, now)"
      using assms(2) by (subst poll_loop.simps) (auto simp: Let_def)
    then show ?thesis using True by auto
  next
    case False
    define ms where "ms = (if deadline - now < step_us then nat ((deadline - now) div 1000) + 1 else 5)"
    define now1 where "now1 = sleep ms now"
    have ms: "1 \<le> ms" by (simp add: ms_def)
    have exact: "now + 1000 * int ms \<le> deadline + 1000" using False by (auto simp: ms_def step_us_def)
    have later: "now + 1000 \<le> now1" using assms(1) [rule_format, of now ms] ms by (simp add: now1_def)
    have step: "poll_loop real_poll sleep timeout deadline now = poll_loop real_poll sleep timeout deadline now1"
      using False assms(2) by (subst poll_loop.simps) (simp add: Let_def ms_def now1_def)
    obtain n t where t: "poll_loop real_poll sleep timeout deadline now1 = Some (n, t)" "now1 \<le> t" "n = real_poll t"
        "n \<noteq> 0 \<or> timeout = 0 \<or> deadline \<le> t"
        "(\<forall>ms t. sleep ms t = t + 1000 * int ms) \<longrightarrow> now1 \<le> deadline \<longrightarrow> t \<le> deadline + 1000"
      using less [of now1] later False by auto
    have "t \<le> deadline + 1000" if e: "\<forall>ms t. sleep ms t = t + 1000 * int ms"
    proof (cases "now1 \<le> deadline")
      case False
      then have "poll_loop real_poll sleep timeout deadline now1 = Some (real_poll now1, now1)"
        using assms(2) by (subst poll_loop.simps) (auto simp: Let_def)
      then show ?thesis using t(1) e exact by (simp add: now1_def)
    qed (use t(5) e in blast)
    then show ?thesis using step t later by auto
  qed
qed

section \<open>Properties\<close>

text \<open>
  C30: waiting for a descriptor keeps to its timeout. Whatever the descriptor is and whatever events come,
  \<^verbatim>\<open>wasm_poll_socket\<close> with a timeout answers 0 or 1 before it has run out. A datagram socket whose peer is gone, with nothing
  queued and no error pending, is waited out and reported not ready; without a timeout that wait never
  ends.
\<close>

theorem poll_socket_keeps_timeout:
  assumes "timeout \<noteq> -1"
    and "stream_of h dgram now = Socket (Some sock)" and "sock_type sock = 2" and "\<not> sock_error sock" and "recv_queue sock = 0" and "\<not> server sock"
    and "(ws, CLOSED) \<in> set (webSockets sock)"
  shows "(\<exists>r t. wasm_poll_socket h fd events timeout now = Some (r, t) \<and> (r = 0 \<or> r = 1) \<and> now \<le> t \<and> t \<le> now + nat timeout) \<and>
    wasm_poll_socket h dgram events timeout now = Some (0, now + nat timeout) \<and>
    wasm_poll_socket h dgram events (-1) now = None"
proof -
  have "webSockets sock \<noteq> []" using assms(7) by auto
  moreover have "\<exists>(ws, rs) \<in> set (webSockets sock). rs = CLOSING \<or> rs = CLOSED" using assms(7) by blast
  ultimately have "poll_plan_of (stream_of h dgram now) events t = (if t \<noteq> -1 then WakeAfter 0 else Never)" for t
    using assms(2-6) by (simp add: poll_plan_of_def socket_plan_def data_waiting_def)
  then have "wasm_poll_socket h dgram events timeout now = Some (0, now + nat timeout)" "wasm_poll_socket h dgram events (-1) now = None"
    using assms(1) by (simp_all add: wasm_poll_socket_def)
  then show ?thesis using poll_in_time [OF assms(1)] by blast
qed

text \<open>
  C29: \<^verbatim>\<open>select\<close> with a timeout returns. It leaves in the read and write sets, below \<open>max_fd\<close>, exactly the descriptors whose
  poll answered that they are ready, takes all out of the except set, and returns the number left; null sets
  and descriptors from \<open>max_fd\<close> on stay as they are. As the descriptors are waited for one after the other,
  it may take the timeout once for each.
\<close>

theorem select_result:
  assumes "0 \<le> timeout"
  shows "\<exists>n rds' wrs' exs' now'. wrap_select h max_fd rds wrs exs timeout now = Some (n, rds', wrs', exs', now') \<and>
    n = int (members [0..<max_fd] rds' + members [0..<max_fd] wrs') \<and>
    narrowed [0..<max_fd] rds rds' \<and> judged h POLLIN timeout [0..<max_fd] rds rds' \<and>
    narrowed [0..<max_fd] wrs wrs' \<and> judged h POLLOUT timeout [0..<max_fd] wrs wrs' \<and>
    narrowed [0..<max_fd] exs exs' \<and> members [0..<max_fd] exs' = 0 \<and>
    now' \<le> now + nat timeout * max 1 (members [0..<max_fd] rds + members [0..<max_fd] wrs)"
proof -
  let ?k = "members [0..<max_fd] rds + members [0..<max_fd] wrs"
  obtain n' rds' wrs' exs' now' where loop: "select_loop h timeout [0..<max_fd] 0 False rds wrs exs now =
      Some (n', False \<or> ?k > 0, rds', wrs', exs', now')" "n' = 0 + int (members [0..<max_fd] rds' + members [0..<max_fd] wrs')"
    and sets: "narrowed [0..<max_fd] rds rds'" "judged h POLLIN timeout [0..<max_fd] rds rds'"
      "narrowed [0..<max_fd] wrs wrs'" "judged h POLLOUT timeout [0..<max_fd] wrs wrs'"
      "narrowed [0..<max_fd] exs exs'" "members [0..<max_fd] exs' = 0" and time: "now' \<le> now + nat timeout * ?k"
    using select_loop_ok [OF assms distinct_upt, of h 0 max_fd 0 False rds wrs exs now] by metis
  have "now' \<le> now + nat timeout * k \<Longrightarrow> (if \<not> k > 0 \<and> timeout > 0 then now' + nat timeout else now') \<le> now + nat timeout * max 1 k" for k
    by (cases k) auto
  from this [OF time] have "(if \<not> ?k > 0 \<and> timeout > 0 then now' + nat timeout else now') \<le> now + nat timeout * max 1 ?k" .
  then show ?thesis using loop sets by (simp add: wrap_select_def)
qed

text \<open>
  C31: \<^verbatim>\<open>poll\<close> with a timeout ends. If a sleep lasts at least as long as asked for, the loop returns what
  the C library's \<^verbatim>\<open>poll\<close> says at that moment, and it returns 0 only when the timeout has run out; if a sleep lasts
  exactly as long as asked for, at most one millisecond late.
\<close>

theorem poll_returns:
  assumes "\<forall>ms t. t + 1000 * int ms \<le> sleep ms t" and "0 \<le> timeout"
  shows "\<exists>n t. wrap_poll real_poll sleep timeout now = Some (n, t) \<and> now \<le> t \<and> n = real_poll t \<and>
    (n \<noteq> 0 \<or> now + 1000 * timeout \<le> t) \<and>
    ((\<forall>ms t. sleep ms t = t + 1000 * int ms) \<longrightarrow> t \<le> now + 1000 * timeout + 1000)"
  using poll_loop_returns [OF assms, of real_poll "now + 1000 * timeout" now] assms(2) by (auto simp: wrap_poll_def)

section \<open>Instances\<close>

text \<open>Descriptor 3 is a closed datagram socket, 4 an open one whose data come after 7 ms, 5 a regular file.\<close>

definition demo_poll :: poll_host where
  "demo_poll = \<lparr>stream_of = (\<lambda>fd t.
       if fd = 3 then Socket (Some \<lparr>server = False, pending = [], recv_queue = 0, sock_type = 2, sock_error = False, webSockets = [(0, CLOSED)]\<rparr>)
       else if fd = 4 then Socket (Some \<lparr>server = False, pending = [], recv_queue = 0, sock_type = 1, sock_error = False, webSockets = [(1, OPEN)]\<rparr>)
       else Other),
     comes = (\<lambda>e t. if e = Data 1 then Some 7 else None), stream_mask = (\<lambda>s t. 0), stream_closed = (\<lambda>s t. False)\<rparr>"

theorem poll_socket_keeps_timeout_witness:
  "(\<exists>r t. wasm_poll_socket demo_poll 4 POLLIN 100 0 = Some (r, t) \<and> t \<le> 100) \<and>
    wasm_poll_socket demo_poll 3 POLLIN 100 0 = Some (0, 100) \<and> wasm_poll_socket demo_poll 3 POLLIN (-1) 0 = None"
proof -
  have "(100 :: int) \<noteq> -1" by simp
  from poll_socket_keeps_timeout [OF this, of demo_poll 3 0
      "\<lparr>server = False, pending = [], recv_queue = 0, sock_type = 2, sock_error = False, webSockets = [(0, CLOSED)]\<rparr>" 0 4 POLLIN]
  show ?thesis by (auto simp: demo_poll_def)
qed

theorem select_result_witness:
  "\<exists>n rds' wrs' exs' now'. wrap_select demo_poll 5 (Some {3, 4}) None (Some {4}) 10 0 = Some (n, rds', wrs', exs', now') \<and>
    n = int (members [0..<5] rds' + members [0..<5] wrs') \<and> members [0..<5] exs' = 0 \<and> now' \<le> 20"
proof -
  have "[0..<5] = [0, 1, 2, 3, 4 :: nat]" by code_simp
  then have "members [0..<5] (Some {3, 4}) + members [0..<5] None = 2" by (simp add: FD_ISSET_def)
  then show ?thesis using select_result [of 10 demo_poll 5 "Some {3, 4}" None "Some {4}" 0] by (auto simp del: upt_Suc upt_rec_numeral)
qed

definition ready_at_12ms :: "int \<Rightarrow> int" where
  "ready_at_12ms t = (if t < 12000 then 0 else 1)"

theorem poll_returns_witness:
  "\<exists>n t. wrap_poll ready_at_12ms (\<lambda>ms t. t + 1000 * int ms) 100 0 = Some (n, t) \<and> n = ready_at_12ms t \<and> t \<le> 101000"
proof -
  have "\<forall>ms t. t + 1000 * int ms \<le> (\<lambda>ms t. t + 1000 * int ms) ms t" "(0 :: int) \<le> 100" by simp_all
  from poll_returns [OF this, of ready_at_12ms 0] show ?thesis by auto
qed

end
