(* ===== verification/Cli.thy ===== *)
theory Cli
  imports SapiRequest
begin

text \<open>
  The command line side of \<^verbatim>\<open>compile/php/php_wasm.c\<close>: \<^verbatim>\<open>wasm_add_cli_arg\<close> and \<^verbatim>\<open>run_cli\<close>; and starting the module:
  \<^verbatim>\<open>wasm_set_sapi_name\<close>, \<^verbatim>\<open>wasm_set_phpini_path\<close>, \<^verbatim>\<open>wasm_sapi_module_startup\<close> and \<^verbatim>\<open>php_wasm_init\<close>.

  The state is that of theory SapiRequest with the module's further globals. The arguments are a linked list of
  \<^const>\<open>Arg\<close> blocks, the newest first. The process environment is a map. \<^verbatim>\<open>main\<close> of the PHP command line program and the
  core's start-up functions are parameters. A loop along a linked list need not end, so it is
  an option. The array that \<^verbatim>\<open>run_cli\<close> allocates for \<^verbatim>\<open>main\<close> is a list of cells, \<^const>\<open>None\<close> until stored.
\<close>

record 'e cli = "'e sapi" +
  cli_argc :: nat
  cli_argv :: ptr
  environ :: "string \<rightharpoonup> string"
  php_sapi_started :: bool
  sapi_name :: ptr \<comment> \<open>\<^const>\<open>None\<close> for the built-in name\<close>
  phpini_path_override :: ptr
  module_ini_path :: ptr \<comment> \<open>\<^verbatim>\<open>php_wasm_sapi_module.php_ini_path_override\<close>\<close>
  additional_functions :: bool

section \<open>Arguments\<close>

definition wasm_add_cli_arg :: "string \<Rightarrow> 'e cli \<Rightarrow> 'e cli" where
  "wasm_add_cli_arg arg s =
     (let (v, h1) = strdup arg (mem s);
          (ll_entry, h2) = malloc (Arg v (cli_argv s)) h1
      in s\<lparr>cli_argc := cli_argc s + 1, mem := h2, cli_argv := Some ll_entry\<rparr>)"

text \<open>\<^verbatim>\<open>putenv\<close> of the C library: the name ends at the first \<^verbatim>\<open>=\<close>; without one the variable is removed.\<close>

definition putenv :: "string \<Rightarrow> (string \<rightharpoonup> string) \<Rightarrow> (string \<rightharpoonup> string)" where
  "putenv s env =
     (let name = takeWhile (\<lambda>c. c \<noteq> CHR ''='') s
      in if name = [] then env
         else if name = s then env(s := None)
         else env(name \<mapsto> drop (length name + 1) s))"

partial_function (option) set_env_loop ::
    "ptr \<Rightarrow> cheap \<Rightarrow> (string \<rightharpoonup> string) \<Rightarrow> (fault + ptr \<times> cheap \<times> (string \<rightharpoonup> string)) option" where
  "set_env_loop p h env =
     (case p of
        None \<Rightarrow> Some (Inr (None, h, env))
      | Some a \<Rightarrow>
          (case rbind (load_entry a h) (\<lambda>(k, v, n). rbind (load_str k h) (\<lambda>key. rbind (load_str v h) (\<lambda>val. Inr (key, val, n)))) of
             Inl f \<Rightarrow> Some (Inl f)
           | Inr (key, val, n) \<Rightarrow>
               set_env_loop n (snd (malloc (Str (key @ CHR ''='' # val)) h)) (putenv (key @ CHR ''='' # val) env)))"

partial_function (option) clear_env_loop ::
    "ptr \<Rightarrow> cheap \<Rightarrow> (string \<rightharpoonup> string) \<Rightarrow> (fault + cheap \<times> (string \<rightharpoonup> string)) option" where
  "clear_env_loop p h env =
     (case p of
        None \<Rightarrow> Some (Inr (h, env))
      | Some a \<Rightarrow>
          (case rbind (load_entry a h) (\<lambda>(k, v, n). rbind (load_str k h) (\<lambda>key. Inr (key, n))) of
             Inl f \<Rightarrow> Some (Inl f)
           | Inr (key, n) \<Rightarrow> clear_env_loop n (snd (malloc (Str (key @ ''='')) h)) (putenv (key @ ''='') env)))"

partial_function (option) argv_array_loop :: "nat \<Rightarrow> cheap \<Rightarrow> ptr \<Rightarrow> nat \<Rightarrow> ptr list \<Rightarrow> (fault + ptr list) option" where
  "argv_array_loop argc h p i arr =
     (case p of
        None \<Rightarrow> Some (Inr arr)
      | Some a \<Rightarrow>
          (case load_arg a h of
             Inl f \<Rightarrow> Some (Inl f)
           | Inr (v, n) \<Rightarrow>
               if argc < i + 1 then Some (Inl (OutOfBounds a))
               else argv_array_loop argc h n (i + 1) (arr[argc - i - 1 := Some v])))"

definition run_cli ::
    "(nat \<Rightarrow> ptr list \<Rightarrow> 'e cli \<Rightarrow> int \<times> 'e cli) \<Rightarrow> (string \<Rightarrow> bool) \<Rightarrow> 'e cli \<Rightarrow> (fault + int \<times> 'e cli) option" where
  "run_cli main avail s =
     (let (r1, t1) = redirect_stream_to_file avail 1 ''/request/stdout'' (fds s);
          (r2, t2) = redirect_stream_to_file avail 2 ''/request/stderr'' t1;
          s1 = s\<lparr>fds := t2, stdout_replacement := r1, stderr_replacement := r2\<rparr>
      in if r1 = -1 \<or> r2 = -1 then Some (Inr (-1, s1))
         else (case set_env_loop (env_array_entries (ctx s1)) (mem s1) (environ s1) of
                 None \<Rightarrow> None
               | Some (Inl f) \<Rightarrow> Some (Inl f)
               | Some (Inr (current_env_entry, h, env)) \<Rightarrow>
                   let s2 = s1\<lparr>mem := h, environ := env\<rparr>
                   in (case argv_array_loop (cli_argc s2) (mem s2) (cli_argv s2) 0 (replicate (cli_argc s2) None) of
                         None \<Rightarrow> None
                       | Some (Inl f) \<Rightarrow> Some (Inl f)
                       | Some (Inr cli_argv_array) \<Rightarrow>
                           let (result, s3) = main (cli_argc s2) cli_argv_array s2
                           in map_option (\<lambda>x. rbind x (\<lambda>(h, env).
                                Inr (result, s3\<lparr>mem := h, environ := env,
                                  fds := restore_stream_handler 2 (stderr_replacement s3) (restore_stream_handler 1 (stdout_replacement s3) (fds s3))\<rparr>)))
                              (clear_env_loop current_env_entry (mem s3) (environ s3)))))"

section \<open>Starting the module\<close>

record 'e startup_core =
  sapi_startup :: "'e cli \<Rightarrow> 'e cli"
  php_module_startup :: "'e cli \<Rightarrow> int \<times> 'e cli"

definition wasm_set_sapi_name :: "string \<Rightarrow> 'e cli \<Rightarrow> int \<times> 'e cli" where
  "wasm_set_sapi_name name s =
     (if php_sapi_started s then (1, s)
      else let (a, h) = strdup name (mem s) in (0, s\<lparr>mem := h, sapi_name := Some a\<rparr>))"

definition wasm_set_phpini_path :: "string \<Rightarrow> 'e cli \<Rightarrow> fault + 'e cli" where
  "wasm_set_phpini_path path s =
     rbind (free_if (phpini_path_override s) (mem s)) (\<lambda>h.
       let (a, h1) = strdup path h in Inr (s\<lparr>mem := h1, phpini_path_override := Some a\<rparr>))"

definition wasm_sapi_module_startup :: "'e startup_core \<Rightarrow> 'e cli \<Rightarrow> int \<times> 'e cli" where
  "wasm_sapi_module_startup core s =
     (let (startup_result, s1) = php_module_startup core s
      in if startup_result = FAILURE then (FAILURE, s1) else (SUCCESS, s1))"

definition php_wasm_init :: "'e startup_core \<Rightarrow> 'e cli \<Rightarrow> fault + int \<times> 'e cli" where
  "php_wasm_init core s =
     (let s1 = sapi_startup core (s\<lparr>ctx := wasm_init_server_context (ctx s)\<rparr>)
      in rbind (case phpini_path_override s1 of
                  None \<Rightarrow> Inr s1
                | Some p \<Rightarrow> rbind (free_if (module_ini_path s1) (mem s1)) (\<lambda>h. Inr (s1\<lparr>mem := h, module_ini_path := Some p\<rparr>)))
           (\<lambda>s2. let (r, s3) = wasm_sapi_module_startup core (s2\<lparr>php_sapi_started := True, additional_functions := True\<rparr>)
                 in Inr (if r = FAILURE then FAILURE else SUCCESS, s3)))"

section \<open>The loops\<close>

text \<open>The argument list in memory: its nodes with the addresses of the strings.\<close>

fun args_chain :: "cheap \<Rightarrow> ptr \<Rightarrow> (addr \<times> addr) list \<Rightarrow> string list \<Rightarrow> bool" where
  "args_chain h p [] xs \<longleftrightarrow> p = None \<and> xs = []"
| "args_chain h p ((a, v) # ns) xs \<longleftrightarrow> p = Some a \<and>
     (\<exists>n x ys. xs = x # ys \<and> block_at h a = Some (Arg v n) \<and> block_at h v = Some (Str x) \<and> args_chain h n ns ys)"

lemma args_chain_malloc: "heap_ok h \<Longrightarrow> args_chain h p ns xs \<Longrightarrow> args_chain (snd (malloc b h)) p ns xs"
  by (induction h p ns xs rule: args_chain.induct) (auto simp: heap.new_live)

lemma args_chain_length: "args_chain h p ns xs \<Longrightarrow> length ns = length xs"
  by (induction h p ns xs rule: args_chain.induct) auto

lemma args_chain_vals: "args_chain h p ns xs \<Longrightarrow> map (str_val h) (map (Some \<circ> snd) ns) = map Some xs"
  by (induction h p ns xs rule: args_chain.induct) auto

lemma argv_array_fill:
  assumes "args_chain h p ns xs" "argc = i + length ns" "length arr = argc"
  shows "argv_array_loop argc h p i arr = Some (Inr (map (Some \<circ> snd) (rev ns) @ drop (length ns) arr))"
  using assms
proof (induction ns arbitrary: p xs i arr)
  case Nil
  then show ?case by (simp add: argv_array_loop.simps)
next
  case (Cons x ns)
  obtain a v where x: "x = (a, v)" by (cases x)
  obtain n s ys where n: "p = Some a" "block_at h a = Some (Arg v n)" "args_chain h n ns ys" using Cons.prems(1) x by auto
  have "argv_array_loop argc h p i arr = argv_array_loop argc h n (i + 1) (arr[length ns := Some v])"
    using n(1,2) Cons.prems(2) by (subst argv_array_loop.simps) simp
  also have "\<dots> = Some (Inr (map (Some \<circ> snd) (rev ns) @ drop (length ns) (arr[length ns := Some v])))"
    by (rule Cons.IH [OF n(3)]) (use Cons.prems in simp_all)
  also have "drop (length ns) (arr[length ns := Some v]) = Some v # drop (Suc (length ns)) arr"
    using Cons.prems(2,3) by (simp add: Cons_nth_drop_Suc [symmetric])
  finally show ?case using x by simp
qed

text \<open>What an allocation leaves alone.\<close>

definition extends_heap :: "cheap \<Rightarrow> cheap \<Rightarrow> bool" where
  "extends_heap h h' \<longleftrightarrow> heap_ok h' \<and> (\<forall>a. block_at h a \<noteq> None \<longrightarrow> block_at h' a = block_at h a)"

lemma extends_malloc: "heap_ok h \<Longrightarrow> extends_heap h (snd (malloc b h))"
  by (simp add: extends_heap_def heap.new_wf heap.new_live)

lemma extends_heap_trans: "extends_heap h h1 \<Longrightarrow> extends_heap h1 h2 \<Longrightarrow> extends_heap h h2"
  by (auto simp: extends_heap_def)

lemma args_chain_extends: "extends_heap h h' \<Longrightarrow> args_chain h p ns xs \<Longrightarrow> args_chain h' p ns xs"
  by (induction h p ns xs rule: args_chain.induct) (auto simp: extends_heap_def)

lemma set_env_chain:
  assumes "chain h p ns" "heap_ok h"
  shows "\<exists>h'. set_env_loop p h env = Some (Inr (None, h', fold (\<lambda>(k, v). putenv (k @ CHR ''='' # v)) (node_kvs h ns) env)) \<and> extends_heap h h'"
  using assms
proof (induction ns arbitrary: p h env)
  case Nil
  then show ?case by (simp add: set_env_loop.simps extends_heap_def)
next
  case (Cons x ns)
  obtain a k v where x: "x = (a, k, v)" by (cases x)
  obtain n key val where n: "p = Some a" "block_at h a = Some (Entry k v n)" "block_at h k = Some (Str key)" "block_at h v = Some (Str val)" "chain h n ns"
    using Cons.prems(1) x by auto
  let ?e = "key @ CHR ''='' # val" and ?h = "snd (malloc (Str (key @ CHR ''='' # val)) h)"
  have step: "set_env_loop p h env = set_env_loop n ?h (putenv ?e env)"
    using n by (subst set_env_loop.simps) simp
  have ch: "chain ?h n ns" using n(5) chain_live [OF n(5)] heap.new_live [OF Cons.prems(2)] by (blast intro: chain_cong)
  have ok: "heap_ok ?h" by (rule heap.new_wf [OF Cons.prems(2)])
  from Cons.IH [OF ch ok, of "putenv ?e env"] show ?case
    using step x n extends_malloc [OF Cons.prems(2)] node_kvs_malloc [OF Cons.prems(2) n(5)] by (auto intro: extends_heap_trans)
qed

lemma node_kvs_extends: "extends_heap h h' \<Longrightarrow> chain h p ns \<Longrightarrow> node_kvs h' ns = node_kvs h ns"
proof (induction ns arbitrary: p)
  case (Cons x ns)
  then show ?case by (cases x) (auto simp: extends_heap_def)
qed simp

lemma chain_extends: "extends_heap h h' \<Longrightarrow> chain h p ns \<Longrightarrow> chain h' p ns"
  by (metis chain_cong chain_live extends_heap_def)

text \<open>The arguments added so far, oldest first.\<close>

definition cli_rel :: "'e cli \<Rightarrow> string list \<Rightarrow> bool" where
  "cli_rel s args \<longleftrightarrow> heap_ok (mem s) \<and> cli_argc s = length args \<and> (\<exists>ns. args_chain (mem s) (cli_argv s) ns (rev args))"

lemma add_cli_arg_rel:
  assumes "cli_rel s args"
  shows "cli_rel (wasm_add_cli_arg a s) (args @ [a])" "extends_heap (mem s) (mem (wasm_add_cli_arg a s))"
    "ctx (wasm_add_cli_arg a s) = ctx s" "fds (wasm_add_cli_arg a s) = fds s" "environ (wasm_add_cli_arg a s) = environ s"
proof -
  obtain ns where ns: "heap_ok (mem s)" "args_chain (mem s) (cli_argv s) ns (rev args)" using assms by (auto simp: cli_rel_def)
  let ?v = "fst (malloc (Str a) (mem s))" and ?h1 = "snd (malloc (Str a) (mem s))"
  let ?n = "fst (malloc (Arg ?v (cli_argv s)) ?h1)" and ?h2 = "snd (malloc (Arg ?v (cli_argv s)) ?h1)"
  have eq: "wasm_add_cli_arg a s = s\<lparr>cli_argc := cli_argc s + 1, mem := ?h2, cli_argv := Some ?n\<rparr>"
    by (simp add: wasm_add_cli_arg_def strdup_malloc split_def Let_def)
  have ok1: "heap_ok ?h1" and ok2: "heap_ok ?h2" by (simp_all add: heap.new_wf ns(1))
  have v: "block_at ?h1 ?v = Some (Str a)" by (simp add: heap.new_look ns(1))
  then have "block_at ?h2 ?v = Some (Str a)" by (simp add: heap.new_live [OF ok1])
  moreover have "block_at ?h2 ?n = Some (Arg ?v (cli_argv s))" by (simp add: heap.new_look [OF ok1])
  moreover have "args_chain ?h2 (cli_argv s) ns (rev args)" using ns ok1 args_chain_malloc by blast
  ultimately have "args_chain ?h2 (Some ?n) ((?n, ?v) # ns) (rev (args @ [a]))" by simp
  then show "cli_rel (wasm_add_cli_arg a s) (args @ [a])" using assms ok2 by (auto simp: eq cli_rel_def simp del: args_chain.simps)
  show "extends_heap (mem s) (mem (wasm_add_cli_arg a s))"
    using extends_heap_trans [OF extends_malloc [OF ns(1)] extends_malloc [OF ok1]] by (simp add: eq)
qed (simp_all add: wasm_add_cli_arg_def split_def Let_def)

lemma add_cli_args_rel:
  assumes "cli_rel s args0"
  shows "cli_rel (fold wasm_add_cli_arg args s) (args0 @ args) \<and> extends_heap (mem s) (mem (fold wasm_add_cli_arg args s)) \<and>
    ctx (fold wasm_add_cli_arg args s) = ctx s \<and> fds (fold wasm_add_cli_arg args s) = fds s \<and> environ (fold wasm_add_cli_arg args s) = environ s"
  using assms
proof (induction args arbitrary: s args0)
  case Nil
  then show ?case by (simp add: extends_heap_def cli_rel_def)
next
  case (Cons a args)
  note one = add_cli_arg_rel [OF Cons.prems, of a]
  from Cons.IH [OF one(1)] show ?case using one(2-5) by (auto intro: extends_heap_trans)
qed

text \<open>What \<^verbatim>\<open>run_cli\<close> does on a prepared state, up to and after \<^verbatim>\<open>main\<close>.\<close>

lemma run_cli_steps:
  assumes "chain (mem s) (env_array_entries (ctx s)) es" "cli_rel s args"
    and run: "redirect_stream_to_file avail 1 ''/request/stdout'' (fds s) = (r1, t1)"
      "redirect_stream_to_file avail 2 ''/request/stderr'' t1 = (r2, t2)" "r1 \<noteq> -1" "r2 \<noteq> -1"
  shows "\<exists>argv h. let s1 = s\<lparr>fds := t2, stdout_replacement := r1, stderr_replacement := r2, mem := h,
        environ := fold (\<lambda>(k, v). putenv (k @ CHR ''='' # v)) (node_kvs (mem s) es) (environ s)\<rparr>;
      s2 = snd (main (length args) argv s1)
    in run_cli main avail s = Some (Inr (fst (main (length args) argv s1),
         s2\<lparr>fds := restore_stream_handler 2 (stderr_replacement s2) (restore_stream_handler 1 (stdout_replacement s2) (fds s2))\<rparr>)) \<and>
       map (str_val h) argv = map Some args"
proof -
  have ok: "heap_ok (mem s)" and argc: "cli_argc s = length args" using assms(2) by (auto simp: cli_rel_def)
  obtain ns where ns: "args_chain (mem s) (cli_argv s) ns (rev args)" using assms(2) by (auto simp: cli_rel_def)
  obtain h where h: "set_env_loop (env_array_entries (ctx s)) (mem s) (environ s) =
      Some (Inr (None, h, fold (\<lambda>(k, v). putenv (k @ CHR ''='' # v)) (node_kvs (mem s) es) (environ s)))" "extends_heap (mem s) h"
    using set_env_chain [OF assms(1) ok] by blast
  have ns': "args_chain h (cli_argv s) ns (rev args)" by (rule args_chain_extends [OF h(2) ns])
  have len: "length ns = length args" using args_chain_length [OF ns] by simp
  let ?argv = "map (Some \<circ> snd) (rev ns)"
  have fill: "argv_array_loop (length args) h (cli_argv s) 0 (replicate (length args) None) = Some (Inr ?argv)"
    using argv_array_fill [OF ns', of "length args" 0] len by simp
  have "rev (map (str_val h) (map (Some \<circ> snd) ns)) = rev (map Some (rev args))" using args_chain_vals [OF ns'] by simp
  then have vals: "map (str_val h) ?argv = map Some args" by (simp add: rev_map)
  show ?thesis using vals run h(1) fill argc
    by (intro exI [of _ ?argv] exI [of _ h]) (simp add: run_cli_def clear_env_loop.simps split_def Let_def)
qed

section \<open>Properties\<close>

text \<open>
  C32: running the command line program. With arguments added one by one to a module without any, and a request context
  that the setters built, \<^verbatim>\<open>main\<close> is called with the arguments in the order in which they were added, in an
  environment in which the context's variables have been set, the newest first; its result is returned,
  and afterwards standard output and standard error are the files they were. The variables are not taken
  out of the environment again: it stays as \<^verbatim>\<open>main\<close> left it.
\<close>

theorem run_cli_passes_arguments:
  assumes "ctx_rel (ctx s, mem s) A" and "cli_argc s = 0" and "cli_argv s = None"
    and "fd_get (fds s) 1 = Some f1" and "fd_get (fds s) 2 = Some f2" and "avail ''/request/stdout''" and "avail ''/request/stderr''"
    and "\<forall>argc argv t. fds_keep (fds t) (fds (snd (main argc argv t))) \<and> stdout_replacement (snd (main argc argv t)) = stdout_replacement t \<and>
      stderr_replacement (snd (main argc argv t)) = stderr_replacement t"
  shows "\<exists>argv s1 s'. run_cli main avail (fold wasm_add_cli_arg args s) = Some (Inr (fst (main (length args) argv s1), s')) \<and>
    map (str_val (mem s1)) argv = map Some args \<and>
    environ s1 = fold (\<lambda>(k, v). putenv (k @ CHR ''='' # v)) (rs_env A) (environ s) \<and>
    environ s' = environ (snd (main (length args) argv s1)) \<and>
    fd_get (fds s') 1 = Some f1 \<and> fd_get (fds s') 2 = Some f2"
proof -
  let ?s = "fold wasm_add_cli_arg args s"
  obtain ns es where lay: "ctx_layout (ctx s, mem s) ns es" "A = view (ctx s, mem s) ns es" using assms(1) by (auto simp: ctx_rel_def)
  then have ok: "heap_ok (mem s)" "chain (mem s) (env_array_entries (ctx s)) es" by (auto simp: ctx_layout_def)
  then have "cli_rel s []" using assms(2,3) by (auto simp: cli_rel_def intro: exI [of _ "[]"])
  from add_cli_args_rel [OF this, of args] have added: "cli_rel ?s args" "extends_heap (mem s) (mem ?s)"
    "ctx ?s = ctx s" "fds ?s = fds s" "environ ?s = environ s" by simp_all
  have kvs: "node_kvs (mem ?s) es = rs_env A" using node_kvs_extends [OF added(2) ok(2)] lay(2) by (simp add: view_def)
  have ch: "chain (mem ?s) (env_array_entries (ctx ?s)) es" using chain_extends [OF added(2) ok(2)] added(3) by simp
  obtain r1 t1 where run1: "redirect_stream_to_file avail 1 ''/request/stdout'' (fds ?s) = (r1, t1)" by (rule prod.exhaust)
  obtain r2 t2 where run2: "redirect_stream_to_file avail 2 ''/request/stderr'' t1 = (r2, t2)" by (rule prod.exhaust)
  have both: "stream_saved 1 r1 f1 t2" "stream_saved 2 r2 f2 t2" "r1 = -1 \<or> r1 \<noteq> r2" "r1 \<noteq> -1" "r2 \<noteq> -1"
    using redirect_both [OF _ _ run1 run2] assms(4-7) added(4) by auto
  obtain argv h where steps: "let s1 = ?s\<lparr>fds := t2, stdout_replacement := r1, stderr_replacement := r2, mem := h,
        environ := fold (\<lambda>(k, v). putenv (k @ CHR ''='' # v)) (rs_env A) (environ s)\<rparr>;
      s2 = snd (main (length args) argv s1)
    in run_cli main avail ?s = Some (Inr (fst (main (length args) argv s1),
         s2\<lparr>fds := restore_stream_handler 2 (stderr_replacement s2) (restore_stream_handler 1 (stdout_replacement s2) (fds s2))\<rparr>)) \<and>
       map (str_val h) argv = map Some args"
    using run_cli_steps [OF ch added(1) run1 run2 both(4,5), of main] unfolding kvs added(5) by blast
  define s1 where "s1 = ?s\<lparr>fds := t2, stdout_replacement := r1, stderr_replacement := r2, mem := h,
        environ := fold (\<lambda>(k, v). putenv (k @ CHR ''='' # v)) (rs_env A) (environ s)\<rparr>"
  define s2 where "s2 = snd (main (length args) argv s1)"
  have "fds_keep t2 (fds s2)" "stdout_replacement s2 = r1" "stderr_replacement s2 = r2"
    using assms(8) [rule_format, of s1 "length args" argv] by (simp_all add: s2_def s1_def)
  then have "fd_get (restore_stream_handler 2 (stderr_replacement s2) (restore_stream_handler 1 (stdout_replacement s2) (fds s2))) 1 = Some f1"
    "fd_get (restore_stream_handler 2 (stderr_replacement s2) (restore_stream_handler 1 (stdout_replacement s2) (fds s2))) 2 = Some f2"
    using restore_both [OF stream_saved_keep stream_saved_keep] both(1-3) by simp_all
  moreover have "run_cli main avail ?s = Some (Inr (fst (main (length args) argv s1),
      s2\<lparr>fds := restore_stream_handler 2 (stderr_replacement s2) (restore_stream_handler 1 (stdout_replacement s2) (fds s2))\<rparr>))"
    "map (str_val h) argv = map Some args"
    using steps unfolding Let_def s2_def s1_def by blast+
  moreover have "mem s1 = h" "environ s1 = fold (\<lambda>(k, v). putenv (k @ CHR ''='' # v)) (rs_env A) (environ s)" by (simp_all add: s1_def)
  ultimately show ?thesis unfolding s2_def
    by (intro exI [of _ argv] exI [of _ s1] exI [of _ "s2\<lparr>fds := restore_stream_handler 2 (stderr_replacement s2)
      (restore_stream_handler 1 (stdout_replacement s2) (fds s2))\<rparr>"] conjI) (simp_all add: s2_def)
qed

text \<open>
  Changing the path of the configuration file after the module has started. \<^verbatim>\<open>php_wasm_init\<close> hands the string to the
  module without copying it, and \<^verbatim>\<open>wasm_set_phpini_path\<close> frees the old string, so the module is left with a pointer to
  a freed block.
\<close>

theorem phpini_path_dangles:
  assumes "heap_ok (mem s)" and "phpini_path_override s = None" and "module_ini_path s = None"
    and "\<forall>t. sapi_startup core t = t" and "\<forall>t. php_module_startup core t = (SUCCESS, t)"
  shows "\<exists>s1 s2 s3 p. wasm_set_phpini_path path1 s = Inr s1 \<and> php_wasm_init core s1 = Inr (SUCCESS, s2) \<and>
    str_val (mem s2) (module_ini_path s2) = Some path1 \<and>
    wasm_set_phpini_path path2 s2 = Inr s3 \<and> module_ini_path s3 = Some p \<and> load p (mem s3) = Inl (UseAfterFree p)"
proof -
  let ?p = "fst (malloc (Str path1) (mem s))" and ?h = "snd (malloc (Str path1) (mem s))"
  let ?s1 = "s\<lparr>mem := ?h, phpini_path_override := Some ?p\<rparr>"
  let ?s2 = "?s1\<lparr>ctx := wasm_init_server_context (ctx s), module_ini_path := Some ?p, php_sapi_started := True, additional_functions := True\<rparr>"
  have s1: "wasm_set_phpini_path path1 s = Inr ?s1" using assms(2) by (simp add: wasm_set_phpini_path_def free_if_def strdup_malloc split_def Let_def)
  have s2: "php_wasm_init core ?s1 = Inr (SUCCESS, ?s2)"
    using assms(3-5) by (simp add: php_wasm_init_def wasm_sapi_module_startup_def free_if_def Let_def)
  have ok: "heap_ok ?h" and live: "block_at ?h ?p = Some (Str path1)" by (simp_all add: heap.new_wf heap.new_look assms(1))
  obtain h2 where h2: "free ?p ?h = Inr h2" "heap_ok h2" "block_at h2 ?p = None"
    using heap.dispose_live [OF ok, of ?p] live by auto
  have below: "?p < next_addr h2" using live_below_next [OF ok, of ?p] live free_next_addr [OF h2(1)] by simp
  then have "?p \<noteq> fst (malloc (Str path2) h2)" by (simp add: malloc_def [of "Str path2"])
  then have "block_at (snd (malloc (Str path2) h2)) ?p = None"
    using h2(2,3) by (simp add: heap.new_look)
  then show ?thesis using s1 s2 h2(1) live
    by (intro exI [of _ ?s1] exI [of _ ?s2] exI [of _ "?s2\<lparr>mem := snd (malloc (Str path2) h2), phpini_path_override := Some (fst (malloc (Str path2) h2))\<rparr>"] exI [of _ ?p])
      (simp add: wasm_set_phpini_path_def free_if_def strdup_malloc split_def Let_def)
qed

section \<open>Instances\<close>

definition demo_cli :: "unit cli" where
  "demo_cli = sapi.extend (sapi0 [AddEnv ''HOME'' ''/root''])
     (cli.fields 0 None Map.empty False None None None False)"

lemma demo_cli_fields [simp]:
  "ctx demo_cli = ctx (sapi0 [AddEnv ''HOME'' ''/root''])" "mem demo_cli = mem (sapi0 [AddEnv ''HOME'' ''/root''])"
  "fds demo_cli = [Some ''in'', Some ''out'', Some ''err'']" "cli_argc demo_cli = 0" "cli_argv demo_cli = None"
  "phpini_path_override demo_cli = None" "module_ini_path demo_cli = None" "environ demo_cli = Map.empty"
  by (simp_all add: demo_cli_def sapi.defs cli.defs sapi0_def split: prod.splits)

definition demo_main :: "nat \<Rightarrow> ptr list \<Rightarrow> unit cli \<Rightarrow> int \<times> unit cli" where
  "demo_main argc argv t = (int argc, t)"

theorem run_cli_passes_arguments_witness:
  "\<exists>argv (s1 :: unit cli) s'. run_cli demo_main (\<lambda>_. True) (fold wasm_add_cli_arg [''php'', ''-v''] demo_cli) = Some (Inr (2, s')) \<and>
    map (str_val (mem s1)) argv = [Some ''php'', Some ''-v''] \<and> fd_get (fds s') 1 = Some ''out''"
proof -
  have "ctx_rel (ctx demo_cli, mem demo_cli) (spec_calls [AddEnv ''HOME'' ''/root''] empty_request)" unfolding demo_cli_fields by (rule sapi0_rel)
  moreover have "fd_get (fds demo_cli) 1 = Some ''out''" "fd_get (fds demo_cli) 2 = Some ''err''" by (simp_all add: fd_get_def)
  ultimately have "\<exists>argv s1 s'. run_cli demo_main (\<lambda>_. True) (fold wasm_add_cli_arg [''php'', ''-v''] demo_cli) =
      Some (Inr (fst (demo_main (length [''php'', ''-v'']) argv s1), s')) \<and>
    map (str_val (mem s1)) argv = map Some [''php'', ''-v''] \<and>
    environ s1 = fold (\<lambda>(k, v). putenv (k @ CHR ''='' # v)) (rs_env (spec_calls [AddEnv ''HOME'' ''/root''] empty_request)) (environ demo_cli) \<and>
    environ s' = environ (snd (demo_main (length [''php'', ''-v'']) argv s1)) \<and>
    fd_get (fds s') 1 = Some ''out'' \<and> fd_get (fds s') 2 = Some ''err''"
    by (intro run_cli_passes_arguments) (simp_all add: demo_main_def)
  then obtain argv s1 s' where "run_cli demo_main (\<lambda>_. True) (fold wasm_add_cli_arg [''php'', ''-v''] demo_cli) =
      Some (Inr (fst (demo_main (length [''php'', ''-v'']) argv s1), s'))" "map (str_val (mem s1)) argv = map Some [''php'', ''-v'']" "fd_get (fds s') 1 = Some ''out''"
    by (elim exE conjE)
  moreover have "fst (demo_main (length [''php'', ''-v'']) argv s1) = 2" by (simp add: demo_main_def)
  ultimately show ?thesis by (intro exI [of _ argv] exI [of _ s1] exI [of _ s']) simp
qed

theorem phpini_path_dangles_witness:
  "\<exists>s1 s2 s3 p. wasm_set_phpini_path ''/a.ini'' demo_cli = Inr s1 \<and>
    php_wasm_init \<lparr>sapi_startup = id, php_module_startup = Pair 0\<rparr> s1 = Inr (0, s2) \<and>
    wasm_set_phpini_path ''/b.ini'' s2 = Inr s3 \<and> module_ini_path s3 = Some p \<and> load p (mem s3) = Inl (UseAfterFree p)"
proof -
  have "heap_ok (mem demo_cli)" using sapi0_rel [of "[AddEnv ''HOME'' ''/root'']"] by (auto simp: ctx_rel_def ctx_layout_def)
  from phpini_path_dangles [OF this, of "\<lparr>sapi_startup = id, php_module_startup = Pair 0\<rparr>" "''/a.ini''" "''/b.ini''"]
  show ?thesis by auto
qed

end
