(* ===== verification/PostMessage.thy ===== *)
theory PostMessage
  imports CHeap
begin

text \<open>
  Messages to JavaScript: \<^verbatim>\<open>js_module_onMessage\<close> of \<^verbatim>\<open>compile/php/php_wasm.c\<close> and \<^verbatim>\<open>post_message_to_js\<close> of
  \<^verbatim>\<open>compile/php-post-message-to-js/post_message_to_js.c\<close>. The handler \<^verbatim>\<open>Module.onMessage\<close>, if the page has set one, answers with bytes
  or fails. The pointer variable of the caller holds nothing, here \<^const>\<open>None\<close>, until JavaScript stores an
  address in it; the buffer is a block of the C heap with the response and a final NUL.
\<close>

datatype message_result = MessageNull | MessageString bytes

datatype message_fault = IndeterminatePointer | Heap_fault fault

definition js_module_onMessage :: "(string \<Rightarrow> bytes option) option \<Rightarrow> bytes \<Rightarrow> cheap \<Rightarrow> u32 \<times> ptr \<times> cheap" where
  "js_module_onMessage onMessage data h =
     (case onMessage of
        None \<Rightarrow> (0, None, h)
      | Some f \<Rightarrow>
          (case f (cstr data) of
             None \<Rightarrow> (-1, None, h)
           | Some responseBytes \<Rightarrow>
               let (responsePtr, h1) = malloc (Str (responseBytes @ [nul])) h
               in (word_of_nat (length responseBytes), Some responsePtr, h1)))"

text \<open>Copying no bytes from the pointer is harmless; freeing it is not, when it was never stored.\<close>

definition copy_and_free :: "u32 \<Rightarrow> ptr \<Rightarrow> cheap \<Rightarrow> message_fault + message_result \<times> cheap" where
  "copy_and_free len response h =
     (case response of
        None \<Rightarrow> Inl IndeterminatePointer
      | Some a \<Rightarrow>
          (case rbind (load_str a h) (\<lambda>s. rbind (free a h) (\<lambda>h1. Inr (take (unat len) s, h1))) of
             Inl f \<Rightarrow> Inl (Heap_fault f)
           | Inr (s, h1) \<Rightarrow> Inr (MessageString s, h1)))"

definition post_message_to_js :: "(string \<Rightarrow> bytes option) option \<Rightarrow> bytes \<Rightarrow> cheap \<Rightarrow> message_fault + message_result \<times> cheap" where
  "post_message_to_js onMessage data h =
     (let (response_len, response, h1) = js_module_onMessage onMessage data h
      in if response_len \<noteq> -1 then copy_and_free response_len response h1 else Inr (MessageNull, h1))"

section \<open>Properties\<close>

text \<open>
  C33: a message is answered. With a handler, the function returns the bytes of the response, whatever they are
  and NUL bytes included, or null when the handler fails, and the heap has the blocks it had before; the
  handler sees the message up to its first NUL byte. Without a handler, a pointer that was never stored is
  freed.
\<close>

theorem post_message_returns_response:
  assumes "heap_ok h" and "\<forall>bs. f (cstr data) = Some bs \<longrightarrow> length bs < 2 ^ 32 - 1"
  shows "(\<exists>h'. post_message_to_js (Some f) data h =
        Inr (case f (cstr data) of None \<Rightarrow> MessageNull | Some bs \<Rightarrow> MessageString bs, h') \<and> (\<forall>a. block_at h' a = block_at h a)) \<and>
    post_message_to_js None data h = Inl IndeterminatePointer"
proof (cases "f (cstr data)")
  case None
  then show ?thesis by (auto simp: post_message_to_js_def js_module_onMessage_def copy_and_free_def)
next
  case (Some bs)
  let ?b = "Str (bs @ [nul])"
  let ?a = "fst (malloc ?b h)" and ?h = "snd (malloc ?b h)"
  have len: "length bs < 2 ^ 32 - 1" using assms(2) Some by blast
  then have n: "unat (word_of_nat (length bs) :: u32) = length bs" by (simp add: unat_of_nat)
  have "(word_of_nat (length bs) :: u32) \<noteq> -1"
  proof
    assume "(word_of_nat (length bs) :: u32) = -1"
    then have "length bs = unat (-1 :: u32)" using n by simp
    then show False using len by (simp add: unsigned_minus_1_eq_mask mask_eq_exp_minus_1)
  qed
  moreover obtain h2 where h2: "free ?a ?h = Inr h2" "\<forall>x. block_at h2 x = (if x = ?a then None else block_at ?h x)"
    using heap.dispose_live [OF heap.new_wf [OF assms(1), of ?b], of ?a] by (auto simp: heap.new_look assms(1))
  moreover have "load_str ?a ?h = Inr (bs @ [nul])" by (rule load_str_live) (simp add: heap.new_look assms(1))
  ultimately have "post_message_to_js (Some f) data h = Inr (MessageString bs, h2)"
    using Some n by (simp add: post_message_to_js_def js_module_onMessage_def copy_and_free_def split_def Let_def)
  moreover have "\<forall>x. block_at h2 x = block_at h x"
    using h2(2) heap.new_fresh [OF assms(1), of ?b] by (simp add: heap.new_look assms(1))
  ultimately show ?thesis using Some by (auto simp: post_message_to_js_def js_module_onMessage_def copy_and_free_def)
qed

definition ping_handler :: "string \<Rightarrow> bytes option" where
  "ping_handler m = (if m = ''ping'' then Some [CHR ''o'', nul, CHR ''k''] else None)"

theorem post_message_returns_response_witness:
  "\<exists>h'. post_message_to_js (Some ping_handler) ''ping'' empty_heap = Inr (MessageString [CHR ''o'', nul, CHR ''k''], h')"
proof -
  have c: "ping_handler (cstr ''ping'') = Some [CHR ''o'', nul, CHR ''k'']" by code_simp
  then have "\<forall>bs. ping_handler (cstr ''ping'') = Some bs \<longrightarrow> length bs < 2 ^ 32 - 1" by auto
  from post_message_returns_response [where f = ping_handler and data = "''ping''", OF heap_ok_empty this] show ?thesis by (auto simp: c)
qed

end
