(* ===== verification/Spec2Isabelle.thy ===== *)
theory Spec2Isabelle
  imports SapiCallbacks DbaSession MemoryStorage Shims MysqlndQuoting MysqlndSession Process ProcOpen FdRead Polling Cli PostMessage
begin

text \<open>
  A verification of the C code of php-wasm-compiler, which builds PHP as a WebAssembly module. The module
  is the PHP core, linked with an interface to JavaScript (\<^verbatim>\<open>compile/php/php_wasm.c\<close>), a
  replacement of \<^verbatim>\<open>proc_open\<close> (\<^verbatim>\<open>compile/php/proc_open.c\<close>), some small extensions, and copies of PHP's own
  extensions, of which \<^verbatim>\<open>compile/extensions/dba\<close> carries three file formats of its own. Paths are relative to the source tree.

  \<^bold>\<open>How the parts interact.\<close> JavaScript fills the server context through exported setters and calls
  \<^verbatim>\<open>wasm_sapi_handle_request\<close>, which redirects the standard streams, starts the PHP core, runs the script and shuts down. The
  core calls back for the request body, the server variables, environment variables, output and headers.
  Scripts reach the host through \<^verbatim>\<open>exec\<close>, \<^verbatim>\<open>popen\<close> and \<^verbatim>\<open>proc_open\<close>, through sockets that are polled, and through messages. The
  command line program is an alternative to a request. Scripts open databases through the dispatcher of the dba
  extension, which parses the mode, takes locks, opens the stream and calls one of the handlers; these keep the database in
  the file, which they reach through PHP's streams.

  \<^bold>\<open>The theories.\<close>
  \<^item> Prelude: machine types, results with an error, C strings, decimal numbers. Shared by all.
  \<^item> CHeap: the C heap as blocks; the contract of an allocator as a locale, interpreted on the heap.
  \<^item> ServerContext: \<^verbatim>\<open>wasm_server_context\<close> with its setters, its lists, its teardown and \<^verbatim>\<open>getenv\<close>. The state has the pointers of the
    structure; an abstract request is related to it, and any sequence of setters refines the abstract updates.
  \<^item> FdTable: the descriptor table with \<^verbatim>\<open>open\<close>, \<^verbatim>\<open>dup\<close>, \<^verbatim>\<open>dup2\<close>, \<^verbatim>\<open>close\<close>, \<^verbatim>\<open>pipe\<close>; \<^verbatim>\<open>redirect_stream_to_file\<close> and \<^verbatim>\<open>restore_stream_handler\<close>.
  \<^item> SapiOutput: the unbuffered write loop and the file of headers, which reads back to what was sent.
  \<^item> SapiRequest: \<^verbatim>\<open>wasm_sapi_request_init\<close>, \<^verbatim>\<open>wasm_sapi_handle_request\<close>, \<^verbatim>\<open>wasm_sapi_request_shutdown\<close>: every path frees the context once, restores the
    streams, and leaves the module ready for the next request.
  \<^item> SapiCallbacks: the request body in blocks, and \<^verbatim>\<open>$_SERVER\<close>.
  \<^item> Cli: \<^verbatim>\<open>wasm_add_cli_arg\<close>, \<^verbatim>\<open>run_cli\<close>, and starting the module with \<^verbatim>\<open>php_wasm_init\<close>.
  \<^item> FdRead: \<^verbatim>\<open>wasm_sleep\<close>, \<^verbatim>\<open>__wrap_usleep\<close>, \<^verbatim>\<open>js_fd_read\<close>, \<^verbatim>\<open>wasm_read\<close>: a read that waits for data ends.
  \<^item> Polling: \<^verbatim>\<open>wasm_poll_socket\<close>, \<^verbatim>\<open>php_pollfd_for\<close>, \<^verbatim>\<open>__wrap_select\<close>, \<^verbatim>\<open>__wrap_poll\<close>: what is waited for, for how long, and the answer.
  \<^item> Exec: the line and binary loops behind \<^verbatim>\<open>exec\<close>, \<^verbatim>\<open>system\<close> and \<^verbatim>\<open>passthru\<close>, with the line buffer and its bounds.
  \<^item> Process: \<^verbatim>\<open>js_popen_to_file\<close>, \<^verbatim>\<open>wasm_popen\<close>, \<^verbatim>\<open>wasm_pclose\<close>, the wrappers and \<^verbatim>\<open>wasm_php_exec\<close>; the invariant of the table of processes.
  \<^item> ProcEnv and ProcOpen: the environment block, and \<^verbatim>\<open>proc_open\<close>, \<^verbatim>\<open>proc_close\<close>, \<^verbatim>\<open>proc_terminate\<close>, \<^verbatim>\<open>proc_get_status\<close> for PHP 7 and later, with the
    uninitialised arrays the code frees.
  \<^item> PostMessage: \<^verbatim>\<open>js_module_onMessage\<close> and \<^verbatim>\<open>post_message_to_js\<close>.
  \<^item> PhpStream: PHP's streams as a locale, with an in-memory file as interpretation; lines of a text.
  \<^item> DbaContract: what the handlers promise to the dispatcher of the extension, as a locale.
  \<^item> Cdb, CdbMake, CdbDatabase, DbaCdb: constant databases (\<^verbatim>\<open>libcdb\<close> and \<^verbatim>\<open>dba_cdb.c\<close>): reader, writer with hash tables, and the round trip
    through the handler.
  \<^item> Flatfile: the flat file database (\<^verbatim>\<open>libflatfile\<close> and \<^verbatim>\<open>dba_flatfile.c\<close>), a refinement of a finite map.
  \<^item> Inifile, InifileUpdate: the INI file database (\<^verbatim>\<open>libinifile\<close> and \<^verbatim>\<open>dba_inifile.c\<close>): lines and entries, fetching and walking, replacing, inserting
    and deleting.
  \<^item> DbaMode: the table of handlers of \<^verbatim>\<open>dba.c\<close>, the mode string of \<^verbatim>\<open>dba_open\<close> against a table of its meaning, keys given as arrays.
  \<^item> DbaDispatch: the dispatcher: \<^verbatim>\<open>dba_info\<close> structures on a heap, connection objects, the table of connections, the persistent list;
    \<^verbatim>\<open>php_dba_open\<close> in the order of the code, closing, and the functions a script calls.
  \<^item> DbaInvariant: the invariant of this state, kept by every function: which pointers are live, who shares a structure, and which type
    the private data of a structure have.
  \<^item> DbaLocks: calls as a step relation, reachable states, and the invariant that writers exclude all others while every connection locks.
  \<^item> DbaFiles: the contract of the PHP core as a locale (\<open>dba_core\<close>, an extension of the contract of streams) and a file system that meets it.
  \<^item> DbaSafety: the properties of reachable states, the guards of the functions, and two ways round the locking.
  \<^item> DbaSession: whole scripts: what a flat file database stores through one connection is what the next connection reads.
  \<^item> MemoryStorage: the chunks of the Zend memory manager; the contract of the C library's aligned allocation as a locale.
  \<^item> Shims: the functions that hand a call on to JavaScript or the C library, the release of process handles, the stubs for PHP 5, the DNS functions.
  \<^item> MysqlndCharset, MysqlndEscape, MysqlndQuoting: the character sets of the MySQL client (\<^verbatim>\<open>mysqlnd_charset.c\<close>) and the quoting of strings:
    a quoted string is read back as it was, for every set of the table but one, for which the way out of the quotes is given.
  \<^item> MysqlndWire: integers, length codes and error lines on the wire of the MySQL client (\<^verbatim>\<open>mysqlnd_portability.h\<close>, \<^verbatim>\<open>mysqlnd_wireprotocol.c\<close>).
  \<^item> MysqlndFrame: the frame codec (\<^verbatim>\<open>mysqlnd_protocol_frame_codec.c\<close>) with the read buffer and the loop on the network stream:
    packets of at most \<open>2 ^ 24 - 1\<close> bytes, compressed envelopes, packet numbers of one byte.
  \<^item> MysqlndPacket: packet headers and bodies, rows of several packets, commands, OK and EOF packets.
  \<^item> MysqlndLink, MysqlndSend: the contract of a connection and of zlib as locales, interpreted on a socket; what receiving and
    sending do over it.
  \<^item> MysqlndDelivery, MysqlndSession: what one end sends the other end reads, and reading ends whatever arrives.

  \<^bold>\<open>How the code is modelled.\<close> A structure is a record, an enumeration a datatype, a function of the code a definition with
  its name (a leading underscore pair is dropped, \<^verbatim>\<open>__wrap_x\<close> is \<open>wrap_x\<close>, a handler \<^verbatim>\<open>DBA_X_FUNC(y)\<close> is \<open>dba_x_y\<close>). State is passed explicitly. A
  memory error is a value: a theorem that a call returns \<^const>\<open>Inr\<close> says there is none. Sizes and file positions are 32-bit words
  where they can wrap, as in the constant database; elsewhere they are natural numbers, and a theorem states the bound it needs.

  \<^bold>\<open>Loops.\<close> A loop over a list is recursion on it. A loop along pointers or a file, or one that waits, is a partial
  function into the option type, and not ending is the value \<^const>\<open>None\<close>; that it ends is part of what is proved. The retries of \<^verbatim>\<open>js_fd_read\<close> are
  bounded by the code, at a hundred, and its loop is total. No fuel is used.

  \<^bold>\<open>What is assumed.\<close> Code that is not in the repository is a parameter: the PHP core, the C library, Emscripten's file system, the
  browser or Node. The hypotheses about it are named predicates (\<open>core_ok\<close>, \<open>host_ok\<close>, \<open>strings_convert\<close>, \<open>opens_streams\<close>) or the
  locales \<open>php_file\<close>, \<open>dba_core\<close> and \<open>wire_link\<close>, and a concrete instance meets each of them. Allocation does not fail.

  \<^bold>\<open>Not modelled.\<close> The dba handlers that only call an external database library; the glue of the opcache extension and the table of
  exported symbols, which hold no logic; the registration of constants and classes; the MySQL client above its packets (greeting,
  authentication, result sets, statements) and the other
  extensions, which are third-party code that the repository builds and does not own; the JavaScript library, apart from its
  functions on the table of processes; warnings and log messages outside the dba extension.
\<close>

end
